(* ===== verification/Ieee754.thy ===== *)
theory Ieee754
  imports Prelude
begin

text \<open>
  The binary floating point of the C++ program: \<open>float\<close> and \<open>double\<close> values are kept as
  their IEEE 754 bit patterns (\<open>f32\<close>, \<open>f64\<close>), the conversions and the arithmetic the
  sources use are defined on them by exact rounding to nearest, ties to even. Everything
  computes on natural numbers; \<open>round_mag_correct\<close> ties the computation to its
  specification over the reals, and from it come the two facts the codecs need:
  rounding a representable number gives it back, and widening to \<open>double\<close> is exact.
\<close>

type_synonym f32 = "32 word"
type_synonym f64 = "64 word"

section \<open>Exact ratios and their binary logarithm\<close>

fun bit_length :: "nat \<Rightarrow> nat" where
  "bit_length n = (if n = 0 then 0 else Suc (bit_length (n div 2)))"

declare bit_length.simps [simp del]

lemma bit_length_0 [simp]: "bit_length 0 = 0"
  by (simp add: bit_length.simps)

lemma bit_length_bounds: "0 < n \<Longrightarrow> 2 ^ (bit_length n - 1) \<le> n \<and> n < 2 ^ bit_length n"
proof (induction n rule: bit_length.induct)
  case (1 n)
  show ?case
  proof (cases "n div 2 = 0")
    case True
    with "1.prems" have "n = 1" by simp
    then show ?thesis by (simp add: bit_length.simps [of "Suc 0"])
  next
    case False
    with "1" have IH: "2 ^ (bit_length (n div 2) - 1) \<le> n div 2" "n div 2 < 2 ^ bit_length (n div 2)"
      by auto
    from False have "bit_length (n div 2) \<noteq> 0"
      by (simp add: bit_length.simps [of "n div 2"])
    then obtain k where k: "bit_length (n div 2) = Suc k" by (cases "bit_length (n div 2)") auto
    moreover have "bit_length n = Suc (bit_length (n div 2))"
      using "1.prems" by (simp add: bit_length.simps [of n])
    ultimately show ?thesis using IH by auto
  qed
qed

definition ilog2_ratio :: "nat \<Rightarrow> nat \<Rightarrow> int" where
  "ilog2_ratio n d =
     (let k = int (bit_length n) - int (bit_length d) in
      if (if 0 \<le> k then d * 2 ^ nat k \<le> n else d \<le> n * 2 ^ nat (- k)) then k else k - 1)"

lemma powi_nat: "0 \<le> k \<Longrightarrow> (2::real) powi k = 2 ^ nat k"
  by (simp add: power_int_def)

lemma powi_neg: "k < 0 \<Longrightarrow> (2::real) powi k = 1 / 2 ^ nat (- k)"
  by (simp add: power_int_def inverse_eq_divide power_divide)

lemma powi_split: "(2::real) powi (a + b) = 2 powi a * 2 powi b"
  by (simp add: power_int_add)

lemma powi_diff2: "(2::real) powi (a - b) = 2 powi a / 2 powi b"
  by (simp add: power_int_diff)

lemma powi_pos [simp]: "(0::real) < 2 powi k"
  by (simp add: zero_less_power_int)

lemma powi_less_iff [simp]: "(2::real) powi a < 2 powi b \<longleftrightarrow> a < b"
proof -
  have *: "a < b \<Longrightarrow> (2::real) powi a < 2 powi b" for a b
    by (rule power_int_strict_increasing) auto
  show ?thesis using * [of a b] * [of b a] by (cases a b rule: linorder_cases) auto
qed

lemma powi_le_iff [simp]: "(2::real) powi a \<le> 2 powi b \<longleftrightarrow> a \<le> b"
  by (simp add: not_less [symmetric])

lemma ilog2_ratio_guard:
  assumes "0 < d"
  shows "(if 0 \<le> k then d * 2 ^ nat k \<le> n else d \<le> n * 2 ^ nat (- k))
         \<longleftrightarrow> (2::real) powi k \<le> real n / real d"
proof (cases "0 \<le> k")
  case True
  have "d * 2 ^ nat k \<le> n \<longleftrightarrow> real (d * 2 ^ nat k) \<le> real n" by (simp only: of_nat_le_iff)
  also have "\<dots> \<longleftrightarrow> (2::real) powi k \<le> real n / real d"
    using assms True by (simp add: powi_nat pos_le_divide_eq mult.commute)
  finally show ?thesis using True by simp
next
  case False
  have "d \<le> n * 2 ^ nat (- k) \<longleftrightarrow> real d \<le> real (n * 2 ^ nat (- k))" by (simp only: of_nat_le_iff)
  also have "\<dots> \<longleftrightarrow> (2::real) powi k \<le> real n / real d"
    using assms False by (simp add: powi_neg field_simps)
  finally show ?thesis using False by simp
qed

lemma bit_length_real_bounds:
  assumes "0 < n"
  shows "(2::real) powi (int (bit_length n) - 1) \<le> real n" "real n < 2 powi int (bit_length n)"
proof -
  from bit_length_bounds [OF assms]
  have b: "2 ^ (bit_length n - 1) \<le> n" "n < 2 ^ bit_length n" by auto
  from assms have "bit_length n \<noteq> 0" by (simp add: bit_length.simps [of n])
  then have "(2::real) powi (int (bit_length n) - 1) = 2 ^ (bit_length n - 1)"
    by (simp add: powi_nat nat_diff_distrib)
  with b(1) show "(2::real) powi (int (bit_length n) - 1) \<le> real n"
    by (metis of_nat_le_iff of_nat_numeral of_nat_power)
  from b(2) have "real n < real (2 ^ bit_length n)" by (simp only: of_nat_less_iff)
  then show "real n < 2 powi int (bit_length n)" by simp
qed

lemma ilog2_ratio_bounds:
  assumes "0 < n" and "0 < d"
  shows "(2::real) powi ilog2_ratio n d \<le> real n / real d"
    and "real n / real d < 2 powi (ilog2_ratio n d + 1)"
proof -
  define k where "k = int (bit_length n) - int (bit_length d)"
  note n = bit_length_real_bounds [OF assms(1)]
  note d = bit_length_real_bounds [OF assms(2)]
  have pos: "0 < real n" "0 < real d" using assms by auto
  have lo: "(2::real) powi (k - 1) \<le> real n / real d"
  proof -
    have "k - 1 = int (bit_length n) - 1 - int (bit_length d)" by (simp add: k_def)
    then have "(2::real) powi (k - 1) = 2 powi (int (bit_length n) - 1) / 2 powi int (bit_length d)"
      by (simp only: powi_diff2)
    also have "\<dots> \<le> real n / real d"
      by (rule frac_le) (use n d pos in auto)
    finally show ?thesis .
  qed
  have hi: "real n / real d < 2 powi (k + 1)"
  proof -
    have "real n / real d < 2 powi int (bit_length n) / 2 powi (int (bit_length d) - 1)"
      by (rule frac_less) (use n d pos in auto)
    also have "\<dots> = 2 powi (int (bit_length n) - (int (bit_length d) - 1))"
      by (simp only: powi_diff2)
    also have "int (bit_length n) - (int (bit_length d) - 1) = k + 1" by (simp add: k_def)
    finally show ?thesis .
  qed
  have eq: "ilog2_ratio n d = (if (2::real) powi k \<le> real n / real d then k else k - 1)"
    unfolding ilog2_ratio_def Let_def k_def [symmetric] ilog2_ratio_guard [OF assms(2), symmetric] ..
  show "(2::real) powi ilog2_ratio n d \<le> real n / real d"
    using lo eq by simp
  show "real n / real d < 2 powi (ilog2_ratio n d + 1)"
    using hi eq by simp
qed

text \<open>The position of the leading bit is determined by the number alone.\<close>

definition log2_floor :: "real \<Rightarrow> int" where
  "log2_floor x = \<lfloor>log 2 x\<rfloor>"

lemma powi_powr: "(2::real) powi k = 2 powr real_of_int k"
  by (simp add: powr_real_of_int')

lemma log2_floor_iff:
  "0 < x \<Longrightarrow> log2_floor x = k \<longleftrightarrow> (2::real) powi k \<le> x \<and> x < 2 powi (k + 1)"
  unfolding log2_floor_def powi_powr by (subst floor_log_eq_powr_iff) auto

lemma log2_floor_unique:
  assumes "(2::real) powi k \<le> x" and "x < 2 powi (k + 1)"
  shows "log2_floor x = k"
  using assms powi_pos [of k] log2_floor_iff [of x k] by linarith

lemma log2_floor_bounds:
  assumes "0 < x"
  shows "(2::real) powi log2_floor x \<le> x" and "x < 2 powi (log2_floor x + 1)"
  using log2_floor_iff [OF assms, of "log2_floor x"] by auto

lemma ilog2_ratio_eq: "0 < n \<Longrightarrow> 0 < d \<Longrightarrow> ilog2_ratio n d = log2_floor (real n / real d)"
  by (rule log2_floor_unique [symmetric]) (rule ilog2_ratio_bounds; assumption)+

section \<open>Rounding to nearest, ties to even\<close>

definition rne :: "nat \<Rightarrow> nat \<Rightarrow> nat" where
  "rne a b = (let q = a div b; r = a mod b in
     if 2 * r < b \<or> (2 * r = b \<and> even q) then q else Suc q)"

definition rne_real :: "real \<Rightarrow> int" where
  "rne_real x = (let f = \<lfloor>x\<rfloor>; r = x - of_int f in
     if r < 1 / 2 \<or> (r = 1 / 2 \<and> even f) then f else f + 1)"

lemma rne_eq:
  assumes "0 < b"
  shows "int (rne a b) = rne_real (real a / real b)"
proof -
  have f: "\<lfloor>real a / real b\<rfloor> = int (a div b)" by (simp add: floor_divide_of_nat_eq)
  have "real a = real (a div b) * real b + real (a mod b)"
    by (metis div_mult_mod_eq of_nat_add of_nat_mult)
  then have r: "real a / real b - real (a div b) = real (a mod b) / real b"
    using assms by (simp add: field_simps)
  have lt: "real k / real b < 1 / 2 \<longleftrightarrow> 2 * k < b" for k
    using assms by (simp add: field_simps) linarith
  have eq: "real k / real b = 1 / 2 \<longleftrightarrow> 2 * k = b" for k
    using assms by (simp add: field_simps) linarith
  show ?thesis
    unfolding rne_def rne_real_def Let_def f of_int_of_nat_eq r lt eq even_of_nat by simp
qed

lemma rne_real_of_nat [simp]: "rne_real (real k) = int k"
  by (simp add: rne_real_def)

text \<open>
  \<open>round_mag m emin cap n d\<close> is the magnitude part of the bit pattern nearest to
  \<open>n / d\<close> in the format with \<open>m\<close> stored mantissa bits, least exponent \<open>emin\<close>
  of a unit in the last place, and infinity \<open>cap\<close>: exponent and mantissa lie next to
  each other in the pattern, so a mantissa that rounds up to the next power of two
  carries into the exponent, and everything above the largest number saturates at \<open>cap\<close>.
\<close>

definition scale_ratio :: "nat \<Rightarrow> nat \<Rightarrow> int \<Rightarrow> nat \<times> nat" where
  "scale_ratio n d e = (if 0 \<le> e then (n, d * 2 ^ nat e) else (n * 2 ^ nat (- e), d))"

definition round_mag :: "nat \<Rightarrow> int \<Rightarrow> nat \<Rightarrow> nat \<Rightarrow> nat \<Rightarrow> nat" where
  "round_mag m emin cap n d =
     (if n = 0 then 0
      else let e = max emin (ilog2_ratio n d - int m); (a, b) = scale_ratio n d e in
        min cap (nat (e - emin) * 2 ^ m + rne a b))"

definition round_real :: "nat \<Rightarrow> int \<Rightarrow> nat \<Rightarrow> real \<Rightarrow> nat" where
  "round_real m emin cap x =
     (if x = 0 then 0
      else let e = max emin (log2_floor x - int m) in
        min cap (nat (e - emin) * 2 ^ m + nat (rne_real (x / 2 powi e))))"

lemma scale_ratio_real:
  assumes "0 < d" and "scale_ratio n d e = (a, b)"
  shows "0 < b" and "real a / real b = real n / real d / 2 powi e"
  using assms by (auto simp: scale_ratio_def powi_nat powi_neg field_simps split: if_splits)

lemma round_mag_correct:
  assumes "0 < d"
  shows "round_mag m emin cap n d = round_real m emin cap (real n / real d)"
proof (cases "n = 0")
  case True
  then show ?thesis by (simp add: round_mag_def round_real_def)
next
  case False
  define e where "e = max emin (ilog2_ratio n d - int m)"
  obtain a b where ab: "scale_ratio n d e = (a, b)" by fastforce
  from scale_ratio_real [OF assms ab] have b: "0 < b"
    and v: "real a / real b = real n / real d / 2 powi e" by auto
  have "rne a b = nat (rne_real (real n / real d / 2 powi e))"
    using rne_eq [OF b, of a] v by simp
  then show ?thesis using False assms ab
    by (simp add: round_mag_def round_real_def e_def ilog2_ratio_eq)
qed

text \<open>The number a magnitude stands for: integer mantissa and exponent.\<close>

definition mag_split :: "nat \<Rightarrow> int \<Rightarrow> nat \<Rightarrow> nat \<times> int" where
  "mag_split m emin n =
     (let E = n div 2 ^ m; F = n mod 2 ^ m in
      if E = 0 then (F, emin) else (2 ^ m + F, emin + int E - 1))"

definition mag_real :: "nat \<Rightarrow> int \<Rightarrow> nat \<Rightarrow> real" where
  "mag_real m emin n = (case mag_split m emin n of (q, e) \<Rightarrow> real q * 2 powi e)"

definition mag_ratio :: "nat \<Rightarrow> int \<Rightarrow> nat \<Rightarrow> nat \<times> nat" where
  "mag_ratio m emin n =
     (case mag_split m emin n of (q, e) \<Rightarrow> if 0 \<le> e then (q * 2 ^ nat e, 1) else (q, 2 ^ nat (- e)))"

lemma mag_ratio_real:
  assumes "mag_ratio m emin n = (a, b)"
  shows "0 < b" and "real a / real b = mag_real m emin n"
  using assms by (auto simp: mag_ratio_def mag_real_def powi_nat powi_neg split: prod.splits if_splits)

lemma round_mag_of_ratio:
  "mag_ratio m emin n = (a, b) \<Longrightarrow> round_mag m' emin' cap a b = round_real m' emin' cap (mag_real m emin n)"
  using mag_ratio_real [of m emin n a b] by (simp add: round_mag_correct)

lemma log2_floor_scaled:
  assumes "2 ^ j \<le> q" and "q < 2 ^ Suc j"
  shows "log2_floor (real q * 2 powi e) = int j + e"
proof (rule log2_floor_unique)
  have "(2::real) ^ j \<le> real q" using assms(1) by (metis of_nat_le_iff of_nat_numeral of_nat_power)
  then show "(2::real) powi (int j + e) \<le> real q * 2 powi e"
    by (simp add: powi_split)
  have "int j + e + 1 = int (Suc j) + e" by simp
  then have e: "(2::real) powi (int j + e + 1) = real (2 ^ Suc j) * 2 powi e"
    by (simp only: powi_split power_int_of_nat of_nat_power of_nat_numeral)
  have "real q < real (2 ^ Suc j)" using assms(2) by (simp only: of_nat_less_iff)
  then show "real q * 2 powi e < (2::real) powi (int j + e + 1)"
    unfolding e by (rule mult_strict_right_mono) (rule powi_pos)
qed

section \<open>Representable numbers\<close>

text \<open>Rounding the number that a finite pattern stands for gives the pattern back.\<close>

lemma nat_leading_bit: "0 < (q::nat) \<Longrightarrow> \<exists>j. 2 ^ j \<le> q \<and> q < 2 ^ Suc j"
  using bit_length_bounds [of q] by (cases "bit_length q") (auto simp del: power_Suc)

lemma div_mod_pack: "F < (d::nat) \<Longrightarrow> (K * d + F) div d = K \<and> (K * d + F) mod d = F"
  by simp

lemma round_real_representable:
  assumes "0 < k" and "e = max emin (log2_floor x - int m)" and "x = real k * 2 powi e"
  shows "round_real m emin cap x = min cap (nat (e - emin) * 2 ^ m + k)"
proof -
  have "x \<noteq> 0" using assms(1,3) powi_pos [of e] by simp
  moreover have "x / 2 powi e = real k" using assms(3) powi_pos [of e] by simp
  ultimately show ?thesis
    by (simp add: round_real_def Let_def assms(2) [symmetric])
qed

theorem round_real_mag_real:
  assumes "n < cap"
  shows "round_real m emin cap (mag_real m emin n) = n"
proof (cases "n div 2 ^ m = 0")
  case True
  then have q: "mag_real m emin n = real n * 2 powi emin" "n < 2 ^ m"
    by (auto simp: mag_real_def mag_split_def Let_def div_eq_0_iff)
  show ?thesis
  proof (cases "n = 0")
    case True
    then show ?thesis using q by (simp add: round_real_def)
  next
    case False
    then obtain j where j: "2 ^ j \<le> n" "n < 2 ^ Suc j" using nat_leading_bit by blast
    with q(2) have "(2::nat) ^ j < 2 ^ m" by linarith
    then have "j < m" by simp
    with log2_floor_scaled [OF j] q(1) have "emin = max emin (log2_floor (mag_real m emin n) - int m)"
      by simp
    from round_real_representable [OF _ this q(1)] False assms show ?thesis by simp
  qed
next
  case False
  define E F where "E = n div 2 ^ m" and "F = n mod 2 ^ m"
  have EF: "n = E * 2 ^ m + F" "F < 2 ^ m" "0 < E"
    using False by (simp_all add: E_def F_def div_mult_mod_eq)
  define e where "e = emin + int E - 1"
  have q: "mag_real m emin n = real (2 ^ m + F) * 2 powi e"
    using False by (simp add: mag_real_def mag_split_def Let_def E_def F_def e_def)
  have "log2_floor (mag_real m emin n) = int m + e"
    unfolding q by (rule log2_floor_scaled) (use EF in auto)
  then have "e = max emin (log2_floor (mag_real m emin n) - int m)"
    using EF(3) by (simp add: e_def)
  from round_real_representable [OF _ this q] have
    "round_real m emin cap (mag_real m emin n) = min cap (nat (e - emin) * 2 ^ m + (2 ^ m + F))"
    using EF by simp
  also have "nat (e - emin) = E - 1" using EF(3) by (simp add: e_def)
  also have "(E - 1) * 2 ^ m + (2 ^ m + F) = n"
    using EF by (cases E) (auto simp: algebra_simps)
  finally show ?thesis using assms by simp
qed

text \<open>A number with few enough significant bits is represented exactly.\<close>

theorem mag_real_round_real:
  assumes "0 < k" and e: "e = max emin (log2_floor x - int m)" and x: "x = real k * 2 powi e"
    and "nat (e - emin) * 2 ^ m + k \<le> cap"
  shows "mag_real m emin (round_real m emin cap x) = x"
proof -
  have r: "round_real m emin cap x = nat (e - emin) * 2 ^ m + k"
    using round_real_representable [OF assms(1) e x] assms(4) by simp
  have xpos: "0 < x" using assms(1) x by simp
  have "log2_floor x + 1 \<le> int (Suc m) + e" using e by simp
  then have "(2::real) powi (log2_floor x + 1) \<le> 2 powi (int (Suc m) + e)" by simp
  with log2_floor_bounds(2) [OF xpos] x have "real k * 2 powi e < 2 powi int (Suc m) * 2 powi e"
    by (simp only: powi_split)
  then have "real k < real (2 ^ Suc m)" by (simp only: powi_pos mult_less_cancel_right_pos
      power_int_of_nat of_nat_power of_nat_numeral)
  then have hi: "k < 2 ^ Suc m" by (simp only: of_nat_less_iff)
  show ?thesis
  proof (cases "e = emin")
    case True
    have "k div 2 ^ m = 0 \<or> k div 2 ^ m = 1"
      using less_mult_imp_div_less [of k 2 "2 ^ m"] hi by auto
    then show ?thesis
    proof
      assume "k div 2 ^ m = 0"
      then show ?thesis using True r x
        by (simp add: mag_real_def mag_split_def div_eq_0_iff)
    next
      assume d: "k div 2 ^ m = 1"
      then have "k = 2 ^ m + k mod 2 ^ m" by (metis div_mult_mod_eq mult_1)
      then have "real k = 2 ^ m + real (k mod 2 ^ m)"
        by (metis of_nat_add of_nat_numeral of_nat_power)
      with d show ?thesis using True r x
        by (simp add: mag_real_def mag_split_def)
    qed
  next
    case False
    then have e': "e = log2_floor x - int m" "emin < e" using e by auto
    then have "log2_floor x = int m + e" by simp
    with log2_floor_bounds(1) [OF xpos] have "(2::real) powi (int m + e) \<le> x" by simp
    then have "(2::real) powi (int m + e) \<le> real k * 2 powi e" by (simp only: x)
    then have "real (2 ^ m) \<le> real k"
      by (simp only: powi_split powi_pos mult_le_cancel_right_pos power_int_of_nat of_nat_power of_nat_numeral)
    then have lo: "2 ^ m \<le> k" by (simp only: of_nat_le_iff)
    then obtain F where F: "k = 2 ^ m + F" using le_Suc_ex by blast
    with hi have Fl: "F < 2 ^ m" by simp
    have n: "round_real m emin cap x = (nat (e - emin) + 1) * 2 ^ m + F"
      using r F by simp
    have dm: "round_real m emin cap x div 2 ^ m = nat (e - emin) + 1"
      "round_real m emin cap x mod 2 ^ m = F"
      unfolding n using div_mod_pack [OF Fl, of "nat (e - emin) + 1"] by blast+
    have "emin + int (nat (e - emin) + 1) - 1 = e" using e'(2) by simp
    then show ?thesis using x F
      unfolding mag_real_def mag_split_def Let_def dm by simp
  qed
qed

section \<open>\<open>float\<close> and \<open>double\<close>\<close>

text \<open>
  The two formats: 23 and 52 stored mantissa bits, units in the last place from
  \<open>2 ^ -149\<close> and \<open>2 ^ -1074\<close>, and the magnitudes of their infinities. Magnitudes above
  these are NaNs. The sign is the top bit.
\<close>

abbreviation f32_inf :: nat where "f32_inf \<equiv> 0x7F800000"
abbreviation f64_inf :: nat where "f64_inf \<equiv> 0x7FF0000000000000"

definition f32_mag :: "f32 \<Rightarrow> nat" where "f32_mag b = unat b mod 2 ^ 31"
definition f32_sign :: "f32 \<Rightarrow> nat" where "f32_sign b = unat b div 2 ^ 31"
definition f32_make :: "nat \<Rightarrow> nat \<Rightarrow> f32" where "f32_make s n = word_of_nat (s * 2 ^ 31 + n)"

definition f64_mag :: "f64 \<Rightarrow> nat" where "f64_mag b = unat b mod 2 ^ 63"
definition f64_sign :: "f64 \<Rightarrow> nat" where "f64_sign b = unat b div 2 ^ 63"
definition f64_make :: "nat \<Rightarrow> nat \<Rightarrow> f64" where "f64_make s n = word_of_nat (s * 2 ^ 63 + n)"

definition f64_is_nan :: "f64 \<Rightarrow> bool" where "f64_is_nan b \<longleftrightarrow> f64_inf < f64_mag b"
definition f64_is_finite :: "f64 \<Rightarrow> bool" where "f64_is_finite b \<longleftrightarrow> f64_mag b < f64_inf"

text \<open>
  Widening and narrowing of magnitudes. A NaN keeps its leading payload bits and becomes
  quiet, as the conversion instructions of the supported processors do.
\<close>

definition widen_mag :: "nat \<Rightarrow> nat" where
  "widen_mag n =
     (if f32_inf < n then f64_inf + 2 ^ 51 + (n mod 2 ^ 22) * 2 ^ 29
      else if n = f32_inf then f64_inf
      else case mag_ratio 23 (- 149) n of (a, b) \<Rightarrow> round_mag 52 (- 1074) f64_inf a b)"

definition narrow_mag :: "nat \<Rightarrow> nat" where
  "narrow_mag n =
     (if f64_inf < n then f32_inf + 2 ^ 22 + (n mod 2 ^ 51) div 2 ^ 29
      else if n = f64_inf then f32_inf
      else case mag_ratio 52 (- 1074) n of (a, b) \<Rightarrow> round_mag 23 (- 149) f32_inf a b)"

definition f32_to_f64 :: "f32 \<Rightarrow> f64" where
  "f32_to_f64 b = f64_make (f32_sign b) (widen_mag (f32_mag b))"

definition f64_to_f32 :: "f64 \<Rightarrow> f32" where
  "f64_to_f32 b = f32_make (f64_sign b) (narrow_mag (f64_mag b))"

text \<open>A signalling NaN is the only pattern the conversions alter.\<close>

definition f32_signalling :: "f32 \<Rightarrow> bool" where
  "f32_signalling b \<longleftrightarrow> f32_inf < f32_mag b \<and> f32_mag b < f32_inf + 2 ^ 22"

text \<open>\<open>==\<close>, \<open><\<close> on doubles: a NaN compares false, the two zeros are equal.\<close>

definition f64_key :: "f64 \<Rightarrow> int" where
  "f64_key b = (if f64_sign b = 0 then int (f64_mag b) else - int (f64_mag b))"

definition f64_eq :: "f64 \<Rightarrow> f64 \<Rightarrow> bool" where
  "f64_eq a b \<longleftrightarrow> \<not> f64_is_nan a \<and> \<not> f64_is_nan b \<and> f64_key a = f64_key b"

definition f64_less :: "f64 \<Rightarrow> f64 \<Rightarrow> bool" where
  "f64_less a b \<longleftrightarrow> \<not> f64_is_nan a \<and> \<not> f64_is_nan b \<and> f64_key a < f64_key b"

definition f64_le :: "f64 \<Rightarrow> f64 \<Rightarrow> bool" where
  "f64_le a b \<longleftrightarrow> \<not> f64_is_nan a \<and> \<not> f64_is_nan b \<and> f64_key a \<le> f64_key b"

lemma f32_make_parts [simp]: "f32_make (f32_sign b) (f32_mag b) = b"
  by (simp only: f32_make_def f32_sign_def f32_mag_def div_mult_mod_eq) simp

lemma f64_make_parts [simp]: "f64_make (f64_sign b) (f64_mag b) = b"
  by (simp only: f64_make_def f64_sign_def f64_mag_def div_mult_mod_eq) simp

lemma f32_sign_le: "f32_sign b \<le> 1"
  using unsigned_less [of b, where ?'a = nat] by (simp add: f32_sign_def)

lemma f64_sign_le: "f64_sign b \<le> 1"
  using unsigned_less [of b, where ?'a = nat] by (simp add: f64_sign_def)

lemma f64_make_sign_mag:
  assumes "s \<le> 1" and "n < 2 ^ 63"
  shows "f64_sign (f64_make s n) = s" "f64_mag (f64_make s n) = n"
proof -
  have "s * 2 ^ 63 + n < 2 ^ 64" using assms by (cases s) auto
  then have "unat (word_of_nat (s * 2 ^ 63 + n) :: f64) = s * 2 ^ 63 + n"
    by (simp only: unsigned_of_nat take_bit_nat_eq_self len_num1 len_bit0 len_num0) (simp add: take_bit_nat_eq_self del: of_nat_add of_nat_mult)
  then show "f64_sign (f64_make s n) = s" "f64_mag (f64_make s n) = n"
    using assms(2) by (simp_all add: f64_sign_def f64_mag_def f64_make_def)
qed

lemma f32_make_sign_mag:
  assumes "s \<le> 1" and "n < 2 ^ 31"
  shows "f32_sign (f32_make s n) = s" "f32_mag (f32_make s n) = n"
proof -
  have "s * 2 ^ 31 + n < 2 ^ 32" using assms by (cases s) auto
  then have "unat (word_of_nat (s * 2 ^ 31 + n) :: f32) = s * 2 ^ 31 + n"
    by (simp only: unsigned_of_nat take_bit_nat_eq_self len_num1 len_bit0 len_num0) (simp add: take_bit_nat_eq_self del: of_nat_add of_nat_mult)
  then show "f32_sign (f32_make s n) = s" "f32_mag (f32_make s n) = n"
    using assms(2) by (simp_all add: f32_sign_def f32_mag_def f32_make_def)
qed

lemma mag_split_f32:
  assumes "0 < n" and "n < f32_inf" and "mag_split 23 (- 149) n = (q, e)"
  shows "0 < q" "q < 2 ^ 24" "- 149 \<le> e" "e \<le> 104"
proof -
  have E: "n div 2 ^ 23 \<le> 254" using less_mult_imp_div_less [of n 255 "2 ^ 23"] assms(2) by simp
  have F: "n mod 2 ^ 23 < (2 ^ 23 :: nat)" by simp
  show "0 < q" "q < 2 ^ 24" "- 149 \<le> e" "e \<le> 104"
    using assms E F by (auto simp: mag_split_def Let_def div_eq_0_iff split: if_splits)
qed

lemma widen_mag_finite:
  assumes "n < f32_inf"
  shows "widen_mag n < f64_inf" and "mag_real 52 (- 1074) (widen_mag n) = mag_real 23 (- 149) n"
proof -
  have w: "widen_mag n = round_real 52 (- 1074) f64_inf (mag_real 23 (- 149) n)"
    using assms by (simp add: widen_mag_def round_mag_of_ratio split: prod.split)
  have "widen_mag n < f64_inf \<and> mag_real 52 (- 1074) (widen_mag n) = mag_real 23 (- 149) n"
  proof (cases "n = 0")
    case True
    then show ?thesis unfolding w by (simp add: mag_real_def mag_split_def round_real_def)
  next
    case False
    obtain q e where qe: "mag_split 23 (- 149) n = (q, e)" by fastforce
    note b = mag_split_f32 [OF _ assms qe]
    obtain j where j: "2 ^ j \<le> q" "q < 2 ^ Suc j" using nat_leading_bit b(1) False by blast
    have "(2::nat) ^ j < 2 ^ 24" using j(1) b(2) False by linarith
    then have j23: "j < 24" by (simp only: power_strict_increasing_iff one_less_numeral_iff semiring_norm)
    define x where "x = mag_real 23 (- 149) n"
    have x: "x = real q * 2 powi e" by (simp add: x_def mag_real_def qe)
    define e' where "e' = int j + e - 52"
    define k where "k = q * 2 ^ (52 - j)"
    have e'_max: "e' = max (- 1074) (log2_floor x - int 52)"
      unfolding x log2_floor_scaled [OF j] e'_def using b False by simp
    have "int (52 - j) + e' = e" using j23 by (simp add: e'_def)
    then have xk: "x = real k * 2 powi e'"
      by (simp add: x k_def powi_split [symmetric] flip: power_int_of_nat)
    have kpos: "0 < k" using b(1) False by (simp add: k_def)
    have "k < 2 ^ Suc j * 2 ^ (52 - j)" unfolding k_def using j(2) by simp
    also have "\<dots> = 2 ^ 53" using j23 by (simp flip: power_add)
    finally have k53: "k < 2 ^ 53" .
    have "nat (e' - - 1074) \<le> 1149" using b False j23 by (simp add: e'_def)
    then have "nat (e' - - 1074) * 2 ^ 52 \<le> (1149::nat) * 2 ^ 52" by (rule mult_right_mono) simp
    with k53 have le: "nat (e' - - 1074) * 2 ^ 52 + k < f64_inf" by simp
    show ?thesis
      using mag_real_round_real [OF kpos e'_max xk, of f64_inf] round_real_representable [OF kpos e'_max xk, of f64_inf] le
      unfolding w x_def [symmetric] by simp
  qed
  then show "widen_mag n < f64_inf" "mag_real 52 (- 1074) (widen_mag n) = mag_real 23 (- 149) n"
    by auto
qed

lemma narrow_widen_mag:
  assumes "n < 2 ^ 31" and "n \<le> f32_inf \<or> f32_inf + 2 ^ 22 \<le> n"
  shows "narrow_mag (widen_mag n) = n"
proof (cases "n < f32_inf")
  case True
  have "narrow_mag (widen_mag n) = round_real 23 (- 149) f32_inf (mag_real 52 (- 1074) (widen_mag n))"
    using widen_mag_finite(1) [OF True] by (simp add: narrow_mag_def round_mag_of_ratio split: prod.split)
  then show ?thesis
    using widen_mag_finite(2) [OF True] round_real_mag_real [OF True] by simp
next
  case False
  show ?thesis
  proof (cases "n = f32_inf")
    case True
    then show ?thesis by (simp add: widen_mag_def narrow_mag_def)
  next
    case nan: False
    then obtain p where p: "n = f32_inf + 2 ^ 22 + p" using False assms(2) le_Suc_ex by fastforce
    with assms(1) have p22: "p < 2 ^ 22" by simp
    have "n mod 2 ^ 22 = p"
      unfolding p using p22 by (simp add: mod_add_eq [symmetric, of 2143289344])
    then have w: "widen_mag n = f64_inf + 2 ^ 51 + p * 2 ^ 29"
      using p by (simp add: widen_mag_def)
    have "(f64_inf + 2 ^ 51 + p * 2 ^ 29) mod 2 ^ 51 = p * 2 ^ 29"
      using p22 by (simp add: mod_add_eq [symmetric, of 9221120237041090560])
    then have "narrow_mag (f64_inf + 2 ^ 51 + p * 2 ^ 29) = f32_inf + 2 ^ 22 + p"
      by (simp add: narrow_mag_def)
    then show ?thesis by (simp only: w) (simp only: p)
  qed
qed

lemma widen_mag_bound: "n < 2 ^ 31 \<Longrightarrow> widen_mag n < 2 ^ 63"
proof (cases "n < f32_inf")
  case True
  then show ?thesis using widen_mag_finite(1) [OF True] by simp
next
  case False
  have "n mod 2 ^ 22 < (2 ^ 22::nat)" by simp
  with False show ?thesis by (auto simp: widen_mag_def)
qed

theorem f64_to_f32_widened:
  assumes "\<not> f32_signalling b"
  shows "f64_to_f32 (f32_to_f64 b) = b"
proof -
  have m: "f32_mag b < 2 ^ 31" by (simp add: f32_mag_def)
  have "f32_mag b \<le> f32_inf \<or> f32_inf + 2 ^ 22 \<le> f32_mag b"
    using assms by (auto simp: f32_signalling_def)
  with narrow_widen_mag [OF m] have "narrow_mag (widen_mag (f32_mag b)) = f32_mag b" by blast
  then show ?thesis
    by (simp add: f64_to_f32_def f32_to_f64_def f64_make_sign_mag [OF f32_sign_le widen_mag_bound [OF m]])
qed

text \<open>A value that has been a \<open>float\<close> once survives the trip even when it is a signalling NaN.\<close>

lemma widen_narrow_widen_mag:
  assumes "n < 2 ^ 31"
  shows "widen_mag (narrow_mag (widen_mag n)) = widen_mag n"
proof (cases "n \<le> f32_inf \<or> f32_inf + 2 ^ 22 \<le> n")
  case True
  then show ?thesis by (simp only: narrow_widen_mag [OF assms])
next
  case False
  then obtain p where p: "n = f32_inf + p" "0 < p" "p < 2 ^ 22"
    using le_Suc_ex [of f32_inf n] by fastforce
  have mods: "(f32_inf + p) mod 2 ^ 22 = p" "(f32_inf + 2 ^ 22 + p) mod 2 ^ 22 = p"
    using p(3) by (simp_all add: mod_add_eq [symmetric, of 2139095040] mod_add_eq [symmetric, of 2143289344])
  then have w: "widen_mag n = f64_inf + 2 ^ 51 + p * 2 ^ 29"
    using p by (simp add: widen_mag_def)
  have "(f64_inf + 2 ^ 51 + p * 2 ^ 29) mod 2 ^ 51 = p * 2 ^ 29"
    using p(3) by (simp add: mod_add_eq [symmetric, of 9221120237041090560])
  then have "narrow_mag (widen_mag n) = f32_inf + 2 ^ 22 + p"
    unfolding w by (simp add: narrow_mag_def)
  then show ?thesis using w mods(2) by (simp add: widen_mag_def)
qed

theorem f32_to_f64_narrowed: "f32_to_f64 (f64_to_f32 (f32_to_f64 b)) = f32_to_f64 b"
proof -
  have m: "f32_mag b < 2 ^ 31" by (simp add: f32_mag_def)
  define w where "w = narrow_mag (widen_mag (f32_mag b))"
  have "w < 2 ^ 31"
  proof (cases "f32_mag b \<le> f32_inf \<or> f32_inf + 2 ^ 22 \<le> f32_mag b")
    case True
    then show ?thesis using m by (simp only: w_def narrow_widen_mag [OF m])
  next
    case False
    then have "f64_inf < widen_mag (f32_mag b)" by (simp add: widen_mag_def)
    moreover have small: "k mod 2 ^ 51 div 2 ^ 29 < 4194304" for k :: nat
      by (rule less_mult_imp_div_less) simp
    have "f32_inf + 2 ^ 22 + k mod 2 ^ 51 div 2 ^ 29 < 2 ^ 31" for k :: nat
      using small [of k] by simp
    ultimately show ?thesis by (simp add: w_def narrow_mag_def)
  qed
  then have "f32_sign (f32_make (f32_sign b) w) = f32_sign b" "f32_mag (f32_make (f32_sign b) w) = w"
    using f32_make_sign_mag [OF f32_sign_le] by auto
  then show ?thesis
    using widen_narrow_widen_mag [OF m]
    by (simp add: f32_to_f64_def f64_to_f32_def f64_make_sign_mag [OF f32_sign_le widen_mag_bound [OF m]] w_def)
qed

end
