(* ===== verification/WireTypes.thy ===== *)
theory WireTypes
  imports Ieee754
begin

text \<open>
  The data of the Pub/Sub wire format (\<open>PubSub/include/PubSubWire.h\<close>): the builtin types, the
  \<open>WireValue\<close> class with its factories, accessors and \<open>equals\<close>, and the
  message structures. An integer member keeps its 64 bits; \<open>m_float\<close> keeps the bit
  pattern of the \<open>double\<close>.
\<close>

section \<open>Builtin types\<close>

text \<open>
  \<open>enum BuiltinType\<close>. The decoder casts any six-bit code to the enumeration, so codes with
  no enumerator are values of it too.
\<close>

datatype builtin_type =
    TypeNull | TypeBoolean | TypeSByte | TypeByte | TypeInt16 | TypeUInt16 | TypeInt32
  | TypeUInt32 | TypeInt64 | TypeUInt64 | TypeFloat | TypeDouble | TypeString | TypeDateTime
  | TypeUnnamed byte

fun type_code :: "builtin_type \<Rightarrow> byte" where
  "type_code TypeNull = 0"
| "type_code TypeBoolean = 1"
| "type_code TypeSByte = 2"
| "type_code TypeByte = 3"
| "type_code TypeInt16 = 4"
| "type_code TypeUInt16 = 5"
| "type_code TypeInt32 = 6"
| "type_code TypeUInt32 = 7"
| "type_code TypeInt64 = 8"
| "type_code TypeUInt64 = 9"
| "type_code TypeFloat = 10"
| "type_code TypeDouble = 11"
| "type_code TypeString = 12"
| "type_code TypeDateTime = 13"
| "type_code (TypeUnnamed c) = c"

definition builtin_of_code :: "byte \<Rightarrow> builtin_type" where
  "builtin_of_code c =
     (if c = 0 then TypeNull else if c = 1 then TypeBoolean else if c = 2 then TypeSByte
      else if c = 3 then TypeByte else if c = 4 then TypeInt16 else if c = 5 then TypeUInt16
      else if c = 6 then TypeInt32 else if c = 7 then TypeUInt32 else if c = 8 then TypeInt64
      else if c = 9 then TypeUInt64 else if c = 10 then TypeFloat else if c = 11 then TypeDouble
      else if c = 12 then TypeString else if c = 13 then TypeDateTime else TypeUnnamed c)"

text \<open>The types the codec handles are those with an enumerator.\<close>

fun is_named :: "builtin_type \<Rightarrow> bool" where
  "is_named (TypeUnnamed c) = False"
| "is_named _ = True"

lemma builtin_of_type_code [simp]: "is_named t \<Longrightarrow> builtin_of_code (type_code t) = t"
  by (cases t) (simp_all add: builtin_of_code_def)

lemma type_code_of_builtin [simp]: "type_code (builtin_of_code c) = c"
  by (simp add: builtin_of_code_def)

lemma type_code_named_less: "is_named t \<Longrightarrow> type_code t < 14"
  by (cases t) simp_all

section \<open>Values\<close>

datatype wire_value = WireValue
  (m_type: builtin_type)
  (m_int: "64 word")
  (m_uint: "64 word")
  (m_float: f64)
  (m_string: string)
  (m_isArray: bool)
  (m_elements: "wire_value list")

definition makeNull :: wire_value where
  "makeNull = WireValue TypeNull 0 0 0 [] False []"

definition makeBoolean :: "bool \<Rightarrow> wire_value" where
  "makeBoolean v = WireValue TypeBoolean 0 (if v then 1 else 0) 0 [] False []"

definition makeSigned :: "builtin_type \<Rightarrow> 64 word \<Rightarrow> wire_value" where
  "makeSigned t v = WireValue t v 0 0 [] False []"

definition makeUnsigned :: "builtin_type \<Rightarrow> 64 word \<Rightarrow> wire_value" where
  "makeUnsigned t v = WireValue t 0 v 0 [] False []"

definition makeFloat :: "f32 \<Rightarrow> wire_value" where
  "makeFloat v = WireValue TypeFloat 0 0 (f32_to_f64 v) [] False []"

definition makeDouble :: "f64 \<Rightarrow> wire_value" where
  "makeDouble v = WireValue TypeDouble 0 0 v [] False []"

definition makeString :: "string \<Rightarrow> wire_value" where
  "makeString v = WireValue TypeString 0 0 0 v False []"

definition makeDateTime :: "64 word \<Rightarrow> wire_value" where
  "makeDateTime v = WireValue TypeDateTime v 0 0 [] False []"

definition makeArray :: "builtin_type \<Rightarrow> wire_value list \<Rightarrow> wire_value" where
  "makeArray t es = WireValue t 0 0 0 [] True es"

lemmas make_defs = makeNull_def makeBoolean_def makeSigned_def makeUnsigned_def makeFloat_def
  makeDouble_def makeString_def makeDateTime_def makeArray_def

definition boolValue :: "wire_value \<Rightarrow> bool" where
  "boolValue v \<longleftrightarrow> m_uint v \<noteq> 0"

text \<open>\<open>WireValue::equals\<close>: the scalar branch, and the element-wise loop.\<close>

definition scalar_equals :: "wire_value \<Rightarrow> wire_value \<Rightarrow> bool" where
  "scalar_equals v w = (case m_type v of
       TypeNull \<Rightarrow> True
     | TypeBoolean \<Rightarrow> boolValue v = boolValue w
     | TypeSByte \<Rightarrow> m_int v = m_int w
     | TypeInt16 \<Rightarrow> m_int v = m_int w
     | TypeInt32 \<Rightarrow> m_int v = m_int w
     | TypeInt64 \<Rightarrow> m_int v = m_int w
     | TypeDateTime \<Rightarrow> m_int v = m_int w
     | TypeByte \<Rightarrow> m_uint v = m_uint w
     | TypeUInt16 \<Rightarrow> m_uint v = m_uint w
     | TypeUInt32 \<Rightarrow> m_uint v = m_uint w
     | TypeUInt64 \<Rightarrow> m_uint v = m_uint w
     | TypeFloat \<Rightarrow> f64_eq (m_float v) (m_float w)
     | TypeDouble \<Rightarrow> f64_eq (m_float v) (m_float w)
     | TypeString \<Rightarrow> m_string v = m_string w
     | TypeUnnamed _ \<Rightarrow> False)"

fun wv_equals :: "wire_value \<Rightarrow> wire_value \<Rightarrow> bool"
  and elements_equal :: "wire_value list \<Rightarrow> wire_value list \<Rightarrow> bool" where
  "wv_equals (WireValue t i u f s a es) w =
     (if t \<noteq> m_type w then False
      else if a \<noteq> m_isArray w then False
      else if a then (if length es \<noteq> length (m_elements w) then False
                      else elements_equal es (m_elements w))
      else scalar_equals (WireValue t i u f s a es) w)"
| "elements_equal [] ys = True"
| "elements_equal (x # xs) [] = False"
| "elements_equal (x # xs) (y # ys) = (if \<not> wv_equals x y then False else elements_equal xs ys)"

text \<open>Symmetric on scalars, so element by element on arrays.\<close>

lemma f64_eq_sym: "f64_eq a b \<longleftrightarrow> f64_eq b a"
  by (auto simp: f64_eq_def)

lemma scalar_equals_sym: "m_type v = m_type w \<Longrightarrow> scalar_equals v w \<longleftrightarrow> scalar_equals w v"
  by (auto simp: scalar_equals_def f64_eq_sym split: builtin_type.splits)

lemma wv_equals_unfold:
  "wv_equals v w \<longleftrightarrow> m_type v = m_type w \<and> m_isArray v = m_isArray w \<and>
     (if m_isArray v then length (m_elements v) = length (m_elements w) \<and>
        elements_equal (m_elements v) (m_elements w)
      else scalar_equals v w)"
  by (cases v) auto

lemma wv_equals_sym:
  "wv_equals v w \<longleftrightarrow> wv_equals w v"
  "length vs = length ws \<Longrightarrow> elements_equal vs ws \<longleftrightarrow> elements_equal ws vs"
proof (induction v w and vs ws rule: wv_equals_elements_equal.induct)
  case (1 t i u f s a es w)
  then show ?case
    unfolding wv_equals_unfold [of "WireValue t i u f s a es" w] wv_equals_unfold [of w]
    by (auto simp: scalar_equals_sym)
qed auto

section \<open>Messages\<close>

datatype publisher_id_type = PublisherIdByte | PublisherIdUInt16 | PublisherIdUInt32 | PublisherIdUInt64

fun publisher_id_type_code :: "publisher_id_type \<Rightarrow> byte" where
  "publisher_id_type_code PublisherIdByte = 0"
| "publisher_id_type_code PublisherIdUInt16 = 1"
| "publisher_id_type_code PublisherIdUInt32 = 2"
| "publisher_id_type_code PublisherIdUInt64 = 3"

record data_set_message =
  dsm_dataSetWriterId :: "16 word"
  dsm_sequenceNumberEnabled :: bool
  dsm_sequenceNumber :: "16 word"
  dsm_keepAlive :: bool
  dsm_fields :: "wire_value list"

definition new_data_set_message :: data_set_message where
  "new_data_set_message = \<lparr>dsm_dataSetWriterId = 0, dsm_sequenceNumberEnabled = False,
     dsm_sequenceNumber = 0, dsm_keepAlive = False, dsm_fields = []\<rparr>"

record network_message =
  nm_publisherIdType :: publisher_id_type
  nm_publisherId :: "64 word"
  nm_writerGroupIdEnabled :: bool
  nm_writerGroupId :: "16 word"
  nm_groupSequenceNumberEnabled :: bool
  nm_groupSequenceNumber :: "16 word"
  nm_messages :: "data_set_message list"

definition new_network_message :: network_message where
  "new_network_message = \<lparr>nm_publisherIdType = PublisherIdUInt16, nm_publisherId = 0,
     nm_writerGroupIdEnabled = True, nm_writerGroupId = 0,
     nm_groupSequenceNumberEnabled = True, nm_groupSequenceNumber = 0, nm_messages = []\<rparr>"

end
