(* ===== verification/WireBytes.thy ===== *)
theory WireBytes
  imports WireTypes
begin

text \<open>
  The byte layer of \<open>PubSub/src/PubSubWire.cpp\<close>: the \<open>put\<close> functions that append to
  the output vector and the \<open>Reader\<close> class that walks over a received datagram. A read
  past the end of the received bytes is an outcome of its own (\<open>OutOfBounds\<close>), so that memory
  safety is a property of the model. Two interfaces hold what every decoder promises:
  \<open>wire_reader\<close> (never reads out of bounds, only moves forward) and \<open>wire_codec\<close>
  (gives back what the matching encoder wrote); both lift to a loop of reads.
\<close>

section \<open>Writing\<close>

definition putU8 :: "bytes \<Rightarrow> byte \<Rightarrow> bytes" where
  "putU8 out v = out @ [v]"

definition putU16 :: "bytes \<Rightarrow> 16 word \<Rightarrow> bytes" where
  "putU16 out v = (out @ [ucast (v AND 0xFF)]) @ [ucast (drop_bit 8 v AND 0xFF)]"

definition putU32 :: "bytes \<Rightarrow> 32 word \<Rightarrow> bytes" where
  "putU32 out v = foldl (\<lambda>out i. out @ [ucast (drop_bit (8 * i) v AND 0xFF)]) out [0..<4]"

definition putU64 :: "bytes \<Rightarrow> 64 word \<Rightarrow> bytes" where
  "putU64 out v = foldl (\<lambda>out i. out @ [ucast (drop_bit (8 * i) v AND 0xFF)]) out [0..<8]"

definition putString :: "bytes \<Rightarrow> string \<Rightarrow> bytes" where
  "putString out s = putU32 out (word_of_nat (length s)) @ map byte_of_char s"

section \<open>The reader\<close>

record reader =
  m_data :: bytes
  m_size :: nat
  m_position :: nat

definition new_reader :: "bytes \<Rightarrow> nat \<Rightarrow> reader" where
  "new_reader bs n = \<lparr>m_data = bs, m_size = n, m_position = 0\<rparr>"

datatype ('e, 'a) outcome = Got 'a reader | Refused 'e | OutOfBounds

definition out_bind ::
    "('e, 'a) outcome \<Rightarrow> ('a \<Rightarrow> reader \<Rightarrow> ('e, 'b) outcome) \<Rightarrow> ('e, 'b) outcome" where
  "out_bind m f = (case m of Got x r \<Rightarrow> f x r | Refused e \<Rightarrow> Refused e | OutOfBounds \<Rightarrow> OutOfBounds)"

lemma out_bind_simps [simp, result_simps]:
  "out_bind (Got x r) f = f x r"
  "out_bind (Refused e) f = Refused e"
  "out_bind OutOfBounds f = OutOfBounds"
  by (simp_all add: out_bind_def)

lemma out_bind_Got_iff: "out_bind m f = Got y r' \<longleftrightarrow> (\<exists>x r. m = Got x r \<and> f x r = Got y r')"
  by (cases m) auto

text \<open>\<open>if (!reader.op(v)) { diagnostic = d; return false; }\<close>\<close>

definition or_refuse :: "(unit, 'a) outcome \<Rightarrow> string \<Rightarrow> (string, 'a) outcome" where
  "or_refuse m d = (case m of Got x r \<Rightarrow> Got x r | Refused _ \<Rightarrow> Refused d | OutOfBounds \<Rightarrow> OutOfBounds)"

lemma or_refuse_simps [simp, result_simps]:
  "or_refuse (Got x r) d = Got x r"
  "or_refuse (Refused u) d = Refused d"
  "or_refuse OutOfBounds d = OutOfBounds"
  by (simp_all add: or_refuse_def)

text \<open>\<open>m_data[i]\<close>: reading beyond the received bytes is undefined behaviour in the source.\<close>

definition byte_at :: "reader \<Rightarrow> nat \<Rightarrow> byte option" where
  "byte_at r i = (if i < length (m_data r) then Some (m_data r ! i) else None)"

definition moved :: "reader \<Rightarrow> nat \<Rightarrow> reader" where
  "moved r n = r\<lparr>m_position := size_add (m_position r) n\<rparr>"

definition rd_u8 :: "reader \<Rightarrow> (unit, byte) outcome" where
  "rd_u8 r =
     (if m_size r < size_add (m_position r) 1 then Refused ()
      else case byte_at r (m_position r) of
             None \<Rightarrow> OutOfBounds
           | Some b \<Rightarrow> Got b (moved r 1))"

definition rd_u16 :: "reader \<Rightarrow> (unit, 16 word) outcome" where
  "rd_u16 r =
     (if m_size r < size_add (m_position r) 2 then Refused ()
      else case (byte_at r (m_position r), byte_at r (size_add (m_position r) 1)) of
             (Some b0, Some b1) \<Rightarrow> Got (ucast b0 OR push_bit 8 (ucast b1)) (moved r 2)
           | _ \<Rightarrow> OutOfBounds)"

text \<open>The loop \<open>v |= static_cast<T>(m_data[m_position + i]) << (8 * i)\<close>.\<close>

fun read_le :: "reader \<Rightarrow> nat list \<Rightarrow> 'a::len word \<Rightarrow> 'a word option" where
  "read_le r [] v = Some v"
| "read_le r (i # is) v =
     (case byte_at r (size_add (m_position r) i) of
        None \<Rightarrow> None
      | Some b \<Rightarrow> read_le r is (v OR push_bit (8 * i) (ucast b)))"

definition rd_u32 :: "reader \<Rightarrow> (unit, 32 word) outcome" where
  "rd_u32 r =
     (if m_size r < size_add (m_position r) 4 then Refused ()
      else case read_le r [0..<4] 0 of None \<Rightarrow> OutOfBounds | Some v \<Rightarrow> Got v (moved r 4))"

definition rd_u64 :: "reader \<Rightarrow> (unit, 64 word) outcome" where
  "rd_u64 r =
     (if m_size r < size_add (m_position r) 8 then Refused ()
      else case read_le r [0..<8] 0 of None \<Rightarrow> OutOfBounds | Some v \<Rightarrow> Got v (moved r 8))"

definition rd_skip :: "nat \<Rightarrow> reader \<Rightarrow> (unit, unit) outcome" where
  "rd_skip n r =
     (if m_size r < size_add (m_position r) n then Refused () else Got () (moved r n))"

definition rd_str :: "reader \<Rightarrow> (unit, string) outcome" where
  "rd_str r =
     out_bind (rd_u32 r) (\<lambda>len r.
       let signedLength = sint len in
       if signedLength \<le> 0 then Got [] r
       else let n = nat signedLength in
         if m_size r < size_add (m_position r) n then Refused ()
         else if m_position r + n \<le> length (m_data r)
           then Got (map char_of_byte (take n (drop (m_position r) (m_data r)))) (moved r n)
           else OutOfBounds)"

text \<open>A \<open>for\<close> loop of reads that collects the values.\<close>

fun rd_times :: "nat \<Rightarrow> (reader \<Rightarrow> ('e, 'a) outcome) \<Rightarrow> reader \<Rightarrow> ('e, 'a list) outcome" where
  "rd_times 0 rd r = Got [] r"
| "rd_times (Suc n) rd r =
     out_bind (rd r) (\<lambda>x r. out_bind (rd_times n rd r) (\<lambda>xs r. Got (x # xs) r))"

section \<open>The abstract reader: the bytes that remain\<close>

text \<open>
  A datagram is an object in memory, so its size is below \<open>2 ^ 63\<close>; the position
  never passes the size.
\<close>

definition reader_ok :: "reader \<Rightarrow> bool" where
  "reader_ok r \<longleftrightarrow> m_position r \<le> m_size r \<and> m_size r \<le> length (m_data r) \<and> m_size r < 2 ^ 63"

definition remaining :: "reader \<Rightarrow> bytes" where
  "remaining r = take (m_size r - m_position r) (drop (m_position r) (m_data r))"

definition advance :: "reader \<Rightarrow> nat \<Rightarrow> reader" where
  "advance r n = r\<lparr>m_position := m_position r + n\<rparr>"

lemma new_reader_ok: "n \<le> length bs \<Longrightarrow> n < 2 ^ 63 \<Longrightarrow> reader_ok (new_reader bs n)"
  by (simp add: reader_ok_def new_reader_def)

lemma remaining_new_reader [simp]: "remaining (new_reader bs n) = take n bs"
  by (simp add: remaining_def new_reader_def)

lemma length_remaining: "reader_ok r \<Longrightarrow> length (remaining r) = m_size r - m_position r"
  by (auto simp: remaining_def reader_ok_def)

lemma reader_ok_advance [intro]:
  "reader_ok r \<Longrightarrow> n \<le> length (remaining r) \<Longrightarrow> reader_ok (advance r n)"
  by (auto simp: length_remaining) (auto simp: reader_ok_def advance_def)

lemma remaining_advance [simp]: "remaining (advance r n) = drop n (remaining r)"
  by (simp add: remaining_def advance_def drop_take add.commute)

lemma advance_simps [simp]:
  "advance (advance r m) n = advance r (m + n)"
  "advance r 0 = r"
  by (simp_all add: advance_def add.assoc)

lemma moved_eq: "reader_ok r \<Longrightarrow> n \<le> length (remaining r) \<Longrightarrow> moved r n = advance r n"
  by (simp add: length_remaining moved_def advance_def) (auto simp: reader_ok_def size_add_def)

lemma short_iff:
  "reader_ok r \<Longrightarrow> n < 2 ^ 63 \<Longrightarrow> m_size r < size_add (m_position r) n \<longleftrightarrow> length (remaining r) < n"
  by (simp add: length_remaining) (auto simp: reader_ok_def size_add_def)

lemma byte_at_remaining:
  assumes "reader_ok r" and "i < length (remaining r)"
  shows "byte_at r (size_add (m_position r) i) = Some (remaining r ! i)"
proof -
  have "m_position r + i < m_size r" using assms by (simp add: length_remaining)
  then show ?thesis using assms(1)
    by (simp add: byte_at_def reader_ok_def size_add_def remaining_def)
qed

lemma byte_at_position:
  "reader_ok r \<Longrightarrow> 0 < length (remaining r) \<Longrightarrow> byte_at r (m_position r) = Some (remaining r ! 0)"
  using byte_at_remaining [of r 0] by (simp add: size_add_def reader_ok_def)

section \<open>What every decoder promises\<close>

text \<open>
  Two runs of a decoder on buffers with the same bytes still to read (whatever else the
  buffers hold): neither reads out of bounds, both refuse with the same diagnostic or both
  give the same value after the same number of bytes. With both readers the same, this is
  memory safety; with different ones, it says that only the received bytes matter.
\<close>

definition same_view :: "reader \<Rightarrow> reader \<Rightarrow> bool" where
  "same_view r r' \<longleftrightarrow> reader_ok r \<and> reader_ok r' \<and> remaining r = remaining r'"

definition outcome_sim :: "reader \<Rightarrow> reader \<Rightarrow> ('e, 'a) outcome \<Rightarrow> ('e, 'a) outcome \<Rightarrow> bool" where
  "outcome_sim r r' m m' = (case m of
       Got x s \<Rightarrow> \<exists>n \<le> length (remaining r). s = advance r n \<and> m' = Got x (advance r' n)
     | Refused e \<Rightarrow> m' = Refused e
     | OutOfBounds \<Rightarrow> False)"

named_theorems sim_intros

lemma same_view_advance:
  "same_view r r' \<Longrightarrow> n \<le> length (remaining r) \<Longrightarrow> same_view (advance r n) (advance r' n)"
  by (auto simp: same_view_def)

lemma outcome_sim_Got [sim_intros]:
  "n \<le> length (remaining r) \<Longrightarrow> outcome_sim r r' (Got x (advance r n)) (Got x (advance r' n))"
  by (auto simp: outcome_sim_def)

lemma outcome_sim_return [sim_intros]: "outcome_sim r r' (Got x r) (Got x r')"
  using outcome_sim_Got [of 0 r r' x] by simp

lemma outcome_sim_Refused [sim_intros]: "outcome_sim r r' (Refused e) (Refused e)"
  by (simp add: outcome_sim_def)

lemma outcome_sim_bind [sim_intros]:
  assumes "same_view r r'" and "outcome_sim r r' m m'"
    and "\<And>x s s'. same_view s s' \<Longrightarrow> outcome_sim s s' (f x s) (f' x s')"
  shows "outcome_sim r r' (out_bind m f) (out_bind m' f')"
proof (cases m)
  case (Got x s)
  with assms(2) obtain n where n: "n \<le> length (remaining r)" "s = advance r n" "m' = Got x (advance r' n)"
    by (auto simp: outcome_sim_def)
  from assms(3) [OF same_view_advance [OF assms(1) n(1)], of x] show ?thesis
    using Got n
    by (auto simp: outcome_sim_def split: outcome.splits)
       (metis add.commute le_diff_conv2 length_drop)
qed (use assms(2) in \<open>auto simp: outcome_sim_def\<close>)

lemma outcome_sim_or_refuse [sim_intros]:
  "outcome_sim r r' m m' \<Longrightarrow> outcome_sim r r' (or_refuse m d) (or_refuse m' d)"
  by (cases m) (auto simp: outcome_sim_def)

lemma outcome_sim_if [sim_intros]:
  "(b \<Longrightarrow> outcome_sim r r' m m') \<Longrightarrow> (\<not> b \<Longrightarrow> outcome_sim r r' k k') \<Longrightarrow>
   outcome_sim r r' (if b then m else k) (if b then m' else k')"
  by simp

locale wire_reader =
  fixes rd :: "reader \<Rightarrow> ('e, 'a) outcome"
  assumes sim: "same_view r r' \<Longrightarrow> outcome_sim r r' (rd r) (rd r')"
begin

lemma times_sim: "same_view r r' \<Longrightarrow> outcome_sim r r' (rd_times n rd r) (rd_times n rd r')"
  by (induction n arbitrary: r r') (auto intro!: sim_intros sim)

lemma in_bounds: "reader_ok r \<Longrightarrow> rd r \<noteq> OutOfBounds"
  using sim [of r r] by (auto simp: outcome_sim_def same_view_def)

lemma got:
  assumes "reader_ok r" and "rd r = Got x r'"
  shows "\<exists>n \<le> length (remaining r). r' = advance r n"
  using sim [of r r] assms by (auto simp: outcome_sim_def same_view_def)

lemma moves_forward:
  assumes "reader_ok r" and "rd r = Got x r'"
  shows "reader_ok r'" and "m_data r' = m_data r" and "m_position r \<le> m_position r'"
    and "m_position r' \<le> m_size r"
proof -
  from got [OF assms] obtain n where n: "n \<le> length (remaining r)" "r' = advance r n" by auto
  with assms(1) show ok: "reader_ok r'" by auto
  show "m_data r' = m_data r" "m_position r \<le> m_position r'" using n by (auto simp: advance_def)
  show "m_position r' \<le> m_size r" using ok n by (auto simp: reader_ok_def advance_def)
qed

end

text \<open>
  A codec: on the values \<open>ok\<close> accepts, the encoder appends some bytes, and the decoder
  reads exactly those bytes back to the value.
\<close>

definition writes_as :: "(bytes \<Rightarrow> 'a \<Rightarrow> bytes result) \<Rightarrow> 'a \<Rightarrow> bytes \<Rightarrow> bool" where
  "writes_as enc x bs \<longleftrightarrow> (\<forall>out. enc out x = Inr (out @ bs))"

definition reads_back :: "(reader \<Rightarrow> ('e, 'a) outcome) \<Rightarrow> bytes \<Rightarrow> 'a \<Rightarrow> bool" where
  "reads_back rd bs x \<longleftrightarrow> (\<forall>r rest. reader_ok r \<longrightarrow> remaining r = bs @ rest \<longrightarrow>
     rd r = Got x (advance r (length bs)))"

lemma reads_backD:
  "reads_back rd bs x \<Longrightarrow> reader_ok r \<Longrightarrow> remaining r = bs @ rest \<Longrightarrow> rd r = Got x (advance r (length bs))"
  by (auto simp: reads_back_def)

text \<open>Reading \<open>bs\<close> and then continuing with what follows.\<close>

lemma reads_back_bind:
  assumes "reads_back rd bs x" and "reads_back (f x) bs' y"
  shows "reads_back (\<lambda>r. out_bind (rd r) f) (bs @ bs') y"
  unfolding reads_back_def
proof (intro allI impI)
  fix r rest assume ok: "reader_ok r" and rem: "remaining r = (bs @ bs') @ rest"
  then have "rd r = Got x (advance r (length bs))"
    by (intro reads_backD [OF assms(1), of _ "bs' @ rest"]) auto
  moreover have "f x (advance r (length bs)) = Got y (advance (advance r (length bs)) (length bs'))"
    using ok rem by (intro reads_backD [OF assms(2), of _ rest]) auto
  ultimately show "out_bind (rd r) f = Got y (advance r (length (bs @ bs')))" by simp
qed

lemma reads_back_return: "reads_back (Got x) [] x"
  by (simp add: reads_back_def)

locale wire_codec = wire_reader rd for rd :: "reader \<Rightarrow> ('e, 'a) outcome" +
  fixes enc :: "bytes \<Rightarrow> 'a \<Rightarrow> bytes result"
    and ok :: "'a \<Rightarrow> bool"
  assumes law: "ok x \<Longrightarrow> \<exists>bs. writes_as enc x bs \<and> reads_back rd bs x"
begin

lemma times_law:
  "(\<And>x. x \<in> set xs \<Longrightarrow> ok x) \<Longrightarrow>
   \<exists>bs. (\<forall>out. res_fold enc out xs = Inr (out @ bs)) \<and> reads_back (rd_times (length xs) rd) bs xs"
proof (induction xs)
  case Nil
  then show ?case by (intro exI [of _ "[]"]) (simp add: reads_back_def)
next
  case (Cons x xs)
  from Cons obtain bs' where bs': "\<forall>out. res_fold enc out xs = Inr (out @ bs')"
    "reads_back (rd_times (length xs) rd) bs' xs" by auto
  from law [of x] Cons.prems obtain bs where bs: "writes_as enc x bs" "reads_back rd bs x" by auto
  have w: "\<forall>out. res_fold enc out (x # xs) = Inr (out @ (bs @ bs'))"
    using bs(1) bs'(1) by (simp add: writes_as_def)
  have "reads_back (\<lambda>r. out_bind (rd_times (length xs) rd r) (\<lambda>xs. Got (x # xs))) (bs' @ []) (x # xs)"
    by (rule reads_back_bind [OF bs'(2)]) (rule reads_back_return)
  then have "reads_back (\<lambda>r. out_bind (rd r)
      (\<lambda>x r. out_bind (rd_times (length xs) rd r) (\<lambda>xs. Got (x # xs)))) (bs @ bs') (x # xs)"
    by (intro reads_back_bind [OF bs(2)]) simp
  moreover have "rd_times (length (x # xs)) rd =
      (\<lambda>r. out_bind (rd r) (\<lambda>x r. out_bind (rd_times (length xs) rd r) (\<lambda>xs. Got (x # xs))))"
    by (simp add: fun_eq_iff)
  ultimately have "reads_back (rd_times (length (x # xs)) rd) (bs @ bs') (x # xs)" by simp
  with w show ?case by blast
qed

lemma decodes_own_output:
  assumes "ok x" and "enc [] x = Inr bs" and "length bs < 2 ^ 63"
  shows "rd (new_reader bs (length bs)) = Got x (advance (new_reader bs (length bs)) (length bs))"
proof -
  from law [OF assms(1)] assms(2) have "reads_back rd bs x" by (auto simp: writes_as_def)
  then show ?thesis
    using new_reader_ok [of "length bs" bs] assms(3) by (intro reads_backD [of _ _ _ _ "[]"]) auto
qed

end

section \<open>The primitive reads and writes keep the promise\<close>

lemma remaining_split:
  assumes "n \<le> length (remaining r)"
  shows "remaining r = take n (remaining r) @ drop n (remaining r)" "length (take n (remaining r)) = n"
  using assms by simp_all

lemma rd_u8_eq:
  "reader_ok r \<Longrightarrow> rd_u8 r = (case remaining r of [] \<Rightarrow> Refused () | b # _ \<Rightarrow> Got b (advance r 1))"
  by (cases "remaining r")
     (auto simp: rd_u8_def short_iff byte_at_position moved_eq)

lemma rd_u16_eq:
  assumes "reader_ok r"
  shows "rd_u16 r =
     (if length (remaining r) < 2 then Refused ()
      else Got (ucast (remaining r ! 0) OR push_bit 8 (ucast (remaining r ! 1))) (advance r 2))"
proof (cases "length (remaining r) < 2")
  case True
  then show ?thesis using assms by (simp add: rd_u16_def short_iff)
next
  case False
  then have "0 < length (remaining r)" "1 < length (remaining r)" "2 \<le> length (remaining r)" by auto
  moreover have "\<not> m_size r < size_add (m_position r) 2" using assms False by (simp add: short_iff)
  ultimately show ?thesis using assms False
    by (simp only: rd_u16_def byte_at_position byte_at_remaining moved_eq) simp
qed

lemma read_le_eq:
  "reader_ok r \<Longrightarrow> (\<And>i. i \<in> set is \<Longrightarrow> i < length (remaining r)) \<Longrightarrow>
   read_le r is v = Some (foldl (\<lambda>v i. v OR push_bit (8 * i) (ucast (remaining r ! i))) v is)"
  by (induction "is" arbitrary: v) (simp_all add: byte_at_remaining)

lemma read_le_upt:
  "reader_ok r \<Longrightarrow> n \<le> length (remaining r) \<Longrightarrow>
   read_le r [0..<n] v = Some (foldl (\<lambda>v i. v OR push_bit (8 * i) (ucast (remaining r ! i))) v [0..<n])"
  by (rule read_le_eq) auto

lemma rd_u32_eq:
  "reader_ok r \<Longrightarrow> rd_u32 r =
     (if length (remaining r) < 4 then Refused ()
      else Got (foldl (\<lambda>v i. v OR push_bit (8 * i) (ucast (remaining r ! i))) 0 [0..<4]) (advance r 4))"
  by (cases "4 \<le> length (remaining r)") (simp_all add: rd_u32_def short_iff read_le_upt moved_eq not_le)

lemma rd_u64_eq:
  "reader_ok r \<Longrightarrow> rd_u64 r =
     (if length (remaining r) < 8 then Refused ()
      else Got (foldl (\<lambda>v i. v OR push_bit (8 * i) (ucast (remaining r ! i))) 0 [0..<8]) (advance r 8))"
  by (cases "8 \<le> length (remaining r)") (simp_all add: rd_u64_def short_iff read_le_upt moved_eq not_le)

lemma rd_skip_eq:
  "reader_ok r \<Longrightarrow> n < 2 ^ 63 \<Longrightarrow> rd_skip n r =
     (if length (remaining r) < n then Refused () else Got () (advance r n))"
  by (cases "n \<le> length (remaining r)") (simp_all add: rd_skip_def short_iff moved_eq not_le)

lemma sint_32_bound: "nat (sint (w :: 32 word)) < 2 ^ 31"
  using sint_less [of w] by simp

lemma rd_str_guard:
  assumes "reader_ok r" and "n < 2 ^ 31"
  shows "(if m_size r < size_add (m_position r) n then Refused ()
          else if m_position r + n \<le> length (m_data r)
            then Got (map char_of_byte (take n (drop (m_position r) (m_data r)))) (moved r n)
            else OutOfBounds)
       = (if length (remaining r) < n then Refused ()
          else Got (map char_of_byte (take n (remaining r))) (advance r n))"
proof (cases "length (remaining r) < n")
  case True
  then show ?thesis using assms by (simp add: short_iff)
next
  case False
  then have "n \<le> m_size r - m_position r" using assms(1) by (simp add: length_remaining)
  moreover have "m_position r \<le> m_size r" "m_size r \<le> length (m_data r)"
    using assms(1) by (auto simp: reader_ok_def)
  ultimately have "m_position r + n \<le> length (m_data r)"
    "take n (drop (m_position r) (m_data r)) = take n (remaining r)"
    by (auto simp: remaining_def min_def)
  then show ?thesis using assms False by (simp add: short_iff moved_eq not_less)
qed

lemma rd_str_eq:
  assumes "reader_ok r"
  shows "rd_str r = out_bind (rd_u32 r) (\<lambda>len r.
      if sint len \<le> 0 then Got [] r
      else if length (remaining r) < nat (sint len) then Refused ()
      else Got (map char_of_byte (take (nat (sint len)) (remaining r))) (advance r (nat (sint len))))"
proof (cases "length (remaining r) < 4")
  case True
  then show ?thesis using assms by (simp add: rd_str_def rd_u32_eq)
next
  case False
  then have ok: "reader_ok (advance r 4)" using assms by auto
  show ?thesis
    unfolding rd_str_def rd_u32_eq [OF assms] Let_def rd_str_guard [OF ok sint_32_bound]
    using False by (simp add: rd_str_guard [OF ok sint_32_bound])
qed

text \<open>Each primitive is a codec for every value of its width.\<close>

lemma low_byte: "(v :: 'a::len word) AND 0xFF = take_bit 8 v"
proof -
  have "(0xFF :: 'a word) = mask 8" by (simp add: mask_eq_exp_minus_1)
  then show ?thesis by (simp add: take_bit_eq_mask)
qed

interpretation u8: wire_codec rd_u8 "\<lambda>out v. Inr (putU8 out v)" "\<lambda>_. True"
proof unfold_locales
  fix r r' assume "same_view r r'"
  then show "outcome_sim r r' (rd_u8 r) (rd_u8 r')"
    by (auto simp: same_view_def rd_u8_eq Suc_le_eq intro!: sim_intros split: list.split)
next
  fix x show "\<exists>bs. writes_as (\<lambda>out v. Inr (putU8 out v)) x bs \<and> reads_back rd_u8 bs x"
    by (intro exI [of _ "[x]"]) (auto simp: writes_as_def reads_back_def putU8_def rd_u8_eq)
qed

definition u16_bytes :: "16 word \<Rightarrow> bytes" where
  "u16_bytes v = [ucast (v AND 0xFF), ucast (drop_bit 8 v AND 0xFF)]"

lemma u16_bytes_value:
  "ucast (u16_bytes v ! 0) OR push_bit 8 (ucast (u16_bytes v ! 1)) = v"
  unfolding u16_bytes_def low_byte by (rule bit_word_eqI) (auto simp: bit_simps)

lemma reads_back_u16: "reads_back rd_u16 (u16_bytes v) v"
  unfolding reads_back_def
proof (intro allI impI)
  fix r rest assume r: "reader_ok r" "remaining r = u16_bytes v @ rest"
  have len: "length (u16_bytes v) = 2" by (simp add: u16_bytes_def)
  have "remaining r ! 0 = u16_bytes v ! 0" "remaining r ! 1 = u16_bytes v ! 1"
    using r(2) by (simp_all add: u16_bytes_def)
  then show "rd_u16 r = Got v (advance r (length (u16_bytes v)))"
    using r u16_bytes_value [of v] len by (simp add: rd_u16_eq)
qed

interpretation u16: wire_codec rd_u16 "\<lambda>out v. Inr (putU16 out v)" "\<lambda>_. True"
proof unfold_locales
  fix r r' assume "same_view r r'"
  then show "outcome_sim r r' (rd_u16 r) (rd_u16 r')"
    by (auto simp: same_view_def rd_u16_eq intro!: sim_intros)
next
  fix x show "\<exists>bs. writes_as (\<lambda>out v. Inr (putU16 out v)) x bs \<and> reads_back rd_u16 bs x"
    by (intro exI [of _ "u16_bytes x"])
       (simp add: writes_as_def reads_back_u16, simp add: putU16_def u16_bytes_def)
qed

definition le_bytes :: "nat \<Rightarrow> 'a::len word \<Rightarrow> bytes" where
  "le_bytes n v = map (\<lambda>i. ucast (drop_bit (8 * i) v AND 0xFF)) [0..<n]"

lemma length_le_bytes [simp]: "length (le_bytes n v) = n"
  by (simp add: le_bytes_def)

lemma le_bytes_4:
  "le_bytes 4 v = [ucast (v AND 0xFF), ucast (drop_bit 8 v AND 0xFF), ucast (drop_bit 16 v AND 0xFF),
     ucast (drop_bit 24 v AND 0xFF)]"
  by (simp add: le_bytes_def upt_rec)

lemma foldl_append_map: "foldl (\<lambda>out i. out @ [f i]) out is = out @ map f is"
  by (induction "is" arbitrary: out) auto

lemma bit_foldl_bytes:
  fixes v :: "'a::len word"
  shows "bit (foldl (\<lambda>v i. v OR push_bit (8 * i) (ucast (bs i :: byte))) v is) n
   \<longleftrightarrow> bit v n \<or> (\<exists>i\<in>set is. bit (push_bit (8 * i) (ucast (bs i) :: 'a word)) n)"
  by (induction "is" arbitrary: v) (auto simp: bit_or_iff)

lemma foldl_le_bytes:
  fixes v :: "'a::len word"
  assumes "LENGTH('a) = 8 * n"
  shows "foldl (\<lambda>w i. w OR push_bit (8 * i) (ucast (le_bytes n v ! i))) 0 [0..<n] = v"
proof -
  have *: "foldl (\<lambda>w i. w OR push_bit (8 * i) (ucast (le_bytes n v ! i))) (0 :: 'a word) [0..<n]
      = foldl (\<lambda>w i. w OR push_bit (8 * i) (ucast (ucast (take_bit 8 (drop_bit (8 * i) v)) :: byte))) (0 :: 'a word) [0..<n]"
    by (rule foldl_cong) (simp_all add: le_bytes_def low_byte)
  show ?thesis unfolding *
  proof (rule bit_word_eqI)
    fix k assume k: "k < LENGTH('a)"
    have "k div 8 < n" using k assms by (simp add: less_mult_imp_div_less mult.commute)
    moreover have "8 * (k div 8) \<le> k" "k - 8 * (k div 8) < 8" by presburger+
    moreover have "8 * i \<le> k \<Longrightarrow> k - 8 * i < 8 \<Longrightarrow> 8 * i + (k - 8 * i) = k" for i by simp
    ultimately show "bit (foldl (\<lambda>w i. w OR push_bit (8 * i)
        (ucast (ucast (take_bit 8 (drop_bit (8 * i) v)) :: byte))) (0 :: 'a word) [0..<n]) k = bit v k"
      unfolding bit_foldl_bytes using k
      by (auto simp: bit_simps intro!: bexI [of _ "k div 8"])
  qed
qed

lemma reads_back_u32: "reads_back rd_u32 (le_bytes 4 v) v"
  unfolding reads_back_def
proof (intro allI impI)
  fix r rest assume r: "reader_ok r" "remaining r = le_bytes 4 v @ rest"
  have "foldl (\<lambda>w i. w OR push_bit (8 * i) (ucast (remaining r ! i))) 0 [0..<4]
      = foldl (\<lambda>w i. w OR push_bit (8 * i) (ucast (le_bytes 4 v ! i))) (0 :: 32 word) [0..<4]"
    by (rule foldl_cong) (simp_all add: r(2) nth_append)
  then show "rd_u32 r = Got v (advance r (length (le_bytes 4 v)))"
    using r foldl_le_bytes [of 4 v] by (simp add: rd_u32_eq)
qed

lemma reads_back_u64: "reads_back rd_u64 (le_bytes 8 v) v"
  unfolding reads_back_def
proof (intro allI impI)
  fix r rest assume r: "reader_ok r" "remaining r = le_bytes 8 v @ rest"
  have "foldl (\<lambda>w i. w OR push_bit (8 * i) (ucast (remaining r ! i))) 0 [0..<8]
      = foldl (\<lambda>w i. w OR push_bit (8 * i) (ucast (le_bytes 8 v ! i))) (0 :: 64 word) [0..<8]"
    by (rule foldl_cong) (simp_all add: r(2) nth_append)
  then show "rd_u64 r = Got v (advance r (length (le_bytes 8 v)))"
    using r foldl_le_bytes [of 8 v] by (simp add: rd_u64_eq)
qed

lemma put_le_bytes: "putU32 out v = out @ le_bytes 4 v" "putU64 out w = out @ le_bytes 8 w"
  by (simp_all only: putU32_def putU64_def foldl_append_map le_bytes_def)

interpretation u32: wire_codec rd_u32 "\<lambda>out v. Inr (putU32 out v)" "\<lambda>_. True"
proof unfold_locales
  fix r r' assume "same_view r r'"
  then show "outcome_sim r r' (rd_u32 r) (rd_u32 r')" by (auto simp: same_view_def rd_u32_eq intro!: sim_intros)
next
  fix x show "\<exists>bs. writes_as (\<lambda>out v. Inr (putU32 out v)) x bs \<and> reads_back rd_u32 bs x"
    by (intro exI [of _ "le_bytes 4 x"]) (simp add: writes_as_def reads_back_u32 put_le_bytes)
qed

interpretation u64: wire_codec rd_u64 "\<lambda>out v. Inr (putU64 out v)" "\<lambda>_. True"
proof unfold_locales
  fix r r' assume "same_view r r'"
  then show "outcome_sim r r' (rd_u64 r) (rd_u64 r')" by (auto simp: same_view_def rd_u64_eq intro!: sim_intros)
next
  fix x show "\<exists>bs. writes_as (\<lambda>out v. Inr (putU64 out v)) x bs \<and> reads_back rd_u64 bs x"
    by (intro exI [of _ "le_bytes 8 x"]) (simp add: writes_as_def reads_back_u64 put_le_bytes)
qed

text \<open>A string is written with its length as an \<open>int32_t\<close>, so up to \<open>2 ^ 31 - 1\<close> bytes.\<close>

lemma sint_word_of_nat_32: "n < 2 ^ 31 \<Longrightarrow> sint (word_of_nat n :: 32 word) = int n"
  by (simp add: signed_of_nat signed_take_bit_int_eq_self)

interpretation str: wire_codec rd_str "\<lambda>out s. Inr (putString out s)" "\<lambda>s. length s < 2 ^ 31"
proof unfold_locales
  fix r r' assume "same_view r r'"
  then show "outcome_sim r r' (rd_str r) (rd_str r')"
    using rd_str_eq by (auto simp: same_view_def [of r r'] rd_str_eq intro!: outcome_sim_bind u32.sim)
      (auto simp: same_view_def intro!: sim_intros)
next
  fix s :: string assume s: "length s < 2 ^ 31"
  define len :: "32 word" where "len = word_of_nat (length s)"
  define body where "body = (\<lambda>(len :: 32 word) r. if sint len \<le> 0 then Got [] r
      else if length (remaining r) < nat (sint len) then Refused ()
      else Got (map char_of_byte (take (nat (sint len)) (remaining r))) (advance r (nat (sint len))))"
  have "reads_back (body len) (map byte_of_char s) s"
    unfolding body_def len_def sint_word_of_nat_32 [OF s] reads_back_def by auto
  then have "reads_back (\<lambda>r. out_bind (rd_u32 r) body) (le_bytes 4 len @ map byte_of_char s) s"
    by (rule reads_back_bind [OF reads_back_u32])
  then have "reads_back rd_str (le_bytes 4 len @ map byte_of_char s) s"
    by (auto simp: reads_back_def rd_str_eq body_def)
  then show "\<exists>bs. writes_as (\<lambda>out s. Inr (putString out s)) s bs \<and> reads_back rd_str bs s"
    by (intro exI [of _ "le_bytes 4 len @ map byte_of_char s"])
       (simp add: writes_as_def putString_def put_le_bytes len_def)
qed


end
