(* ===== verification/WireEncode.thy ===== *)
theory WireEncode
  imports WireBytes
begin

text \<open>
  The UADP encoder of \<open>PubSub/src/PubSubWire.cpp\<close>: the flag bytes of the format and the
  functions \<open>encodeVariant\<close>, \<open>encodeScalarBody\<close>, \<open>encodeDataSetMessage\<close> and
  \<open>encodeNetworkMessage\<close>. Each function appends to the output it is given, as the source
  does through its reference argument, and every \<open>throw\<close> is an \<open>Inl\<close> with the
  message of the exception.
\<close>

section \<open>Flags\<close>

definition UadpVersion :: byte where "UadpVersion = 1"

definition NmPublisherIdEnabled :: byte where "NmPublisherIdEnabled = 16"
definition NmGroupHeaderEnabled :: byte where "NmGroupHeaderEnabled = 32"
definition NmPayloadHeaderEnabled :: byte where "NmPayloadHeaderEnabled = 64"
definition NmExtendedFlags1 :: byte where "NmExtendedFlags1 = 128"

definition Ext1PublisherIdTypeMask :: byte where "Ext1PublisherIdTypeMask = 7"
definition Ext1DataSetClassIdEnabled :: byte where "Ext1DataSetClassIdEnabled = 8"
definition Ext1SecurityEnabled :: byte where "Ext1SecurityEnabled = 16"
definition Ext1TimestampEnabled :: byte where "Ext1TimestampEnabled = 32"
definition Ext1PicosecondsEnabled :: byte where "Ext1PicosecondsEnabled = 64"
definition Ext1ExtendedFlags2 :: byte where "Ext1ExtendedFlags2 = 128"

definition Ext2ChunkMessage :: byte where "Ext2ChunkMessage = 1"
definition Ext2PromotedFieldsEnabled :: byte where "Ext2PromotedFieldsEnabled = 2"
definition Ext2NetworkMessageTypeMask :: byte where "Ext2NetworkMessageTypeMask = 28"

definition GroupWriterGroupIdEnabled :: byte where "GroupWriterGroupIdEnabled = 1"
definition GroupGroupVersionEnabled :: byte where "GroupGroupVersionEnabled = 2"
definition GroupNetworkMessageNumberEnabled :: byte where "GroupNetworkMessageNumberEnabled = 4"
definition GroupSequenceNumberEnabled :: byte where "GroupSequenceNumberEnabled = 8"

definition DsmValid :: byte where "DsmValid = 1"
definition DsmFieldEncodingMask :: byte where "DsmFieldEncodingMask = 6"
definition DsmSequenceNumberEnabled :: byte where "DsmSequenceNumberEnabled = 8"
definition DsmStatusEnabled :: byte where "DsmStatusEnabled = 16"
definition DsmConfigMajorEnabled :: byte where "DsmConfigMajorEnabled = 32"
definition DsmConfigMinorEnabled :: byte where "DsmConfigMinorEnabled = 64"
definition DsmFlags2Enabled :: byte where "DsmFlags2Enabled = 128"

definition Dsm2TypeMask :: byte where "Dsm2TypeMask = 15"
definition Dsm2TimestampEnabled :: byte where "Dsm2TimestampEnabled = 16"
definition Dsm2PicosecondsEnabled :: byte where "Dsm2PicosecondsEnabled = 32"

definition FieldEncodingVariant :: byte where "FieldEncodingVariant = 0"
definition FieldEncodingRawData :: byte where "FieldEncodingRawData = 1"

definition DsmTypeKeyFrame :: byte where "DsmTypeKeyFrame = 0"
definition DsmTypeKeepAlive :: byte where "DsmTypeKeepAlive = 3"

definition VariantArrayDimensionsFlag :: byte where "VariantArrayDimensionsFlag = 0x40"
definition VariantArrayValuesFlag :: byte where "VariantArrayValuesFlag = 0x80"

lemmas wire_flags = UadpVersion_def NmPublisherIdEnabled_def NmGroupHeaderEnabled_def
  NmPayloadHeaderEnabled_def NmExtendedFlags1_def Ext1PublisherIdTypeMask_def
  Ext1DataSetClassIdEnabled_def Ext1SecurityEnabled_def Ext1TimestampEnabled_def
  Ext1PicosecondsEnabled_def Ext1ExtendedFlags2_def Ext2ChunkMessage_def
  Ext2PromotedFieldsEnabled_def Ext2NetworkMessageTypeMask_def GroupWriterGroupIdEnabled_def
  GroupGroupVersionEnabled_def GroupNetworkMessageNumberEnabled_def GroupSequenceNumberEnabled_def
  DsmValid_def DsmFieldEncodingMask_def DsmSequenceNumberEnabled_def DsmStatusEnabled_def
  DsmConfigMajorEnabled_def DsmConfigMinorEnabled_def DsmFlags2Enabled_def Dsm2TypeMask_def
  Dsm2TimestampEnabled_def Dsm2PicosecondsEnabled_def FieldEncodingVariant_def
  FieldEncodingRawData_def DsmTypeKeyFrame_def DsmTypeKeepAlive_def
  VariantArrayDimensionsFlag_def VariantArrayValuesFlag_def

section \<open>Values\<close>

fun encodeScalarBody :: "bytes \<Rightarrow> wire_value \<Rightarrow> bytes result" where
  "encodeScalarBody out v = (case m_type v of
       TypeNull \<Rightarrow> Inr out
     | TypeBoolean \<Rightarrow> Inr (putU8 out (if boolValue v then 1 else 0))
     | TypeSByte \<Rightarrow> Inr (putU8 out (ucast (m_int v)))
     | TypeByte \<Rightarrow> Inr (putU8 out (ucast (m_uint v)))
     | TypeInt16 \<Rightarrow> Inr (putU16 out (ucast (m_int v)))
     | TypeUInt16 \<Rightarrow> Inr (putU16 out (ucast (m_uint v)))
     | TypeInt32 \<Rightarrow> Inr (putU32 out (ucast (m_int v)))
     | TypeUInt32 \<Rightarrow> Inr (putU32 out (ucast (m_uint v)))
     | TypeInt64 \<Rightarrow> Inr (putU64 out (m_int v))
     | TypeUInt64 \<Rightarrow> Inr (putU64 out (m_uint v))
     | TypeFloat \<Rightarrow> Inr (putU32 out (f64_to_f32 (m_float v)))
     | TypeDouble \<Rightarrow> Inr (putU64 out (m_float v))
     | TypeString \<Rightarrow> Inr (putString out (m_string v))
     | TypeDateTime \<Rightarrow> Inr (putU64 out (m_int v))
     | TypeUnnamed _ \<Rightarrow> Inl ''PubSub wire encoder: unsupported field type'')"

declare encodeScalarBody.simps [simp del]

text \<open>The body of the element loop of \<open>encodeVariant\<close>.\<close>

definition encodeElement :: "builtin_type \<Rightarrow> bytes \<Rightarrow> wire_value \<Rightarrow> bytes result" where
  "encodeElement t out e =
     (if m_type e \<noteq> t \<or> m_isArray e then Inl ''PubSub wire encoder: mixed-type array''
      else encodeScalarBody out e)"

definition encodeVariant :: "bytes \<Rightarrow> wire_value \<Rightarrow> bytes result" where
  "encodeVariant out v =
     (if m_isArray v then
        if 0xFFFFFF < length (m_elements v) then Inl ''PubSub wire encoder: array too large''
        else let out = putU8 out (type_code (m_type v) OR VariantArrayValuesFlag);
                 out = putU32 out (word_of_nat (length (m_elements v)))
             in res_fold (encodeElement (m_type v)) out (m_elements v)
      else let out = putU8 out (type_code (m_type v)) in encodeScalarBody out v)"

section \<open>Messages\<close>

definition encodeDataSetMessage :: "bytes \<Rightarrow> data_set_message \<Rightarrow> bytes result" where
  "encodeDataSetMessage out m =
     (let flags1 = DsmValid OR push_bit 1 FieldEncodingVariant;
          flags1 = (if dsm_sequenceNumberEnabled m then flags1 OR DsmSequenceNumberEnabled else flags1);
          out = putU8 out flags1;
          out = (if dsm_sequenceNumberEnabled m then putU16 out (dsm_sequenceNumber m) else out);
          out = putU16 out (word_of_nat (length (dsm_fields m)))
      in res_fold encodeVariant out (dsm_fields m))"

definition encodePublisherId :: "bytes \<Rightarrow> publisher_id_type \<Rightarrow> 64 word \<Rightarrow> bytes" where
  "encodePublisherId out t pid = (case t of
       PublisherIdByte \<Rightarrow> putU8 out (ucast pid)
     | PublisherIdUInt16 \<Rightarrow> putU16 out (ucast pid)
     | PublisherIdUInt32 \<Rightarrow> putU32 out (ucast pid)
     | PublisherIdUInt64 \<Rightarrow> putU64 out pid)"

definition encodeGroupHeader :: "bytes \<Rightarrow> network_message \<Rightarrow> bytes" where
  "encodeGroupHeader out m =
     (let g = 0;
          g = (if nm_writerGroupIdEnabled m then g OR GroupWriterGroupIdEnabled else g);
          g = (if nm_groupSequenceNumberEnabled m then g OR GroupSequenceNumberEnabled else g);
          out = putU8 out g;
          out = (if nm_writerGroupIdEnabled m then putU16 out (nm_writerGroupId m) else out)
      in if nm_groupSequenceNumberEnabled m then putU16 out (nm_groupSequenceNumber m) else out)"

definition encodeHeader :: "bytes \<Rightarrow> network_message \<Rightarrow> bytes" where
  "encodeHeader out m =
     (let groupHeaderEnabled = (nm_writerGroupIdEnabled m \<or> nm_groupSequenceNumberEnabled m);
          extendedFlags1 = (nm_publisherIdType m \<noteq> PublisherIdByte);
          flags = UadpVersion OR NmPublisherIdEnabled OR NmPayloadHeaderEnabled;
          flags = (if groupHeaderEnabled then flags OR NmGroupHeaderEnabled else flags);
          flags = (if extendedFlags1 then flags OR NmExtendedFlags1 else flags);
          out = putU8 out flags;
          out = (if extendedFlags1 then putU8 out (publisher_id_type_code (nm_publisherIdType m)) else out);
          out = encodePublisherId out (nm_publisherIdType m) (nm_publisherId m)
      in if groupHeaderEnabled then encodeGroupHeader out m else out)"

text \<open>The loop over the message bodies, each into a vector of its own.\<close>

fun encodeBodies :: "data_set_message list \<Rightarrow> bytes list result" where
  "encodeBodies [] = Inr []"
| "encodeBodies (m # ms) =
     res_bind (encodeDataSetMessage [] m) (\<lambda>b. res_bind (encodeBodies ms) (\<lambda>bs. Inr (b # bs)))"

definition putBodySize :: "bytes \<Rightarrow> bytes \<Rightarrow> bytes result" where
  "putBodySize out b =
     (if 0xFFFF < length b then Inl ''PubSub wire encoder: DataSetMessage too large''
      else Inr (putU16 out (word_of_nat (length b))))"

definition encodeNetworkMessage :: "network_message \<Rightarrow> bytes result" where
  "encodeNetworkMessage m =
     (if nm_messages m = [] then Inl ''PubSub wire encoder: no DataSetMessages to encode''
      else if 255 < length (nm_messages m)
        then Inl ''PubSub wire encoder: too many DataSetMessages for one NetworkMessage''
      else
        let out = encodeHeader [] m;
            out = putU8 out (word_of_nat (length (nm_messages m)));
            out = foldl (\<lambda>out d. putU16 out (dsm_dataSetWriterId d)) out (nm_messages m)
        in res_bind (encodeBodies (nm_messages m)) (\<lambda>bodies.
           res_bind (if 1 < length (nm_messages m) then res_fold putBodySize out bodies else Inr out)
             (\<lambda>out. Inr (out @ concat bodies))))"

end
