(* ===== verification/WireDecode.thy ===== *)
theory WireDecode
  imports WireEncode
begin

text \<open>
  The UADP decoder of \<open>PubSub/src/PubSubWire.cpp\<close>. A refusal carries the diagnostic the
  source reports. What the source leaves in its output parameter after a refusal is not
  modelled: its callers discard it. On success the whole output is, including the members
  that keep the values the caller passed in.
\<close>

section \<open>Values\<close>

definition decodeScalarBody :: "byte \<Rightarrow> reader \<Rightarrow> (string, wire_value) outcome" where
  "decodeScalarBody type r = (case builtin_of_code type of
       TypeNull \<Rightarrow> Got makeNull r
     | TypeBoolean \<Rightarrow> out_bind (or_refuse (rd_u8 r) ''truncated Boolean'')
         (\<lambda>v. Got (makeBoolean (v \<noteq> 0)))
     | TypeSByte \<Rightarrow> out_bind (or_refuse (rd_u8 r) ''truncated SByte'')
         (\<lambda>v. Got (makeSigned TypeSByte (scast v)))
     | TypeByte \<Rightarrow> out_bind (or_refuse (rd_u8 r) ''truncated Byte'')
         (\<lambda>v. Got (makeUnsigned TypeByte (ucast v)))
     | TypeInt16 \<Rightarrow> out_bind (or_refuse (rd_u16 r) ''truncated Int16'')
         (\<lambda>v. Got (makeSigned TypeInt16 (scast v)))
     | TypeUInt16 \<Rightarrow> out_bind (or_refuse (rd_u16 r) ''truncated UInt16'')
         (\<lambda>v. Got (makeUnsigned TypeUInt16 (ucast v)))
     | TypeInt32 \<Rightarrow> out_bind (or_refuse (rd_u32 r) ''truncated Int32'')
         (\<lambda>v. Got (makeSigned TypeInt32 (scast v)))
     | TypeUInt32 \<Rightarrow> out_bind (or_refuse (rd_u32 r) ''truncated UInt32'')
         (\<lambda>v. Got (makeUnsigned TypeUInt32 (ucast v)))
     | TypeInt64 \<Rightarrow> out_bind (or_refuse (rd_u64 r) ''truncated Int64'')
         (\<lambda>v. Got (makeSigned TypeInt64 v))
     | TypeUInt64 \<Rightarrow> out_bind (or_refuse (rd_u64 r) ''truncated UInt64'')
         (\<lambda>v. Got (makeUnsigned TypeUInt64 v))
     | TypeFloat \<Rightarrow> out_bind (or_refuse (rd_u32 r) ''truncated Float'')
         (\<lambda>bits. Got (makeFloat bits))
     | TypeDouble \<Rightarrow> out_bind (or_refuse (rd_u64 r) ''truncated Double'')
         (\<lambda>bits. Got (makeDouble bits))
     | TypeString \<Rightarrow> out_bind (or_refuse (rd_str r) ''truncated String'')
         (\<lambda>s. Got (makeString s))
     | TypeDateTime \<Rightarrow> out_bind (or_refuse (rd_u64 r) ''truncated DateTime'')
         (\<lambda>v. Got (makeDateTime v))
     | TypeUnnamed c \<Rightarrow> Refused (''unsupported variant type '' @ nat_to_string (unat c)))"

definition decodeElements :: "byte \<Rightarrow> int \<Rightarrow> reader \<Rightarrow> (string, wire_value list) outcome" where
  "decodeElements elementType len r =
     (if 0 < len then
        if 1000000 < len then Refused ''array length is implausible''
        else rd_times (nat len) (decodeScalarBody elementType) r
      else Got [] r)"

definition decodeVariant :: "reader \<Rightarrow> (string, wire_value) outcome" where
  "decodeVariant r =
     out_bind (or_refuse (rd_u8 r) ''truncated variant mask'') (\<lambda>mask r.
       if mask AND VariantArrayDimensionsFlag \<noteq> 0
         then Refused ''multi-dimensional arrays are not supported''
       else if mask AND VariantArrayValuesFlag \<noteq> 0 then
         let elementType = mask AND 0x3F in
         out_bind (or_refuse (rd_u32 r) ''truncated array length'') (\<lambda>rawLength r.
           out_bind (decodeElements elementType (sint rawLength) r) (\<lambda>elements.
             Got (makeArray (builtin_of_code elementType) elements)))
       else decodeScalarBody (mask AND 0x3F) r)"

text \<open>\<open>if (present && !reader.skip(n)) { diagnostic = d; return false; }\<close>\<close>

definition skip_if :: "bool \<Rightarrow> nat \<Rightarrow> string \<Rightarrow> reader \<Rightarrow> (string, unit) outcome" where
  "skip_if present n d r = (if present then or_refuse (rd_skip n r) d else Got () r)"

definition decodeDataValueField :: "reader \<Rightarrow> (string, wire_value) outcome" where
  "decodeDataValueField r =
     out_bind (or_refuse (rd_u8 r) ''truncated DataValue mask'') (\<lambda>mask r.
     out_bind (if mask AND 1 \<noteq> 0 then decodeVariant r else Got makeNull r) (\<lambda>out r.
     out_bind (skip_if (mask AND 2 \<noteq> 0) 4 ''truncated DataValue status'' r) (\<lambda>_ r.
     out_bind (skip_if (mask AND 4 \<noteq> 0) 8 ''truncated DataValue source timestamp'' r) (\<lambda>_ r.
     out_bind (skip_if (mask AND 8 \<noteq> 0) 8 ''truncated DataValue server timestamp'' r) (\<lambda>_ r.
     out_bind (skip_if (mask AND 16 \<noteq> 0) 2 ''truncated DataValue source picoseconds'' r) (\<lambda>_ r.
     out_bind (skip_if (mask AND 32 \<noteq> 0) 2 ''truncated DataValue server picoseconds'' r) (\<lambda>_ r.
       Got out r)))))))"

section \<open>Data set messages\<close>

text \<open>The optional second flag byte: message type, timestamp and picoseconds present.\<close>

definition decodeFlags2 :: "byte \<Rightarrow> reader \<Rightarrow> (string, byte \<times> bool \<times> bool) outcome" where
  "decodeFlags2 flags1 r =
     (if flags1 AND DsmFlags2Enabled \<noteq> 0 then
        out_bind (or_refuse (rd_u8 r) ''truncated DataSetFlags2'') (\<lambda>flags2.
          Got (flags2 AND Dsm2TypeMask, flags2 AND Dsm2TimestampEnabled \<noteq> 0,
               flags2 AND Dsm2PicosecondsEnabled \<noteq> 0))
      else Got (DsmTypeKeyFrame, False, False) r)"

definition decodeSequenceNumber ::
    "byte \<Rightarrow> data_set_message \<Rightarrow> reader \<Rightarrow> (string, data_set_message) outcome" where
  "decodeSequenceNumber flags1 out r =
     (if flags1 AND DsmSequenceNumberEnabled \<noteq> 0 then
        out_bind (or_refuse (rd_u16 r) ''truncated DataSetMessage sequence number'') (\<lambda>v.
          Got (out\<lparr>dsm_sequenceNumberEnabled := True, dsm_sequenceNumber := v\<rparr>))
      else Got out r)"

definition decodeFields ::
    "byte \<Rightarrow> data_set_message \<Rightarrow> reader \<Rightarrow> (string, data_set_message) outcome" where
  "decodeFields fieldEncoding out r =
     out_bind (or_refuse (rd_u16 r) ''truncated field count'') (\<lambda>fieldCount r.
     out_bind (rd_times (unat fieldCount)
        (if fieldEncoding = FieldEncodingVariant then decodeVariant else decodeDataValueField) r)
      (\<lambda>values. Got (out\<lparr>dsm_fields := dsm_fields out @ values\<rparr>)))"

definition decodeDataSetMessage ::
    "data_set_message \<Rightarrow> reader \<Rightarrow> (string, data_set_message) outcome" where
  "decodeDataSetMessage out r =
     out_bind (or_refuse (rd_u8 r) ''truncated DataSetFlags1'') (\<lambda>flags1 r.
     let fieldEncoding = drop_bit 1 (flags1 AND DsmFieldEncodingMask) in
     out_bind (decodeFlags2 flags1 r) (\<lambda>(messageType, timestampPresent, picosecondsPresent) r.
     out_bind (decodeSequenceNumber flags1 out r) (\<lambda>out r.
     out_bind (skip_if timestampPresent 8 ''truncated DataSetMessage timestamp'' r) (\<lambda>_ r.
     out_bind (skip_if picosecondsPresent 2 ''truncated DataSetMessage picoseconds'' r) (\<lambda>_ r.
     out_bind (skip_if (flags1 AND DsmStatusEnabled \<noteq> 0) 2 ''truncated DataSetMessage status'' r) (\<lambda>_ r.
     out_bind (skip_if (flags1 AND DsmConfigMajorEnabled \<noteq> 0) 4 ''truncated config major version'' r) (\<lambda>_ r.
     out_bind (skip_if (flags1 AND DsmConfigMinorEnabled \<noteq> 0) 4 ''truncated config minor version'' r) (\<lambda>_ r.
       if messageType = DsmTypeKeepAlive then Got (out\<lparr>dsm_keepAlive := True\<rparr>) r
       else if messageType \<noteq> DsmTypeKeyFrame
         then Refused (''unsupported DataSetMessage type '' @ nat_to_string (unat messageType))
       else if fieldEncoding = FieldEncodingRawData
         then Refused ''RawData field encoding is not supported''
       else decodeFields fieldEncoding out r))))))))"

section \<open>Network messages\<close>

text \<open>What the extended flags say: publisher id type and which optional parts are present.\<close>

record extended_flags =
  ef_publisherIdType :: byte
  ef_dataSetClassIdPresent :: bool
  ef_securityPresent :: bool
  ef_timestampPresent :: bool
  ef_picosecondsPresent :: bool
  ef_promotedFieldsPresent :: bool

definition no_extended_flags :: extended_flags where
  "no_extended_flags = \<lparr>ef_publisherIdType = publisher_id_type_code PublisherIdByte,
     ef_dataSetClassIdPresent = False, ef_securityPresent = False, ef_timestampPresent = False,
     ef_picosecondsPresent = False, ef_promotedFieldsPresent = False\<rparr>"

definition decodeExtendedFlags2 ::
    "extended_flags \<Rightarrow> reader \<Rightarrow> (string, extended_flags) outcome" where
  "decodeExtendedFlags2 ef r =
     out_bind (or_refuse (rd_u8 r) ''truncated ExtendedFlags2'') (\<lambda>ext2 r.
       if ext2 AND Ext2ChunkMessage \<noteq> 0 then Refused ''chunked NetworkMessages are not supported''
       else if ext2 AND Ext2NetworkMessageTypeMask \<noteq> 0 then Refused ''not a DataSetMessage payload''
       else Got (ef\<lparr>ef_promotedFieldsPresent := (ext2 AND Ext2PromotedFieldsEnabled \<noteq> 0)\<rparr>) r)"

definition decodeExtendedFlags :: "byte \<Rightarrow> reader \<Rightarrow> (string, extended_flags) outcome" where
  "decodeExtendedFlags flags r =
     (if flags AND NmExtendedFlags1 \<noteq> 0 then
        out_bind (or_refuse (rd_u8 r) ''truncated ExtendedFlags1'') (\<lambda>ext1 r.
          let ef = \<lparr>ef_publisherIdType = ext1 AND Ext1PublisherIdTypeMask,
                    ef_dataSetClassIdPresent = (ext1 AND Ext1DataSetClassIdEnabled \<noteq> 0),
                    ef_securityPresent = (ext1 AND Ext1SecurityEnabled \<noteq> 0),
                    ef_timestampPresent = (ext1 AND Ext1TimestampEnabled \<noteq> 0),
                    ef_picosecondsPresent = (ext1 AND Ext1PicosecondsEnabled \<noteq> 0),
                    ef_promotedFieldsPresent = False\<rparr>
          in if ext1 AND Ext1ExtendedFlags2 \<noteq> 0 then decodeExtendedFlags2 ef r else Got ef r)
      else Got no_extended_flags r)"

definition decodePublisherId ::
    "byte \<Rightarrow> network_message \<Rightarrow> reader \<Rightarrow> (string, network_message) outcome" where
  "decodePublisherId t out r =
     (if t = 0 then out_bind (or_refuse (rd_u8 r) ''truncated publisher id'') (\<lambda>v.
        Got (out\<lparr>nm_publisherId := ucast v, nm_publisherIdType := PublisherIdByte\<rparr>))
      else if t = 1 then out_bind (or_refuse (rd_u16 r) ''truncated publisher id'') (\<lambda>v.
        Got (out\<lparr>nm_publisherId := ucast v, nm_publisherIdType := PublisherIdUInt16\<rparr>))
      else if t = 2 then out_bind (or_refuse (rd_u32 r) ''truncated publisher id'') (\<lambda>v.
        Got (out\<lparr>nm_publisherId := ucast v, nm_publisherIdType := PublisherIdUInt32\<rparr>))
      else if t = 3 then out_bind (or_refuse (rd_u64 r) ''truncated publisher id'') (\<lambda>v.
        Got (out\<lparr>nm_publisherId := v, nm_publisherIdType := PublisherIdUInt64\<rparr>))
      else Refused (''unsupported publisher id type '' @ nat_to_string (unat t)))"

definition decodeGroupHeader ::
    "network_message \<Rightarrow> reader \<Rightarrow> (string, network_message) outcome" where
  "decodeGroupHeader out r =
     out_bind (or_refuse (rd_u8 r) ''truncated GroupHeader flags'') (\<lambda>groupFlags r.
     out_bind (if groupFlags AND GroupWriterGroupIdEnabled \<noteq> 0 then
                 out_bind (or_refuse (rd_u16 r) ''truncated WriterGroupId'') (\<lambda>v.
                   Got (out\<lparr>nm_writerGroupIdEnabled := True, nm_writerGroupId := v\<rparr>))
               else Got out r) (\<lambda>out r.
     out_bind (skip_if (groupFlags AND GroupGroupVersionEnabled \<noteq> 0) 4 ''truncated GroupVersion'' r) (\<lambda>_ r.
     out_bind (skip_if (groupFlags AND GroupNetworkMessageNumberEnabled \<noteq> 0) 2
                 ''truncated NetworkMessageNumber'' r) (\<lambda>_ r.
       if groupFlags AND GroupSequenceNumberEnabled \<noteq> 0 then
         out_bind (or_refuse (rd_u16 r) ''truncated group SequenceNumber'') (\<lambda>v.
           Got (out\<lparr>nm_groupSequenceNumberEnabled := True, nm_groupSequenceNumber := v\<rparr>))
       else Got out r))))"

text \<open>The writer ids of the payload header; without one a single message with id 0 follows.\<close>

definition decodePayloadHeader :: "bool \<Rightarrow> reader \<Rightarrow> (string, 16 word list) outcome" where
  "decodePayloadHeader payloadHeaderEnabled r =
     (if payloadHeaderEnabled then
        out_bind (or_refuse (rd_u8 r) ''truncated PayloadHeader count'') (\<lambda>messageCount r.
          if messageCount = 0 then Refused ''PayloadHeader declares zero DataSetMessages''
          else rd_times (unat messageCount)
                 (\<lambda>r. or_refuse (rd_u16 r) ''truncated PayloadHeader writer ids'') r)
      else Got [0] r)"

definition decodePromotedFields :: "bool \<Rightarrow> reader \<Rightarrow> (string, unit) outcome" where
  "decodePromotedFields present r =
     (if present then
        out_bind (or_refuse (rd_u16 r) ''truncated PromotedFields size'') (\<lambda>promotedSize r.
          or_refuse (rd_skip (unat promotedSize) r) ''truncated PromotedFields'')
      else Got () r)"

definition decodeSizes :: "bool \<Rightarrow> nat \<Rightarrow> reader \<Rightarrow> (string, unit) outcome" where
  "decodeSizes payloadHeaderEnabled messageCount r =
     (if payloadHeaderEnabled \<and> 1 < messageCount then
        out_bind (rd_times messageCount (\<lambda>r. or_refuse (rd_u16 r) ''truncated DataSetMessage sizes'') r)
          (\<lambda>_. Got ())
      else Got () r)"

fun decodeMessages :: "16 word list \<Rightarrow> reader \<Rightarrow> (string, data_set_message list) outcome" where
  "decodeMessages [] r = Got [] r"
| "decodeMessages (i # ids) r =
     out_bind (decodeDataSetMessage (new_data_set_message\<lparr>dsm_dataSetWriterId := i\<rparr>) r) (\<lambda>m r.
     out_bind (decodeMessages ids r) (\<lambda>ms. Got (m # ms)))"

text \<open>The decoder on a reader: the code between the construction of the reader and the return.\<close>

definition decodeWith :: "network_message \<Rightarrow> reader \<Rightarrow> (string, network_message) outcome" where
  "decodeWith out r =
     out_bind (or_refuse (rd_u8 r) ''empty datagram'') (\<lambda>flags r.
       if flags AND 0x0F \<noteq> UadpVersion
         then Refused (''unsupported UADP version '' @ nat_to_string (unat (flags AND 0x0F)))
       else let publisherIdEnabled = (flags AND NmPublisherIdEnabled \<noteq> 0);
                groupHeaderEnabled = (flags AND NmGroupHeaderEnabled \<noteq> 0);
                payloadHeaderEnabled = (flags AND NmPayloadHeaderEnabled \<noteq> 0) in
     out_bind (decodeExtendedFlags flags r) (\<lambda>ef r.
     out_bind (if publisherIdEnabled then decodePublisherId (ef_publisherIdType ef) out r
               else Got out r) (\<lambda>out r.
     out_bind (skip_if (ef_dataSetClassIdPresent ef) 16 ''truncated DataSetClassId'' r) (\<lambda>_ r.
     let out = out\<lparr>nm_writerGroupIdEnabled := False, nm_groupSequenceNumberEnabled := False\<rparr> in
     out_bind (if groupHeaderEnabled then decodeGroupHeader out r else Got out r) (\<lambda>out r.
     out_bind (decodePayloadHeader payloadHeaderEnabled r) (\<lambda>writerIds r.
     out_bind (skip_if (ef_timestampPresent ef) 8 ''truncated NetworkMessage timestamp'' r) (\<lambda>_ r.
     out_bind (skip_if (ef_picosecondsPresent ef) 2 ''truncated NetworkMessage picoseconds'' r) (\<lambda>_ r.
     out_bind (decodePromotedFields (ef_promotedFieldsPresent ef) r) (\<lambda>_ r.
       if ef_securityPresent ef then Refused ''secured NetworkMessages are not supported''
       else
     out_bind (decodeSizes payloadHeaderEnabled (length writerIds) r) (\<lambda>_ r.
     out_bind (decodeMessages writerIds r) (\<lambda>ms.
       Got (out\<lparr>nm_messages := ms\<rparr>))))))))))))"

definition decodeNetworkMessage ::
    "network_message \<Rightarrow> bytes \<Rightarrow> nat \<Rightarrow> (string, network_message) outcome" where
  "decodeNetworkMessage out bs n = decodeWith out (new_reader bs n)"

end
