(* ===== verification/WireRoundtrip.thy ===== *)
theory WireRoundtrip
  imports WireCodec
begin

text \<open>
  The round trip of the wire format. \<open>scalar_ok\<close>, \<open>wire_ok\<close> and \<open>message_ok\<close>
  describe what the format can carry: values built by the factories whose payload fits the
  wire type, arrays the decoder accepts, messages whose header members fit. On these the
  encoders and decoders are codecs, and everything the decoder accepts is of that form.
\<close>

section \<open>Integers that fit their wire width\<close>

definition fits_signed :: "nat \<Rightarrow> 64 word \<Rightarrow> bool" where
  "fits_signed n x \<longleftrightarrow> - (2 ^ (n - 1)) \<le> sint x \<and> sint x < 2 ^ (n - 1)"

definition fits_unsigned :: "nat \<Rightarrow> 64 word \<Rightarrow> bool" where
  "fits_unsigned n x \<longleftrightarrow> unat x < 2 ^ n"

lemma scast_ucast_fits:
  fixes x :: "64 word"
  assumes "fits_signed LENGTH('a) x" and "LENGTH('a) \<le> 64"
  shows "scast (ucast x :: 'a::len word) = x"
proof -
  have "sint (ucast x :: 'a word) = signed_take_bit (LENGTH('a) - 1) (uint x)"
    by (simp add: signed_ucast_eq)
  also have "\<dots> = signed_take_bit (LENGTH('a) - 1) (sint x)"
  proof (rule bit_eqI)
    fix n
    have l: "LENGTH('a) - 1 < 64" using assms(2) len_gt_0 [where 'a = 'a] by linarith
    show "bit (signed_take_bit (LENGTH('a) - 1) (uint x)) n = bit (signed_take_bit (LENGTH('a) - 1) (sint x)) n"
      using l by (auto simp: bit_signed_take_bit_iff bit_uint_iff bit_sint_iff min_def)
  qed
  also have "\<dots> = sint x"
    using assms(1) by (simp add: fits_signed_def signed_take_bit_int_eq_self)
  finally have "sint (ucast x :: 'a word) = sint x" .
  then show ?thesis by (simp add: scast_eq)
qed

lemma ucast_ucast_fits:
  fixes x :: "64 word"
  assumes "fits_unsigned LENGTH('a) x"
  shows "ucast (ucast x :: 'a::len word) = x"
proof (rule bit_word_eqI)
  fix n assume n: "n < LENGTH(64)"
  have "take_bit LENGTH('a) (unat x) = unat x"
    using assms by (simp add: fits_unsigned_def take_bit_nat_eq_self)
  then have "bit (unat x) n \<Longrightarrow> n < LENGTH('a)" by (metis bit_take_bit_iff)
  then show "bit (ucast (ucast x :: 'a word) :: 64 word) n = bit x n"
    using n by (auto simp: bit_simps)
qed

section \<open>Values the format can carry\<close>

definition scalar_ok :: "builtin_type \<Rightarrow> wire_value \<Rightarrow> bool" where
  "scalar_ok t v = (case t of
       TypeNull \<Rightarrow> v = makeNull
     | TypeBoolean \<Rightarrow> v = makeBoolean True \<or> v = makeBoolean False
     | TypeSByte \<Rightarrow> v = makeSigned TypeSByte (m_int v) \<and> fits_signed 8 (m_int v)
     | TypeByte \<Rightarrow> v = makeUnsigned TypeByte (m_uint v) \<and> fits_unsigned 8 (m_uint v)
     | TypeInt16 \<Rightarrow> v = makeSigned TypeInt16 (m_int v) \<and> fits_signed 16 (m_int v)
     | TypeUInt16 \<Rightarrow> v = makeUnsigned TypeUInt16 (m_uint v) \<and> fits_unsigned 16 (m_uint v)
     | TypeInt32 \<Rightarrow> v = makeSigned TypeInt32 (m_int v) \<and> fits_signed 32 (m_int v)
     | TypeUInt32 \<Rightarrow> v = makeUnsigned TypeUInt32 (m_uint v) \<and> fits_unsigned 32 (m_uint v)
     | TypeInt64 \<Rightarrow> v = makeSigned TypeInt64 (m_int v)
     | TypeUInt64 \<Rightarrow> v = makeUnsigned TypeUInt64 (m_uint v)
     | TypeFloat \<Rightarrow> v = makeFloat (f64_to_f32 (m_float v))
     | TypeDouble \<Rightarrow> v = makeDouble (m_float v)
     | TypeString \<Rightarrow> v = makeString (m_string v) \<and> length (m_string v) < 2 ^ 31
     | TypeDateTime \<Rightarrow> v = makeDateTime (m_int v)
     | TypeUnnamed _ \<Rightarrow> False)"

text \<open>The six-bit codes; a code without an enumerator is possible for an empty array only.\<close>

definition code_ok :: "builtin_type \<Rightarrow> bool" where
  "code_ok t \<longleftrightarrow> builtin_of_code (type_code t) = t \<and> type_code t < 64"

definition wire_ok :: "wire_value \<Rightarrow> bool" where
  "wire_ok v \<longleftrightarrow>
     (if m_isArray v then v = makeArray (m_type v) (m_elements v) \<and> code_ok (m_type v)
        \<and> length (m_elements v) \<le> 1000000 \<and> (\<forall>e \<in> set (m_elements v). scalar_ok (m_type v) e)
      else scalar_ok (m_type v) v)"

lemma scalar_okD:
  assumes "scalar_ok t v"
  shows "m_type v = t" "\<not> m_isArray v" "is_named t"
proof -
  have "m_type v = t \<and> \<not> m_isArray v"
    using assms unfolding scalar_ok_def make_defs
    by (cases v; cases t) auto
  then show "m_type v = t" "\<not> m_isArray v" by auto
  show "is_named t" using assms by (cases t) (auto simp: scalar_ok_def)
qed

lemma named_code_ok: "is_named t \<Longrightarrow> code_ok t"
  by (cases t) (auto simp: code_ok_def builtin_of_code_def)

lemma reads_back_map:
  assumes "reads_back rd bs x" and "y = f x"
  shows "reads_back (\<lambda>r. out_bind (or_refuse (rd r) d) (\<lambda>v. Got (f v))) bs y"
  using assms by (auto simp: reads_back_def)

lemma codec_map:
  assumes "\<exists>bs. writes_as (\<lambda>out v. Inr (put out v)) x bs \<and> reads_back rd bs x"
    and "\<And>out. enc out v = Inr (put out x)" and "v = f x"
    and "rd' = (\<lambda>r. out_bind (or_refuse (rd r) d) (\<lambda>w. Got (f w)))"
  shows "\<exists>bs. writes_as enc v bs \<and> reads_back rd' bs v"
  using assms reads_back_map [of rd _ x v f d] by (fastforce simp: writes_as_def)

lemmas scalar_defs = encodeScalarBody.simps decodeScalarBody_def builtin_of_code_def

lemma scalar_law:
  assumes "scalar_ok t v"
  shows "\<exists>bs. writes_as encodeScalarBody v bs \<and> reads_back (decodeScalarBody (type_code t)) bs v"
proof (cases t)
  case TypeNull
  then have "v = makeNull" using assms by (simp add: scalar_ok_def)
  then show ?thesis using TypeNull
    by (intro exI [of _ "[]"]) (auto simp: writes_as_def reads_back_def scalar_defs makeNull_def)
next
  case TypeBoolean
  with assms obtain b where "v = makeBoolean b" by (auto simp: scalar_ok_def)
  with TypeBoolean show ?thesis
    by (intro codec_map [OF u8.law [of "if b then 1 else 0"], where f = "\<lambda>w. makeBoolean (w \<noteq> 0)"])
       (auto simp: scalar_defs makeBoolean_def boolValue_def fun_eq_iff)
next
  case TypeSByte
  with assms show ?thesis
    by (intro codec_map [OF u8.law [of "ucast (m_int v)"], where f = "\<lambda>w. makeSigned TypeSByte (scast w)"])
       (auto simp: scalar_ok_def scast_ucast_fits scalar_defs scalar_okD(1) [OF assms])
next
  case TypeByte
  with assms show ?thesis
    by (intro codec_map [OF u8.law [of "ucast (m_uint v)"], where f = "\<lambda>w. makeUnsigned TypeByte (ucast w)"])
       (auto simp: scalar_ok_def ucast_ucast_fits scalar_defs scalar_okD(1) [OF assms])
next
  case TypeInt16
  with assms show ?thesis
    by (intro codec_map [OF u16.law [of "ucast (m_int v)"], where f = "\<lambda>w. makeSigned TypeInt16 (scast w)"])
       (auto simp: scalar_ok_def scast_ucast_fits scalar_defs scalar_okD(1) [OF assms])
next
  case TypeUInt16
  with assms show ?thesis
    by (intro codec_map [OF u16.law [of "ucast (m_uint v)"], where f = "\<lambda>w. makeUnsigned TypeUInt16 (ucast w)"])
       (auto simp: scalar_ok_def ucast_ucast_fits scalar_defs scalar_okD(1) [OF assms])
next
  case TypeInt32
  with assms show ?thesis
    by (intro codec_map [OF u32.law [of "ucast (m_int v)"], where f = "\<lambda>w. makeSigned TypeInt32 (scast w)"])
       (auto simp: scalar_ok_def scast_ucast_fits scalar_defs scalar_okD(1) [OF assms])
next
  case TypeUInt32
  with assms show ?thesis
    by (intro codec_map [OF u32.law [of "ucast (m_uint v)"], where f = "\<lambda>w. makeUnsigned TypeUInt32 (ucast w)"])
       (auto simp: scalar_ok_def ucast_ucast_fits scalar_defs scalar_okD(1) [OF assms])
next
  case TypeInt64
  with assms show ?thesis
    by (intro codec_map [OF u64.law [of "m_int v"], where f = "makeSigned TypeInt64"])
       (auto simp: scalar_ok_def scalar_defs scalar_okD(1) [OF assms])
next
  case TypeUInt64
  with assms show ?thesis
    by (intro codec_map [OF u64.law [of "m_uint v"], where f = "makeUnsigned TypeUInt64"])
       (auto simp: scalar_ok_def scalar_defs scalar_okD(1) [OF assms])
next
  case TypeFloat
  with assms show ?thesis
    by (intro codec_map [OF u32.law [of "f64_to_f32 (m_float v)"], where f = makeFloat])
       (auto simp: scalar_ok_def scalar_defs scalar_okD(1) [OF assms])
next
  case TypeDouble
  with assms show ?thesis
    by (intro codec_map [OF u64.law [of "m_float v"], where f = makeDouble])
       (auto simp: scalar_ok_def scalar_defs scalar_okD(1) [OF assms])
next
  case TypeString
  with assms show ?thesis
    by (intro codec_map [OF str.law [of "m_string v"], where f = makeString])
       (auto simp: scalar_ok_def scalar_defs scalar_okD(1) [OF assms])
next
  case TypeDateTime
  with assms show ?thesis
    by (intro codec_map [OF u64.law [of "m_int v"], where f = makeDateTime])
       (auto simp: scalar_ok_def scalar_defs scalar_okD(1) [OF assms])
next
  case (TypeUnnamed c)
  with assms show ?thesis by (simp add: scalar_ok_def)
qed

interpretation scalar: wire_codec "decodeScalarBody (type_code t)" encodeScalarBody "scalar_ok t" for t
  by unfold_locales (rule scalar_law)

interpretation element: wire_codec "decodeScalarBody (type_code t)" "encodeElement t" "scalar_ok t" for t
proof unfold_locales
  fix v assume v: "scalar_ok t v"
  from scalar_okD [OF v] have "encodeElement t out v = encodeScalarBody out v" for out
    by (simp add: encodeElement_def)
  then show "\<exists>bs. writes_as (encodeElement t) v bs \<and> reads_back (decodeScalarBody (type_code t)) bs v"
    using scalar_law [OF v] by (simp add: writes_as_def)
qed

lemma flag_bit:
  "w AND push_bit n 1 \<noteq> 0 \<longleftrightarrow> bit w n" for w :: byte
  by (simp add: bit_iff_and_push_bit_not_eq_0)

lemma flag_bits:
  fixes w :: byte
  shows "w AND 1 \<noteq> 0 \<longleftrightarrow> bit w 0" "w AND 2 \<noteq> 0 \<longleftrightarrow> bit w 1" "w AND 4 \<noteq> 0 \<longleftrightarrow> bit w 2"
    "w AND 8 \<noteq> 0 \<longleftrightarrow> bit w 3" "w AND 16 \<noteq> 0 \<longleftrightarrow> bit w 4" "w AND 32 \<noteq> 0 \<longleftrightarrow> bit w 5"
    "w AND 64 \<noteq> 0 \<longleftrightarrow> bit w 6" "w AND 128 \<noteq> 0 \<longleftrightarrow> bit w 7"
  using flag_bit [of w 0] flag_bit [of w 1] flag_bit [of w 2] flag_bit [of w 3]
    flag_bit [of w 4] flag_bit [of w 5] flag_bit [of w 6] flag_bit [of w 7] by simp_all

lemma six_bit_code:
  fixes c :: byte
  assumes "c < 64"
  shows "c AND 0x40 = 0" "c AND 0x80 = 0" "c AND 0x3F = c"
    "(c OR 0x80) AND 0x40 = 0" "(c OR 0x80) AND 0x80 \<noteq> 0" "(c OR 0x80) AND 0x3F = c"
proof -
  have m: "(0x3F :: byte) = mask 6" by (simp add: mask_eq_exp_minus_1)
  have "uint c < 64" using assms by (simp add: word_less_def)
  then have "take_bit 6 (uint c) = uint c" by (simp add: take_bit_int_eq_self)
  then have "uint (take_bit 6 c) = uint c" by (simp add: unsigned_take_bit_eq)
  then have t: "take_bit 6 c = c" by (simp add: word_uint_eq_iff)
  have bits: "\<not> bit c 6" "\<not> bit c 7"
    by (subst t [symmetric], simp add: bit_take_bit_iff)+
  have b80: "bit (0x80 :: byte) n \<longleftrightarrow> n = 7" for n
    using bit_push_bit_iff [of 7 "1 :: byte" n] by (auto simp: bit_1_iff)
  show "c AND 0x40 = 0" "c AND 0x80 = 0" using bits flag_bits [of c] by auto
  show "c AND 0x3F = c" using t by (simp add: m take_bit_eq_mask)
  show "(c OR 0x80) AND 0x40 = 0" "(c OR 0x80) AND 0x80 \<noteq> 0"
    using bits flag_bits [of "c OR 0x80"] by (auto simp: bit_or_iff b80)
  have "take_bit 6 (0x80 :: byte) = 0" by simp
  then show "(c OR 0x80) AND 0x3F = c" using t
    by (metis m or.right_neutral take_bit_eq_mask take_bit_or)
qed

section \<open>Variants\<close>

lemma reads_back_u8: "reads_back rd_u8 [b] b"
  by (auto simp: reads_back_def rd_u8_eq)

lemma reads_back_or_refuse: "reads_back rd bs x \<Longrightarrow> reads_back (\<lambda>r. or_refuse (rd r) d) bs x"
  by (auto simp: reads_back_def)

lemma reads_back_cong: "reads_back rd bs x \<Longrightarrow> (\<And>r. rd' r = rd r) \<Longrightarrow> reads_back rd' bs x"
  by (simp add: reads_back_def)

lemma wire_ok_code: "wire_ok v \<Longrightarrow> code_ok (m_type v)"
  by (auto simp: wire_ok_def named_code_ok dest: scalar_okD split: if_splits)

interpretation variant: wire_codec decodeVariant encodeVariant wire_ok
proof unfold_locales
  fix v assume ok: "wire_ok v"
  define t where "t = m_type v"
  have code: "builtin_of_code (type_code t) = t" "type_code t < 64"
    using wire_ok_code [OF ok] by (auto simp: code_ok_def t_def)
  note six = six_bit_code [OF code(2)]
  show "\<exists>bs. writes_as encodeVariant v bs \<and> reads_back decodeVariant bs v"
  proof (cases "m_isArray v")
    case False
    then have "scalar_ok t v" using ok by (simp add: wire_ok_def t_def)
    from scalar_law [OF this] obtain bs where bs: "writes_as encodeScalarBody v bs"
      "reads_back (decodeScalarBody (type_code t)) bs v" by auto
    have "reads_back decodeVariant ([type_code t] @ bs) v"
      unfolding decodeVariant_def wire_flags
      by (rule reads_back_bind [OF reads_back_or_refuse [OF reads_back_u8]]) (simp add: six bs)
    then show ?thesis using bs(1) False
      by (intro exI [of _ "[type_code t] @ bs"])
         (simp add: writes_as_def encodeVariant_def putU8_def t_def)
  next
    case True
    define es where "es = m_elements v"
    have v: "v = makeArray t es" "length es \<le> 1000000" "\<And>e. e \<in> set es \<Longrightarrow> scalar_ok t e"
      using ok True by (auto simp: wire_ok_def t_def es_def)
    define len :: "32 word" where "len = word_of_nat (length es)"
    have len: "sint len = int (length es)" unfolding len_def
      using v(2) by (intro sint_word_of_nat_32) simp
    from element.times_law [of es t] v(3) obtain bs where
      bs: "\<forall>out. res_fold (encodeElement t) out es = Inr (out @ bs)"
        "reads_back (rd_times (length es) (decodeScalarBody (type_code t))) bs es" by blast
    have "reads_back (decodeElements (type_code t) (sint len)) bs es"
      using v(2) bs(2) by (cases "es = []") (auto simp: decodeElements_def len reads_back_def)
    then have e: "reads_back (\<lambda>r. out_bind (decodeElements (type_code t) (sint len) r)
        (\<lambda>es. Got (makeArray t es))) (bs @ []) v"
      by (rule reads_back_bind) (simp add: v(1) reads_back_return)
    then have "reads_back (\<lambda>r. out_bind (or_refuse (rd_u32 r) ''truncated array length'')
        (\<lambda>len r. out_bind (decodeElements (type_code t) (sint len) r)
        (\<lambda>es. Got (makeArray t es)))) (le_bytes 4 len @ (bs @ [])) v"
      by (intro reads_back_bind [OF reads_back_or_refuse [OF reads_back_u32]])
    then have "reads_back decodeVariant ([type_code t OR 0x80] @ le_bytes 4 len @ bs @ []) v"
      unfolding decodeVariant_def wire_flags
      by (intro reads_back_bind [OF reads_back_or_refuse [OF reads_back_u8]])
         (simp add: six code Let_def)
    moreover have "length es \<le> 0xFFFFFF" using v(2) by simp
    ultimately show ?thesis using bs(1) v(1)
      by (intro exI [of _ "[type_code t OR 0x80] @ le_bytes 4 len @ bs @ []"])
         (simp add: writes_as_def encodeVariant_def putU8_def put_le_bytes len_def wire_flags makeArray_def)
  qed
qed

section \<open>Data set messages\<close>

lemma put_u16_bytes: "putU16 out v = out @ u16_bytes v"
  by (simp add: putU16_def u16_bytes_def)

lemma unat_word_of_nat_16: "n < 2 ^ 16 \<Longrightarrow> unat (word_of_nat n :: 16 word) = n"
  by (simp add: unat_of_nat take_bit_nat_eq_self)

lemma reads_back_skip_none: "reads_back rd bs x \<Longrightarrow> reads_back (\<lambda>r. out_bind (skip_if False n d r) (\<lambda>_. rd)) bs x"
  by (simp add: skip_if_def reads_back_def)

definition message_ok :: "data_set_message \<Rightarrow> bool" where
  "message_ok m \<longleftrightarrow> \<not> dsm_keepAlive m \<and> (\<not> dsm_sequenceNumberEnabled m \<longrightarrow> dsm_sequenceNumber m = 0)
     \<and> length (dsm_fields m) < 2 ^ 16 \<and> (\<forall>v \<in> set (dsm_fields m). wire_ok v)"

lemma reads_back_fields:
  assumes "reads_back (rd_times (length vs) decodeVariant) bs vs" and "length vs < 2 ^ 16"
  shows "reads_back (decodeFields FieldEncodingVariant out)
    (u16_bytes (word_of_nat (length vs)) @ bs) (out\<lparr>dsm_fields := dsm_fields out @ vs\<rparr>)"
proof -
  have "reads_back (\<lambda>r. out_bind (rd_times (length vs) decodeVariant r)
      (\<lambda>vs. Got (out\<lparr>dsm_fields := dsm_fields out @ vs\<rparr>))) (bs @ [])
      (out\<lparr>dsm_fields := dsm_fields out @ vs\<rparr>)"
    by (rule reads_back_bind [OF assms(1)]) (rule reads_back_return)
  then show ?thesis
    unfolding decodeFields_def
    by (intro reads_back_bind [OF reads_back_or_refuse [OF reads_back_u16]])
       (simp only: unat_word_of_nat_16 [OF assms(2)] simp_thms if_True append_Nil2)
qed

lemma reads_back_sequence_number:
  "reads_back (decodeSequenceNumber 9 out) (u16_bytes v)
     (out\<lparr>dsm_sequenceNumberEnabled := True, dsm_sequenceNumber := v\<rparr>)"
  unfolding decodeSequenceNumber_def using reads_back_u16 [of v]
  by (simp add: wire_flags reads_back_def)

text \<open>The bytes between the first flag byte and the field count, for a flag byte the encoder writes.\<close>

lemma reads_back_body:
  assumes "reads_back (rd_times (length (dsm_fields m)) decodeVariant) bs (dsm_fields m)" and "message_ok m"
    and "out = new_data_set_message\<lparr>dsm_dataSetWriterId := dsm_dataSetWriterId m\<rparr>"
  shows "reads_back (decodeDataSetMessage out)
    ((if dsm_sequenceNumberEnabled m then [9] @ u16_bytes (dsm_sequenceNumber m) else [1] @ [])
     @ u16_bytes (word_of_nat (length (dsm_fields m))) @ bs) m"
proof (cases "dsm_sequenceNumberEnabled m")
  case True
  define out' where "out' = out\<lparr>dsm_sequenceNumberEnabled := True, dsm_sequenceNumber := dsm_sequenceNumber m\<rparr>"
  have m: "out'\<lparr>dsm_fields := dsm_fields out' @ dsm_fields m\<rparr> = m"
    using assms(2) True by (simp add: out'_def assms(3) message_ok_def new_data_set_message_def)
  from reads_back_fields [OF assms(1), of out'] assms(2)
  have "reads_back (decodeFields FieldEncodingVariant out')
      (u16_bytes (word_of_nat (length (dsm_fields m))) @ bs) m" by (simp add: message_ok_def m)
  then have "reads_back (\<lambda>r. out_bind (decodeSequenceNumber 9 out r) (\<lambda>out. decodeFields FieldEncodingVariant out))
      (u16_bytes (dsm_sequenceNumber m) @ u16_bytes (word_of_nat (length (dsm_fields m))) @ bs) m"
    by (intro reads_back_bind [OF reads_back_sequence_number]) (simp add: out'_def)
  then have "reads_back (decodeDataSetMessage out)
      ([9] @ u16_bytes (dsm_sequenceNumber m) @ u16_bytes (word_of_nat (length (dsm_fields m))) @ bs) m"
    unfolding decodeDataSetMessage_def
    by (intro reads_back_bind [OF reads_back_or_refuse [OF reads_back_u8]])
       (simp add: wire_flags Let_def decodeFlags2_def skip_if_def)
  then show ?thesis using True by simp
next
  case False
  have m: "out\<lparr>dsm_fields := dsm_fields out @ dsm_fields m\<rparr> = m"
    using assms(2) False by (simp add: assms(3) message_ok_def new_data_set_message_def)
  from reads_back_fields [OF assms(1), of out] assms(2)
  have "reads_back (decodeFields FieldEncodingVariant out)
      (u16_bytes (word_of_nat (length (dsm_fields m))) @ bs) m" by (simp add: message_ok_def m)
  then have "reads_back (decodeDataSetMessage out)
      ([1] @ u16_bytes (word_of_nat (length (dsm_fields m))) @ bs) m"
    unfolding decodeDataSetMessage_def
    by (intro reads_back_bind [OF reads_back_or_refuse [OF reads_back_u8]])
       (simp add: wire_flags Let_def decodeFlags2_def decodeSequenceNumber_def skip_if_def)
  then show ?thesis using False by simp
qed

interpretation data_set_message: wire_codec
  "decodeDataSetMessage (new_data_set_message\<lparr>dsm_dataSetWriterId := i\<rparr>)" encodeDataSetMessage
  "\<lambda>m. message_ok m \<and> dsm_dataSetWriterId m = i" for i
proof unfold_locales
  fix m assume m: "message_ok m \<and> dsm_dataSetWriterId m = i"
  then have "\<And>v. v \<in> set (dsm_fields m) \<Longrightarrow> wire_ok v" by (simp add: message_ok_def)
  from variant.times_law [OF this] obtain bs where
    bs: "\<forall>out. res_fold encodeVariant out (dsm_fields m) = Inr (out @ bs)"
      "reads_back (rd_times (length (dsm_fields m)) decodeVariant) bs (dsm_fields m)" by blast
  define all where "all = (if dsm_sequenceNumberEnabled m then [9] @ u16_bytes (dsm_sequenceNumber m) else [1] @ [])
     @ u16_bytes (word_of_nat (length (dsm_fields m))) @ bs"
  have "writes_as encodeDataSetMessage m all"
    using bs(1) by (simp add: writes_as_def encodeDataSetMessage_def putU8_def put_u16_bytes wire_flags all_def Let_def)
  moreover have "reads_back (decodeDataSetMessage (new_data_set_message\<lparr>dsm_dataSetWriterId := i\<rparr>)) all m"
    unfolding all_def using m by (intro reads_back_body [OF bs(2)]) auto
  ultimately show "\<exists>bs. writes_as encodeDataSetMessage m bs \<and>
      reads_back (decodeDataSetMessage (new_data_set_message\<lparr>dsm_dataSetWriterId := i\<rparr>)) bs m" by blast
qed

section \<open>Network messages\<close>

definition publisher_id_fits :: "publisher_id_type \<Rightarrow> 64 word \<Rightarrow> bool" where
  "publisher_id_fits t pid = (case t of
       PublisherIdByte \<Rightarrow> fits_unsigned 8 pid
     | PublisherIdUInt16 \<Rightarrow> fits_unsigned 16 pid
     | PublisherIdUInt32 \<Rightarrow> fits_unsigned 32 pid
     | PublisherIdUInt64 \<Rightarrow> True)"

definition network_message_ok :: "network_message \<Rightarrow> bool" where
  "network_message_ok m \<longleftrightarrow> publisher_id_fits (nm_publisherIdType m) (nm_publisherId m)
     \<and> (\<not> nm_writerGroupIdEnabled m \<longrightarrow> nm_writerGroupId m = 0)
     \<and> (\<not> nm_groupSequenceNumberEnabled m \<longrightarrow> nm_groupSequenceNumber m = 0)
     \<and> (\<forall>d \<in> set (nm_messages m). message_ok d)"

lemma reads_back_times:
  assumes "\<And>x. x \<in> set xs \<Longrightarrow> reads_back rd (b x) (v x)"
  shows "reads_back (rd_times (length xs) rd) (concat (map b xs)) (map v xs)"
  using assms
proof (induction xs)
  case (Cons x xs)
  have "reads_back (\<lambda>r. out_bind (rd_times (length xs) rd r) (\<lambda>ys. Got (v x # ys)))
      (concat (map b xs) @ []) (v x # map v xs)"
    using Cons by (intro reads_back_bind [where x = "map v xs"]) (auto intro: reads_back_return)
  with Cons.prems [of x] show ?case
    by (auto intro!: reads_back_bind [where x = "v x"])
qed (simp add: reads_back_def)

lemma foldl_put_u16: "foldl (\<lambda>out d. putU16 out (f d)) out ds = out @ concat (map (\<lambda>d. u16_bytes (f d)) ds)"
  by (induction ds arbitrary: out) (simp_all add: put_u16_bytes)

lemma res_fold_putBodySize:
  "res_fold putBodySize out bodies = Inr out' \<Longrightarrow>
   out' = out @ concat (map (\<lambda>b. u16_bytes (word_of_nat (length b))) bodies)"
proof (induction bodies arbitrary: out)
  case (Cons b bodies)
  from Cons.prems have "res_fold putBodySize (out @ u16_bytes (word_of_nat (length b))) bodies = Inr out'"
    by (cases "length b \<le> 0xFFFF") (simp_all add: putBodySize_def [of out b] put_u16_bytes)
  from Cons.IH [OF this] show ?case by simp
qed simp

lemma reads_back_bodies:
  "(\<And>d. d \<in> set ds \<Longrightarrow> message_ok d) \<Longrightarrow>
   \<exists>bodies. encodeBodies ds = Inr bodies \<and> length bodies = length ds
     \<and> reads_back (decodeMessages (map dsm_dataSetWriterId ds)) (concat bodies) ds"
proof (induction ds)
  case Nil
  then show ?case by (simp add: reads_back_def)
next
  case (Cons d ds)
  from Cons obtain bodies where bodies: "encodeBodies ds = Inr bodies" "length bodies = length ds"
    "reads_back (decodeMessages (map dsm_dataSetWriterId ds)) (concat bodies) ds" by auto
  from data_set_message.law [of d "dsm_dataSetWriterId d"] Cons.prems obtain b where
    b: "writes_as encodeDataSetMessage d b"
    "reads_back (decodeDataSetMessage (new_data_set_message\<lparr>dsm_dataSetWriterId := dsm_dataSetWriterId d\<rparr>)) b d"
    by auto
  have "reads_back (\<lambda>r. out_bind (decodeMessages (map dsm_dataSetWriterId ds) r) (\<lambda>ms. Got (d # ms)))
      (concat bodies @ []) (d # ds)"
    by (rule reads_back_bind [OF bodies(3)]) (rule reads_back_return)
  then have "reads_back (\<lambda>r. out_bind (decodeDataSetMessage (new_data_set_message\<lparr>dsm_dataSetWriterId := dsm_dataSetWriterId d\<rparr>) r)
      (\<lambda>m r. out_bind (decodeMessages (map dsm_dataSetWriterId ds) r) (\<lambda>ms. Got (m # ms))))
      (b @ concat bodies @ []) (d # ds)"
    by (rule reads_back_bind [OF b(2)])
  then have "reads_back (decodeMessages (map dsm_dataSetWriterId (d # ds))) (concat (b # bodies)) (d # ds)"
    by (simp add: reads_back_def)
  moreover have "encodeBodies (d # ds) = Inr (b # bodies)"
    using b(1) bodies(1) by (simp add: writes_as_def)
  ultimately show ?case using bodies(2)
    by (intro exI [of _ "b # bodies"] conjI) (assumption | simp only: length_Cons)+
qed

definition publisher_id_bytes :: "publisher_id_type \<Rightarrow> 64 word \<Rightarrow> bytes" where
  "publisher_id_bytes t pid = (case t of
       PublisherIdByte \<Rightarrow> [ucast pid]
     | PublisherIdUInt16 \<Rightarrow> u16_bytes (ucast pid)
     | PublisherIdUInt32 \<Rightarrow> le_bytes 4 (ucast pid :: 32 word)
     | PublisherIdUInt64 \<Rightarrow> le_bytes 8 pid)"

lemma encodePublisherId_bytes: "encodePublisherId out t pid = out @ publisher_id_bytes t pid"
  by (cases t) (simp_all add: encodePublisherId_def publisher_id_bytes_def putU8_def put_u16_bytes put_le_bytes)

lemma reads_back_publisher_id:
  assumes "publisher_id_fits t pid"
  shows "reads_back (decodePublisherId (publisher_id_type_code t) out) (publisher_id_bytes t pid)
    (out\<lparr>nm_publisherId := pid, nm_publisherIdType := t\<rparr>)"
  using assms reads_back_u8 [of "ucast pid"] reads_back_u16 [of "ucast pid"]
    reads_back_u32 [of "ucast pid"] reads_back_u64 [of pid]
  by (cases t) (auto simp: decodePublisherId_def publisher_id_bytes_def publisher_id_fits_def
    reads_back_def ucast_ucast_fits)

definition group_header_bytes :: "network_message \<Rightarrow> bytes" where
  "group_header_bytes m =
     [(if nm_writerGroupIdEnabled m then 1 else 0) + (if nm_groupSequenceNumberEnabled m then 8 else 0)]
     @ (if nm_writerGroupIdEnabled m then u16_bytes (nm_writerGroupId m) else [])
     @ (if nm_groupSequenceNumberEnabled m then u16_bytes (nm_groupSequenceNumber m) else [])"

lemma encodeGroupHeader_bytes: "encodeGroupHeader out m = out @ group_header_bytes m"
  by (auto simp: encodeGroupHeader_def group_header_bytes_def putU8_def put_u16_bytes wire_flags Let_def)

lemma reads_back_group_header:
  assumes "network_message_ok m"
  shows "reads_back (decodeGroupHeader
      (out\<lparr>nm_writerGroupIdEnabled := False, nm_groupSequenceNumberEnabled := False\<rparr>)) (group_header_bytes m)
    (out\<lparr>nm_writerGroupIdEnabled := nm_writerGroupIdEnabled m,
      nm_writerGroupId := (if nm_writerGroupIdEnabled m then nm_writerGroupId m else nm_writerGroupId out),
      nm_groupSequenceNumberEnabled := nm_groupSequenceNumberEnabled m,
      nm_groupSequenceNumber := (if nm_groupSequenceNumberEnabled m then nm_groupSequenceNumber m
        else nm_groupSequenceNumber out)\<rparr>)"
  unfolding decodeGroupHeader_def group_header_bytes_def
proof (rule reads_back_bind [OF reads_back_or_refuse [OF reads_back_u8]], goal_cases)
  case 1
  note u16 = reads_backD [OF reads_back_u16]
  show ?case
    unfolding reads_back_def
    by (cases "nm_writerGroupIdEnabled m"; cases "nm_groupSequenceNumberEnabled m")
       (auto simp: wire_flags skip_if_def u16 reader_ok_advance)
qed

text \<open>The flag byte the encoder writes, and what the decoder reads in it.\<close>

definition header_flags :: "network_message \<Rightarrow> byte" where
  "header_flags m = 81
     + (if nm_writerGroupIdEnabled m \<or> nm_groupSequenceNumberEnabled m then 32 else 0)
     + (if nm_publisherIdType m \<noteq> PublisherIdByte then 128 else 0)"

lemma header_flags_bits:
  "header_flags m AND 0x0F = 1" "header_flags m AND 16 \<noteq> 0" "header_flags m AND 64 \<noteq> 0"
  "header_flags m AND 32 \<noteq> 0 \<longleftrightarrow> nm_writerGroupIdEnabled m \<or> nm_groupSequenceNumberEnabled m"
  "header_flags m AND 128 \<noteq> 0 \<longleftrightarrow> nm_publisherIdType m \<noteq> PublisherIdByte"
  by (simp_all add: header_flags_def)

definition extended_bytes :: "network_message \<Rightarrow> bytes" where
  "extended_bytes m =
     (if nm_publisherIdType m \<noteq> PublisherIdByte then [publisher_id_type_code (nm_publisherIdType m)] else [])"

lemma reads_back_extended:
  "reads_back (decodeExtendedFlags (header_flags m)) (extended_bytes m)
     (no_extended_flags\<lparr>ef_publisherIdType := publisher_id_type_code (nm_publisherIdType m)\<rparr>)"
proof (cases "nm_publisherIdType m = PublisherIdByte")
  case True
  then show ?thesis using header_flags_bits [of m]
    by (simp add: reads_back_def decodeExtendedFlags_def extended_bytes_def wire_flags no_extended_flags_def)
next
  case False
  then show ?thesis using header_flags_bits [of m]
    by (cases "nm_publisherIdType m")
       (auto simp: reads_back_def decodeExtendedFlags_def extended_bytes_def wire_flags
         no_extended_flags_def rd_u8_eq)
qed

definition header_bytes :: "network_message \<Rightarrow> bytes" where
  "header_bytes m = [header_flags m] @ extended_bytes m
     @ publisher_id_bytes (nm_publisherIdType m) (nm_publisherId m)
     @ (if nm_writerGroupIdEnabled m \<or> nm_groupSequenceNumberEnabled m then group_header_bytes m else [])"

lemma encodeHeader_bytes: "encodeHeader out m = out @ header_bytes m"
  by (auto simp: encodeHeader_def header_bytes_def header_flags_def extended_bytes_def putU8_def
      encodePublisherId_bytes encodeGroupHeader_bytes wire_flags Let_def)

definition writer_id_bytes :: "data_set_message list \<Rightarrow> bytes" where
  "writer_id_bytes ds = [word_of_nat (length ds)] @ concat (map (\<lambda>d. u16_bytes (dsm_dataSetWriterId d)) ds)"

lemma reads_back_payload_header:
  assumes "ds \<noteq> []" and "length ds \<le> 255"
  shows "reads_back (decodePayloadHeader True) (writer_id_bytes ds) (map dsm_dataSetWriterId ds)"
proof -
  have n: "unat (word_of_nat (length ds) :: byte) = length ds"
    using assms(2) by (simp add: unat_of_nat take_bit_nat_eq_self)
  then have "(word_of_nat (length ds) :: byte) \<noteq> 0" using assms(1)
    by (metis length_0_conv unsigned_0)
  then show ?thesis
    unfolding writer_id_bytes_def decodePayloadHeader_def if_True
    by (intro reads_back_bind [OF reads_back_or_refuse [OF reads_back_u8]])
       (simp add: n reads_back_times reads_back_or_refuse reads_back_u16)
qed

definition size_bytes :: "bytes list \<Rightarrow> bytes" where
  "size_bytes bodies = (if 1 < length bodies
     then concat (map (\<lambda>b. u16_bytes (word_of_nat (length b))) bodies) else [])"

lemma reads_back_sizes:
  "reads_back (decodeSizes True (length bodies)) (size_bytes bodies) ()"
proof -
  have "reads_back (\<lambda>r. out_bind (rd_times (length bodies)
      (\<lambda>r. or_refuse (rd_u16 r) ''truncated DataSetMessage sizes'') r) (\<lambda>_. Got ()))
      (concat (map (\<lambda>b. u16_bytes (word_of_nat (length b))) bodies) @ []) ()"
    by (rule reads_back_bind
        [OF reads_back_times [where v = "\<lambda>b. word_of_nat (length b)"]])
       (auto intro: reads_back_or_refuse reads_back_u16 reads_back_return)
  then show ?thesis
    by (cases "1 < length bodies") (simp_all add: decodeSizes_def size_bytes_def reads_back_def)
qed

lemma encodeNetworkMessage_bytes:
  assumes "encodeNetworkMessage m = Inr bs"
    and "encodeBodies (nm_messages m) = Inr bodies" and "length bodies = length (nm_messages m)"
  shows "nm_messages m \<noteq> []" "length (nm_messages m) \<le> 255"
    "bs = header_bytes m @ writer_id_bytes (nm_messages m) @ size_bytes bodies @ concat bodies"
proof -
  define h where "h = header_bytes m @ writer_id_bytes (nm_messages m)"
  show "nm_messages m \<noteq> []" "length (nm_messages m) \<le> 255"
    using assms(1) by (auto simp: encodeNetworkMessage_def split: if_splits)
  then have "res_bind (if 1 < length bodies then res_fold putBodySize h bodies else Inr h)
      (\<lambda>out. Inr (out @ concat bodies)) = Inr bs"
    using assms by (cases "1 < length bodies") (simp_all add: encodeNetworkMessage_def Let_def
      encodeHeader_bytes putU8_def foldl_put_u16 writer_id_bytes_def h_def)
  then obtain out where out: "bs = out @ concat bodies"
    "(if 1 < length bodies then res_fold putBodySize h bodies else Inr h) = Inr out"
    by (auto simp only: res_bind_Inr_iff sum.inject)
  from out(2) have "out = h @ size_bytes bodies"
    using res_fold_putBodySize [of h bodies out] unfolding size_bytes_def
    by (cases "1 < length bodies") auto
  with out(1) show "bs = header_bytes m @ writer_id_bytes (nm_messages m) @ size_bytes bodies @ concat bodies"
    by (simp add: h_def)
qed

text \<open>The tail of the decoder, from the payload header on, for a message with no optional parts.\<close>

lemma reads_back_payload:
  assumes "ds \<noteq> []" "length ds \<le> 255" "length bodies = length ds"
    and "reads_back (decodeMessages (map dsm_dataSetWriterId ds)) (concat bodies) ds"
  shows "reads_back (\<lambda>r. out_bind (decodePayloadHeader True r) (\<lambda>ids r.
      out_bind (decodeSizes True (length ids) r) (\<lambda>_ r.
      out_bind (decodeMessages ids r) (\<lambda>ms. Got (out\<lparr>nm_messages := ms\<rparr>)))))
    (writer_id_bytes ds @ size_bytes bodies @ concat bodies) (out\<lparr>nm_messages := ds\<rparr>)"
proof -
  have "reads_back (\<lambda>r. out_bind (decodeMessages (map dsm_dataSetWriterId ds) r)
      (\<lambda>ms. Got (out\<lparr>nm_messages := ms\<rparr>))) (concat bodies @ []) (out\<lparr>nm_messages := ds\<rparr>)"
    by (rule reads_back_bind [OF assms(4)]) (rule reads_back_return)
  then show ?thesis
    using reads_back_sizes [of bodies] assms(3)
    by (intro reads_back_bind [OF reads_back_payload_header [OF assms(1,2)]]
          reads_back_bind [of "decodeSizes True (length (map dsm_dataSetWriterId ds))" _ "()"]) simp_all
qed

lemma reads_back_network_message:
  assumes "network_message_ok m" and "nm_messages m \<noteq> []" "length (nm_messages m) \<le> 255"
    and "length bodies = length (nm_messages m)"
    and "reads_back (decodeMessages (map dsm_dataSetWriterId (nm_messages m))) (concat bodies) (nm_messages m)"
  shows "reads_back (decodeWith new_network_message)
    (header_bytes m @ writer_id_bytes (nm_messages m) @ size_bytes bodies @ concat bodies) m"
proof -
  let ?tail = "writer_id_bytes (nm_messages m) @ size_bytes bodies @ concat bodies"
  let ?ids = "new_network_message\<lparr>nm_publisherId := nm_publisherId m, nm_publisherIdType := nm_publisherIdType m\<rparr>"
  let ?off = "?ids\<lparr>nm_writerGroupIdEnabled := False, nm_groupSequenceNumberEnabled := False\<rparr>"
  let ?group = "nm_writerGroupIdEnabled m \<or> nm_groupSequenceNumberEnabled m"
  note flags = header_flags_bits [of m]
  define rest where "rest = (\<lambda>out r. out_bind (decodePayloadHeader True r) (\<lambda>ids r.
      out_bind (decodeSizes True (length ids) r) (\<lambda>_ r.
      out_bind (decodeMessages ids r) (\<lambda>ms. Got (out\<lparr>nm_messages := ms\<rparr> :: network_message)))))"
  have payload: "reads_back (rest out) ?tail (out\<lparr>nm_messages := nm_messages m\<rparr>)" for out
    unfolding rest_def by (rule reads_back_payload [OF assms(2-5)])
  have group: "reads_back (\<lambda>r. out_bind (if ?group then decodeGroupHeader ?off r else Got ?off r) rest)
      ((if ?group then group_header_bytes m else []) @ ?tail) m"
  proof (cases ?group)
    case True
    have "reads_back (\<lambda>r. out_bind (decodeGroupHeader ?off r) rest) (group_header_bytes m @ ?tail)
        (m\<lparr>nm_messages := nm_messages m\<rparr>)"
      using assms(1)
      by (intro reads_back_bind [OF reads_back_group_header [OF assms(1)]])
         (rule reads_back_cong [OF payload], cases m,
           simp add: rest_def new_network_message_def network_message_ok_def)
    with True show ?thesis by simp
  next
    case False
    then have "?off\<lparr>nm_messages := nm_messages m\<rparr> = m"
      using assms(1) by (simp add: new_network_message_def network_message_ok_def)
    with payload [of ?off] False show ?thesis by simp
  qed
  have "reads_back (\<lambda>r. out_bind (decodePublisherId (publisher_id_type_code (nm_publisherIdType m)) new_network_message r)
      (\<lambda>out r. let out = out\<lparr>nm_writerGroupIdEnabled := False, nm_groupSequenceNumberEnabled := False\<rparr> in
        out_bind (if ?group then decodeGroupHeader out r else Got out r) rest))
      (publisher_id_bytes (nm_publisherIdType m) (nm_publisherId m) @ (if ?group then group_header_bytes m else []) @ ?tail) m"
    using assms(1) group unfolding Let_def
    by (intro reads_back_bind [OF reads_back_publisher_id]) (simp_all add: network_message_ok_def)
  then have "reads_back (decodeWith new_network_message) ([header_flags m] @ extended_bytes m
      @ publisher_id_bytes (nm_publisherIdType m) (nm_publisherId m)
      @ (if ?group then group_header_bytes m else []) @ ?tail) m"
    unfolding decodeWith_def
    by (intro reads_back_bind [OF reads_back_or_refuse [OF reads_back_u8]])
       (simp only: wire_flags flags Let_def simp_thms if_True if_False,
        intro reads_back_bind [OF reads_back_extended],
        simp only: no_extended_flags_def extended_flags.simps skip_if_def decodePromotedFields_def rest_def
          Let_def if_False out_bind_simps)
  then show ?thesis by (simp add: header_bytes_def)
qed

section \<open>What the encoder answers\<close>

text \<open>The size of the body the encoder builds for a data set message.\<close>

definition body_size :: "data_set_message \<Rightarrow> nat" where
  "body_size d = (case encodeDataSetMessage [] d of Inl _ \<Rightarrow> 0 | Inr b \<Rightarrow> length b)"

lemma encodeBodies_sizes:
  "encodeBodies ds = Inr bodies \<Longrightarrow> map length bodies = map body_size ds"
  by (induction ds arbitrary: bodies) (auto simp: res_bind_Inr_iff body_size_def)

lemma res_fold_putBodySize_refuses:
  "res_fold putBodySize out bodies = Inl e \<longleftrightarrow>
     (\<exists>b \<in> set bodies. 0xFFFF < length b) \<and> e = ''PubSub wire encoder: DataSetMessage too large''"
proof (induction bodies arbitrary: out)
  case (Cons b bodies)
  then show ?case by (cases "0xFFFF < length b") (auto simp: putBodySize_def [of out b])
qed simp

lemma encodeNetworkMessage_body_refusal:
  assumes "\<And>d. d \<in> set (nm_messages m) \<Longrightarrow> message_ok d"
    and "nm_messages m \<noteq> []" and "length (nm_messages m) \<le> 255"
  shows "encodeNetworkMessage m = Inl e \<longleftrightarrow>
    1 < length (nm_messages m) \<and> (\<exists>d \<in> set (nm_messages m). 0xFFFF < body_size d)
    \<and> e = ''PubSub wire encoder: DataSetMessage too large''"
proof -
  from reads_back_bodies [OF assms(1)] obtain bodies where
    bodies: "encodeBodies (nm_messages m) = Inr bodies" "length bodies = length (nm_messages m)" by blast
  have "(\<exists>b \<in> set bodies. 0xFFFF < length b) \<longleftrightarrow> (\<exists>n \<in> set (map length bodies). 0xFFFF < n)" by auto
  also have "\<dots> \<longleftrightarrow> (\<exists>d \<in> set (nm_messages m). 0xFFFF < body_size d)"
    unfolding encodeBodies_sizes [OF bodies(1)] by auto
  finally show ?thesis
    using assms(2,3) bodies(1)
    by (cases "1 < length (nm_messages m)")
       (auto simp: encodeNetworkMessage_def Let_def res_bind_Inl_iff res_fold_putBodySize_refuses)
qed

section \<open>Properties of the codec\<close>

lemma decodes_encoded:
  assumes "network_message_ok m" and "encodeNetworkMessage m = Inr bs"
    and "length (bs @ rest) < 2 ^ 63"
  shows "decodeNetworkMessage new_network_message (bs @ rest) (length (bs @ rest))
    = Got m (advance (new_reader (bs @ rest) (length (bs @ rest))) (length bs))"
proof -
  have "\<And>d. d \<in> set (nm_messages m) \<Longrightarrow> message_ok d"
    using assms(1) by (simp add: network_message_ok_def)
  from reads_back_bodies [OF this] obtain bodies where
    b: "encodeBodies (nm_messages m) = Inr bodies" "length bodies = length (nm_messages m)"
      "reads_back (decodeMessages (map dsm_dataSetWriterId (nm_messages m))) (concat bodies) (nm_messages m)"
    by blast
  note bs = encodeNetworkMessage_bytes [OF assms(2) b(1,2)]
  have "reads_back (decodeWith new_network_message) bs m"
    using reads_back_network_message [OF assms(1) bs(1,2) b(2,3)] by (simp only: bs(3))
  moreover have "reader_ok (new_reader (bs @ rest) (length (bs @ rest)))"
    using assms(3) by (intro new_reader_ok) auto
  ultimately show ?thesis
    unfolding decodeNetworkMessage_def by (rule reads_backD [of _ _ _ _ rest]) simp
qed



section \<open>A sample message\<close>

definition sample_message :: network_message where
  "sample_message = new_network_message\<lparr>nm_publisherId := 91, nm_writerGroupId := 1,
     nm_messages := [new_data_set_message\<lparr>dsm_dataSetWriterId := 7,
       dsm_fields := [makeSigned TypeInt32 (- 5), makeArray TypeBoolean [makeBoolean True]]\<rparr>]\<rparr>"

definition sample_bytes :: bytes where
  "sample_bytes = [241, 1, 91, 0, 9, 1, 0, 0, 0, 1, 7, 0, 1, 2, 0, 6, 251, 255, 255, 255,
      129, 1, 0, 0, 0, 1]"

lemma sample_message_encoded: "encodeNetworkMessage sample_message = Inr sample_bytes"
  by (simp add: sample_message_def sample_bytes_def new_network_message_def new_data_set_message_def
      make_defs encodeNetworkMessage_def encodeHeader_bytes header_bytes_def header_flags_def
      extended_bytes_def publisher_id_bytes_def group_header_bytes_def u16_bytes_def putU8_def
      put_u16_bytes put_le_bytes le_bytes_4 encodeDataSetMessage_def encodeVariant_def
      encodeScalarBody.simps wire_flags Let_def encodeElement_def boolValue_def)

lemma sample_message_ok: "network_message_ok sample_message"
  by (simp add: sample_message_def new_network_message_def new_data_set_message_def make_defs
      network_message_ok_def publisher_id_fits_def fits_unsigned_def message_ok_def wire_ok_def
      scalar_ok_def fits_signed_def code_ok_def builtin_of_code_def)



end
