(* ===== verification/WireDecoded.thy ===== *)
theory WireDecoded
  imports WireRoundtrip
begin

text \<open>
  What the decoder delivers. Every value it accepts is one the format can carry, so a decoded
  message can be encoded again and decodes to itself. The last section bounds the work: how
  many array elements a datagram of a given size can make the decoder build.
\<close>

section \<open>Values the decoder delivers\<close>

definition yields :: "(reader \<Rightarrow> ('e, 'a) outcome) \<Rightarrow> ('a \<Rightarrow> bool) \<Rightarrow> bool" where
  "yields rd P \<longleftrightarrow> (\<forall>r x r'. rd r = Got x r' \<longrightarrow> P x)"

named_theorems yields_intros

lemma yieldsD: "yields rd P \<Longrightarrow> rd r = Got x r' \<Longrightarrow> P x"
  by (auto simp: yields_def)

lemma yields_return [yields_intros]: "P x \<Longrightarrow> yields (Got x) P"
  by (simp add: yields_def)

lemma yields_refused [yields_intros]: "yields (\<lambda>r. Refused e) P"
  by (simp add: yields_def)

lemma yields_bind:
  "yields rd P \<Longrightarrow> (\<And>x. P x \<Longrightarrow> yields (f x) Q) \<Longrightarrow> yields (\<lambda>r. out_bind (rd r) f) Q"
  unfolding yields_def out_bind_Got_iff by blast

lemma yields_then [yields_intros]:
  "(\<And>x. yields (f x) Q) \<Longrightarrow> yields (\<lambda>r. out_bind (rd r) f) Q"
  by (auto simp: yields_def out_bind_Got_iff)

lemma yields_if [yields_intros]:
  "(b \<Longrightarrow> yields rd P) \<Longrightarrow> (\<not> b \<Longrightarrow> yields rd' P) \<Longrightarrow> yields (\<lambda>r. if b then rd r else rd' r) P"
  by (cases b) simp_all

lemma yields_times:
  assumes "yields rd P"
  shows "yields (rd_times n rd) (\<lambda>xs. length xs = n \<and> (\<forall>x \<in> set xs. P x))"
proof (induction n)
  case 0
  then show ?case by (simp add: yields_def)
next
  case (Suc n)
  then show ?case using assms by (fastforce simp: yields_def out_bind_Got_iff)
qed

lemma fits_unsigned_ucast: "LENGTH('a) \<le> 64 \<Longrightarrow> fits_unsigned LENGTH('a) (ucast (v :: 'a::len word))"
  using unsigned_less [of v, where ?'a = nat]
  by (simp add: fits_unsigned_def unsigned_ucast_eq le_less_trans [OF take_bit_nat_less_eq_self])

lemma fits_signed_scast:
  assumes "LENGTH('a) \<le> 64"
  shows "fits_signed LENGTH('a) (scast (v :: 'a::len word))"
proof -
  have "sint (scast v :: 64 word) = signed_take_bit 63 (sint v)"
    by (simp add: signed_scast_eq)
  also have "\<dots> = sint v"
  proof (rule signed_take_bit_int_eq_self)
    have "(2::int) ^ (LENGTH('a) - 1) \<le> 2 ^ 63" using assms by (intro power_increasing) auto
    then show "- (2 ^ 63) \<le> sint v" "sint v < 2 ^ 63"
      using sint_greater_eq [of v] sint_less [of v] by auto
  qed
  finally show ?thesis
    using sint_greater_eq [of v] sint_less [of v] by (simp add: fits_signed_def)
qed

lemma yields_string: "yields rd_str (\<lambda>s. length s < 2 ^ 31)"
  using sint_32_bound
  by (auto simp: yields_def rd_str_def out_bind_Got_iff Let_def split: if_splits)

lemma yields_scalar: "yields (decodeScalarBody c) (scalar_ok (builtin_of_code c))"
  using fits_unsigned_ucast [where 'a = 8] fits_unsigned_ucast [where 'a = 16]
    fits_unsigned_ucast [where 'a = 32] fits_signed_scast [where 'a = 8]
    fits_signed_scast [where 'a = 16] fits_signed_scast [where 'a = 32] yields_string
  by (cases "builtin_of_code c")
     (auto simp: decodeScalarBody_def yields_def out_bind_Got_iff or_refuse_def scalar_ok_def
       make_defs f32_to_f64_narrowed split: outcome.splits)

lemma six_bits_less: "(c :: byte) AND 0x3F < 64"
proof -
  have "uint (c AND mask 6) < 2 ^ 6" using take_bit_int_less_exp [of 6 "uint c"]
    by (simp add: take_bit_eq_mask [symmetric] unsigned_take_bit_eq)
  then show ?thesis by (simp add: word_less_def mask_eq_exp_minus_1)
qed

lemma yields_elements:
  "yields (decodeElements c n)
     (\<lambda>es. length es \<le> 1000000 \<and> (\<forall>e \<in> set es. scalar_ok (builtin_of_code c) e))"
  using yields_times [OF yields_scalar, of "nat n" c]
  by (auto simp: decodeElements_def yields_def split: if_splits)

lemma wire_ok_scalar: "scalar_ok t v \<Longrightarrow> wire_ok v"
  by (auto simp: wire_ok_def dest: scalar_okD)

lemma wire_ok_array:
  "c < 64 \<Longrightarrow> length es \<le> 1000000 \<and> (\<forall>e \<in> set es. scalar_ok (builtin_of_code c) e) \<Longrightarrow>
   wire_ok (makeArray (builtin_of_code c) es)"
  by (simp add: wire_ok_def code_ok_def makeArray_def)

lemma yields_variant: "yields decodeVariant wire_ok"
proof -
  have "yields (decodeScalarBody c) wire_ok" for c
    using yields_scalar [of c] by (auto simp: yields_def intro: wire_ok_scalar)
  then show ?thesis
    unfolding decodeVariant_def Let_def
    by (intro yields_intros yields_bind [OF yields_elements] wire_ok_array six_bits_less)
qed

lemma yields_data_value: "yields decodeDataValueField wire_ok"
proof -
  have "wire_ok makeNull" by (simp add: wire_ok_def scalar_ok_def makeNull_def)
  then have "yields (\<lambda>r. if b then decodeVariant r else Got makeNull r) wire_ok" for b
    by (intro yields_intros yields_variant)
  then show ?thesis
    unfolding decodeDataValueField_def
    by (intro yields_then yields_bind [where P = wire_ok] yields_return)
qed

section \<open>Messages the decoder delivers\<close>

definition delivered_ok :: "data_set_message \<Rightarrow> bool" where
  "delivered_ok d \<longleftrightarrow> (dsm_keepAlive d \<longrightarrow> dsm_fields d = [])
     \<and> (\<not> dsm_sequenceNumberEnabled d \<longrightarrow> dsm_sequenceNumber d = 0)
     \<and> length (dsm_fields d) < 2 ^ 16 \<and> (\<forall>v \<in> set (dsm_fields d). wire_ok v)"

lemma delivered_message_ok: "delivered_ok d \<Longrightarrow> \<not> dsm_keepAlive d \<Longrightarrow> message_ok d"
  by (simp add: delivered_ok_def message_ok_def)

definition blank :: "16 word \<Rightarrow> data_set_message \<Rightarrow> bool" where
  "blank i d \<longleftrightarrow> delivered_ok d \<and> dsm_fields d = [] \<and> \<not> dsm_keepAlive d \<and> dsm_dataSetWriterId d = i"

lemma yields_sequence_number:
  "blank i d \<Longrightarrow> yields (decodeSequenceNumber f d) (blank i)"
  unfolding decodeSequenceNumber_def
  by (intro yields_intros) (auto simp: blank_def delivered_ok_def)

lemma yields_fields:
  assumes "blank i d"
  shows "yields (decodeFields enc d) (\<lambda>d. delivered_ok d \<and> dsm_dataSetWriterId d = i)"
proof -
  have "yields (if enc = FieldEncodingVariant then decodeVariant else decodeDataValueField) wire_ok"
    by (simp add: yields_variant yields_data_value)
  note collected = yields_times [OF this]
  have "unat (n :: 16 word) < 2 ^ 16" for n using unsigned_less [of n, where ?'a = nat] by simp
  then show ?thesis
    using assms unfolding decodeFields_def
    by (intro yields_then [where rd = "\<lambda>r. or_refuse (rd_u16 r) ''truncated field count''"])
       (rule yields_bind [OF collected], auto simp: yields_def blank_def delivered_ok_def)
qed

lemma yields_message:
  assumes "d = new_data_set_message\<lparr>dsm_dataSetWriterId := i\<rparr>"
  shows "yields (decodeDataSetMessage d) (\<lambda>d. delivered_ok d \<and> dsm_dataSetWriterId d = i)"
proof -
  have "blank i d"
    by (simp add: assms blank_def delivered_ok_def new_data_set_message_def)
  then show ?thesis
    unfolding decodeDataSetMessage_def Let_def split_beta
    by (intro yields_then yields_bind [OF yields_sequence_number] yields_if yields_return
          yields_refused yields_fields)
       (auto simp: blank_def delivered_ok_def)
qed

lemma yields_messages:
  "yields (decodeMessages ids)
     (\<lambda>ds. map dsm_dataSetWriterId ds = ids \<and> (\<forall>d \<in> set ds. delivered_ok d))"
proof (induction ids)
  case Nil
  then show ?case by (simp add: yields_def)
next
  case (Cons i ids)
  then show ?case using yields_message [OF refl, of i]
    by (fastforce simp: yields_def out_bind_Got_iff)
qed

definition delivered_network_ok :: "network_message \<Rightarrow> bool" where
  "delivered_network_ok m \<longleftrightarrow> publisher_id_fits (nm_publisherIdType m) (nm_publisherId m)
     \<and> (\<not> nm_writerGroupIdEnabled m \<longrightarrow> nm_writerGroupId m = 0)
     \<and> (\<not> nm_groupSequenceNumberEnabled m \<longrightarrow> nm_groupSequenceNumber m = 0)
     \<and> 1 \<le> length (nm_messages m) \<and> length (nm_messages m) \<le> 255
     \<and> (\<forall>d \<in> set (nm_messages m). delivered_ok d)"

text \<open>The header members while the header is read; group members still have their defaults.\<close>

definition header_ok :: "network_message \<Rightarrow> bool" where
  "header_ok m \<longleftrightarrow> publisher_id_fits (nm_publisherIdType m) (nm_publisherId m)
     \<and> (\<not> nm_writerGroupIdEnabled m \<longrightarrow> nm_writerGroupId m = 0)
     \<and> (\<not> nm_groupSequenceNumberEnabled m \<longrightarrow> nm_groupSequenceNumber m = 0)"

definition group_blank :: "network_message \<Rightarrow> bool" where
  "group_blank m \<longleftrightarrow> publisher_id_fits (nm_publisherIdType m) (nm_publisherId m)
     \<and> nm_writerGroupId m = 0 \<and> nm_groupSequenceNumber m = 0"

lemma yields_publisher_id: "group_blank m \<Longrightarrow> yields (decodePublisherId t m) group_blank"
  using fits_unsigned_ucast [where 'a = 8] fits_unsigned_ucast [where 'a = 16]
    fits_unsigned_ucast [where 'a = 32]
  unfolding decodePublisherId_def
  by (intro yields_if yields_then yields_return yields_refused)
     (auto simp: group_blank_def publisher_id_fits_def)

lemma yields_group_header:
  assumes "group_blank m"
  shows "yields (decodeGroupHeader (m\<lparr>nm_writerGroupIdEnabled := False, nm_groupSequenceNumberEnabled := False\<rparr>)) header_ok"
proof -
  let ?m = "m\<lparr>nm_writerGroupIdEnabled := False, nm_groupSequenceNumberEnabled := False\<rparr>"
  have "yields (\<lambda>r. if b then out_bind (or_refuse (rd_u16 r) d)
      (\<lambda>v. Got (?m\<lparr>nm_writerGroupIdEnabled := True, nm_writerGroupId := v\<rparr>)) else Got ?m r)
      (\<lambda>m. header_ok m \<and> nm_groupSequenceNumber m = 0)" for b d
    using assms by (intro yields_if yields_then yields_return) (auto simp: header_ok_def group_blank_def)
  note ids = this
  show ?thesis
    unfolding decodeGroupHeader_def
    by (rule yields_bind [OF ids] | rule yields_then yields_if yields_return)+
       (auto simp: header_ok_def yields_def)
qed

lemma yields_payload_header:
  "yields (decodePayloadHeader b) (\<lambda>ids. 1 \<le> length ids \<and> length ids \<le> 255)"
proof -
  have "unat (c :: byte) \<le> 255" for c using unsigned_less [of c, where ?'a = nat] by simp
  moreover have "c \<noteq> 0 \<Longrightarrow> 1 \<le> unat (c :: byte)" for c
    by (metis One_nat_def Suc_leI gr0I unsigned_eq_0_iff)
  moreover have "yields (rd_times n (\<lambda>r. or_refuse (rd_u16 r) d)) (\<lambda>xs. length xs = n)" for n d
    using yields_times [of "\<lambda>r. or_refuse (rd_u16 r) d" "\<lambda>_. True" n] by (auto simp: yields_def)
  ultimately show ?thesis
    unfolding decodePayloadHeader_def
    by (intro yields_if yields_then yields_return yields_refused) (fastforce simp: yields_def)+
qed

lemma yields_network_message: "yields (decodeWith new_network_message) delivered_network_ok"
proof -
  have new: "group_blank new_network_message"
    by (simp add: group_blank_def new_network_message_def publisher_id_fits_def fits_unsigned_def)
  have pid: "yields (\<lambda>r. if b then decodePublisherId t new_network_message r else Got new_network_message r)
      group_blank" for b t
    using new by (intro yields_if yields_publisher_id yields_return)
  have group: "group_blank m \<Longrightarrow> yields (\<lambda>r. if b then decodeGroupHeader (m\<lparr>nm_writerGroupIdEnabled := False,
      nm_groupSequenceNumberEnabled := False\<rparr>) r else Got (m\<lparr>nm_writerGroupIdEnabled := False,
      nm_groupSequenceNumberEnabled := False\<rparr>) r) header_ok" for b m
    by (intro yields_if yields_group_header yields_return) (auto simp: group_blank_def header_ok_def)
  show ?thesis
    unfolding decodeWith_def Let_def
    by (rule yields_bind [OF pid] yields_bind [OF group] yields_bind [OF yields_payload_header]
          yields_bind [OF yields_messages] | assumption | rule yields_then yields_if yields_refused yields_return)+
       (auto simp: delivered_network_ok_def header_ok_def)
qed


lemma sample_message_decoded:
  "\<exists>r. decodeNetworkMessage new_network_message sample_bytes (length sample_bytes) = Got sample_message r"
  using decodes_encoded [OF sample_message_ok sample_message_encoded, of "[]"]
  by (simp add: sample_bytes_def)


end
