(* ===== verification/WireBounds.thy ===== *)
theory WireBounds
  imports WireDecoded
begin

text \<open>
  How much a datagram can make the decoder build. \<open>takes rd Q\<close> is a Hoare triple for the
  decoders: a successful run from a good position ends at a good position, and \<open>Q\<close> holds
  of its value and of the number of bytes it read.
\<close>

section \<open>Bytes read by a decoder\<close>

definition takes :: "(reader \<Rightarrow> ('e, 'a) outcome) \<Rightarrow> ('a \<Rightarrow> nat \<Rightarrow> bool) \<Rightarrow> bool" where
  "takes rd Q \<longleftrightarrow> (\<forall>r x r'. reader_ok r \<longrightarrow> rd r = Got x r' \<longrightarrow>
     reader_ok r' \<and> m_size r' = m_size r \<and> (\<exists>k. m_position r' = m_position r + k \<and> Q x k))"

lemma takesD:
  assumes "takes rd Q" and "reader_ok r" and "rd r = Got x r'"
  obtains k where "reader_ok r'" "m_size r' = m_size r" "m_position r' = m_position r + k" "Q x k"
  using assms unfolding takes_def by blast

lemma takesI:
  assumes "\<And>r x r'. reader_ok r \<Longrightarrow> rd r = Got x r' \<Longrightarrow>
    \<exists>k \<le> length (remaining r). r' = advance r k \<and> Q x k"
  shows "takes rd Q"
  unfolding takes_def
proof (intro allI impI)
  fix r x r' assume "reader_ok r" "rd r = Got x r'"
  with assms [OF this] obtain k where "k \<le> length (remaining r)" "r' = advance r k" "Q x k" by blast
  with \<open>reader_ok r\<close> show "reader_ok r' \<and> m_size r' = m_size r \<and> (\<exists>k. m_position r' = m_position r + k \<and> Q x k)"
    using reader_ok_advance by (auto simp: advance_def)
qed

lemma takes_bind:
  assumes "takes rd P" and "\<And>x k. P x k \<Longrightarrow> takes (f x) (\<lambda>y j. Q y (k + j))"
  shows "takes (\<lambda>r. out_bind (rd r) f) Q"
  unfolding takes_def
proof (intro allI impI)
  fix r y r' assume ok: "reader_ok r" and "out_bind (rd r) f = Got y r'"
  then obtain x s where xs: "rd r = Got x s" "f x s = Got y r'" by (auto simp: out_bind_Got_iff)
  from assms(1) ok xs(1) obtain k where k: "reader_ok s" "m_size s = m_size r"
    "m_position s = m_position r + k" "P x k" by (rule takesD)
  from assms(2) [OF k(4)] k(1) xs(2) obtain j where j: "reader_ok r'" "m_size r' = m_size s"
    "m_position r' = m_position s + j" "Q y (k + j)" by (rule takesD)
  show "reader_ok r' \<and> m_size r' = m_size r \<and> (\<exists>k. m_position r' = m_position r + k \<and> Q y k)"
    using j k(2,3) by (intro conjI exI [of _ "k + j"]) simp_all
qed

lemma takes_return: "Q x 0 \<Longrightarrow> takes (Got x) Q"
  by (auto simp: takes_def)

lemma takes_refused: "takes (\<lambda>r. Refused e) Q"
  by (simp add: takes_def)

lemma takes_if: "(b \<Longrightarrow> takes rd Q) \<Longrightarrow> (\<not> b \<Longrightarrow> takes rd' Q) \<Longrightarrow> takes (\<lambda>r. if b then rd r else rd' r) Q"
  by (cases b) simp_all

lemma takes_weaken: "takes rd P \<Longrightarrow> (\<And>x k. P x k \<Longrightarrow> Q x k) \<Longrightarrow> takes rd Q"
  unfolding takes_def by blast

lemma takes_or_refuse: "takes rd P \<Longrightarrow> takes (\<lambda>r. or_refuse (rd r) d) P"
proof -
  assume rd: "takes rd P"
  have "or_refuse (rd r) d = Got x r' \<longleftrightarrow> rd r = Got x r'" for r x r'
    by (cases "rd r") auto
  then show ?thesis using rd unfolding takes_def by (simp only:)
qed

context wire_reader
begin

lemma takes_yields:
  assumes "yields rd P"
  shows "takes rd (\<lambda>x _. P x)"
  using got yieldsD [OF assms] by (intro takesI) blast

lemma takes_some: "takes rd (\<lambda>_ _. True)"
  by (rule takes_yields) (simp add: yields_def)

end

lemma takes_u8: "takes rd_u8 (\<lambda>_ k. k = 1)"
  by (rule takesI) (auto simp: rd_u8_eq Suc_le_eq split: list.splits)

lemma takes_u16: "takes rd_u16 (\<lambda>_ k. k = 2)"
  by (rule takesI) (auto simp: rd_u16_eq split: if_splits)

lemma takes_u32: "takes rd_u32 (\<lambda>_ k. k = 4)"
  by (rule takesI) (auto simp: rd_u32_eq split: if_splits)

lemma takes_u64: "takes rd_u64 (\<lambda>_ k. k = 8)"
  by (rule takesI) (auto simp: rd_u64_eq split: if_splits)

lemma takes_times:
  assumes "takes rd (\<lambda>x k. c x \<le> k)"
  shows "takes (rd_times n rd) (\<lambda>xs k. sum_list (map c xs) \<le> k)"
proof (induction n)
  case 0
  then show ?case by (simp add: takes_def)
next
  case (Suc n)
  have "takes (\<lambda>r. out_bind (rd r) (\<lambda>x r. out_bind (rd_times n rd r) (\<lambda>xs r. Got (x # xs) r)))
      (\<lambda>xs k. sum_list (map c xs) \<le> k)"
    by (rule takes_bind [OF assms], rule takes_bind [OF Suc], rule takes_return) simp
  then show ?case by simp
qed

section \<open>What a value costs\<close>

text \<open>
  One byte for the type mask, and one for each element of an array: only the elements of a
  Null array cost nothing.
\<close>

definition element_count :: "wire_value \<Rightarrow> nat" where
  "element_count v = (if m_isArray v then length (m_elements v) else 0)"

definition value_cost :: "wire_value \<Rightarrow> nat" where
  "value_cost v = (if m_type v = TypeNull then 1 else Suc (element_count v))"

lemma takes_one:
  assumes "takes rd (\<lambda>_ k. 1 \<le> k)"
  shows "takes (\<lambda>r. out_bind (or_refuse (rd r) d) (\<lambda>v. Got (f v))) (\<lambda>_ k. 1 \<le> k)"
  by (rule takes_bind [OF takes_or_refuse [OF assms]], rule takes_return) simp

lemma takes_scalar: "takes (decodeScalarBody c) (\<lambda>_ k. if builtin_of_code c = TypeNull then True else 1 \<le> k)"
proof -
  have str: "takes rd_str (\<lambda>_ k. 1 \<le> k)"
  proof -
    have found: "k \<le> length (remaining r) \<Longrightarrow> 1 \<le> k \<Longrightarrow>
        \<exists>k' \<le> length (remaining r). advance r k = advance r k' \<and> 1 \<le> k'" for k r by auto
    show ?thesis
      by (rule takesI) (auto simp: rd_str_eq rd_u32_eq simp del: One_nat_def intro!: found split: if_splits)
  qed
  have prim: "takes rd_u8 (\<lambda>_ k. 1 \<le> k)" "takes rd_u16 (\<lambda>_ k. 1 \<le> k)"
    "takes rd_u32 (\<lambda>_ k. 1 \<le> k)" "takes rd_u64 (\<lambda>_ k. 1 \<le> k)"
    by (rule takes_weaken [OF takes_u8] takes_weaken [OF takes_u16] takes_weaken [OF takes_u32]
        takes_weaken [OF takes_u64], simp)+
  show ?thesis
    unfolding decodeScalarBody_def
    by (cases "builtin_of_code c")
       (simp add: takes_refused takes_return del: One_nat_def, (rule takes_one, rule prim str)?)+
qed

lemma takes_elements:
  "takes (decodeElements c n) (\<lambda>es k. if builtin_of_code c = TypeNull then True else length es \<le> k)"
proof -
  have "takes (rd_times (nat n) (decodeScalarBody c))
      (\<lambda>es k. sum_list (map (\<lambda>_. if builtin_of_code c = TypeNull then 0 else 1) es) \<le> k)"
    by (rule takes_times, rule takes_weaken [OF takes_scalar]) (simp split: if_splits)
  then have "takes (rd_times (nat n) (decodeScalarBody c))
      (\<lambda>es k. if builtin_of_code c = TypeNull then True else length es \<le> k)"
    by (rule takes_weaken) (simp add: sum_list_triv split: if_splits)
  then show ?thesis
    unfolding decodeElements_def
    by (intro takes_if takes_refused takes_return) simp_all
qed

lemma element_count_scalar: "scalar_ok t v \<Longrightarrow> element_count v = 0"
  by (auto simp: element_count_def dest: scalar_okD)

lemma takes_variant: "takes decodeVariant (\<lambda>v k. value_cost v \<le> k)"
proof -
  have scalar: "takes (decodeScalarBody c) (\<lambda>v k. value_cost v \<le> 1 + k)" for c
    by (rule takes_weaken [OF scalar_reader.takes_yields [OF yields_scalar]])
       (simp add: value_cost_def element_count_scalar)
  have array: "takes (\<lambda>r. out_bind (or_refuse (rd_u32 r) d) (\<lambda>n r. out_bind (decodeElements c (sint n) r)
      (\<lambda>es. Got (makeArray (builtin_of_code c) es)))) (\<lambda>v k. value_cost v \<le> 1 + k)" for c d
    by (rule takes_bind [OF takes_or_refuse [OF takes_u32]], rule takes_bind [OF takes_elements],
        rule takes_return)
       (auto simp: value_cost_def element_count_def makeArray_def)
  show ?thesis
    unfolding decodeVariant_def Let_def
    by (rule takes_bind [OF takes_or_refuse [OF takes_u8]])
       (auto intro!: takes_if takes_refused scalar [unfolded plus_1_eq_Suc] array [unfolded plus_1_eq_Suc])
qed

lemma takes_skip_if:
  "n < 2 ^ 63 \<Longrightarrow> takes (skip_if b n d) (\<lambda>_ _. True)"
  by (rule takesI) (auto simp: skip_if_def rd_skip_eq split: if_splits intro!: exI [of _ "if b then n else 0"])

text \<open>Steps of which only the progress of the next ones matters.\<close>

lemma takes_then:
  assumes "takes rd (\<lambda>_ _. True)" and "\<And>x. takes (f x) (\<lambda>y k. c y \<le> k)"
  shows "takes (\<lambda>r. out_bind (rd r) f) (\<lambda>y k. c y \<le> k)"
  by (rule takes_bind [OF assms(1)], rule takes_weaken [OF assms(2)]) simp

lemma takes_keeping:
  assumes "takes rd (\<lambda>_ _. True)" and "takes f (\<lambda>y _. y = x)"
  shows "takes (\<lambda>r. out_bind (rd r) (\<lambda>_. f)) (\<lambda>y _. y = x)"
  by (rule takes_bind [OF assms(1)], rule takes_weaken [OF assms(2)]) simp

lemma takes_data_value: "takes decodeDataValueField (\<lambda>v k. value_cost v \<le> k)"
proof -
  have first: "takes (\<lambda>r. if b then decodeVariant r else Got makeNull r) (\<lambda>v k. value_cost v \<le> 1 + k)" for b
    by (intro takes_if takes_return takes_weaken [OF takes_variant])
       (auto simp: value_cost_def makeNull_def)
  show ?thesis
    unfolding decodeDataValueField_def
    by (rule takes_bind [OF takes_or_refuse [OF takes_u8]],
        rule takes_bind [OF first [THEN takes_weaken]], assumption,
        rule takes_weaken, (rule takes_keeping takes_skip_if takes_return, simp?)+)
       simp
qed

section \<open>What a message costs\<close>

definition message_cost :: "data_set_message \<Rightarrow> nat" where
  "message_cost d = sum_list (map value_cost (dsm_fields d))"

lemma takes_fields:
  "takes (decodeFields enc d) (\<lambda>d' k. message_cost d' \<le> message_cost d + k)"
proof -
  have "takes (if enc = FieldEncodingVariant then decodeVariant else decodeDataValueField)
      (\<lambda>v k. value_cost v \<le> k)"
    by (simp add: takes_variant takes_data_value)
  from takes_times [OF this] show ?thesis
    unfolding decodeFields_def
    by (intro takes_bind [OF takes_or_refuse [OF takes_u16]]) (rule takes_bind, assumption, rule takes_return,
        simp add: message_cost_def)
qed

lemma takes_sequence_number:
  "takes (decodeSequenceNumber f d) (\<lambda>d' _. message_cost d' = message_cost d)"
  unfolding decodeSequenceNumber_def
  by (intro takes_if takes_return takes_bind [OF takes_or_refuse [OF takes_u16]])
     (auto simp: message_cost_def)

lemma takes_forget:
  assumes "takes rd (\<lambda>_ _. True)" and "\<And>x. takes (f x) (\<lambda>y k. c y \<le> (b :: nat) + k)"
  shows "takes (\<lambda>r. out_bind (rd r) f) (\<lambda>y k. c y \<le> b + k)"
  by (rule takes_bind [OF assms(1)], rule takes_weaken [OF assms(2)]) simp

lemma takes_message:
  "takes (decodeDataSetMessage d) (\<lambda>d' k. message_cost d' \<le> message_cost d + k)"
proof -
  have keep: "takes (Got (d\<lparr>dsm_keepAlive := True\<rparr>)) (\<lambda>d' k. message_cost d' \<le> message_cost d + k)" for d
    by (rule takes_return) (simp add: message_cost_def)
  have rest: "takes rd (\<lambda>d' k. message_cost d' \<le> message_cost d + k)"
    if "message_cost d1 = message_cost d" "takes rd (\<lambda>d' k. message_cost d' \<le> message_cost d1 + k)" for d1 rd
    using that by simp
  show ?thesis
    unfolding decodeDataSetMessage_def Let_def split_beta
    by (rule takes_forget, rule takes_weaken [OF takes_or_refuse [OF takes_u8]], simp,
        rule takes_forget, rule flags2_reader.takes_some,
        rule takes_bind [OF takes_sequence_number], rule takes_weaken, rule rest, assumption,
        (rule takes_forget, rule takes_skip_if, simp)+,
        intro takes_if takes_refused takes_fields keep, simp)
qed

lemma takes_messages:
  "takes (decodeMessages ids) (\<lambda>ds k. sum_list (map message_cost ds) \<le> k)"
proof (induction ids)
  case Nil
  then show ?case by (simp add: takes_def)
next
  case (Cons i ids)
  have new: "message_cost (new_data_set_message\<lparr>dsm_dataSetWriterId := i\<rparr>) = 0"
    by (simp add: message_cost_def new_data_set_message_def)
  have "takes (\<lambda>r. out_bind (decodeDataSetMessage (new_data_set_message\<lparr>dsm_dataSetWriterId := i\<rparr>) r)
      (\<lambda>m r. out_bind (decodeMessages ids r) (\<lambda>ms. Got (m # ms))))
      (\<lambda>ds k. sum_list (map message_cost ds) \<le> k)"
    by (rule takes_bind [OF takes_message], rule takes_bind [OF Cons], rule takes_return) (simp add: new)
  then show ?case by simp
qed

lemma takes_network_message:
  "takes (decodeWith out) (\<lambda>m k. sum_list (map message_cost (nm_messages m)) \<le> k)"
proof -
  have some: "takes (\<lambda>r. if b then rd r else Got x r) (\<lambda>_ _. True)" if "takes rd (\<lambda>_ _. True)"
    for b x and rd :: "reader \<Rightarrow> (string, 'a) outcome"
    using that by (intro takes_if takes_return) auto
  show ?thesis
    unfolding decodeWith_def Let_def
    by (rule takes_then, rule takes_weaken [OF takes_or_refuse [OF takes_u8]], simp,
        rule takes_if, rule takes_refused,
        rule takes_then, rule extended_flags_reader.takes_some,
        rule takes_then, rule some, rule publisher_id_reader.takes_some,
        rule takes_then, rule takes_skip_if, simp,
        rule takes_then, rule some, rule group_header_reader.takes_some,
        rule takes_then, rule payload_header_reader.takes_some,
        rule takes_then, rule takes_skip_if, simp,
        rule takes_then, rule takes_skip_if, simp,
        rule takes_then, rule promoted_reader.takes_some,
        rule takes_if, rule takes_refused,
        rule takes_then, rule sizes_reader.takes_some,
        rule takes_bind [OF takes_messages], rule takes_return) simp
qed

section \<open>Properties\<close>


text \<open>
  The exception: five bytes that announce \<open>n\<close> elements of the Null type, up to the limit
  of one million, are decoded to an array of \<open>n\<close> values, whatever follows them.
\<close>

theorem null_array_amplifies:
  assumes "n \<le> 1000000" and "length rest < 2 ^ 62"
  shows "outcome_value (decodeVariant (new_reader ([0x80] @ le_bytes 4 (word_of_nat n :: 32 word) @ rest)
      (5 + length rest))) = Some (Inr (makeArray TypeNull (replicate n makeNull)))"
proof -
  define v where "v = makeArray TypeNull (replicate n makeNull)"
  have ok: "wire_ok v" using assms(1)
    by (auto simp: v_def wire_ok_def makeArray_def named_code_ok scalar_ok_def)
  have fold: "res_fold (encodeElement TypeNull) out (replicate n makeNull) = Inr out" for out
    by (induction n) (simp_all add: encodeElement_def encodeScalarBody.simps makeNull_def)
  have "encodeVariant [] v = Inr ([0x80] @ le_bytes 4 (word_of_nat n :: 32 word))"
    using assms(1) fold
    by (simp add: encodeVariant_def v_def makeArray_def putU8_def put_le_bytes wire_flags)
  with variant.law [OF ok] have "reads_back decodeVariant ([0x80] @ le_bytes 4 (word_of_nat n :: 32 word)) v"
    by (auto simp: writes_as_def)
  moreover have "reader_ok (new_reader ([0x80] @ le_bytes 4 (word_of_nat n :: 32 word) @ rest) (5 + length rest))"
    using assms(2) by (intro new_reader_ok) auto
  ultimately show ?thesis unfolding v_def
    by (simp add: reads_backD [of _ _ _ _ rest])
qed


lemma null_array_amplifies_witness:
  "outcome_value (decodeVariant (new_reader ([0x80] @ le_bytes 4 (word_of_nat 1000000 :: 32 word) @ [])
      (5 + length ([] :: bytes)))) = Some (Inr (makeArray TypeNull (replicate 1000000 makeNull)))"
  by (rule null_array_amplifies) simp_all

end
