(* ===== verification/PubSubConfiguration.thy ===== *)
theory PubSubConfiguration
  imports WireTypes
begin

text \<open>
  \<open>PubSub/src/PubSubConfiguration.cpp\<close> and the configuration structures of
  \<open>PubSub/include/PubSubConfiguration.h\<close>: publisher id types and their ranges, and the
  parser of \<open>opc.udp://host:port\<close> addresses with a complete specification of what it accepts.
\<close>

section \<open>Configuration structures\<close>

record field_config =
  fc_address :: string

record data_set_writer_config =
  dwc_id :: "16 word"
  dwc_fields :: "field_config list"

record writer_group_config =
  wgc_id :: "16 word"
  wgc_publishingIntervalMs :: f64
  wgc_writers :: "data_set_writer_config list"

record data_set_reader_config =
  drc_publisherIdType :: publisher_id_type
  drc_publisherId :: "64 word"
  drc_writerGroupId :: "16 word"
  drc_dataSetWriterId :: "16 word"
  drc_targets :: "field_config list"

record connection_config =
  cc_host :: string
  cc_port :: "16 word"
  cc_ttl :: byte
  cc_loopback :: bool
  cc_writerGroups :: "writer_group_config list"
  cc_readers :: "data_set_reader_config list"

record pubsub_configuration =
  pc_publisherIdType :: publisher_id_type
  pc_publisherId :: "64 word"
  pc_connections :: "connection_config list"

section \<open>Publisher id types\<close>

definition parsePublisherIdType :: "string \<Rightarrow> publisher_id_type result" where
  "parsePublisherIdType s =
     (if s = ''Byte'' then Inr PublisherIdByte
      else if s = ''UInt16'' then Inr PublisherIdUInt16
      else if s = ''UInt32'' then Inr PublisherIdUInt32
      else if s = ''UInt64'' then Inr PublisherIdUInt64
      else Inl (''PubSub configuration: unknown publisherIdType '' @ [CHR 0x27] @ s @ [CHR 0x27]
        @ '' (expected Byte, UInt16, UInt32 or UInt64)''))"

fun publisherIdTypeName :: "publisher_id_type \<Rightarrow> string" where
  "publisherIdTypeName PublisherIdByte = ''Byte''"
| "publisherIdTypeName PublisherIdUInt16 = ''UInt16''"
| "publisherIdTypeName PublisherIdUInt32 = ''UInt32''"
| "publisherIdTypeName PublisherIdUInt64 = ''UInt64''"

fun publisherIdMaximum :: "publisher_id_type \<Rightarrow> 64 word" where
  "publisherIdMaximum PublisherIdByte = 0xFF"
| "publisherIdMaximum PublisherIdUInt16 = 0xFFFF"
| "publisherIdMaximum PublisherIdUInt32 = 0xFFFFFFFF"
| "publisherIdMaximum PublisherIdUInt64 = 0xFFFFFFFFFFFFFFFF"

lemma parsePublisherIdType_name: "parsePublisherIdType (publisherIdTypeName t) = Inr t"
  by (cases t) (simp_all add: parsePublisherIdType_def)

lemma parsePublisherIdType_Inr: "parsePublisherIdType s = Inr t \<longleftrightarrow> s = publisherIdTypeName t"
  by (cases t) (auto simp: parsePublisherIdType_def)

section \<open>Searching strings\<close>

text \<open>\<open>std::string::rfind(c)\<close>, also \<open>find_last_of(c)\<close>: the last position of a character.\<close>

fun rfind :: "char \<Rightarrow> string \<Rightarrow> nat option" where
  "rfind c [] = None"
| "rfind c (x # xs) = (case rfind c xs of
       Some i \<Rightarrow> Some (Suc i)
     | None \<Rightarrow> if x = c then Some 0 else None)"

lemma rfind_None: "rfind c s = None \<longleftrightarrow> c \<notin> set s"
  by (induction s) (auto split: option.splits)

lemma rfind_Some:
  "rfind c s = Some i \<longleftrightarrow> (\<exists>us vs. s = us @ c # vs \<and> c \<notin> set vs \<and> i = length us)"
proof (induction s arbitrary: i)
  case (Cons x s)
  show ?case
  proof (cases "rfind c s")
    case None
    then have "c \<notin> set s" by (simp add: rfind_None)
    then have "x # s = us @ c # vs \<longleftrightarrow> us = [] \<and> x = c \<and> vs = s" for us vs
      by (auto simp: Cons_eq_append_conv)
    with None \<open>c \<notin> set s\<close> show ?thesis by auto
  next
    case (Some j)
    then obtain us vs where s: "s = us @ c # vs" "c \<notin> set vs" "j = length us"
      unfolding Cons.IH by blast
    have "us' = x # us" if "x # s = us' @ c # vs'" "c \<notin> set vs'" for us' vs'
      using that s by (auto simp: Cons_eq_append_conv append_eq_append_conv2 append_eq_Cons_conv)
    with s Some show ?thesis by (fastforce intro: exI [of _ "x # us"])
  qed
qed simp

text \<open>\<open>while (!rest.empty() && rest[rest.size() - 1] == '/') rest.erase(rest.size() - 1);\<close>\<close>

function drop_slashes :: "string \<Rightarrow> string" where
  "drop_slashes s = (if s \<noteq> [] \<and> s ! (length s - 1) = CHR ''/'' then drop_slashes (take (length s - 1) s) else s)"
  by auto
termination by (relation "measure length") auto

declare drop_slashes.simps [simp del]

lemma drop_slashes_snoc [simp]:
  "drop_slashes (s @ [c]) = (if c = CHR ''/'' then drop_slashes s else s @ [c])"
  "drop_slashes [] = []"
  by (simp_all add: drop_slashes.simps [of "s @ [c]"] drop_slashes.simps [of "[]"])

lemma drop_slashes_replicate: "drop_slashes (s @ replicate n (CHR ''/'')) = drop_slashes s"
proof (induction n)
  case (Suc n)
  then show ?case
    by (simp only: replicate_Suc replicate_append_same [symmetric] append_assoc [symmetric] drop_slashes_snoc) simp
qed simp

lemma drop_slashes_split: "\<exists>n. s = drop_slashes s @ replicate n (CHR ''/'')"
proof (induction s rule: rev_induct)
  case (snoc c s)
  then obtain n where "s = drop_slashes s @ replicate n (CHR ''/'')" by blast
  then show ?case
    by (cases "c = CHR ''/''") (auto simp: replicate_append_same [symmetric] intro: exI [of _ "Suc n"] exI [of _ 0])
qed simp

lemma drop_slashes_last: "drop_slashes s \<noteq> [] \<Longrightarrow> last (drop_slashes s) \<noteq> CHR ''/''"
  by (induction s rule: rev_induct) auto

section \<open>Network addresses\<close>

definition is_digit :: "char \<Rightarrow> bool" where
  "is_digit c \<longleftrightarrow> (48 :: nat) \<le> of_char c \<and> of_char c \<le> (57 :: nat)"

definition digit_value :: "char \<Rightarrow> nat" where
  "digit_value c = of_char c - 48"

definition decimal_value :: "string \<Rightarrow> nat" where
  "decimal_value s = foldl (\<lambda>v c. v * 10 + digit_value c) 0 s"

definition quoted :: "string \<Rightarrow> string" where
  "quoted s = [CHR 0x27] @ s @ [CHR 0x27]"

text \<open>The loop over the digits of the port, with its running value.\<close>

fun parse_port :: "string \<Rightarrow> nat \<Rightarrow> string \<Rightarrow> nat result" where
  "parse_port address parsed [] = Inr parsed"
| "parse_port address parsed (c # cs) =
     (if \<not> is_digit c
        then Inl (''PubSub configuration: non-numeric port in address '' @ quoted address)
      else let parsed = parsed * 10 + digit_value c in
        if 65535 < parsed
          then Inl (''PubSub configuration: port out of range in address '' @ quoted address)
        else parse_port address parsed cs)"

definition udp_scheme :: string where
  "udp_scheme = ''opc.udp://''"

definition parseNetworkAddress :: "string \<Rightarrow> (string \<times> 16 word) result" where
  "parseNetworkAddress address =
     (if take (length udp_scheme) address \<noteq> udp_scheme
        then Inl (''PubSub configuration: address '' @ quoted address @ '' does not start with opc.udp://'')
      else let rest = drop_slashes (drop (length udp_scheme) address);
               lacking = Inl (''PubSub configuration: address '' @ quoted address @ '' lacks a :port'')
        in case rfind (CHR '':'') rest of
             None \<Rightarrow> lacking
           | Some colon \<Rightarrow>
               if colon = 0 \<or> colon = length rest - 1 then lacking
               else let host = take colon rest; portText = drop (colon + 1) rest in
                 res_bind (parse_port address 0 portText) (\<lambda>parsed.
                   if parsed = 0
                     then Inl (''PubSub configuration: port out of range in address '' @ quoted address)
                   else Inr (host, word_of_nat parsed)))"

lemma parse_port_value:
  "parse_port a v s = Inr p \<longleftrightarrow> (\<forall>c \<in> set s. is_digit c) \<and> p = foldl (\<lambda>v c. v * 10 + digit_value c) v s
     \<and> (s = [] \<or> p \<le> 65535)"
proof (induction s arbitrary: v)
  case (Cons c s)
  have le: "w \<le> foldl (\<lambda>v c. v * 10 + digit_value c) w s" for w
  proof (induction s arbitrary: w)
    case (Cons c s)
    from Cons.IH [of "w * 10 + digit_value c"] show ?case by simp
  qed simp
  show ?case using le [of "v * 10 + digit_value c"] by (auto simp: Cons.IH Let_def)
qed auto

text \<open>What an accepted address looks like: scheme, host, port in decimal, any number of slashes.\<close>

definition network_address :: "string \<Rightarrow> string \<Rightarrow> nat \<Rightarrow> string" where
  "network_address host digits n = udp_scheme @ host @ '':'' @ digits @ replicate n (CHR ''/'')"

lemma digit_not_delimiter: "is_digit c \<Longrightarrow> c \<noteq> CHR ''/'' \<and> c \<noteq> CHR '':''"
  by (auto simp: is_digit_def)

lemma drop_slashes_digits:
  assumes "digits \<noteq> []" and "\<forall>c \<in> set digits. is_digit c"
  shows "drop_slashes (s @ digits @ replicate n (CHR ''/'')) = s @ digits"
proof -
  obtain ds d where d: "digits = ds @ [d]" using assms(1) by (metis rev_exhaust)
  with assms(2) have "d \<noteq> CHR ''/''" using digit_not_delimiter by simp
  then show ?thesis
    using drop_slashes_replicate [of "s @ ds @ [d]" n] drop_slashes_snoc(1) [of "s @ ds" d] by (simp add: d)
qed

lemma parse_network_address:
  assumes "host \<noteq> []" and "digits \<noteq> []" and "\<forall>c \<in> set digits. is_digit c"
    and "0 < decimal_value digits" and "decimal_value digits \<le> 65535"
  shows "parseNetworkAddress (network_address host digits n) = Inr (host, word_of_nat (decimal_value digits))"
proof -
  let ?rest = "host @ '':'' @ digits"
  have rest: "drop_slashes (drop (length udp_scheme) (network_address host digits n)) = ?rest"
    using drop_slashes_digits [OF assms(2,3), of "host @ '':''" n] by (simp add: network_address_def)
  have "CHR '':'' \<notin> set digits" using assms(3) digit_not_delimiter by blast
  then have colon: "rfind (CHR '':'') ?rest = Some (length host)"
    unfolding rfind_Some by (intro exI [of _ host] exI [of _ digits]) simp
  have port: "parse_port a 0 digits = Inr (decimal_value digits)" for a
    using assms(3,5) unfolding parse_port_value decimal_value_def by simp
  have "take (length udp_scheme) (network_address host digits n) = udp_scheme"
    by (simp add: network_address_def)
  then show ?thesis
    using assms(1,2,4) colon unfolding parseNetworkAddress_def Let_def rest by (simp add: port)
qed

lemma parseNetworkAddress_accepts:
  assumes "parseNetworkAddress a = Inr (host, port)"
  shows "\<exists>digits n. a = network_address host digits n \<and> host \<noteq> [] \<and> digits \<noteq> []
    \<and> (\<forall>c \<in> set digits. is_digit c) \<and> 0 < decimal_value digits \<and> decimal_value digits \<le> 65535
    \<and> port = word_of_nat (decimal_value digits)"
proof -
  define rest where "rest = drop_slashes (drop (length udp_scheme) a)"
  have scheme: "take (length udp_scheme) a = udp_scheme"
    using assms by (simp add: parseNetworkAddress_def Let_def split: if_splits)
  obtain colon where some: "rfind (CHR '':'') rest = Some colon"
    using assms scheme by (cases "rfind (CHR '':'') rest") (simp_all add: parseNetworkAddress_def Let_def rest_def)
  note body = assms [unfolded parseNetworkAddress_def Let_def, folded rest_def, unfolded some scheme, simplified]
  then have colon: "colon \<noteq> 0" "colon \<noteq> length rest - 1" by (auto split: if_splits)
  with body have colon': "host = take colon rest"
    and port: "\<exists>p. parse_port a 0 (drop (colon + 1) rest) = Inr p \<and> p \<noteq> 0 \<and> port = word_of_nat p"
    by (auto simp: res_bind_Inr_iff split: if_splits)
  from some obtain us vs where us: "rest = us @ CHR '':'' # vs" "colon = length us"
    unfolding rfind_Some by auto
  with colon' have vs: "rest = host @ CHR '':'' # vs" "colon = length host" by simp_all
  have "vs \<noteq> []" using colon(2) vs by auto
  moreover have "host \<noteq> []" using colon(1) vs(2) by auto
  moreover have "(\<forall>c \<in> set vs. is_digit c) \<and> 0 < decimal_value vs \<and> decimal_value vs \<le> 65535
      \<and> port = word_of_nat (decimal_value vs)"
    using port vs \<open>vs \<noteq> []\<close> unfolding parse_port_value decimal_value_def by auto
  moreover obtain n where "drop (length udp_scheme) a = rest @ replicate n (CHR ''/'')"
    using drop_slashes_split unfolding rest_def by blast
  then have "a = network_address host vs n"
    using append_take_drop_id [of "length udp_scheme" a] unfolding scheme vs(1) network_address_def by simp
  ultimately show ?thesis by blast
qed

section \<open>Properties\<close>

text \<open>
  C6: the address parser accepts exactly the texts \<open>opc.udp://\<close>, a nonempty host, a colon and
  a decimal port between 1 and 65535, with any number of slashes behind, and answers that host
  and that port.
\<close>

theorem parseNetworkAddress_iff:
  "parseNetworkAddress a = Inr (host, port) \<longleftrightarrow>
     (\<exists>digits n. a = network_address host digits n \<and> host \<noteq> [] \<and> digits \<noteq> []
        \<and> list_all is_digit digits \<and> 0 < decimal_value digits \<and> decimal_value digits \<le> 65535
        \<and> port = word_of_nat (decimal_value digits))"
  using parse_network_address parseNetworkAddress_accepts [of a host port]
  by (auto simp: list_all_iff)

end
