(* ===== verification/Decimal.thy ===== *)
theory Decimal
  imports PubSubConfiguration
begin

text \<open>
  Decimal text and doubles, the part of the C++ library the JSON codec uses: reading a decimal
  number from a classic-locale stream (correctly rounded; an overflow fails and stores the
  largest finite double), and inserting a double with a given precision (the \<open>%g\<close>
  style). Seventeen significant digits determine a double: \<open>round_real_near\<close> and
  \<open>digits17_close\<close>.
\<close>

section \<open>Numbers close to a representable one\<close>

lemma rne_real_close: "\<bar>y - real k\<bar> < 1 / 2 \<Longrightarrow> rne_real y = int k"
proof -
  assume y: "\<bar>y - real k\<bar> < 1 / 2"
  show ?thesis
  proof (cases "real k \<le> y")
    case True
    with y have "\<lfloor>y\<rfloor> = int k" by (intro floor_unique) auto
    with y True show ?thesis by (simp add: rne_real_def Let_def)
  next
    case False
    with y have "\<lfloor>y\<rfloor> = int k - 1" by (intro floor_unique) auto
    with y False show ?thesis by (simp add: rne_real_def Let_def)
  qed
qed

text \<open>
  A real within a quarter of a unit in the last place, relative to the number, rounds to it.
  Just below a power of two the unit is half as large, hence the second case.
\<close>

lemma mag_split_parts:
  assumes "mag_split m emin n = (q, e)"
  shows "q < 2 ^ (m + 1)" "emin \<le> e" "n = nat (e - emin) * 2 ^ m + q" "emin < e \<Longrightarrow> 2 ^ m \<le> q"
proof -
  define E F where "E = n div 2 ^ m" and "F = n mod 2 ^ m"
  have F: "F < 2 ^ m" and n: "n = E * 2 ^ m + F"
    by (simp add: F_def) (simp only: E_def F_def div_mult_mod_eq)
  have split: "(if E = 0 then (F, emin) else (2 ^ m + F, emin + int E - 1)) = (q, e)"
    using assms by (auto simp: mag_split_def Let_def E_def F_def split: if_splits)
  show "q < 2 ^ (m + 1)" "emin \<le> e" "emin < e \<Longrightarrow> 2 ^ m \<le> q" using split F by (auto split: if_splits)
  show "n = nat (e - emin) * 2 ^ m + q"
    using split n by (cases E) (auto simp: algebra_simps)
qed

lemma log2_floor_powi:
  assumes "2 ^ j \<le> 2 * z" and "2 * z < 2 * 2 ^ j"
  shows "log2_floor (z * 2 powi e) = int j + e - 1"
proof (rule log2_floor_unique)
  have half: "(2::real) powi (int j + e - 1) = 2 ^ j / 2 * 2 powi e"
    by (simp add: powi_split powi_diff2)
  show "2 powi (int j + e - 1) \<le> z * 2 powi e"
    unfolding half using assms(1) by (intro mult_right_mono) auto
  have "(2::real) powi (int j + e - 1 + 1) = 2 ^ j * 2 powi e" by (simp add: powi_split)
  then show "z * 2 powi e < 2 powi (int j + e - 1 + 1)"
    using assms(2) by simp
qed

lemma round_real_near:
  assumes "0 < n" and "n < cap" and x: "x = mag_real m emin n"
    and near: "\<bar>y - x\<bar> < x / 2 ^ (m + 2)"
  shows "round_real m emin cap y = n"
proof -
  obtain q e where qe: "mag_split m emin n = (q, e)" by fastforce
  then have xq: "x = real q * 2 powi e" by (simp add: x mag_real_def)
  note q = mag_split_parts [OF qe]
  define z where "z = y / 2 powi e"
  have y: "y = z * 2 powi e" by (simp add: z_def)
  have "\<bar>z - real q\<bar> * 2 powi e = \<bar>y - x\<bar>"
    unfolding y xq by (simp add: left_diff_distrib [symmetric] abs_mult)
  also have "\<dots> < real q / 2 ^ (m + 2) * 2 powi e" using near by (simp add: xq)
  finally have z: "\<bar>z - real q\<bar> < real q / 2 ^ (m + 2)" by (rule mult_right_less_imp_less) simp
  have "q + 1 \<le> 2 ^ (m + 1)" using q(1) by simp
  then have "real (q + 1) \<le> real (2 ^ (m + 1))" by (simp only: of_nat_le_iff)
  then have qle: "real q \<le> 2 * 2 ^ m - 1" by simp
  then have qhi: "real q / 2 ^ (m + 2) < 1 / 2"
    by (simp add: divide_less_eq)
  have z2: "\<bar>z - real q\<bar> < 1 / 2" using z qhi(1) by linarith
  have qpos: "0 < q" using z by (cases q) auto
  have "1 < 4 * (2::real) ^ m" using one_le_power [of "2 :: real" m] by linarith
  then have "real q * 1 < real q * (4 * 2 ^ m)" using qpos by (intro mult_strict_left_mono) auto
  then have "real q / 2 ^ (m + 2) < real q" by (simp add: divide_less_eq)
  then have zpos: "0 < z" using z by linarith
  then have ypos: "0 < y" by (simp add: y)
  have zhi: "z < 2 * 2 ^ m" using z2 qle by linarith
  show ?thesis
  proof (cases "z < 2 ^ m \<and> emin < e")
    case True
    have "real q < 2 ^ m + 1" using True z2 by linarith
    then have "real q < real (2 ^ m + 1)" by simp
    then have "q < 2 ^ m + 1" by (simp only: of_nat_less_iff)
    then have qm: "q = 2 ^ m" using True q(4) by simp
    have "real (2 ^ m) / 2 ^ (m + 2) = 1 / 4" by simp
    with z have z4: "\<bar>z - 2 ^ m\<bar> < 1 / 4" unfolding qm by simp
    have "2 ^ m \<le> 2 * z" using z4 one_le_power [of "2 :: real" m] by linarith
    then have "log2_floor y = int m + e - 1"
      unfolding y by (rule log2_floor_powi) (use True in simp)
    then have e': "max emin (log2_floor y - int m) = e - 1" using True by simp
    have "y / 2 powi (e - 1) = 2 * z" by (simp add: y powi_diff2)
    moreover have "rne_real (2 * z) = int (2 * 2 ^ m)" using z4
      by (intro rne_real_close, unfold of_nat_mult of_nat_power of_nat_numeral) linarith
    ultimately have "round_real m emin cap y = min cap (nat (e - 1 - emin) * 2 ^ m + 2 * 2 ^ m)"
      using ypos by (simp add: round_real_def e' del: of_nat_mult)
    also have "nat (e - 1 - emin) * 2 ^ m + 2 * 2 ^ m = n"
    proof -
      obtain k where k: "nat (e - emin) = Suc k" "nat (e - 1 - emin) = k"
        using True by (cases "nat (e - emin)") (auto simp: nat_eq_iff)
      show ?thesis using q(3) qm unfolding k by simp
    qed
    finally show ?thesis using assms(2) by simp
  next
    case False
    have "max emin (log2_floor y - int m) = e"
    proof (cases "z < 2 ^ m")
      case True
      with False q(2) have "e = emin" by simp
      moreover have "log2_floor y < int m + e + 1"
      proof -
        have "2 powi log2_floor y \<le> y" using log2_floor_bounds(1) [OF ypos] .
        also have "y < 2 * 2 ^ m * 2 powi e" using zhi unfolding y by simp
        also have "\<dots> = 2 powi (int m + e + 1)" by (simp add: powi_split)
        finally show ?thesis by simp
      qed
      ultimately show ?thesis by simp
    next
      case False
      then have "log2_floor y = int (m + 1) + e - 1"
        unfolding y using zhi by (intro log2_floor_powi) simp_all
      then show ?thesis using q(2) by simp
    qed
    then have "round_real m emin cap y = min cap (nat (e - emin) * 2 ^ m + q)"
      using ypos rne_real_close [OF z2] by (simp add: round_real_def z_def)
    then show ?thesis using q(3) assms(2) by simp
  qed
qed

section \<open>Decimal digits of a natural number\<close>

lemma digit_value_char [simp]: "d < 10 \<Longrightarrow> digit_value (digit_char d) = d"
  by (simp add: digit_value_def digit_char_def)

lemma is_digit_char [simp]: "d < 10 \<Longrightarrow> is_digit (digit_char d)"
  by (simp add: is_digit_def digit_char_def)

lemma digit_char_zero: "d < 10 \<Longrightarrow> digit_char d = CHR ''0'' \<longleftrightarrow> d = 0"
proof
  assume "d < 10" "digit_char d = CHR ''0''"
  then show "d = 0" using digit_value_char [of d] by (simp add: digit_value_def)
next
  have "(of_char (CHR ''0'') :: nat) = 48" by simp
  then have "char_of (48 :: nat) = CHR ''0''" by (metis char_of_char)
  then show "d = 0 \<Longrightarrow> digit_char d = CHR ''0''" by (simp add: digit_char_def)
qed

lemma decimal_value_append: "decimal_value (s @ t) = decimal_value s * 10 ^ length t + decimal_value t"
proof (induction t rule: rev_induct)
  case (snoc c t)
  then show ?case by (simp add: decimal_value_def algebra_simps)
qed (simp add: decimal_value_def)

lemma decimal_value_simps [simp]:
  "decimal_value [] = 0" "decimal_value [c] = digit_value c"
  by (simp_all add: decimal_value_def)

lemma decimal_value_zeros [simp]: "decimal_value (replicate n (CHR ''0'')) = 0"
  using decimal_value_append [of "replicate _ (CHR ''0'')" "[CHR ''0'']"]
  by (induction n) (simp_all add: replicate_append_same [symmetric] digit_value_def)

lemma decimal_value_zero_Cons [simp]: "decimal_value (CHR ''0'' # s) = decimal_value s"
  using decimal_value_append [of "''0''" s] by (simp add: digit_value_def)

lemma decimal_value_zeros_append: "decimal_value (replicate n (CHR ''0'') @ s) = decimal_value s"
  by (simp add: decimal_value_append)

lemma nat_to_string_digits: "c \<in> set (nat_to_string n) \<Longrightarrow> is_digit c"
proof (induction n rule: nat_to_string.induct)
  case (1 n)
  then show ?case by (cases "n < 10") (auto simp: nat_to_string.simps [of n])
qed

lemma decimal_value_nat_to_string [simp]: "decimal_value (nat_to_string n) = n"
proof (induction n rule: nat_to_string.induct)
  case (1 n)
  then show ?case by (cases "n < 10") (simp_all add: nat_to_string.simps [of n] decimal_value_append)
qed

lemma nat_to_string_bounds:
  "0 < n \<Longrightarrow> 10 ^ (length (nat_to_string n) - 1) \<le> n \<and> n < 10 ^ length (nat_to_string n)"
proof (induction n rule: nat_to_string.induct)
  case (1 n)
  show ?case
  proof (cases "n < 10")
    case True
    then show ?thesis using "1.prems" by (simp add: nat_to_string.simps [of n])
  next
    case False
    with "1" have IH: "10 ^ (length (nat_to_string (n div 10)) - 1) \<le> n div 10"
      "n div 10 < 10 ^ length (nat_to_string (n div 10))" by auto
    obtain k where k: "length (nat_to_string (n div 10)) = Suc k"
      by (cases "nat_to_string (n div 10)") auto
    have "10 * (n div 10) \<le> n" "n < 10 * (n div 10) + 10" by simp_all
    moreover have "10 ^ k \<le> n div 10" "n div 10 < 10 * 10 ^ k" using IH k by simp_all
    ultimately have "10 * 10 ^ k \<le> n" "n < 100 * 10 ^ k" by linarith+
    then show ?thesis using False k by (simp add: nat_to_string.simps [of n])
  qed
qed

lemma nat_to_string_length:
  assumes "10 ^ k \<le> n" and "n < 10 ^ Suc k"
  shows "length (nat_to_string n) = Suc k"
proof -
  have "0 < n" using assms(1) by (metis gr0I not_exp_less_eq_0_int power_eq_0_iff le_zero_eq zero_neq_numeral)
  note b = nat_to_string_bounds [OF this]
  have "(10::nat) ^ k < 10 ^ length (nat_to_string n)" "(10::nat) ^ (length (nat_to_string n) - 1) < 10 ^ Suc k"
    using assms b by linarith+
  then have "k < length (nat_to_string n)" "length (nat_to_string n) - 1 < Suc k"
    by (simp_all only: power_strict_increasing_iff one_less_numeral_iff semiring_norm)
  then show ?thesis by simp
qed

lemma nat_to_string_hd: "0 < n \<Longrightarrow> hd (nat_to_string n) \<noteq> CHR ''0''"
proof (induction n rule: nat_to_string.induct)
  case (1 n)
  then show ?case
    by (cases "n < 10") (simp_all add: nat_to_string.simps [of n] digit_char_zero)
qed

section \<open>Reading a decimal number\<close>

text \<open>The number \<open>N * 10 ^ e\<close> as a ratio.\<close>

definition decimal_ratio :: "nat \<Rightarrow> int \<Rightarrow> nat \<times> nat" where
  "decimal_ratio N e = (if 0 \<le> e then (N * 10 ^ nat e, 1) else (N, 10 ^ nat (- e)))"

definition signed_decimal :: "string \<Rightarrow> int" where
  "signed_decimal s =
     (case s of [] \<Rightarrow> 0
      | c # cs \<Rightarrow> if c = CHR ''-'' then - int (decimal_value cs)
                   else if c = CHR ''+'' then int (decimal_value cs) else int (decimal_value s))"

text \<open>Sign, digits and power of ten of a token \<open>-12.5e+3\<close>; fraction and exponent are optional.\<close>

definition split_fraction :: "string \<Rightarrow> string \<times> string" where
  "split_fraction s = (if s \<noteq> [] \<and> hd s = CHR ''.'' then (takeWhile is_digit (tl s), dropWhile is_digit (tl s)) else ([], s))"

definition unsigned_parts :: "string \<Rightarrow> nat \<times> int" where
  "unsigned_parts s =
     (let i = takeWhile is_digit s;
          (f, rest) = split_fraction (dropWhile is_digit s);
          e = (if rest \<noteq> [] \<and> (hd rest = CHR ''e'' \<or> hd rest = CHR ''E'') then signed_decimal (tl rest) else 0)
      in (decimal_value (i @ f), e - int (length f)))"

definition max_double :: nat where "max_double = 0x7FEFFFFFFFFFFFFF"

text \<open>
  \<open>stream >> value\<close> on such a token: the nearest double, and whether the extraction failed.
  An overflow stores the largest finite double of that sign and sets the fail bit.
\<close>

definition magnitude_to_double :: "string \<Rightarrow> nat" where
  "magnitude_to_double s = (case unsigned_parts s of (N, e) \<Rightarrow>
     case decimal_ratio N e of (a, b) \<Rightarrow> round_mag 52 (- 1074) f64_inf a b)"

definition stream_to_double :: "string \<Rightarrow> f64 \<times> bool" where
  "stream_to_double s =
     (let neg = (s \<noteq> [] \<and> hd s = CHR ''-'');
          sign = (if neg then 1 else 0);
          n = magnitude_to_double (if neg then tl s else s)
      in if n = f64_inf then (f64_make sign max_double, True) else (f64_make sign n, False))"

section \<open>Writing a double with a precision\<close>

definition decimal_exponent :: "nat \<Rightarrow> nat \<Rightarrow> int" where
  "decimal_exponent a b =
     (let k = int (length (nat_to_string a)) - int (length (nat_to_string b)) in
      if (if 0 \<le> k then b * 10 ^ nat k \<le> a else b \<le> a * 10 ^ nat (- k)) then k else k - 1)"

text \<open>The \<open>p\<close> significant digits of \<open>a / b\<close>, rounded to nearest, and the power of ten of the first.\<close>

definition round_digits :: "nat \<Rightarrow> nat \<Rightarrow> nat \<Rightarrow> nat \<times> int" where
  "round_digits p a b =
     (let k = decimal_exponent a b;
          s = int p - 1 - k;
          D = (if 0 \<le> s then rne (a * 10 ^ nat s) b else rne a (b * 10 ^ nat (- s)))
      in if D = 10 ^ p then (10 ^ (p - 1), k + 1) else (D, k))"

definition strip_zeros :: "string \<Rightarrow> string" where
  "strip_zeros s = rev (dropWhile (\<lambda>c. c = CHR ''0'') (rev s))"

definition point :: "string \<Rightarrow> string" where
  "point f = (if f = [] then [] else CHR ''.'' # f)"

definition exponent_text :: "int \<Rightarrow> string" where
  "exponent_text x = [CHR ''e'', if x < 0 then CHR ''-'' else CHR ''+'']
     @ (if \<bar>x\<bar> < 10 then ''0'' else []) @ nat_to_string (nat \<bar>x\<bar>)"

definition format_g :: "nat \<Rightarrow> nat \<Rightarrow> int \<Rightarrow> string" where
  "format_g p D x =
     (let ds = nat_to_string D in
      if x < - 4 \<or> int p \<le> x then take 1 ds @ point (strip_zeros (drop 1 ds)) @ exponent_text x
      else if x < 0 then ''0'' @ point (replicate (nat (- x - 1)) (CHR ''0'') @ strip_zeros ds)
      else take (nat x + 1) ds @ point (strip_zeros (drop (nat x + 1) ds)))"

text \<open>\<open>stream << value\<close> for a finite value.\<close>

definition double_to_text :: "nat \<Rightarrow> f64 \<Rightarrow> string" where
  "double_to_text p v =
     (if f64_sign v = 0 then [] else ''-'')
     @ (if f64_mag v = 0 then ''0''
        else case mag_ratio 52 (- 1074) (f64_mag v) of (a, b) \<Rightarrow>
          case round_digits p a b of (D, x) \<Rightarrow> format_g p D x)"

section \<open>Powers of ten\<close>

lemma ten_nat: "0 \<le> k \<Longrightarrow> (10::real) powi k = 10 ^ nat k"
  by (simp add: power_int_def)

lemma ten_neg: "k < 0 \<Longrightarrow> (10::real) powi k = 1 / 10 ^ nat (- k)"
  by (simp add: power_int_def inverse_eq_divide power_divide)

lemma ten_split: "(10::real) powi (a + b) = 10 powi a * 10 powi b"
  by (simp add: power_int_add)

lemma ten_diff: "(10::real) powi (a - b) = 10 powi a / 10 powi b"
  by (simp add: power_int_diff)

lemma ten_pos [simp]: "(0::real) < 10 powi k"
  by (simp add: zero_less_power_int)

definition decimal_real :: "nat \<Rightarrow> int \<Rightarrow> real" where
  "decimal_real N e = real N * 10 powi e"

lemma decimal_ratio_real:
  assumes "decimal_ratio N e = (a, b)"
  shows "0 < b" and "real a / real b = decimal_real N e"
  using assms by (auto simp: decimal_ratio_def decimal_real_def ten_nat ten_neg split: if_splits)

lemma decimal_real_shift: "decimal_real (N * 10 ^ z) e = decimal_real N (e + int z)"
  by (simp add: decimal_real_def ten_split)

lemma ten_guard:
  assumes "0 < b"
  shows "(if 0 \<le> k then b * 10 ^ nat k \<le> a else b \<le> a * 10 ^ nat (- k))
    \<longleftrightarrow> (10::real) powi k \<le> real a / real b"
proof (cases "0 \<le> k")
  case True
  have "b * 10 ^ nat k \<le> a \<longleftrightarrow> real (b * 10 ^ nat k) \<le> real a" by (simp only: of_nat_le_iff)
  also have "\<dots> \<longleftrightarrow> (10::real) powi k \<le> real a / real b"
    using assms True by (simp add: ten_nat pos_le_divide_eq mult.commute)
  finally show ?thesis using True by simp
next
  case False
  have "b \<le> a * 10 ^ nat (- k) \<longleftrightarrow> real b \<le> real (a * 10 ^ nat (- k))" by (simp only: of_nat_le_iff)
  also have "\<dots> \<longleftrightarrow> (10::real) powi k \<le> real a / real b"
    using assms False by (simp add: ten_neg field_simps)
  finally show ?thesis using False by simp
qed

lemma decimal_length_bounds:
  assumes "0 < n"
  shows "(10::real) powi (int (length (nat_to_string n)) - 1) \<le> real n"
    "real n < 10 powi int (length (nat_to_string n))"
proof -
  from nat_to_string_bounds [OF assms]
  have b: "10 ^ (length (nat_to_string n) - 1) \<le> n" "n < 10 ^ length (nat_to_string n)" by auto
  have "length (nat_to_string n) \<noteq> 0" by simp
  then have "(10::real) powi (int (length (nat_to_string n)) - 1) = real (10 ^ (length (nat_to_string n) - 1))"
    by (simp add: ten_nat nat_diff_distrib)
  with b(1) show "(10::real) powi (int (length (nat_to_string n)) - 1) \<le> real n"
    by (simp only: of_nat_le_iff)
  from b(2) have "real n < real (10 ^ length (nat_to_string n))" by (simp only: of_nat_less_iff)
  then show "real n < 10 powi int (length (nat_to_string n))" by simp
qed

lemma decimal_exponent_bounds:
  assumes "0 < a" and "0 < b"
  shows "(10::real) powi decimal_exponent a b \<le> real a / real b"
    and "real a / real b < 10 powi (decimal_exponent a b + 1)"
proof -
  define k where "k = int (length (nat_to_string a)) - int (length (nat_to_string b))"
  note n = decimal_length_bounds [OF assms(1)]
  note d = decimal_length_bounds [OF assms(2)]
  have pos: "0 < real a" "0 < real b" using assms by auto
  have lo: "(10::real) powi (k - 1) \<le> real a / real b"
  proof -
    have "k - 1 = int (length (nat_to_string a)) - 1 - int (length (nat_to_string b))" by (simp add: k_def)
    then have "(10::real) powi (k - 1)
        = 10 powi (int (length (nat_to_string a)) - 1) / 10 powi int (length (nat_to_string b))"
      by (simp only: ten_diff)
    also have "\<dots> \<le> real a / real b" by (rule frac_le) (use n d pos in auto)
    finally show ?thesis .
  qed
  have hi: "real a / real b < 10 powi (k + 1)"
  proof -
    have "real a / real b
        < 10 powi int (length (nat_to_string a)) / 10 powi (int (length (nat_to_string b)) - 1)"
      by (rule frac_less) (use n d pos in auto)
    also have "\<dots> = 10 powi (int (length (nat_to_string a)) - (int (length (nat_to_string b)) - 1))"
      by (simp only: ten_diff)
    also have "int (length (nat_to_string a)) - (int (length (nat_to_string b)) - 1) = k + 1"
      by (simp add: k_def)
    finally show ?thesis .
  qed
  have eq: "decimal_exponent a b = (if (10::real) powi k \<le> real a / real b then k else k - 1)"
    unfolding decimal_exponent_def Let_def k_def [symmetric] ten_guard [OF assms(2), symmetric] ..
  show "(10::real) powi decimal_exponent a b \<le> real a / real b" using lo eq by simp
  show "real a / real b < 10 powi (decimal_exponent a b + 1)" using hi eq by simp
qed

lemma rne_real_error: "\<bar>of_int (rne_real x) - x\<bar> \<le> 1 / 2"
proof -
  have "of_int \<lfloor>x\<rfloor> \<le> x" "x < of_int \<lfloor>x\<rfloor> + 1" by linarith+
  then show ?thesis by (auto simp: rne_real_def Let_def)
qed

lemma rne_error:
  assumes "0 < b"
  shows "\<bar>real (rne a b) - real a / real b\<bar> \<le> 1 / 2"
proof -
  have "real (rne a b) = of_int (rne_real (real a / real b))"
    using rne_eq [OF assms, of a] by (metis of_int_of_nat_eq)
  then show ?thesis using rne_real_error [of "real a / real b"] by simp
qed

text \<open>The digits and their exponent are within half a unit of the last digit.\<close>

lemma round_digits_close:
  assumes "0 < a" and "0 < b" and "0 < p" and "round_digits p a b = (D, x)"
  shows "10 ^ (p - 1) \<le> D" "D < 10 ^ p"
    "\<bar>decimal_real D (x - int p + 1) - real a / real b\<bar> \<le> real a / real b / (2 * 10 ^ (p - 1))"
proof -
  define k where "k = decimal_exponent a b"
  define v where "v = real a / real b"
  define s where "s = int p - 1 - k"
  define E where "E = (if 0 \<le> s then rne (a * 10 ^ nat s) b else rne a (b * 10 ^ nat (- s)))"
  have v: "10 powi k \<le> v" "v < 10 powi (k + 1)"
    using decimal_exponent_bounds [OF assms(1,2)] by (simp_all add: k_def v_def)
  have Es: "\<bar>real E - v * 10 powi s\<bar> \<le> 1 / 2"
  proof (cases "0 \<le> s")
    case True
    then show ?thesis using rne_error [OF assms(2), of "a * 10 ^ nat s"]
      by (simp add: E_def v_def ten_nat)
  next
    case False
    have "0 < b * 10 ^ nat (- s)" using assms(2) by simp
    from rne_error [OF this, of a] show ?thesis using False by (simp add: E_def v_def ten_neg)
  qed
  have p10: "(10::real) powi (int p - 1) = 10 ^ (p - 1)" "(10::real) powi int p = 10 ^ p"
    using assms(3) by (simp_all add: ten_nat nat_diff_distrib)
  have "10 powi k * 10 powi s \<le> v * 10 powi s" "v * 10 powi s < 10 powi (k + 1) * 10 powi s"
    using v by (auto intro!: mult_right_mono mult_strict_right_mono)
  moreover have "(10::real) powi k * 10 powi s = 10 ^ (p - 1)" "(10::real) powi (k + 1) * 10 powi s = 10 ^ p"
    unfolding ten_split [symmetric] by (simp_all add: s_def p10)
  ultimately have vs: "10 ^ (p - 1) \<le> v * 10 powi s" "v * 10 powi s < 10 ^ p" by simp_all
  have "10 ^ (p - 1) < real E + 1" using Es vs by linarith
  then have "real (10 ^ (p - 1)) < real (E + 1)" by simp
  then have "10 ^ (p - 1) < E + 1" by (simp only: of_nat_less_iff)
  then have lo: "10 ^ (p - 1) \<le> E" by simp
  have "real E < 10 ^ p + 1" using Es vs by linarith
  then have "real E < real (10 ^ p + 1)" by simp
  then have "E < 10 ^ p + 1" by (simp only: of_nat_less_iff)
  then have hi: "E \<le> 10 ^ p" by simp
  have D: "(D, x) = (if E = 10 ^ p then (10 ^ (p - 1), k + 1) else (E, k))"
    using assms(4) unfolding round_digits_def Let_def k_def [symmetric] s_def [symmetric] E_def [symmetric]
    by (rule sym)
  show "10 ^ (p - 1) \<le> D" "D < 10 ^ p"
    using D lo hi assms(3) by (auto split: if_splits)
  have same: "decimal_real D (x - int p + 1) = decimal_real E (k - int p + 1)"
  proof (cases "E = 10 ^ p")
    case True
    then have "E = 10 ^ (p - 1) * 10 ^ 1" using assms(3) by (cases p) simp_all
    then show ?thesis using D True decimal_real_shift [of "10 ^ (p - 1)" 1 "k - int p + 1"]
      by (simp add: algebra_simps)
  qed (use D in simp)
  have unit: "(10::real) powi s * 10 powi (k - int p + 1) = 1"
    unfolding ten_split [symmetric] by (simp add: s_def)
  then have "decimal_real E (k - int p + 1) - v = (real E - v * 10 powi s) * 10 powi (k - int p + 1)"
    by (simp add: decimal_real_def left_diff_distrib mult.assoc)
  then have "\<bar>decimal_real E (k - int p + 1) - v\<bar> \<le> 1 / 2 * 10 powi (k - int p + 1)"
    using Es by (simp only: abs_mult) (intro mult_mono, auto)
  also have "\<dots> = 10 powi k / (2 * 10 ^ (p - 1))"
    using ten_diff [of k "int p - 1"] p10 by (simp add: algebra_simps)
  also have "\<dots> \<le> v / (2 * 10 ^ (p - 1))" using v(1) by (intro divide_right_mono) auto
  finally show "\<bar>decimal_real D (x - int p + 1) - real a / real b\<bar> \<le> real a / real b / (2 * 10 ^ (p - 1))"
    by (simp only: same v_def)
qed

section \<open>Reading back what was written\<close>

lemma takeWhile_digits:
  "\<forall>c \<in> set i. is_digit c \<Longrightarrow> t = [] \<or> \<not> is_digit (hd t) \<Longrightarrow>
   takeWhile is_digit (i @ t) = i \<and> dropWhile is_digit (i @ t) = t"
  by (cases t) (auto simp: takeWhile_append2 dropWhile_append2 takeWhile_eq_all_conv)

lemma not_digit_chars [simp]:
  "\<not> is_digit (CHR ''.'')" "\<not> is_digit (CHR ''e'')" "\<not> is_digit (CHR ''E'')"
  "\<not> is_digit (CHR ''+'')" "\<not> is_digit (CHR ''-'')"
  by (simp_all add: is_digit_def)

lemma split_fraction_point:
  assumes "\<forall>c \<in> set f. is_digit c" and "t = [] \<or> (\<not> is_digit (hd t) \<and> hd t \<noteq> CHR ''.'')"
  shows "split_fraction (point f @ t) = (f, t)"
  using takeWhile_digits [OF assms(1), of t] assms
  by (cases f) (auto simp: split_fraction_def point_def)

lemma signed_decimal_exponent: "signed_decimal (tl (exponent_text x)) = x"
  by (cases "x < 0") (simp_all add: exponent_text_def signed_decimal_def)

lemma unsigned_parts_point:
  assumes "\<forall>c \<in> set i. is_digit c" and "\<forall>c \<in> set f. is_digit c"
  shows "unsigned_parts (i @ point f) = (decimal_value (i @ f), - int (length f))"
    and "unsigned_parts (i @ point f @ exponent_text x) = (decimal_value (i @ f), x - int (length f))"
proof -
  have "point f = [] \<or> \<not> is_digit (hd (point f))" by (simp add: point_def)
  with takeWhile_digits [OF assms(1)] split_fraction_point [OF assms(2), of "[]"]
  show "unsigned_parts (i @ point f) = (decimal_value (i @ f), - int (length f))"
    by (simp add: unsigned_parts_def)
  have e: "hd (exponent_text x) = CHR ''e''" "exponent_text x \<noteq> []" by (simp_all add: exponent_text_def)
  then have "point f @ exponent_text x = [] \<or> \<not> is_digit (hd (point f @ exponent_text x))"
    by (simp add: point_def)
  with takeWhile_digits [OF assms(1)] split_fraction_point [OF assms(2), of "exponent_text x"] e
  show "unsigned_parts (i @ point f @ exponent_text x) = (decimal_value (i @ f), x - int (length f))"
    by (simp add: unsigned_parts_def signed_decimal_exponent)
qed

lemma strip_zeros_split:
  obtains z where "s = strip_zeros s @ replicate z (CHR ''0'')"
proof -
  have "rev s = takeWhile (\<lambda>c. c = CHR ''0'') (rev s) @ dropWhile (\<lambda>c. c = CHR ''0'') (rev s)" by simp
  moreover have "takeWhile (\<lambda>c. c = CHR ''0'') (rev s) = replicate (length (takeWhile (\<lambda>c. c = CHR ''0'') (rev s))) (CHR ''0'')"
    by (rule replicate_length_same [symmetric]) (auto dest: set_takeWhileD)
  ultimately have "s = strip_zeros s @ replicate (length (takeWhile (\<lambda>c. c = CHR ''0'') (rev s))) (CHR ''0'')"
    unfolding strip_zeros_def by (metis rev_append rev_replicate rev_rev_ident)
  then show ?thesis by (rule that)
qed

lemma strip_zeros_digits: "\<forall>c \<in> set s. is_digit c \<Longrightarrow> \<forall>c \<in> set (strip_zeros s). is_digit c"
  unfolding strip_zeros_def by (auto dest: set_dropWhileD)

text \<open>Dropping the trailing zeros of the fraction keeps the value.\<close>

lemma cut_value:
  fixes x :: int
  assumes "n \<le> length ds"
  shows "decimal_real (decimal_value (take n ds @ strip_zeros (drop n ds))) (x - int (length (strip_zeros (drop n ds))))
    = decimal_real (decimal_value ds) (x - int (length ds - n))"
proof -
  obtain z where z: "drop n ds = strip_zeros (drop n ds) @ replicate z (CHR ''0'')" by (rule strip_zeros_split)
  define s where "s = strip_zeros (drop n ds)"
  from z have "ds = (take n ds @ s) @ replicate z (CHR ''0'')"
    unfolding s_def [symmetric] by (metis append.assoc append_take_drop_id)
  then have D: "decimal_value ds = decimal_value (take n ds @ s) * 10 ^ z"
    using decimal_value_append [of "take n ds @ s" "replicate z (CHR ''0'')"] by simp
  have "length (drop n ds) = length s + z"
    using arg_cong [OF z [folded s_def], of length] by simp
  then have e: "x - int (length ds - n) + int z = x - int (length s)" by simp
  show ?thesis unfolding s_def [symmetric] D decimal_real_shift e ..
qed

text \<open>The text of \<open>format_g\<close> stands for the digits and the exponent it was given.\<close>

lemma format_g_value:
  assumes "length (nat_to_string D) = p" and "unsigned_parts (format_g p D x) = (N, e)" and "0 < p"
  shows "decimal_real N e = decimal_real D (x - int p + 1)"
proof -
  define ds where "ds = nat_to_string D"
  have ds: "\<forall>c \<in> set ds. is_digit c" "decimal_value ds = D"
    using nat_to_string_digits [of _ D] by (auto simp: ds_def)
  have len: "length ds = p" by (simp only: ds_def assms(1))
  note cut = cut_value [of _ ds, unfolded ds(2) len]
  have digits: "\<forall>c \<in> set (take n ds). is_digit c" "\<forall>c \<in> set (strip_zeros (drop n ds)). is_digit c" for n
    by (meson ds(1) in_set_takeD, meson ds(1) in_set_dropD strip_zeros_digits)
  show ?thesis
  proof (cases "x < - 4 \<or> int p \<le> x")
    case True
    then have "format_g p D x = take 1 ds @ point (strip_zeros (drop 1 ds)) @ exponent_text x"
      by (simp add: format_g_def ds_def Let_def)
    with assms(2) have "N = decimal_value (take 1 ds @ strip_zeros (drop 1 ds))"
      "e = x - int (length (strip_zeros (drop 1 ds)))"
      by (simp_all only: unsigned_parts_point(2) [OF digits [of 1]] prod.inject)
    moreover have "x - int (p - 1) = x - int p + 1" "1 \<le> p" using assms(3) by simp_all
    ultimately show ?thesis using cut [of 1 x] by (simp only:)
  next
    case False
    show ?thesis
    proof (cases "x < 0")
      case True
      let ?zs = "replicate (nat (- x - 1)) (CHR ''0'')"
      have f: "format_g p D x = ''0'' @ point (?zs @ strip_zeros ds)"
        using True False by (simp add: format_g_def ds_def Let_def)
      have digits: "\<forall>c \<in> set ''0''. is_digit c" "\<forall>c \<in> set (?zs @ strip_zeros ds). is_digit c"
        using digits(2) [of 0] by (auto simp: is_digit_def)
      have "(N, e) = (decimal_value (''0'' @ ?zs @ strip_zeros ds), - int (length (?zs @ strip_zeros ds)))"
        unfolding assms(2) [unfolded f, symmetric]
        by (rule unsigned_parts_point(1) [OF digits])
      then have "N = decimal_value (strip_zeros ds)" "e = x + 1 - int (length (strip_zeros ds))"
        using True by (simp_all add: decimal_value_zeros_append)
      moreover have "x + 1 - int (p - 0) = x - int p + 1" by simp
      ultimately show ?thesis using cut [of 0 "x + 1"] by (simp only: take_0 drop_0 append_Nil le0 simp_thms)
    next
      case False
      then have "format_g p D x = take (nat x + 1) ds @ point (strip_zeros (drop (nat x + 1) ds))"
        using \<open>\<not> (x < - 4 \<or> int p \<le> x)\<close> by (simp add: format_g_def ds_def Let_def)
      with assms(2) have "N = decimal_value (take (nat x + 1) ds @ strip_zeros (drop (nat x + 1) ds))"
        "e = - int (length (strip_zeros (drop (nat x + 1) ds)))"
        by (simp_all only: unsigned_parts_point(1) [OF digits [of "nat x + 1"]] prod.inject)
      moreover have le: "nat x + 1 \<le> p" using False \<open>\<not> (x < - 4 \<or> int p \<le> x)\<close> by linarith
      moreover have "0 - int (p - (nat x + 1)) = x - int p + 1" using le False by linarith
      ultimately show ?thesis using cut [OF le, of 0] by (simp only: diff_0)
    qed
  qed
qed

section \<open>Seventeen digits determine a double\<close>

lemma mag_real_pos: "0 < n \<Longrightarrow> 0 < mag_real m emin n"
proof -
  assume n: "0 < n"
  obtain q e where qe: "mag_split m emin n = (q, e)" by fastforce
  have "0 < q"
  proof (cases "emin = e")
    case False
    then have "2 ^ m \<le> q" using mag_split_parts(2,4) [OF qe] by simp
    then show ?thesis by (rule less_le_trans [rotated]) simp
  qed (use mag_split_parts(3) [OF qe] n in simp)
  then show ?thesis by (simp add: mag_real_def qe)
qed

lemma digits17:
  assumes "0 < n" and "n < f64_inf" and "mag_ratio 52 (- 1074) n = (a, b)" and "round_digits 17 a b = (D, x)"
  shows "round_real 52 (- 1074) f64_inf (decimal_real D (x - 16)) = n"
proof (rule round_real_near [OF assms(1,2) refl])
  note ab = mag_ratio_real [OF assms(3)]
  have pos: "0 < mag_real 52 (- 1074) n" using assms(1) by (rule mag_real_pos)
  then have "0 < a" using ab by (cases a) auto
  from round_digits_close(3) [OF this ab(1) _ assms(4)]
  have "\<bar>decimal_real D (x - 16) - mag_real 52 (- 1074) n\<bar> \<le> mag_real 52 (- 1074) n / (2 * 10 ^ 16)"
    by (simp add: ab(2))
  also have "\<dots> < mag_real 52 (- 1074) n / 2 ^ (52 + 2)"
    using pos by (intro divide_strict_left_mono) simp_all
  finally show "\<bar>decimal_real D (x - 16) - mag_real 52 (- 1074) n\<bar> < mag_real 52 (- 1074) n / 2 ^ (52 + 2)" .
qed

lemma magnitude_to_double_real:
  assumes "unsigned_parts s = (N, e)"
  shows "magnitude_to_double s = round_real 52 (- 1074) f64_inf (decimal_real N e)"
proof -
  obtain a b where ab: "decimal_ratio N e = (a, b)" by fastforce
  then show ?thesis
    using assms decimal_ratio_real [OF ab] by (simp add: magnitude_to_double_def round_mag_correct)
qed

lemma format_g_17:
  assumes "0 < n" and "n < f64_inf" and "mag_ratio 52 (- 1074) n = (a, b)" and "round_digits 17 a b = (D, x)"
  shows "magnitude_to_double (format_g 17 D x) = n"
proof -
  note ab = mag_ratio_real [OF assms(3)]
  have "0 < a" using mag_real_pos [OF assms(1), of 52 "- 1074"] ab by (cases a) auto
  from round_digits_close(1,2) [OF this ab(1) _ assms(4)]
  have "10 ^ 16 \<le> D" "D < 10 ^ Suc 16" by simp_all
  then have len: "length (nat_to_string D) = 17" using nat_to_string_length [of 16 D] by simp
  obtain N e where Ne: "unsigned_parts (format_g 17 D x) = (N, e)" by fastforce
  from format_g_value [OF len Ne] have "decimal_real N e = decimal_real D (x - 16)" by simp
  then show ?thesis
    using digits17 [OF assms] by (simp add: magnitude_to_double_real [OF Ne])
qed

lemma magnitude_to_double_nat:
  assumes "n < f64_inf" and "mag_real 52 (- 1074) n = real k"
  shows "magnitude_to_double (nat_to_string k) = n"
proof -
  have "unsigned_parts (nat_to_string k) = (k, 0)"
    using unsigned_parts_point(1) [of "nat_to_string k" "[]"] nat_to_string_digits by (simp add: point_def)
  then show ?thesis
    using round_real_mag_real [OF assms(1), of 52 "- 1074"] assms(2)
    by (simp add: magnitude_to_double_real decimal_real_def)
qed

end
