(* ===== verification/FxJson.thy ===== *)
theory FxJson
  imports Decimal
begin

text \<open>
  The JSON codec of the FX connection services, \<open>Fx/src/FxJson.cpp\<close>: the value class, the
  serializer and the recursive-descent parser. The parser works on the text and a position; the
  depth is passed down, because every successful return restores it. Its three mutually
  recursive functions carry a fuel, which is shown to suffice for every text.
\<close>

section \<open>Values\<close>

text \<open>
  The members of an object are the entries of a \<open>std::map\<close> in its iteration order:
  increasing keys, compared byte by byte.
\<close>

datatype json_value =
    JsonNull
  | JsonBoolean bool
  | JsonNumber f64
  | JsonString string
  | JsonObject "(string \<times> json_value) list"

fun string_less :: "string \<Rightarrow> string \<Rightarrow> bool" where
  "string_less xs [] \<longleftrightarrow> False"
| "string_less [] (y # ys) \<longleftrightarrow> True"
| "string_less (x # xs) (y # ys) \<longleftrightarrow>
     (of_char x :: nat) < of_char y \<or> x = y \<and> string_less xs ys"

text \<open>\<open>members[name] = value\<close>\<close>

fun insert_member :: "string \<Rightarrow> 'a \<Rightarrow> (string \<times> 'a) list \<Rightarrow> (string \<times> 'a) list" where
  "insert_member n v [] = [(n, v)]"
| "insert_member n v ((k, w) # ms) =
     (if n = k then (n, v) # ms
      else if string_less n k then (n, v) # (k, w) # ms
      else (k, w) # insert_member n v ms)"

definition asBoolean :: "json_value \<Rightarrow> bool result" where
  "asBoolean j = (case j of JsonBoolean b \<Rightarrow> Inr b | _ \<Rightarrow> Inl ''JSON value is not a boolean'')"

definition asNumber :: "json_value \<Rightarrow> f64 result" where
  "asNumber j = (case j of JsonNumber x \<Rightarrow> Inr x | _ \<Rightarrow> Inl ''JSON value is not a number'')"

definition asString :: "json_value \<Rightarrow> string result" where
  "asString j = (case j of JsonString s \<Rightarrow> Inr s | _ \<Rightarrow> Inl ''JSON value is not a string'')"

definition requireObject :: "json_value \<Rightarrow> (string \<times> json_value) list result" where
  "requireObject j = (case j of JsonObject ms \<Rightarrow> Inr ms | _ \<Rightarrow> Inl ''JSON value is not an object'')"

definition hasMember :: "json_value \<Rightarrow> string \<Rightarrow> bool result" where
  "hasMember j name = res_bind (requireObject j) (\<lambda>ms. Inr (map_of ms name \<noteq> None))"

definition json_member :: "json_value \<Rightarrow> string \<Rightarrow> json_value result" where
  "json_member j name = res_bind (requireObject j) (\<lambda>ms. case map_of ms name of
       None \<Rightarrow> Inl (''JSON object has no member '' @ quoted name)
     | Some v \<Rightarrow> Inr v)"

definition setMember :: "json_value \<Rightarrow> string \<Rightarrow> json_value \<Rightarrow> json_value result" where
  "setMember j name v = res_bind (requireObject j) (\<lambda>ms. Inr (JsonObject (insert_member name v ms)))"

section \<open>Serializer\<close>

definition hex_digit :: "nat \<Rightarrow> char" where
  "hex_digit d = char_of (if d < 10 then 48 + d else 87 + d)"

text \<open>\<open>snprintf("\u%04x", c)\<close> for a control character.\<close>

definition escape_control :: "char \<Rightarrow> string" where
  "escape_control c = [CHR 0x5C, CHR ''u'', CHR ''0'', CHR ''0'', hex_digit (of_char c div 16), hex_digit (of_char c mod 16)]"

definition escape_char :: "char \<Rightarrow> string" where
  "escape_char c =
     (if c = CHR 0x22 then [CHR 0x5C, CHR 0x22]
      else if c = CHR 0x5C then [CHR 0x5C, CHR 0x5C]
      else if c = CHR 0x08 then [CHR 0x5C, CHR ''b'']
      else if c = CHR 0x0C then [CHR 0x5C, CHR ''f'']
      else if c = CHR 0x0A then [CHR 0x5C, CHR ''n'']
      else if c = CHR 0x0D then [CHR 0x5C, CHR ''r'']
      else if c = CHR 0x09 then [CHR 0x5C, CHR ''t'']
      else if of_char c < (0x20 :: nat) then escape_control c
      else [c])"

definition appendEscaped :: "string \<Rightarrow> string \<Rightarrow> string" where
  "appendEscaped out s = foldl (\<lambda>out c. out @ escape_char c) (out @ [CHR 0x22]) s @ [CHR 0x22]"

definition max_finite :: f64 where "max_finite = 0x7FEFFFFFFFFFFFFF"
definition min_finite :: f64 where "min_finite = 0xFFEFFFFFFFFFFFFF"

text \<open>\<open>value == std::floor(value)\<close> for a finite value, and \<open>static_cast<long long>(value)\<close>.\<close>

definition f64_is_integral :: "f64 \<Rightarrow> bool" where
  "f64_is_integral v = (case mag_ratio 52 (- 1074) (f64_mag v) of (a, b) \<Rightarrow> b dvd a)"

definition f64_truncated :: "f64 \<Rightarrow> int" where
  "f64_truncated v = (case mag_ratio 52 (- 1074) (f64_mag v) of (a, b) \<Rightarrow>
     if f64_sign v = 0 then int (a div b) else - int (a div b))"

definition formatNumber :: "f64 \<Rightarrow> string result" where
  "formatNumber v =
     (if \<not> f64_eq v v \<or> f64_less max_finite v \<or> f64_less v min_finite
        then Inl ''JSON cannot represent a non-finite number''
      else if f64_is_integral v \<and> f64_le 0xC340000000000000 v \<and> f64_le v 0x4340000000000000
        then Inr (int_to_string (f64_truncated v))
      else let text15 = double_to_text 15 v in
        if f64_eq (fst (stream_to_double text15)) v then Inr text15
        else Inr (double_to_text 17 v))"

fun serializeValue :: "json_value \<Rightarrow> string \<Rightarrow> string result"
  and serializeMembers :: "bool \<Rightarrow> (string \<times> json_value) list \<Rightarrow> string \<Rightarrow> string result" where
  "serializeValue JsonNull out = Inr (out @ ''null'')"
| "serializeValue (JsonBoolean b) out = Inr (out @ (if b then ''true'' else ''false''))"
| "serializeValue (JsonNumber x) out = res_bind (formatNumber x) (\<lambda>s. Inr (out @ s))"
| "serializeValue (JsonString s) out = Inr (appendEscaped out s)"
| "serializeValue (JsonObject ms) out =
     res_bind (serializeMembers True ms (out @ ''{'')) (\<lambda>out. Inr (out @ ''}''))"
| "serializeMembers isFirst [] out = Inr out"
| "serializeMembers isFirst ((name, v) # ms) out =
     (let out = (if isFirst then out else out @ '','');
          out = appendEscaped out name @ '':''
      in res_bind (serializeValue v out) (\<lambda>out. serializeMembers False ms out))"

definition serialize :: "json_value \<Rightarrow> string result" where
  "serialize j = serializeValue j []"

section \<open>Parser: text and position\<close>

datatype 'a parsed = Parsed 'a nat | Failed string | OutOfFuel

definition parse_bind :: "'a parsed \<Rightarrow> ('a \<Rightarrow> nat \<Rightarrow> 'b parsed) \<Rightarrow> 'b parsed" where
  "parse_bind m f = (case m of Parsed x p \<Rightarrow> f x p | Failed e \<Rightarrow> Failed e | OutOfFuel \<Rightarrow> OutOfFuel)"

lemma parse_bind_simps [simp, result_simps]:
  "parse_bind (Parsed x p) f = f x p"
  "parse_bind (Failed e) f = Failed e"
  "parse_bind OutOfFuel f = OutOfFuel"
  by (simp_all add: parse_bind_def)

lemma parse_bind_cong [fundef_cong]:
  "m = m' \<Longrightarrow> (\<And>x p. m' = Parsed x p \<Longrightarrow> f x p = g x p) \<Longrightarrow> parse_bind m f = parse_bind m' g"
  by (cases m') auto

lemma parse_bind_Parsed_iff:
  "parse_bind m f = Parsed y q \<longleftrightarrow> (\<exists>x p. m = Parsed x p \<and> f x p = Parsed y q)"
  by (cases m) auto

lemma parse_bind_OutOfFuel_iff:
  "parse_bind m f = OutOfFuel \<longleftrightarrow> m = OutOfFuel \<or> (\<exists>x p. m = Parsed x p \<and> f x p = OutOfFuel)"
  by (cases m) auto

definition positioned :: "nat \<Rightarrow> string \<Rightarrow> string" where
  "positioned p what = ''JSON error at byte '' @ nat_to_string p @ '': '' @ what"

definition parse_fail :: "nat \<Rightarrow> string \<Rightarrow> 'a parsed" where
  "parse_fail p what = Failed (positioned p what)"

lemma parse_fail_simps [simp]:
  "parse_fail p w \<noteq> Parsed x q" "parse_fail p w \<noteq> OutOfFuel" "parse_bind (parse_fail p w) f = parse_fail p w"
  by (simp_all add: parse_fail_def)

definition is_space :: "char \<Rightarrow> bool" where
  "is_space c \<longleftrightarrow> c = CHR '' '' \<or> c = CHR 0x09 \<or> c = CHR 0x0A \<or> c = CHR 0x0D"

function skipWhitespace :: "string \<Rightarrow> nat \<Rightarrow> nat" where
  "skipWhitespace t p = (if p < length t \<and> is_space (t ! p) then skipWhitespace t (p + 1) else p)"
  by auto
termination by (relation "measure (\<lambda>(t, p). length t - p)") auto

declare skipWhitespace.simps [simp del]

definition peek :: "string \<Rightarrow> nat \<Rightarrow> char" where
  "peek t p = (if p < length t then t ! p else CHR 0x00)"

definition expect :: "string \<Rightarrow> char \<Rightarrow> string \<Rightarrow> nat \<Rightarrow> unit parsed" where
  "expect t wanted what p =
     (if length t \<le> p \<or> t ! p \<noteq> wanted then parse_fail p what else Parsed () (p + 1))"

text \<open>The loop over the characters of a literal; a mismatch is reported at its start.\<close>

fun parse_literal_loop :: "string \<Rightarrow> nat \<Rightarrow> string \<Rightarrow> string \<Rightarrow> nat \<Rightarrow> unit parsed" where
  "parse_literal_loop t start literal [] p = Parsed () p"
| "parse_literal_loop t start literal (c # cs) p =
     (if length t \<le> p \<or> t ! p \<noteq> c then parse_fail start (''expected '' @ quoted literal)
      else parse_literal_loop t start literal cs (p + 1))"

definition parseLiteral :: "string \<Rightarrow> string \<Rightarrow> nat \<Rightarrow> unit parsed" where
  "parseLiteral t literal p = parse_literal_loop t p literal literal p"

definition parseKeyword :: "string \<Rightarrow> nat \<Rightarrow> bool parsed" where
  "parseKeyword t p =
     (if peek t p = CHR ''t'' then parse_bind (parseLiteral t ''true'' p) (\<lambda>_. Parsed True)
      else parse_bind (parseLiteral t ''false'' p) (\<lambda>_. Parsed False))"

section \<open>Parser: strings\<close>

definition hex_value :: "char \<Rightarrow> nat option" where
  "hex_value c = (let n = of_char c in
     if 48 \<le> n \<and> n \<le> 57 then Some (n - 48)
     else if 97 \<le> n \<and> n \<le> 102 then Some (n - 97 + 10)
     else if 65 \<le> n \<and> n \<le> 70 then Some (n - 65 + 10)
     else None)"

text \<open>The loop of \<open>parseHexQuad\<close>: the number of digits left and the value so far.\<close>

fun parse_hex :: "string \<Rightarrow> nat \<Rightarrow> nat \<Rightarrow> nat \<Rightarrow> nat parsed" where
  "parse_hex t 0 v p = Parsed v p"
| "parse_hex t (Suc i) v p =
     (if length t \<le> p then parse_fail p (''truncated '' @ [CHR 0x5C] @ ''u escape'')
      else case hex_value (t ! p) of
             None \<Rightarrow> parse_fail p (''invalid hex digit in '' @ [CHR 0x5C] @ ''u escape'')
           | Some d \<Rightarrow> parse_hex t i (v * 16 + d) (p + 1))"

definition parseHexQuad :: "string \<Rightarrow> nat \<Rightarrow> nat parsed" where
  "parseHexQuad t p = parse_hex t 4 0 p"

lemma parse_hex_position: "parse_hex t i v p = Parsed x q \<Longrightarrow> q = p + i"
  by (induction t i v p rule: parse_hex.induct) (auto split: if_splits option.splits)

definition appendUtf8 :: "string \<Rightarrow> nat \<Rightarrow> string" where
  "appendUtf8 out cp =
     (if cp < 0x80 then out @ [char_of cp]
      else if cp < 0x800 then out @ [char_of (0xC0 OR drop_bit 6 cp), char_of (0x80 OR (cp AND 0x3F))]
      else out @ [char_of (0xE0 OR drop_bit 12 cp), char_of (0x80 OR (drop_bit 6 cp AND 0x3F)),
             char_of (0x80 OR (cp AND 0x3F))])"

text \<open>The single-character escapes.\<close>

definition simple_escape :: "char \<Rightarrow> char option" where
  "simple_escape c =
     (if c = CHR 0x22 then Some (CHR 0x22) else if c = CHR 0x5C then Some (CHR 0x5C)
      else if c = CHR ''/'' then Some (CHR ''/'') else if c = CHR ''b'' then Some (CHR 0x08)
      else if c = CHR ''f'' then Some (CHR 0x0C) else if c = CHR ''n'' then Some (CHR 0x0A)
      else if c = CHR ''r'' then Some (CHR 0x0D) else if c = CHR ''t'' then Some (CHR 0x09)
      else None)"

function parse_string_loop :: "string \<Rightarrow> string \<Rightarrow> nat \<Rightarrow> string parsed" where
  "parse_string_loop t out p =
     (if length t \<le> p then parse_fail p ''unterminated string''
      else if t ! p = CHR 0x22 then Parsed out (p + 1)
      else if of_char (t ! p) < (0x20 :: nat) then parse_fail p ''unescaped control character in string''
      else if t ! p \<noteq> CHR 0x5C then parse_string_loop t (out @ [t ! p]) (p + 1)
      else if length t \<le> p + 1 then parse_fail (p + 1) ''truncated escape sequence''
      else case simple_escape (t ! (p + 1)) of
             Some c \<Rightarrow> parse_string_loop t (out @ [c]) (p + 2)
           | None \<Rightarrow>
               if t ! (p + 1) = CHR ''u'' then
                 parse_bind (parseHexQuad t (p + 2)) (\<lambda>cp q.
                   if 0xD800 \<le> cp \<and> cp \<le> 0xDFFF
                     then parse_fail q (''surrogate '' @ [CHR 0x5C] @ ''u escapes are not supported (use raw UTF-8)'')
                   else parse_string_loop t (appendUtf8 out cp) q)
               else parse_fail p ''invalid escape sequence'')"
  by pat_completeness auto
termination
  by (relation "measure (\<lambda>(t, out, p). length t - p)")
     (auto simp: parseHexQuad_def dest: parse_hex_position)

declare parse_string_loop.simps [simp del]

definition parseString :: "string \<Rightarrow> nat \<Rightarrow> string parsed" where
  "parseString t p = parse_bind (expect t (CHR 0x22) (''expected '' @ quoted [CHR 0x22]) p)
     (\<lambda>_. parse_string_loop t [])"

section \<open>Parser: numbers\<close>

function skip_digits :: "string \<Rightarrow> nat \<Rightarrow> nat" where
  "skip_digits t p = (if p < length t \<and> is_digit (t ! p) then skip_digits t (p + 1) else p)"
  by auto
termination by (relation "measure (\<lambda>(t, p). length t - p)") auto

declare skip_digits.simps [simp del]

definition parse_integer_part :: "string \<Rightarrow> nat \<Rightarrow> nat \<Rightarrow> unit parsed" where
  "parse_integer_part t start p =
     (if peek t p = CHR ''0'' then Parsed () (p + 1)
      else if is_digit (peek t p) then Parsed () (skip_digits t p)
      else parse_fail start ''malformed number'')"

definition parse_digits :: "string \<Rightarrow> string \<Rightarrow> nat \<Rightarrow> unit parsed" where
  "parse_digits t what p =
     (if is_digit (peek t p) then Parsed () (skip_digits t p) else parse_fail p what)"

definition parse_fraction :: "string \<Rightarrow> nat \<Rightarrow> unit parsed" where
  "parse_fraction t p =
     (if peek t p = CHR ''.'' then parse_digits t ''digits must follow the decimal point'' (p + 1)
      else Parsed () p)"

definition parse_exponent :: "string \<Rightarrow> nat \<Rightarrow> unit parsed" where
  "parse_exponent t p =
     (if peek t p = CHR ''e'' \<or> peek t p = CHR ''E'' then
        let p = p + 1;
            p = (if peek t p = CHR ''+'' \<or> peek t p = CHR ''-'' then p + 1 else p)
        in parse_digits t ''digits must follow the exponent'' p
      else Parsed () p)"

text \<open>The token is exactly a JSON number, so the stream consumes all of it.\<close>

definition parseNumber :: "string \<Rightarrow> nat \<Rightarrow> f64 parsed" where
  "parseNumber t start =
     (let p = (if peek t start = CHR ''-'' then start + 1 else start) in
      parse_bind (parse_integer_part t start p) (\<lambda>_ p.
      parse_bind (parse_fraction t p) (\<lambda>_ p.
      parse_bind (parse_exponent t p) (\<lambda>_ p.
        let (v, failed) = stream_to_double (take (p - start) (drop start t)) in
        if failed \<or> \<not> f64_eq v v \<or> f64_less max_finite v \<or> f64_less v min_finite
          then parse_fail start ''number out of range''
        else Parsed v p))))"

section \<open>Parser: values and objects\<close>

definition kMaxInputBytes :: nat where "kMaxInputBytes = 64 * 1024"
definition kMaxDepth :: nat where "kMaxDepth = 16"

text \<open>The branches of \<open>parseValue\<close> for everything but an object.\<close>

definition parse_scalar :: "string \<Rightarrow> nat \<Rightarrow> json_value parsed" where
  "parse_scalar t p =
     (let c = peek t p in
      if c = CHR 0x22 then parse_bind (parseString t p) (\<lambda>s. Parsed (JsonString s))
      else if c = CHR ''['' then parse_fail p ''arrays are not part of the FX argument projection''
      else if c = CHR ''t'' \<or> c = CHR ''f'' then parse_bind (parseKeyword t p) (\<lambda>b. Parsed (JsonBoolean b))
      else if c = CHR ''n'' then parse_bind (parseLiteral t ''null'' p) (\<lambda>_. Parsed JsonNull)
      else if c = CHR ''-'' \<or> is_digit c then parse_bind (parseNumber t p) (\<lambda>x. Parsed (JsonNumber x))
      else parse_fail p ''expected a value'')"

text \<open>The loop body of \<open>parseObject\<close> up to the value: name, duplicate check, colon.\<close>

definition parse_member_name :: "string \<Rightarrow> (string \<times> json_value) list \<Rightarrow> nat \<Rightarrow> string parsed" where
  "parse_member_name t ms p =
     (let p = skipWhitespace t p in
      if peek t p \<noteq> CHR 0x22 then parse_fail p ''expected a member name in double quotes''
      else parse_bind (parseString t p) (\<lambda>name p.
        if map_of ms name \<noteq> None then parse_fail p (''duplicate member name '' @ quoted name)
        else let p = skipWhitespace t p in
          parse_bind (expect t (CHR '':'') (''expected '' @ quoted '':'' @ '' after the member name'') p)
            (\<lambda>_ p. Parsed name (skipWhitespace t p))))"

text \<open>The opening of an object: whether it closes at once.\<close>

definition parse_open :: "string \<Rightarrow> nat \<Rightarrow> nat \<Rightarrow> bool parsed" where
  "parse_open t d p =
     (if kMaxDepth < d + 1 then parse_fail p ''nesting deeper than the accepted maximum''
      else parse_bind (expect t (CHR ''{'') (''expected '' @ quoted ''{'') p) (\<lambda>_ p.
        let p = skipWhitespace t p in
        if peek t p = CHR ''}'' then Parsed True (p + 1) else Parsed False p))"

text \<open>What follows a member: whether another one comes.\<close>

definition parse_separator :: "string \<Rightarrow> nat \<Rightarrow> bool parsed" where
  "parse_separator t p =
     (let p = skipWhitespace t p in
      if peek t p = CHR '','' then Parsed True (p + 1)
      else if peek t p = CHR ''}'' then Parsed False (p + 1)
      else parse_fail p (''expected '' @ quoted '','' @ '' or '' @ quoted ''}'' @ '' after a member''))"

fun parseValue :: "nat \<Rightarrow> nat \<Rightarrow> string \<Rightarrow> nat \<Rightarrow> json_value parsed"
  and parseObject :: "nat \<Rightarrow> nat \<Rightarrow> string \<Rightarrow> nat \<Rightarrow> json_value parsed"
  and parseMembers :: "nat \<Rightarrow> nat \<Rightarrow> string \<Rightarrow> (string \<times> json_value) list \<Rightarrow> nat \<Rightarrow> json_value parsed" where
  "parseValue 0 d t p = OutOfFuel"
| "parseValue (Suc n) d t p = (if peek t p = CHR ''{'' then parseObject n d t p else parse_scalar t p)"
| "parseObject 0 d t p = OutOfFuel"
| "parseObject (Suc n) d t p =
     parse_bind (parse_open t d p) (\<lambda>closed p.
       if closed then Parsed (JsonObject []) p else parseMembers n (d + 1) t [] p)"
| "parseMembers 0 d t ms p = OutOfFuel"
| "parseMembers (Suc n) d t ms p =
     parse_bind (parse_member_name t ms p) (\<lambda>name p.
     parse_bind (parseValue n d t p) (\<lambda>v p.
     parse_bind (parse_separator t p) (\<lambda>more p.
       if more then parseMembers n d t (insert_member name v ms) p
       else Parsed (JsonObject (insert_member name v ms)) p)))"

definition parseDocument :: "nat \<Rightarrow> string \<Rightarrow> json_value parsed" where
  "parseDocument fuel t =
     (let p = skipWhitespace t 0 in
      if length t \<le> p \<or> t ! p \<noteq> CHR ''{'' then parse_fail p ''expected a JSON object''
      else parse_bind (parseObject fuel 0 t p) (\<lambda>v p.
        let p = skipWhitespace t p in
        if p \<noteq> length t then parse_fail p ''trailing content after the JSON object''
        else Parsed v p))"

text \<open>Three calls for each character are more than the parser makes.\<close>

definition parse_fuel :: "string \<Rightarrow> nat" where
  "parse_fuel t = 3 * length t + 3"

definition parseJsonObject :: "string \<Rightarrow> json_value result" where
  "parseJsonObject t =
     (if kMaxInputBytes < length t then Inl ''JSON error: input exceeds the accepted maximum size''
      else case parseDocument (parse_fuel t) t of
             Parsed v p \<Rightarrow> Inr v
           | Failed e \<Rightarrow> Inl e
           | OutOfFuel \<Rightarrow> Inl ''out of fuel'')"

end
