(* ===== verification/FxJsonParser.thy ===== *)
theory FxJsonParser
  imports FxJson
begin

text \<open>
  What the parser of \<open>Fx/src/FxJson.cpp\<close> guarantees for every text: the position only
  moves forward, the fuel suffices, more fuel changes nothing, and an accepted text yields a
  well-formed value (sorted distinct names, finite numbers, bounded nesting).
\<close>

section \<open>Positions move forward\<close>

lemma skipWhitespace_le: "p \<le> skipWhitespace t p"
proof (induction t p rule: skipWhitespace.induct)
  case (1 t p)
  then show ?case by (subst skipWhitespace.simps) auto
qed

lemma skip_digits_le: "p \<le> skip_digits t p"
proof (induction t p rule: skip_digits.induct)
  case (1 t p)
  then show ?case by (subst skip_digits.simps) auto
qed

lemma expect_Parsed: "expect t c w p = Parsed u q \<Longrightarrow> q = p + 1 \<and> p < length t \<and> t ! p = c"
  by (auto simp: expect_def split: if_splits)

lemma parse_string_loop_position: "parse_string_loop t out p = Parsed s q \<Longrightarrow> p < q"
proof (induction p arbitrary: out rule: measure_induct_rule [of "\<lambda>p. length t - p"])
  case (less p)
  have IH: "parse_string_loop t out r = Parsed s q \<Longrightarrow> p < length t \<Longrightarrow> p < r \<Longrightarrow> p < q" for r out
    using less.IH [of r out] by (meson diff_less_mono2 less_trans)
  show ?case
    using less.prems
    by (subst (asm) parse_string_loop.simps)
       (auto simp: parse_bind_Parsed_iff parseHexQuad_def dest!: parse_hex_position IH
         split: if_splits option.splits)
qed

lemma parseString_position: "parseString t p = Parsed s q \<Longrightarrow> p < q"
  by (auto simp: parseString_def parse_bind_Parsed_iff dest!: expect_Parsed parse_string_loop_position)

lemma parse_literal_position: "parse_literal_loop t st l cs p = Parsed u q \<Longrightarrow> p \<le> q"
  by (induction t st l cs p rule: parse_literal_loop.induct) (auto split: if_splits)

lemma parse_digits_position: "parse_digits t w p = Parsed u q \<Longrightarrow> p \<le> q"
  using skip_digits_le by (auto simp: parse_digits_def split: if_splits)

lemma parseNumber_Parsed:
  "parseNumber t p = Parsed x q \<longleftrightarrow> (\<exists>a b.
     parse_integer_part t p (if peek t p = CHR ''-'' then p + 1 else p) = Parsed () a
     \<and> parse_fraction t a = Parsed () b \<and> parse_exponent t b = Parsed () q
     \<and> stream_to_double (take (q - p) (drop p t)) = (x, False)
     \<and> f64_eq x x \<and> \<not> f64_less max_finite x \<and> \<not> f64_less x min_finite)"
proof -
  have out: "(let (v, failed) = w in if failed \<or> \<not> f64_eq v v \<or> f64_less max_finite v \<or> f64_less v min_finite
      then parse_fail p m else Parsed v r) = Parsed x q
    \<longleftrightarrow> r = q \<and> w = (x, False) \<and> f64_eq x x \<and> \<not> f64_less max_finite x \<and> \<not> f64_less x min_finite" for w m r
    by (cases w) auto
  show ?thesis
    unfolding parseNumber_def parse_bind_Parsed_iff Let_def [of "if _ then _ else _"] out by auto
qed

lemma parseNumber_position: "parseNumber t p = Parsed x q \<Longrightarrow> p \<le> q"
proof -
  have i: "parse_integer_part t st r = Parsed u q \<Longrightarrow> r \<le> q" for st r u q
    using skip_digits_le [of r t] by (auto simp: parse_integer_part_def split: if_splits)
  have f: "parse_fraction t r = Parsed u q \<Longrightarrow> r \<le> q" for r u q
    by (auto simp: parse_fraction_def dest!: parse_digits_position split: if_splits)
  have e: "parse_exponent t r = Parsed u q \<Longrightarrow> r \<le> q" for r u q
    by (auto simp: parse_exponent_def Let_def dest!: parse_digits_position split: if_splits)
  show "parseNumber t p = Parsed x q \<Longrightarrow> p \<le> q"
    unfolding parseNumber_Parsed by (fastforce dest: i f e split: if_splits)
qed

lemma parse_scalar_position: "parse_scalar t p = Parsed v q \<Longrightarrow> p \<le> q"
  by (auto simp: parse_scalar_def Let_def parse_bind_Parsed_iff parseKeyword_def parseLiteral_def
      dest: parseString_position parse_literal_position parseNumber_position split: if_splits)

lemma parse_open_position: "parse_open t d p = Parsed b q \<Longrightarrow> p < q \<and> p < length t \<and> d < kMaxDepth"
  using skipWhitespace_le [of "p + 1" t]
  by (auto simp: parse_open_def Let_def parse_bind_Parsed_iff dest!: expect_Parsed split: if_splits)

lemma parse_separator_position: "parse_separator t p = Parsed b q \<Longrightarrow> p < q"
  using skipWhitespace_le [of p t] by (auto simp: parse_separator_def Let_def split: if_splits)

lemma peek_nonzero: "peek t p \<noteq> CHR 0x00 \<Longrightarrow> p < length t \<and> t ! p = peek t p"
  by (auto simp: peek_def split: if_splits)

lemma parse_member_name_position:
  assumes "parse_member_name t ms p = Parsed name q"
  shows "p < q" "p < length t" "name \<notin> fst ` set ms"
proof -
  from assms obtain r where quote: "peek t (skipWhitespace t p) = CHR 0x22"
    and name: "parseString t (skipWhitespace t p) = Parsed name r" "map_of ms name = None"
    and q: "q = skipWhitespace t (skipWhitespace t r + 1)"
    by (auto simp: parse_member_name_def Let_def parse_bind_Parsed_iff dest!: expect_Parsed split: if_splits)
  from quote have "skipWhitespace t p < length t" using peek_nonzero [of t "skipWhitespace t p"] by simp
  then show "p < length t" using skipWhitespace_le [of p t] by simp
  show "p < q" using parseString_position [OF name(1)] skipWhitespace_le [of p t] skipWhitespace_le [of r t]
      skipWhitespace_le [of "skipWhitespace t r + 1" t] q by simp
  show "name \<notin> fst ` set ms" using name(2) by (simp add: map_of_eq_None_iff)
qed

lemma parser_position:
  "parseValue n d t p = Parsed v q \<Longrightarrow> p \<le> q"
  "parseObject n d t p = Parsed v q \<Longrightarrow> p \<le> q"
  "parseMembers n d t ms p = Parsed v q \<Longrightarrow> p \<le> q"
proof (induction n d t p and n d t p and n d t ms p arbitrary: v q and v q and v q
    rule: parseValue_parseObject_parseMembers.induct)
  case (2 n d t p)
  then show ?case by (auto dest: parse_scalar_position split: if_splits)
next
  case (4 n d t p)
  then show ?case by (fastforce simp: parse_bind_Parsed_iff dest: parse_open_position split: if_splits)
next
  case (6 n d t ms p)
  from "6.prems" obtain name a v' b more c where
    steps: "parse_member_name t ms p = Parsed name a" "parseValue n d t a = Parsed v' b"
      "parse_separator t b = Parsed more c"
    and rest: "(if more then parseMembers n d t (insert_member name v' ms) c
      else Parsed (JsonObject (insert_member name v' ms)) c) = Parsed v q"
    by (auto simp: parse_bind_Parsed_iff)
  have "p < a" "a \<le> b" "b < c"
    using parse_member_name_position(1) [OF steps(1)] "6.IH"(1) [OF steps(1,2)]
      parse_separator_position [OF steps(3)] by auto
  moreover have "c \<le> q" using rest "6.IH"(2) [OF steps] by (auto split: if_splits)
  ultimately show ?case by simp
qed simp_all

section \<open>The fuel suffices\<close>

lemma parse_string_loop_fuel: "parse_string_loop t out p \<noteq> OutOfFuel"
proof (induction p arbitrary: out rule: measure_induct_rule [of "\<lambda>p. length t - p"])
  case (less p)
  have IH: "parse_string_loop t out r = OutOfFuel \<Longrightarrow> p < length t \<Longrightarrow> p < r \<Longrightarrow> False" for r out
    using less.IH [of r out] by simp
  have hex: "parse_hex t i v r \<noteq> OutOfFuel" for i v r
    by (induction t i v r rule: parse_hex.induct) (auto split: option.splits)
  show ?case
    by (subst parse_string_loop.simps)
       (auto simp: parse_bind_OutOfFuel_iff parseHexQuad_def hex dest!: parse_hex_position
         dest: IH split: option.splits if_splits)
qed

lemma parseString_fuel: "parseString t p \<noteq> OutOfFuel"
  by (auto simp: parseString_def parse_bind_OutOfFuel_iff parse_string_loop_fuel expect_def)

lemma parse_literal_fuel: "parse_literal_loop t st l cs p \<noteq> OutOfFuel"
  by (induction t st l cs p rule: parse_literal_loop.induct) auto

lemma parseNumber_fuel: "parseNumber t p \<noteq> OutOfFuel"
proof -
  have parts: "parse_integer_part t r q \<noteq> OutOfFuel" "parse_fraction t q \<noteq> OutOfFuel" "parse_exponent t q \<noteq> OutOfFuel" for r q
    by (simp_all add: parse_integer_part_def parse_fraction_def parse_exponent_def parse_digits_def Let_def)
  have out: "(let (v, failed) = w in if failed \<or> \<not> f64_eq v v \<or> f64_less max_finite v \<or> f64_less v min_finite
      then parse_fail q m else Parsed v r) \<noteq> OutOfFuel" for w m q r
    by (cases w) auto
  show ?thesis
    unfolding parseNumber_def parse_bind_OutOfFuel_iff Let_def [of "if _ then _ else _"] using parts out by blast
qed

lemma parse_scalar_fuel: "parse_scalar t p \<noteq> OutOfFuel"
  by (auto simp: parse_scalar_def Let_def parse_bind_OutOfFuel_iff parseString_fuel parseNumber_fuel
      parseKeyword_def parseLiteral_def parse_literal_fuel)

lemma parse_step_fuel:
  "parse_open t d p \<noteq> OutOfFuel" "parse_separator t p \<noteq> OutOfFuel" "parse_member_name t ms p \<noteq> OutOfFuel"
  by (auto simp: parse_open_def parse_separator_def parse_member_name_def Let_def
      parse_bind_OutOfFuel_iff parseString_fuel expect_def)

lemma parser_fuel:
  "3 * (length t - p) + 3 \<le> n \<Longrightarrow> parseValue n d t p \<noteq> OutOfFuel"
  "3 * (length t - p) + 2 \<le> n \<Longrightarrow> parseObject n d t p \<noteq> OutOfFuel"
  "3 * (length t - p) + 1 \<le> n \<Longrightarrow> parseMembers n d t ms p \<noteq> OutOfFuel"
proof (induction n d t p and n d t p and n d t ms p rule: parseValue_parseObject_parseMembers.induct)
  case (2 n d t p)
  then show ?case by (auto simp: parse_scalar_fuel)
next
  case (4 n d t p)
  have "parseMembers n (d + 1) t [] q \<noteq> OutOfFuel" if "parse_open t d p = Parsed False q" for q
  proof -
    have "p < q" "p < length t" using parse_open_position [OF that] by auto
    with "4.prems" show ?thesis by (intro "4.IH" [OF that]) simp_all
  qed
  then show ?case by (auto simp: parse_bind_OutOfFuel_iff parse_step_fuel)
next
  case (6 n d t ms p)
  have "parseValue n d t a \<noteq> OutOfFuel" if "parse_member_name t ms p = Parsed name a" for name a
  proof -
    have "p < a" "p < length t" using parse_member_name_position(1,2) [OF that] .
    with "6.prems" show ?thesis by (intro "6.IH"(1) [OF that]) simp
  qed
  moreover have "parseMembers n d t (insert_member name v ms) c \<noteq> OutOfFuel"
    if "parse_member_name t ms p = Parsed name a" "parseValue n d t a = Parsed v b"
      "parse_separator t b = Parsed True c" for name a v b c
  proof -
    have "p < a" "p < length t" using parse_member_name_position(1,2) [OF that(1)] .
    moreover have "a \<le> b" "b < c"
      using parser_position(1) [OF that(2)] parse_separator_position [OF that(3)] by auto
    ultimately show ?thesis using "6.prems" by (intro "6.IH"(2) [OF that]) simp_all
  qed
  ultimately show ?case
    by (auto simp: parse_bind_OutOfFuel_iff parse_step_fuel)
qed simp_all

lemma parser_more_fuel:
  "parseValue n d t p \<noteq> OutOfFuel \<Longrightarrow> n \<le> m \<Longrightarrow> parseValue m d t p = parseValue n d t p"
  "parseObject n d t p \<noteq> OutOfFuel \<Longrightarrow> n \<le> m \<Longrightarrow> parseObject m d t p = parseObject n d t p"
  "parseMembers n d t ms p \<noteq> OutOfFuel \<Longrightarrow> n \<le> m \<Longrightarrow> parseMembers m d t ms p = parseMembers n d t ms p"
proof (induction n d t p and n d t p and n d t ms p arbitrary: m and m and m
    rule: parseValue_parseObject_parseMembers.induct)
  case (2 n d t p)
  from "2.prems"(2) obtain m' where m: "m = Suc m'" "n \<le> m'" by (cases m) auto
  show ?case
  proof (cases "peek t p = CHR ''{''")
    case True
    with "2.prems"(1) have "parseObject n d t p \<noteq> OutOfFuel" by simp
    from "2.IH" [OF True this m(2)] True show ?thesis by (simp add: m(1))
  qed (simp add: m(1))
next
  case (4 n d t p)
  from "4.prems"(2) obtain m' where m: "m = Suc m'" "n \<le> m'" by (cases m) auto
  show ?case
  proof (cases "parse_open t d p")
    case (Parsed closed q)
    show ?thesis
    proof (cases closed)
      case False
      with "4.prems"(1) Parsed have "parseMembers n (d + 1) t [] q \<noteq> OutOfFuel" by simp
      from "4.IH" [OF Parsed False this m(2)] False Parsed show ?thesis by (simp add: m(1))
    qed (simp add: m(1) Parsed)
  qed (simp_all add: m(1))
next
  case (6 n d t ms p)
  from "6.prems"(2) obtain m' where m: "m = Suc m'" "n \<le> m'" by (cases m) auto
  show ?case
  proof (cases "parse_member_name t ms p")
    case (Parsed name a)
    note name = this
    with "6.prems"(1) have "parseValue n d t a \<noteq> OutOfFuel" by auto
    from "6.IH"(1) [OF name this m(2)] have v: "parseValue m' d t a = parseValue n d t a" .
    show ?thesis
    proof (cases "parseValue n d t a")
      case (Parsed v b)
      note val = this
      show ?thesis
      proof (cases "parse_separator t b")
        case (Parsed more c)
        show ?thesis
        proof (cases more)
          case True
          with "6.prems"(1) name val Parsed
          have "parseMembers n d t (insert_member name v ms) c \<noteq> OutOfFuel" by simp
          from "6.IH"(2) [OF name val Parsed True this m(2)] True show ?thesis
            by (simp add: m(1) name v val Parsed)
        qed (simp add: m(1) name v val Parsed)
      qed (simp_all add: m(1) name v val)
    qed (simp_all add: m(1) name v)
  qed (simp_all add: m(1))
qed simp_all

end
