(* ===== verification/FxJsonRoundtrip.thy ===== *)
theory FxJsonRoundtrip
  imports FxJsonParser
begin

text \<open>
  The round trip of the JSON codec: a well-formed value whose numbers the serializer can carry
  is parsed back from its text. \<open>parses f s x K\<close> says that \<open>f\<close>, started where the
  text continues with \<open>s\<close> and then with something \<open>K\<close> allows, consumes exactly
  \<open>s\<close> and yields \<open>x\<close>.
\<close>

section \<open>Well-formed values\<close>

fun sorted_keys :: "string list \<Rightarrow> bool" where
  "sorted_keys [] \<longleftrightarrow> True"
| "sorted_keys [k] \<longleftrightarrow> True"
| "sorted_keys (k # l # ks) \<longleftrightarrow> string_less k l \<and> sorted_keys (l # ks)"

lemma string_less_irrefl [simp]: "\<not> string_less s s"
  by (induction s) auto

lemma string_less_trans: "string_less a b \<Longrightarrow> string_less b c \<Longrightarrow> string_less a c"
proof (induction a b arbitrary: c rule: string_less.induct)
  case (2 y ys)
  then show ?case by (cases c) auto
next
  case (3 x xs y ys)
  then show ?case by (cases c) auto
qed simp

lemma string_less_linear: "string_less a b \<or> a = b \<or> string_less b a"
proof (induction a b rule: string_less.induct)
  case (1 xs)
  then show ?case by (cases xs) auto
next
  case (3 x xs y ys)
  then show ?case by (metis less_linear of_char_eq_iff string_less.simps(3))
qed simp

lemma sorted_keys_Cons: "sorted_keys (k # ks) \<longleftrightarrow> (\<forall>l \<in> set ks. string_less k l) \<and> sorted_keys ks"
proof (induction ks arbitrary: k)
  case (Cons l ks)
  then show ?case by (auto dest: string_less_trans)
qed simp

lemma insert_member_keys: "fst ` set (insert_member n v ms) = insert n (fst ` set ms)"
  by (induction n v ms rule: insert_member.induct) auto

lemma insert_member_sorted: "sorted_keys (map fst ms) \<Longrightarrow> sorted_keys (map fst (insert_member n v ms))"
proof (induction n v ms rule: insert_member.induct)
  case (2 n v k w ms)
  have "sorted_keys (map fst (insert_member n v ms))" if "n \<noteq> k" "\<not> string_less n k"
    using 2 that by (simp add: sorted_keys_Cons)
  moreover have "\<forall>l \<in> set (map fst (insert_member n v ms)). string_less k l" if "n \<noteq> k" "\<not> string_less n k"
    using 2 that string_less_linear [of n k] insert_member_keys [of n v ms]
    by (auto simp: sorted_keys_Cons)
  ultimately show ?case using "2.prems"
    by (auto simp: sorted_keys_Cons dest: string_less_trans)
qed simp

text \<open>A name greater than all present ones goes to the end.\<close>

lemma insert_member_last:
  "\<forall>k \<in> fst ` set ms. string_less k n \<Longrightarrow> insert_member n v ms = ms @ [(n, v)]"
proof (induction n v ms rule: insert_member.induct)
  case (2 n v k w ms)
  then have "string_less k n" "n \<noteq> k" "\<not> string_less n k"
    by (auto dest: string_less_trans)
  with 2 show ?case by simp
qed simp

fun json_depth :: "json_value \<Rightarrow> nat" where
  "json_depth (JsonObject ms) = Suc (foldr (\<lambda>m d. max (json_depth (snd m)) d) ms 0)"
| "json_depth _ = 0"

fun json_all :: "(f64 \<Rightarrow> bool) \<Rightarrow> json_value \<Rightarrow> bool" where
  "json_all P (JsonObject ms) \<longleftrightarrow> sorted_keys (map fst ms) \<and> (\<forall>m \<in> set ms. json_all P (snd m))"
| "json_all P (JsonNumber x) \<longleftrightarrow> P x"
| "json_all P _ \<longleftrightarrow> True"

lemma json_depth_members: "foldr (\<lambda>m d. max (json_depth (snd m)) d) ms 0 \<le> k \<longleftrightarrow> (\<forall>m \<in> set ms. json_depth (snd m) \<le> k)"
  by (induction ms) auto

section \<open>Finite numbers\<close>

lemma not_nan_iff: "f64_eq v v \<longleftrightarrow> f64_mag v \<le> f64_inf"
  by (auto simp: f64_eq_def f64_is_nan_def not_less)

lemma f64_mag_consts:
  "f64_mag max_finite = f64_inf - 1" "f64_sign max_finite = 0"
  "f64_mag min_finite = f64_inf - 1" "f64_sign min_finite = 1"
  by (simp_all add: f64_mag_def f64_sign_def max_finite_def min_finite_def)

lemma finite_guard:
  "f64_eq v v \<and> \<not> f64_less max_finite v \<and> \<not> f64_less v min_finite \<longleftrightarrow> f64_is_finite v"
  using f64_sign_le [of v]
  by (auto simp: not_nan_iff f64_is_finite_def f64_less_def f64_is_nan_def f64_key_def f64_mag_consts le_Suc_eq)

section \<open>What the parser delivers\<close>

lemma parseNumber_finite: "parseNumber t p = Parsed x q \<Longrightarrow> f64_is_finite x"
  unfolding parseNumber_Parsed finite_guard [symmetric] by blast

lemma parse_scalar_ok:
  "parse_scalar t p = Parsed v q \<Longrightarrow> json_all f64_is_finite v \<and> json_depth v = 0"
  by (auto simp: parse_scalar_def Let_def parse_bind_Parsed_iff dest: parseNumber_finite split: if_splits)

lemma parser_delivers:
  "parseValue n d t p = Parsed v q \<Longrightarrow> d \<le> kMaxDepth \<Longrightarrow> json_all f64_is_finite v \<and> d + json_depth v \<le> kMaxDepth"
  "parseObject n d t p = Parsed v q \<Longrightarrow> d \<le> kMaxDepth \<Longrightarrow> json_all f64_is_finite v \<and> d + json_depth v \<le> kMaxDepth"
  "parseMembers n d t ms p = Parsed v q \<Longrightarrow> d \<le> kMaxDepth \<Longrightarrow> 0 < d \<Longrightarrow>
    json_all f64_is_finite (JsonObject ms) \<Longrightarrow> d - 1 + json_depth (JsonObject ms) \<le> kMaxDepth \<Longrightarrow>
    json_all f64_is_finite v \<and> d - 1 + json_depth v \<le> kMaxDepth"
proof (induction n d t p and n d t p and n d t ms p arbitrary: v q and v q and v q
    rule: parseValue_parseObject_parseMembers.induct)
  case (2 n d t p)
  show ?case
  proof (cases "peek t p = CHR ''{''")
    case True
    then show ?thesis using "2.IH" [OF True _ "2.prems"(2)] "2.prems"(1) by simp
  next
    case False
    then show ?thesis using parse_scalar_ok [of t p v q] "2.prems" by simp
  qed
next
  case (4 n d t p)
  from "4.prems"(1) obtain closed r where r: "parse_open t d p = Parsed closed r"
    "(if closed then Parsed (JsonObject []) r else parseMembers n (d + 1) t [] r) = Parsed v q"
    by (auto simp: parse_bind_Parsed_iff)
  have d: "d < kMaxDepth" using parse_open_position [OF r(1)] by simp
  show ?case
  proof (cases closed)
    case True
    then show ?thesis using r(2) d by auto
  next
    case False
    then have "parseMembers n (d + 1) t [] r = Parsed v q" using r(2) by simp
    from "4.IH" [OF r(1) False this] d show ?thesis by simp
  qed
next
  case (6 n d t ms p)
  from "6.prems"(1) obtain name a w b more c where
    steps: "parse_member_name t ms p = Parsed name a" "parseValue n d t a = Parsed w b"
      "parse_separator t b = Parsed more c"
    and rest: "(if more then parseMembers n d t (insert_member name w ms) c
      else Parsed (JsonObject (insert_member name w ms)) c) = Parsed v q"
    by (auto simp: parse_bind_Parsed_iff)
  have w: "json_all f64_is_finite w" "d + json_depth w \<le> kMaxDepth"
    using "6.IH"(1) [OF steps(1,2) "6.prems"(2)] by auto
  have mem: "m \<in> set (insert_member name w ms) \<Longrightarrow> m = (name, w) \<or> m \<in> set ms" for m
    by (induction name w ms rule: insert_member.induct) (auto split: if_splits)
  let ?o = "JsonObject (insert_member name w ms)"
  have all: "json_all f64_is_finite ?o"
    using "6.prems"(4) w(1) insert_member_sorted by (auto dest!: mem)
  have depth: "d - 1 + json_depth ?o \<le> kMaxDepth"
  proof -
    obtain k where k: "kMaxDepth = d + k" using "6.prems"(2) le_Suc_ex by blast
    have "\<forall>m \<in> set ms. json_depth (snd m) \<le> k"
      using "6.prems"(3,5) unfolding json_depth_members [symmetric] by (simp add: k)
    then have "\<forall>m \<in> set (insert_member name w ms). json_depth (snd m) \<le> k"
      using w(2) k by (auto dest!: mem)
    then show ?thesis unfolding json_depth_members [symmetric] using "6.prems"(3) k by simp
  qed
  show ?case
  proof (cases more)
    case True
    then have "parseMembers n d t (insert_member name w ms) c = Parsed v q" using rest by simp
    from "6.IH"(2) [OF steps True this "6.prems"(2,3) all depth] show ?thesis .
  next
    case False
    then show ?thesis using rest all depth by simp
  qed
qed simp_all

section \<open>Reading what was written\<close>

definition parses :: "(string \<Rightarrow> nat \<Rightarrow> 'a parsed) \<Rightarrow> string \<Rightarrow> 'a \<Rightarrow> (string \<Rightarrow> bool) \<Rightarrow> bool" where
  "parses f s x K \<longleftrightarrow> (\<forall>t p rest. drop p t = s @ rest \<longrightarrow> K rest \<longrightarrow> f t p = Parsed x (p + length s))"

lemma parsesD: "parses f s x K \<Longrightarrow> drop p t = s @ rest \<Longrightarrow> K rest \<Longrightarrow> f t p = Parsed x (p + length s)"
  by (auto simp: parses_def)

lemma drop_Cons_at:
  "drop p t = c # r \<Longrightarrow> p < length t" "drop p t = c # r \<Longrightarrow> t ! p = c"
  "drop p t = c # r \<Longrightarrow> peek t p = c" "drop p t = c # r \<Longrightarrow> drop (Suc p) t = r"
proof -
  show *: "drop p t = c # r \<Longrightarrow> p < length t" by (metis drop_eq_Nil list.distinct(1) not_less)
  show "drop p t = c # r \<Longrightarrow> t ! p = c" using * by (metis Cons_nth_drop_Suc list.inject)
  then show "drop p t = c # r \<Longrightarrow> peek t p = c" using * by (simp add: peek_def)
  show "drop p t = c # r \<Longrightarrow> drop (Suc p) t = r" using * by (metis Cons_nth_drop_Suc list.inject)
qed

lemma drop_append_at: "drop p t = s @ r \<Longrightarrow> drop (p + length s) t = r"
  by (metis add.commute append_eq_conv_conj drop_drop)

lemma peek_end: "drop p t = [] \<Longrightarrow> peek t p = CHR 0x00"
  by (simp add: peek_def)

text \<open>Written texts contain no white space between tokens.\<close>

lemma skipWhitespace_none: "drop p t = c # r \<Longrightarrow> \<not> is_space c \<Longrightarrow> skipWhitespace t p = p"
  by (subst skipWhitespace.simps) (simp add: drop_Cons_at)

lemma skipWhitespace_end: "drop p t = [] \<Longrightarrow> skipWhitespace t p = p"
  by (subst skipWhitespace.simps) simp

subsection \<open>Strings\<close>

lemma appendEscaped_eq: "appendEscaped out s = out @ [CHR 0x22] @ concat (map escape_char s) @ [CHR 0x22]"
proof -
  have "foldl (\<lambda>out c. out @ escape_char c) o' s = o' @ concat (map escape_char s)" for o'
    by (induction s arbitrary: o') simp_all
  then show ?thesis by (simp add: appendEscaped_def)
qed

lemma hex_value_digit: "d < 16 \<Longrightarrow> hex_value (hex_digit d) = Some d"
  by (simp add: hex_value_def hex_digit_def)

lemma control_char:
  assumes "of_char c < (0x20 :: nat)"
  shows "appendUtf8 out (of_char c) = out @ [c]" "(of_char c :: nat) div 16 < 16"
  using assms by (simp_all add: appendUtf8_def)

lemma parse_string_loop_char:
  assumes "drop p t = escape_char c @ rest"
  shows "parse_string_loop t out p = parse_string_loop t (out @ [c]) (p + length (escape_char c))"
proof -
  have simple: ?thesis if e: "escape_char c = [CHR 0x5C, e]" "simple_escape e = Some c" for e
  proof -
    have d: "drop p t = CHR 0x5C # e # rest" using assms e(1) by simp
    from drop_Cons_at [OF d] have "p < length t" "t ! p = CHR 0x5C" "drop (Suc p) t = e # rest" by auto
    with drop_Cons_at [of "Suc p" t] e(2) show ?thesis
      by (subst parse_string_loop.simps) (simp add: e(1))
  qed
  consider "c \<in> {CHR 0x22, CHR 0x5C, CHR 0x08, CHR 0x0C, CHR 0x0A, CHR 0x0D, CHR 0x09}"
    | "c \<notin> {CHR 0x22, CHR 0x5C, CHR 0x08, CHR 0x0C, CHR 0x0A, CHR 0x0D, CHR 0x09}" "of_char c < (0x20 :: nat)"
    | "c \<notin> {CHR 0x22, CHR 0x5C, CHR 0x08, CHR 0x0C, CHR 0x0A, CHR 0x0D, CHR 0x09}" "\<not> of_char c < (0x20 :: nat)"
    by blast
  then show ?thesis
  proof cases
    case 1
    then have "\<exists>e. escape_char c = [CHR 0x5C, e] \<and> simple_escape e = Some c"
      by (auto simp: escape_char_def simple_escape_def)
    with simple show ?thesis by blast
  next
    case 2
    define h l where "h = (of_char c :: nat) div 16" and "l = (of_char c :: nat) mod 16"
    have hl: "h < 16" "l < 16" "h * 16 + l = of_char c" using control_char(2) [OF 2(2)] by (simp_all add: h_def l_def)
    have e: "escape_char c = [CHR 0x5C, CHR ''u'', CHR ''0'', CHR ''0'', hex_digit h, hex_digit l]"
      using 2 by (simp add: escape_char_def escape_control_def h_def l_def)
    note d0 = assms [unfolded e, simplified]
    note d1 = drop_Cons_at(4) [OF d0]
    note d2 = drop_Cons_at(4) [OF d1]
    note d3 = drop_Cons_at(4) [OF d2]
    note d4 = drop_Cons_at(4) [OF d3]
    note d5 = drop_Cons_at(4) [OF d4]
    note at = drop_Cons_at(1,2) [OF d0] drop_Cons_at(1,2) [OF d1] drop_Cons_at(1,2) [OF d2]
      drop_Cons_at(1,2) [OF d3] drop_Cons_at(1,2) [OF d4] drop_Cons_at(1,2) [OF d5]
    have zero: "hex_value (CHR ''0'') = Some 0" by (simp add: hex_value_def)
    have "parseHexQuad t (p + 2) = Parsed (of_char c) (p + 6)"
      using at hl by (simp add: parseHexQuad_def numeral_eq_Suc zero hex_value_digit not_le)
    then have "parseHexQuad t (Suc (Suc p)) = Parsed (of_char c) (Suc (Suc (Suc (Suc (Suc (Suc p))))))" by simp
    then show ?thesis
      using at 2 control_char(1) [OF 2(2), of out]
      by (subst parse_string_loop.simps) (simp add: e simple_escape_def)
  next
    case 3
    then have e: "escape_char c = [c]" by (simp add: escape_char_def)
    with assms have "drop p t = c # rest" by simp
    from drop_Cons_at(1,2) [OF this] 3 show ?thesis
      by (subst parse_string_loop.simps) (simp add: e)
  qed
qed

lemma parse_string_loop_escaped:
  "drop p t = concat (map escape_char s) @ CHR 0x22 # rest \<Longrightarrow>
   parse_string_loop t out p = Parsed (out @ s) (p + length (concat (map escape_char s)) + 1)"
proof (induction s arbitrary: p out)
  case Nil
  then have "drop p t = CHR 0x22 # rest" by simp
  from drop_Cons_at(1,2) [OF this] show ?case by (subst parse_string_loop.simps) simp
next
  case (Cons c s)
  then have d: "drop p t = escape_char c @ (concat (map escape_char s) @ CHR 0x22 # rest)" by simp
  from Cons.IH [OF drop_append_at [OF d], of "out @ [c]"] parse_string_loop_char [OF d, of out]
  show ?case by (simp add: add.assoc)
qed

definition json_string_text :: "string \<Rightarrow> string" where
  "json_string_text s = [CHR 0x22] @ concat (map escape_char s) @ [CHR 0x22]"

lemma parses_string: "parses parseString (json_string_text s) s (\<lambda>_. True)"
  unfolding parses_def
proof (intro allI impI)
  fix t p rest assume "drop p t = json_string_text s @ rest"
  then have d: "drop p t = CHR 0x22 # concat (map escape_char s) @ CHR 0x22 # rest"
    by (simp add: json_string_text_def)
  from parse_string_loop_escaped [OF drop_Cons_at(4) [OF d], of "[]"] drop_Cons_at(1,2) [OF d]
  show "parseString t p = Parsed s (p + length (json_string_text s))"
    by (simp add: parseString_def expect_def json_string_text_def)
qed

subsection \<open>Numbers\<close>

definition ends_number :: "string \<Rightarrow> bool" where
  "ends_number rest \<longleftrightarrow> rest = [] \<or>
     (\<not> is_digit (hd rest) \<and> hd rest \<noteq> CHR ''.'' \<and> hd rest \<noteq> CHR ''e'' \<and> hd rest \<noteq> CHR ''E'')"

lemma skip_digits_run:
  "drop p t = i @ rest \<Longrightarrow> \<forall>c \<in> set i. is_digit c \<Longrightarrow> rest = [] \<or> \<not> is_digit (hd rest) \<Longrightarrow>
   skip_digits t p = p + length i"
proof (induction i arbitrary: p)
  case Nil
  show ?case
  proof (cases rest)
    case Nil
    then show ?thesis using Nil.prems by (subst skip_digits.simps) simp
  next
    case (Cons c r)
    then have "drop p t = c # r" using Nil.prems by simp
    from drop_Cons_at(1,2) [OF this] Cons Nil.prems show ?thesis by (subst skip_digits.simps) simp
  qed
next
  case (Cons c i)
  then have d: "drop p t = c # (i @ rest)" by simp
  from Cons.IH [OF drop_Cons_at(4) [OF d]] drop_Cons_at(1,2) [OF d] Cons.prems show ?case
    by (subst skip_digits.simps) simp
qed

lemma peek_hd: "drop p t = s @ rest \<Longrightarrow> s \<noteq> [] \<Longrightarrow> peek t p = hd s"
  by (cases s) (auto dest: drop_Cons_at)

lemma peek_rest: "drop p t = rest \<Longrightarrow> peek t p = (if rest = [] then CHR 0x00 else hd rest)"
  by (cases rest) (auto dest: drop_Cons_at simp: peek_end)

lemma parse_digits_run:
  assumes "drop p t = i @ rest" and "\<forall>c \<in> set i. is_digit c" and "i \<noteq> []" and "rest = [] \<or> \<not> is_digit (hd rest)"
  shows "parse_digits t w p = Parsed () (p + length i)"
  using skip_digits_run [OF assms(1,2,4)] peek_hd [OF assms(1,3)] assms(2,3) by (simp add: parse_digits_def)

definition number_start :: "string \<Rightarrow> bool" where
  "number_start i \<longleftrightarrow> i = ''0'' \<or> (i \<noteq> [] \<and> hd i \<noteq> CHR ''0'' \<and> (\<forall>c \<in> set i. is_digit c))"

lemma parse_integer_part_run:
  assumes "drop p t = i @ rest" and "number_start i" and "rest = [] \<or> \<not> is_digit (hd rest)"
  shows "parse_integer_part t st p = Parsed () (p + length i)"
proof (cases "i = ''0''")
  case True
  then show ?thesis using peek_hd [OF assms(1)] by (simp add: parse_integer_part_def)
next
  case False
  then have i: "i \<noteq> []" "hd i \<noteq> CHR ''0''" "\<forall>c \<in> set i. is_digit c" using assms(2) by (auto simp: number_start_def)
  then show ?thesis using skip_digits_run [OF assms(1) i(3) assms(3)] peek_hd [OF assms(1) i(1)]
    by (simp add: parse_integer_part_def)
qed

lemma parse_fraction_run:
  assumes "drop p t = point f @ rest" and "\<forall>c \<in> set f. is_digit c"
    and "rest = [] \<or> \<not> is_digit (hd rest) \<and> hd rest \<noteq> CHR ''.''"
  shows "parse_fraction t p = Parsed () (p + length (point f))"
proof (cases "f = []")
  case True
  then show ?thesis using assms peek_rest [of p t rest] by (auto simp: point_def parse_fraction_def)
next
  case False
  then have d: "drop p t = CHR ''.'' # (f @ rest)" using assms(1) by (simp add: point_def)
  from parse_digits_run [OF drop_Cons_at(4) [OF d] assms(2) False] assms(3) drop_Cons_at(3) [OF d] False
  show ?thesis by (auto simp: parse_fraction_def point_def)
qed

lemma parse_exponent_run:
  assumes "drop p t = exponent_text x @ rest" and "ends_number rest"
  shows "parse_exponent t p = Parsed () (p + length (exponent_text x))"
proof -
  define sgn where "sgn = (if x < 0 then CHR ''-'' else CHR ''+'')"
  define ds where "ds = (if \<bar>x\<bar> < 10 then ''0'' else []) @ nat_to_string (nat \<bar>x\<bar>)"
  have d: "drop p t = CHR ''e'' # sgn # (ds @ rest)" and len: "length (exponent_text x) = Suc (Suc (length ds))"
    using assms(1) by (simp_all add: exponent_text_def sgn_def ds_def)
  have "\<forall>c \<in> set ds. is_digit c" "ds \<noteq> []"
    using nat_to_string_digits by (auto simp: ds_def is_digit_def)
  moreover note d1 = drop_Cons_at(4) [OF d]
  ultimately have "parse_digits t w (Suc (Suc p)) = Parsed () (Suc (Suc p) + length ds)" for w
    using assms(2) by (intro parse_digits_run [OF drop_Cons_at(4) [OF d1]]) (auto simp: ends_number_def)
  moreover have "peek t (Suc p) = CHR ''+'' \<or> peek t (Suc p) = CHR ''-''"
    using drop_Cons_at(3) [OF d1] by (simp add: sgn_def)
  ultimately show ?thesis using drop_Cons_at(3) [OF d] by (auto simp: parse_exponent_def Let_def len)
qed

lemma parse_exponent_none: "drop p t = rest \<Longrightarrow> ends_number rest \<Longrightarrow> parse_exponent t p = Parsed () p"
  using peek_rest [of p t rest] by (auto simp: parse_exponent_def ends_number_def)

text \<open>Any text of this shape is scanned as one number and handed to the stream.\<close>

lemma parseNumber_run:
  assumes "number_start i" and f: "\<forall>c \<in> set f. is_digit c" and e: "e = [] \<or> (\<exists>x. e = exponent_text x)"
    and s: "s = (if neg then ''-'' else []) @ i @ point f @ e"
    and d: "drop p t = s @ rest" and K: "ends_number rest"
  shows "parseNumber t p = (case stream_to_double s of (v, failed) \<Rightarrow>
    if failed \<or> \<not> f64_is_finite v then parse_fail p ''number out of range'' else Parsed v (p + length s))"
proof -
  define p1 where "p1 = p + (if neg then 1 else 0)"
  have d1: "drop p1 t = i @ point f @ e @ rest"
    using d drop_Cons_at(4) [of p t] by (cases neg) (simp_all add: s p1_def)
  note d2 = drop_append_at [OF d1]
  note d3 = drop_append_at [OF d2]
  have hd_e: "e @ rest = [] \<or> \<not> is_digit (hd (e @ rest)) \<and> hd (e @ rest) \<noteq> CHR ''.''"
    using e K by (auto simp: exponent_text_def ends_number_def)
  then have "point f @ e @ rest = [] \<or> \<not> is_digit (hd (point f @ e @ rest))" by (auto simp: point_def)
  note i = parse_integer_part_run [OF d1 assms(1) this]
  note fr = parse_fraction_run [OF d2 f hd_e]
  have ex: "parse_exponent t (p1 + length i + length (point f)) = Parsed () (p1 + length i + length (point f) + length e)"
    using e parse_exponent_run [of _ t _ rest, OF _ K] parse_exponent_none [OF _ K] d3 by auto
  have "i \<noteq> []" using assms(1) by (auto simp: number_start_def)
  moreover have "hd i \<noteq> CHR ''-''"
    using assms(1) by (auto simp: number_start_def) (metis hd_in_set not_digit_chars(5))
  ultimately have start: "(if peek t p = CHR ''-'' then p + 1 else p) = p1"
    using d peek_hd [of p t s rest] by (auto simp: s p1_def)
  have len: "p1 + length i + length (point f) + length e = p + length s" by (simp add: s p1_def)
  have token: "take (length s) (drop p t) = s" using d by simp
  have guard: "failed \<or> \<not> f64_eq v v \<or> f64_less max_finite v \<or> f64_less v min_finite \<longleftrightarrow> failed \<or> \<not> f64_is_finite v"
    for failed v using finite_guard [of v] by blast
  show ?thesis
    unfolding parseNumber_def start Let_def [of "if _ then _ else _"] guard
    using i [of p] fr ex by (simp add: len token)
qed

lemma parses_number:
  assumes "number_start i" and "\<forall>c \<in> set f. is_digit c" and "e = [] \<or> (\<exists>x. e = exponent_text x)"
    and "s = (if neg then ''-'' else []) @ i @ point f @ e"
    and "stream_to_double s = (v, False)" "f64_is_finite v"
  shows "parses parseNumber s v ends_number"
  unfolding parses_def using parseNumber_run [OF assms(1-4)] assms(5,6) by simp

text \<open>Both styles of \<open>format_g\<close> have the shape of a JSON number.\<close>

lemma format_g_shape:
  assumes "0 < D"
  shows "\<exists>i f e. format_g p D x = i @ point f @ e \<and> number_start i \<and> (\<forall>c \<in> set f. is_digit c)
    \<and> (e = [] \<or> (\<exists>x. e = exponent_text x))"
proof -
  define ds where "ds = nat_to_string D"
  have ds: "\<forall>c \<in> set ds. is_digit c" "ds \<noteq> []" "hd ds \<noteq> CHR ''0''"
    using nat_to_string_digits nat_to_string_hd [OF assms] by (auto simp: ds_def)
  have start: "number_start (take (Suc n) ds)" for n
    using ds in_set_takeD [of _ "Suc n" ds] by (cases ds) (auto simp: number_start_def)
  have frac: "\<forall>c \<in> set (strip_zeros (drop n ds)). is_digit c" for n
    by (meson ds(1) in_set_dropD strip_zeros_digits)
  show ?thesis
  proof (cases "x < - 4 \<or> int p \<le> x")
    case True
    then show ?thesis using start [of 0] frac [of 1]
      by (intro exI [of _ "take 1 ds"] exI [of _ "strip_zeros (drop 1 ds)"] exI [of _ "exponent_text x"])
         (auto simp: format_g_def ds_def Let_def)
  next
    case False
    show ?thesis
    proof (cases "x < 0")
      case True
      with False frac [of 0] show ?thesis
        by (intro exI [of _ "''0''"] exI [of _ "replicate (nat (- x - 1)) (CHR ''0'') @ strip_zeros ds"] exI [of _ "[]"])
           (auto simp: format_g_def ds_def Let_def number_start_def is_digit_def)
    next
      case nonneg: False
      with False start [of "nat x"] frac [of "nat x + 1"] show ?thesis
        by (intro exI [of _ "take (nat x + 1) ds"] exI [of _ "strip_zeros (drop (nat x + 1) ds)"] exI [of _ "[]"])
           (auto simp: format_g_def ds_def Let_def)
    qed
  qed
qed

lemma number_start_hd: "number_start i \<Longrightarrow> i @ u \<noteq> [] \<and> hd (i @ u) \<noteq> CHR ''-''"
proof -
  assume i: "number_start i"
  have "i \<noteq> [] \<and> is_digit (hd i)"
    using i hd_in_set [of i] by (auto simp: number_start_def is_digit_def)
  then show ?thesis by (cases i) auto
qed

lemma magnitude_to_double_le: "magnitude_to_double s \<le> f64_inf"
  by (simp add: magnitude_to_double_def round_mag_def Let_def split: prod.split)

lemma stream_to_double_signed:
  assumes "u \<noteq> [] \<and> hd u \<noteq> CHR ''-''" and "magnitude_to_double u = n" and "n \<noteq> f64_inf"
  shows "stream_to_double ((if neg then ''-'' else []) @ u) = (f64_make (if neg then 1 else 0) n, False)"
  using assms by (cases neg) (auto simp: stream_to_double_def Let_def)

definition number_ok :: "f64 \<Rightarrow> bool" where
  "number_ok v \<longleftrightarrow> f64_is_finite v \<and> f64_mag v \<noteq> max_double \<and> v \<noteq> 0x8000000000000000"

lemma f64_of_mag: "f64_make (if f64_sign v = 1 then 1 else 0) (f64_mag v) = v"
  using f64_make_parts [of v] f64_sign_le [of v] by (cases "f64_sign v") auto

lemma f64_make_mag: "n < 2 ^ 63 \<Longrightarrow> f64_mag (f64_make (if neg then 1 else 0) n) = n"
  using f64_make_sign_mag(2) [of "if neg then 1 else 0" n] by simp

lemma finite_mag: "f64_is_finite v \<Longrightarrow> f64_mag v < f64_inf"
  by (simp add: f64_is_finite_def)

text \<open>Integers.\<close>

lemma integral_text:
  assumes "number_ok v" and "f64_is_integral v"
  shows "\<exists>k. int_to_string (f64_truncated v) = (if f64_sign v = 1 then ''-'' else []) @ nat_to_string k
    \<and> magnitude_to_double (nat_to_string k) = f64_mag v"
proof -
  obtain a b where ab: "mag_ratio 52 (- 1074) (f64_mag v) = (a, b)" by fastforce
  note r = mag_ratio_real [OF ab]
  define k where "k = a div b"
  have "b dvd a" using assms(2) ab by (simp add: f64_is_integral_def)
  then have m: "mag_real 52 (- 1074) (f64_mag v) = real k"
    using r by (simp add: k_def real_of_nat_div)
  have trunc: "f64_truncated v = (if f64_sign v = 0 then int k else - int k)"
    by (simp add: f64_truncated_def ab k_def)
  have "f64_mag v = 0 \<Longrightarrow> f64_sign v = 0"
  proof (rule ccontr)
    assume "f64_mag v = 0" "f64_sign v \<noteq> 0"
    then have "v = f64_make 1 0" using f64_of_mag [of v] f64_sign_le [of v] by (cases "f64_sign v") auto
    then show False using assms(1) by (simp add: number_ok_def f64_make_def)
  qed
  then have "f64_sign v = 1 \<Longrightarrow> 0 < k"
    using mag_real_pos [of "f64_mag v" 52 "- 1074"] m by (cases k) auto
  then have "int_to_string (f64_truncated v) = (if f64_sign v = 1 then ''-'' else []) @ nat_to_string k"
    using f64_sign_le [of v] by (cases "f64_sign v") (auto simp: trunc int_to_string_def)
  with magnitude_to_double_nat [OF finite_mag m] assms(1) show ?thesis by (auto simp: number_ok_def)
qed

lemma number_start_nat: "number_start (nat_to_string k)"
  using nat_to_string_hd [of k] nat_to_string_digits [of _ k]
  by (cases "k = 0") (auto simp: number_start_def nat_to_string.simps [of 0] digit_char_zero)

lemma formatNumber_parses:
  assumes "number_ok v" and "formatNumber v = Inr s"
  shows "parses parseNumber s v ends_number"
proof -
  have fin: "f64_is_finite v" and n: "f64_mag v < f64_inf"
    using assms(1) by (auto simp: number_ok_def finite_mag)
  let ?neg = "f64_sign v = 1"
  have read: "parses parseNumber ((if ?neg then ''-'' else []) @ i @ point f @ e) v ends_number"
    if "number_start i" "\<forall>c \<in> set f. is_digit c" "e = [] \<or> (\<exists>x. e = exponent_text x)"
      and "magnitude_to_double (i @ point f @ e) = f64_mag v" for i f e
    using stream_to_double_signed [OF number_start_hd [OF that(1)] that(4), of ?neg] n fin f64_of_mag [of v]
    by (intro parses_number [OF that(1-3) refl]) auto
  have guard: "\<not> (\<not> f64_eq v v \<or> f64_less max_finite v \<or> f64_less v min_finite)"
    using finite_guard [of v] fin by blast
  show ?thesis
  proof (cases "f64_is_integral v \<and> f64_le 0xC340000000000000 v \<and> f64_le v 0x4340000000000000")
    case True
    then have "s = int_to_string (f64_truncated v)" using assms(2) unfolding formatNumber_def if_not_P [OF guard] by simp
    with integral_text [OF assms(1)] True obtain k where
      k: "s = (if ?neg then ''-'' else []) @ nat_to_string k" "magnitude_to_double (nat_to_string k) = f64_mag v" by auto
    from read [OF number_start_nat, of "[]" "[]"] k show ?thesis by (simp add: point_def)
  next
    case False
    have pos: "0 < f64_mag v"
    proof (rule ccontr)
      assume "\<not> 0 < f64_mag v"
      then have "f64_mag v = 0" by simp
      moreover have "f64_mag 0xC340000000000000 = 0x4340000000000000" "f64_sign 0xC340000000000000 = 1"
        "f64_mag 0x4340000000000000 = 0x4340000000000000" "f64_sign 0x4340000000000000 = 0"
        by (simp_all add: f64_mag_def f64_sign_def)
      ultimately have "f64_is_integral v \<and> f64_le 0xC340000000000000 v \<and> f64_le v 0x4340000000000000"
        by (simp add: f64_is_integral_def mag_ratio_def mag_split_def f64_le_def f64_is_nan_def f64_key_def)
      with False show False by simp
    qed
    obtain a b where ab: "mag_ratio 52 (- 1074) (f64_mag v) = (a, b)" by fastforce
    note r = mag_ratio_real [OF ab]
    have a: "0 < a" using mag_real_pos [OF pos, of 52 "- 1074"] r by (cases a) auto
    have shape: "\<exists>i f e. double_to_text p v = (if ?neg then ''-'' else []) @ i @ point f @ e \<and> number_start i
        \<and> (\<forall>c \<in> set f. is_digit c) \<and> (e = [] \<or> (\<exists>x. e = exponent_text x))
        \<and> (p = 17 \<longrightarrow> magnitude_to_double (i @ point f @ e) = f64_mag v)" if "0 < p" for p
    proof -
      obtain D x where Dx: "round_digits p a b = (D, x)" by fastforce
      have "10 ^ (p - 1) \<le> D" using round_digits_close(1) [OF a r(1) that Dx] .
      then have "0 < D" by (rule less_le_trans [rotated]) simp
      from format_g_shape [OF this, of p x] obtain i f e where
        g: "format_g p D x = i @ point f @ e" "number_start i" "\<forall>c \<in> set f. is_digit c"
          "e = [] \<or> (\<exists>x. e = exponent_text x)" by blast
      moreover have "double_to_text p v = (if ?neg then ''-'' else []) @ format_g p D x"
        using pos ab Dx f64_sign_le [of v] by (cases "f64_sign v") (auto simp: double_to_text_def)
      moreover have "p = 17 \<longrightarrow> magnitude_to_double (format_g p D x) = f64_mag v"
        using format_g_17 [OF pos n ab, of D x] Dx by blast
      ultimately show ?thesis by metis
    qed
    show ?thesis
    proof (cases "f64_eq (fst (stream_to_double (double_to_text 15 v))) v")
      case True
      then have s: "s = double_to_text 15 v"
        using assms(2) unfolding formatNumber_def if_not_P [OF guard] if_not_P [OF False] Let_def by simp
      from shape [of 15] obtain i f e where
        g: "s = (if ?neg then ''-'' else []) @ i @ point f @ e" "number_start i" "\<forall>c \<in> set f. is_digit c"
          "e = [] \<or> (\<exists>x. e = exponent_text x)" unfolding s by auto
      define m where "m = magnitude_to_double (i @ point f @ e)"
      have hd: "i @ point f @ e \<noteq> [] \<and> hd (i @ point f @ e) \<noteq> CHR ''-''" using number_start_hd [OF g(2)] .
      have "stream_to_double s = (if m = f64_inf then (f64_make (if ?neg then 1 else 0) max_double, True)
          else (f64_make (if ?neg then 1 else 0) m, False))"
        using hd unfolding g(1) m_def by (cases ?neg) (auto simp: stream_to_double_def Let_def)
      moreover have "f64_eq w v \<Longrightarrow> f64_mag w = f64_mag v" for w
        using pos by (auto simp: f64_eq_def f64_key_def split: if_splits)
      ultimately have fm: "f64_mag (if m = f64_inf then f64_make (if ?neg then 1 else 0) max_double
          else f64_make (if ?neg then 1 else 0) m) = f64_mag v"
        using True unfolding s [symmetric] by (auto split: if_splits)
      have "m \<noteq> f64_inf"
      proof
        assume "m = f64_inf"
        then have "f64_mag (f64_make (if ?neg then 1 else 0) max_double) = f64_mag v" using fm by simp
        then have "max_double = f64_mag v" using f64_make_mag [of max_double ?neg] by (simp add: max_double_def)
        with assms(1) show False by (simp add: number_ok_def)
      qed
      moreover have "m < 2 ^ 63"
        using magnitude_to_double_le [of "i @ point f @ e"] by (simp add: m_def)
      ultimately have "m = f64_mag v" using fm f64_make_mag [of m ?neg] by simp
      then show ?thesis unfolding g(1) by (intro read g(2-4)) (simp add: m_def)
    next
      case other: False
      then have s: "s = double_to_text 17 v"
        using assms(2) unfolding formatNumber_def if_not_P [OF guard] if_not_P [OF False] Let_def by simp
      from shape [of 17] obtain i f e where
        g: "s = (if ?neg then ''-'' else []) @ i @ point f @ e" "number_start i" "\<forall>c \<in> set f. is_digit c"
          "e = [] \<or> (\<exists>x. e = exponent_text x)" "magnitude_to_double (i @ point f @ e) = f64_mag v"
        unfolding s by auto
      then show ?thesis using read by simp
    qed
  qed
qed

subsection \<open>Scalars\<close>

lemma parseNumber_first: "parseNumber t p = Parsed x q \<Longrightarrow> peek t p = CHR ''-'' \<or> is_digit (peek t p)"
  by (auto simp: parseNumber_Parsed parse_integer_part_def is_digit_def split: if_splits)

lemma formatNumber_first:
  assumes "number_ok v" and "formatNumber v = Inr s"
  shows "s \<noteq> []" "hd s = CHR ''-'' \<or> is_digit (hd s)"
proof -
  have "parseNumber s 0 = Parsed v (0 + length s)"
    by (rule parsesD [OF formatNumber_parses [OF assms], of _ _ "[]"]) (simp_all add: ends_number_def)
  from parseNumber_first [OF this] show "s \<noteq> []" "hd s = CHR ''-'' \<or> is_digit (hd s)"
    by (cases s, auto simp: peek_def is_digit_def)+
qed

lemma parse_literal_run:
  "drop p t = cs @ rest \<Longrightarrow> parse_literal_loop t st l cs p = Parsed () (p + length cs)"
proof (induction cs arbitrary: p)
  case (Cons c cs)
  then have d: "drop p t = c # (cs @ rest)" by simp
  from Cons.IH [OF drop_Cons_at(4) [OF d]] drop_Cons_at(1,2) [OF d] show ?case by simp
qed simp

definition scalar_text :: "json_value \<Rightarrow> string \<Rightarrow> bool" where
  "scalar_text v s \<longleftrightarrow> (case v of
       JsonNull \<Rightarrow> s = ''null''
     | JsonBoolean b \<Rightarrow> s = (if b then ''true'' else ''false'')
     | JsonNumber x \<Rightarrow> number_ok x \<and> formatNumber x = Inr s
     | JsonString r \<Rightarrow> s = json_string_text r
     | JsonObject _ \<Rightarrow> False)"

lemma scalar_text_first:
  assumes "scalar_text v s"
  shows "s \<noteq> []" "hd s \<noteq> CHR ''{''" "\<not> is_space (hd s)"
  using assms formatNumber_first [of _ s]
  by (cases v; auto simp: scalar_text_def json_string_text_def is_space_def is_digit_def split: if_splits)+

lemma parses_scalar:
  assumes "scalar_text v s"
  shows "parses parse_scalar s v ends_number"
  unfolding parses_def
proof (intro allI impI)
  fix t p rest assume d: "drop p t = s @ rest" and K: "ends_number rest"
  note first = peek_hd [OF d scalar_text_first(1) [OF assms]]
  show "parse_scalar t p = Parsed v (p + length s)"
  proof (cases v)
    case JsonNull
    then have s: "s = ''null''" using assms by (simp add: scalar_text_def)
    with first JsonNull show ?thesis
      using parse_literal_run [OF d, of p "''null''"] by (simp add: parse_scalar_def parseLiteral_def)
  next
    case (JsonBoolean b)
    then have s: "s = (if b then ''true'' else ''false'')" using assms by (simp add: scalar_text_def)
    with first JsonBoolean show ?thesis
      using parse_literal_run [OF d, of p s]
      by (cases b) (simp_all add: parse_scalar_def parseKeyword_def parseLiteral_def)
  next
    case (JsonNumber x)
    then have x: "number_ok x" "formatNumber x = Inr s" using assms by (simp_all add: scalar_text_def)
    have "c \<noteq> CHR 0x22 \<and> c \<noteq> CHR ''['' \<and> c \<noteq> CHR ''t'' \<and> c \<noteq> CHR ''f'' \<and> c \<noteq> CHR ''n''"
      if "c = CHR ''-'' \<or> is_digit c" for c using that by (auto simp: is_digit_def)
    with formatNumber_first [OF x] first parsesD [OF formatNumber_parses [OF x] d K] JsonNumber
    show ?thesis by (simp add: parse_scalar_def)
  next
    case (JsonString r)
    then have s: "s = json_string_text r" using assms by (simp add: scalar_text_def)
    then have "peek t p = CHR 0x22" using first by (simp add: json_string_text_def)
    with parsesD [OF parses_string [of r] d [unfolded s]] s JsonString show ?thesis
      by (simp add: parse_scalar_def)
  qed (use assms in \<open>simp add: scalar_text_def\<close>)
qed

subsection \<open>Objects\<close>

lemma serialize_append:
  "serializeValue v out = res_bind (serializeValue v []) (\<lambda>s. Inr (out @ s))"
  "serializeMembers b ms out = res_bind (serializeMembers b ms []) (\<lambda>s. Inr (out @ s))"
proof -
  have "\<forall>o1 o2. serializeValue v (o1 @ o2) = res_bind (serializeValue v o2) (\<lambda>s. Inr (o1 @ s))" for v
  proof (induction v)
    case (JsonObject ms)
    have "serializeMembers b ms (o1 @ o2) = res_bind (serializeMembers b ms o2) (\<lambda>s. Inr (o1 @ s))" for b o1 o2
      using JsonObject
    proof (induction ms arbitrary: b o2)
      case (Cons m ms)
      obtain name v where m: "m = (name, v)" by fastforce
      have v: "serializeValue v (o1 @ o2) = res_bind (serializeValue v o2) (\<lambda>s. Inr (o1 @ s))" for o2
        using Cons.prems [of m v] m by simp
      have "res_bind (serializeValue v (o1 @ o2)) (serializeMembers False ms)
          = res_bind (res_bind (serializeValue v o2) (serializeMembers False ms)) (\<lambda>s. Inr (o1 @ s))" for o2
      proof (cases "serializeValue v o2")
        case (Inr x)
        have "serializeMembers False ms (o1 @ x) = res_bind (serializeMembers False ms x) (\<lambda>s. Inr (o1 @ s))"
          by (rule Cons.IH) (rule Cons.prems, auto)
        with Inr v show ?thesis by simp
      qed (simp add: v)
      then show ?case by (simp add: m Let_def appendEscaped_eq)
    qed simp
    then have *: "serializeMembers True ms (o1 @ o2) = res_bind (serializeMembers True ms o2) (\<lambda>s. Inr (o1 @ s))" for o1 o2 .
    show ?case
    proof (intro allI)
      fix o1 o2
      show "serializeValue (JsonObject ms) (o1 @ o2) = res_bind (serializeValue (JsonObject ms) o2) (\<lambda>s. Inr (o1 @ s))"
        using * [of o1 "o2 @ ''{''"] by (cases "serializeMembers True ms (o2 @ ''{'')") simp_all
    qed
  next
    case (JsonNumber x)
    then show ?case by (cases "formatNumber x") auto
  qed (simp_all add: appendEscaped_eq)
  note value_case = this
  from value_case [rule_format, of v out "[]"]
  show "serializeValue v out = res_bind (serializeValue v []) (\<lambda>s. Inr (out @ s))" by simp
  show "serializeMembers b ms out = res_bind (serializeMembers b ms []) (\<lambda>s. Inr (out @ s))"
  proof (induction ms arbitrary: b out)
    case (Cons m ms)
    obtain name v where m: "m = (name, v)" by fastforce
    define pre where "pre = (if b then [] else '','') @ json_string_text name @ '':''"
    have split: "serializeMembers b (m # ms) o1 = res_bind (serializeValue v (o1 @ pre)) (serializeMembers False ms)" for o1
      by (simp add: m Let_def appendEscaped_eq pre_def json_string_text_def)
    show ?case
    proof (cases "serializeValue v pre")
      case (Inr x)
      then have "serializeValue v (out @ pre) = Inr (out @ x)" using value_case [rule_format, of v out pre] by simp
      then show ?thesis unfolding split [of out] split [of "[]"]
        using Inr Cons.IH [of False "out @ x"] Cons.IH [of False x]
        by (cases "serializeMembers False ms []") simp_all
    next
      case (Inl e)
      then show ?thesis unfolding split [of out] split [of "[]"] using value_case [rule_format, of v out pre] by simp
    qed
  qed simp
qed

lemma serialize_Cons:
  "serializeMembers b ((name, v) # ms) [] =
     res_bind (serializeValue v []) (\<lambda>sv. res_bind (serializeMembers False ms []) (\<lambda>sm.
       Inr ((if b then [] else '','') @ json_string_text name @ '':'' @ sv @ sm)))"
proof -
  define pre where "pre = (if b then [] else '','') @ json_string_text name @ '':''"
  have "serializeMembers b ((name, v) # ms) [] = res_bind (serializeValue v pre) (serializeMembers False ms)"
    by (simp add: Let_def appendEscaped_eq pre_def json_string_text_def)
  also have "\<dots> = res_bind (serializeValue v []) (\<lambda>sv. serializeMembers False ms (pre @ sv))"
    by (subst serialize_append(1)) (cases "serializeValue v []"; simp)
  also have "\<dots> = res_bind (serializeValue v []) (\<lambda>sv. res_bind (serializeMembers False ms []) (\<lambda>sm. Inr (pre @ sv @ sm)))"
    by (subst serialize_append(2)) simp
  finally show ?thesis by (simp add: pre_def)
qed

lemma serialize_object: "serializeValue (JsonObject ms) [] = res_bind (serializeMembers True ms []) (\<lambda>s. Inr (''{'' @ s @ ''}''))"
  using serialize_append(2) [of True ms "''{''"] by (cases "serializeMembers True ms []") simp_all

lemma serialize_scalar:
  assumes "serializeValue v [] = Inr s" and "json_all number_ok v" and "\<And>ms. v \<noteq> JsonObject ms"
  shows "scalar_text v s"
  using assms by (cases v) (auto simp: scalar_text_def res_bind_Inr_iff appendEscaped_eq json_string_text_def)

lemma serialize_first:
  assumes "serializeValue v [] = Inr s" and "json_all number_ok v"
  shows "s \<noteq> [] \<and> \<not> is_space (hd s)"
proof (cases "\<exists>ms. v = JsonObject ms")
  case True
  then show ?thesis using assms(1) by (auto simp: serialize_object res_bind_Inr_iff is_space_def simp del: serializeValue.simps)
next
  case False
  then show ?thesis using scalar_text_first [OF serialize_scalar [OF assms]] by blast
qed

lemma parse_member_name_run:
  assumes d: "drop p t = json_string_text name @ '':'' @ s @ rest" and s: "s \<noteq> []" "\<not> is_space (hd s)"
    and new: "name \<notin> fst ` set ms"
  shows "parse_member_name t ms p = Parsed name (p + length (json_string_text name) + 1)"
proof -
  have q: "drop p t = CHR 0x22 # (concat (map escape_char name) @ CHR 0x22 # '':'' @ s @ rest)"
    using d by (simp add: json_string_text_def)
  have ws: "skipWhitespace t p = p" using skipWhitespace_none [OF q] by (simp add: is_space_def)
  have c: "drop (p + length (json_string_text name)) t = CHR '':'' # (s @ rest)"
    using drop_append_at [OF d] by simp
  have ws2: "skipWhitespace t (p + length (json_string_text name)) = p + length (json_string_text name)"
    using skipWhitespace_none [OF c] by (simp add: is_space_def)
  have "drop (Suc (p + length (json_string_text name))) t = hd s # (tl s @ rest)"
    using drop_Cons_at(4) [OF c] s(1) by (cases s) auto
  then have ws3: "skipWhitespace t (Suc (p + length (json_string_text name))) = Suc (p + length (json_string_text name))"
    using skipWhitespace_none s(2) by blast
  have "map_of ms name = None" using new by (simp add: map_of_eq_None_iff)
  with parsesD [OF parses_string d] drop_Cons_at(3) [OF q] drop_Cons_at(1,2) [OF c] ws ws2 ws3 show ?thesis
    by (simp add: parse_member_name_def expect_def)
qed

lemma parse_separator_run:
  "drop p t = CHR '','' # r \<Longrightarrow> parse_separator t p = Parsed True (p + 1)"
  "drop p t = CHR ''}'' # r \<Longrightarrow> parse_separator t p = Parsed False (p + 1)"
  using skipWhitespace_none [of p t "CHR '',''" r] skipWhitespace_none [of p t "CHR ''}''" r]
  by (auto simp: parse_separator_def is_space_def dest: drop_Cons_at(3))

lemma parses_more_fuel:
  "parses (parseValue n d) s v K \<Longrightarrow> n \<le> m \<Longrightarrow> parses (parseValue m d) s v K"
  "parses (\<lambda>t. parseMembers n d t ms) s v K \<Longrightarrow> n \<le> m \<Longrightarrow> parses (\<lambda>t. parseMembers m d t ms) s v K"
  unfolding parses_def by (metis parser_more_fuel(1) parsed.distinct(3), metis parser_more_fuel(3) parsed.distinct(3))

lemma ends_number_delimiter: "ends_number ('','' @ r)" "ends_number (''}'' @ r)"
  by (simp_all add: ends_number_def is_digit_def)

lemma parses_members:
  assumes "\<And>m s. m \<in> set ms \<Longrightarrow> serializeValue (snd m) [] = Inr s \<Longrightarrow> \<exists>n. parses (parseValue n d) s (snd m) ends_number"
    and "ms \<noteq> []" and "serializeMembers True ms [] = Inr s" and "sorted_keys (map fst (acc @ ms))"
    and "\<forall>m \<in> set ms. json_all number_ok (snd m)"
  shows "\<exists>n. parses (\<lambda>t. parseMembers n d t acc) (s @ ''}'') (JsonObject (acc @ ms)) (\<lambda>_. True)"
  using assms
proof (induction ms arbitrary: acc s)
  case (Cons m ms)
  obtain name v where m: "m = (name, v)" by fastforce
  from Cons.prems(3) obtain sv sm where sv: "serializeValue v [] = Inr sv"
    and sm: "serializeMembers False ms [] = Inr sm" and s: "s = json_string_text name @ '':'' @ sv @ sm"
    unfolding m serialize_Cons by (auto simp: res_bind_Inr_iff)
  from Cons.prems(1) [of m sv] sv m obtain n1 where n1: "parses (parseValue n1 d) sv v ends_number" by auto
  have first: "sv \<noteq> []" "\<not> is_space (hd sv)" using serialize_first [OF sv] Cons.prems(5) m by auto
  have less: "\<forall>k \<in> fst ` set acc. string_less k name"
    using Cons.prems(4) m by (induction acc) (auto simp: sorted_keys_Cons)
  then have new: "name \<notin> fst ` set acc" by auto
  note ins = insert_member_last [OF less, of v]
  show ?case
  proof (cases "ms = []")
    case True
    then have sm: "sm = []" using sm by simp
    have "parses (\<lambda>t. parseMembers (Suc n1) d t acc) (s @ ''}'') (JsonObject (acc @ [m])) (\<lambda>_. True)"
      unfolding parses_def
    proof (intro allI impI)
      fix t p rest assume "drop p t = (s @ ''}'') @ rest"
      then have d: "drop p t = json_string_text name @ '':'' @ sv @ ''}'' @ rest" by (simp add: s sm)
      have d2: "drop (p + length (json_string_text name) + 1) t = sv @ ''}'' @ rest"
        using drop_append_at [of p t "json_string_text name @ '':''"] d by simp
      have d3: "drop (p + length (json_string_text name) + 1 + length sv) t = CHR ''}'' # rest"
        using drop_append_at [OF d2] by simp
      show "parseMembers (Suc n1) d t acc p = Parsed (JsonObject (acc @ [m])) (p + length (s @ ''}''))"
        using parse_member_name_run [OF d first new] parsesD [OF n1 d2 ends_number_delimiter(2)]
          parse_separator_run(2) [OF d3] by (simp add: ins m s sm)
    qed
    then show ?thesis using True by blast
  next
    case False
    obtain m' ms' where ms: "ms = m' # ms'" using False by (cases ms) auto
    obtain name' w where m': "m' = (name', w)" by fastforce
    obtain sm' where sm': "serializeMembers True ms [] = Inr sm'" "sm = '','' @ sm'"
      using sm unfolding ms m' serialize_Cons by (auto simp: res_bind_Inr_iff)
    have "sorted_keys (map fst ((acc @ [m]) @ ms))" using Cons.prems(4) by simp
    from Cons.IH [OF _ False sm'(1) this] Cons.prems(1,5) obtain n2 where
      n2: "parses (\<lambda>t. parseMembers n2 d t (acc @ [m])) (sm' @ ''}'') (JsonObject ((acc @ [m]) @ ms)) (\<lambda>_. True)"
      by auto
    define n where "n = max n1 n2"
    have v: "parses (parseValue n d) sv v ends_number" using n1 parses_more_fuel(1) by (simp add: n_def)
    have r: "parses (\<lambda>t. parseMembers n d t (acc @ [m])) (sm' @ ''}'') (JsonObject ((acc @ [m]) @ ms)) (\<lambda>_. True)"
      using n2 parses_more_fuel(2) by (simp add: n_def)
    have "parses (\<lambda>t. parseMembers (Suc n) d t acc) (s @ ''}'') (JsonObject (acc @ m # ms)) (\<lambda>_. True)"
      unfolding parses_def
    proof (intro allI impI)
      fix t p rest assume "drop p t = (s @ ''}'') @ rest"
      then have d: "drop p t = json_string_text name @ '':'' @ sv @ '','' @ (sm' @ ''}'') @ rest" by (simp add: s sm')
      have d2: "drop (p + length (json_string_text name) + 1) t = sv @ '','' @ (sm' @ ''}'') @ rest"
        using drop_append_at [of p t "json_string_text name @ '':''"] d by simp
      have d3: "drop (p + length (json_string_text name) + 1 + length sv) t = CHR '','' # ((sm' @ ''}'') @ rest)"
        using drop_append_at [OF d2] by simp
      show "parseMembers (Suc n) d t acc p = Parsed (JsonObject (acc @ m # ms)) (p + length (s @ ''}''))"
        using parse_member_name_run [OF d first new] parsesD [OF v d2 ends_number_delimiter(1)]
          parse_separator_run(1) [OF d3] parsesD [OF r drop_Cons_at(4) [OF d3]] by (simp add: ins m s sm')
    qed
    then show ?thesis by blast
  qed
qed simp

lemma parse_open_run:
  assumes "drop p t = ''{'' @ s @ rest" and "d < kMaxDepth" and "s \<noteq> []" "\<not> is_space (hd s)"
  shows "parse_open t d p = (if hd s = CHR ''}'' then Parsed True (p + 2) else Parsed False (p + 1))"
proof -
  have d: "drop p t = CHR ''{'' # (s @ rest)" using assms(1) by simp
  have d1: "drop (Suc p) t = hd s # (tl s @ rest)" using drop_Cons_at(4) [OF d] assms(3) by (cases s) auto
  have "skipWhitespace t (Suc p) = Suc p" using skipWhitespace_none [OF d1] assms(4) by blast
  then show ?thesis using drop_Cons_at(1,2) [OF d] drop_Cons_at(3) [OF d1] assms(2)
    by (simp add: parse_open_def expect_def Let_def)
qed

lemma parses_atom:
  assumes "serializeValue v [] = Inr s" and "json_all number_ok v" and "\<And>ms. v \<noteq> JsonObject ms"
  shows "\<exists>n. parses (parseValue n d) s v ends_number"
proof -
  note t = serialize_scalar [OF assms]
  have "parses (parseValue 1 d) s v ends_number"
    unfolding parses_def
  proof (intro allI impI)
    fix t' p rest assume d: "drop p t' = s @ rest" and K: "ends_number rest"
    have "peek t' p \<noteq> CHR ''{''" using peek_hd [OF d] scalar_text_first [OF t] by simp
    then show "parseValue 1 d t' p = Parsed v (p + length s)"
      using parsesD [OF parses_scalar [OF t] d K] by simp
  qed
  then show ?thesis by blast
qed

lemma parses_value:
  "serializeValue v [] = Inr s \<Longrightarrow> json_all number_ok v \<Longrightarrow> d + json_depth v \<le> kMaxDepth \<Longrightarrow>
   \<exists>n. parses (parseValue n d) s v ends_number"
proof (induction v arbitrary: s d)
  case (JsonObject ms)
  have d: "d < kMaxDepth" using JsonObject.prems(3) by simp
  from JsonObject.prems(1) obtain sm where sm: "serializeMembers True ms [] = Inr sm" and s: "s = ''{'' @ sm @ ''}''"
    by (auto simp: serialize_object res_bind_Inr_iff simp del: serializeValue.simps)
  show ?case
  proof (cases "ms = []")
    case True
    then have s: "s = ''{}''" using s sm by simp
    have "parses (parseValue 2 d) s (JsonObject ms) ends_number"
      unfolding parses_def
    proof (intro allI impI)
      fix t p rest assume "drop p t = s @ rest"
      then have dr: "drop p t = ''{'' @ ''}'' @ rest" by (simp add: s)
      from parse_open_run [OF dr d] peek_hd [OF dr]
      show "parseValue 2 d t p = Parsed (JsonObject ms) (p + length s)"
        using True by (simp add: numeral_eq_Suc s is_space_def)
    qed
    then show ?thesis by blast
  next
    case False
    have members: "\<forall>m \<in> set ms. json_all number_ok (snd m)" "sorted_keys (map fst ([] @ ms))"
      using JsonObject.prems(2) by simp_all
    have depth: "\<forall>m \<in> set ms. d + 1 + json_depth (snd m) \<le> kMaxDepth"
    proof -
      obtain k where k: "kMaxDepth = Suc d + k" using d less_iff_Suc_add by auto
      then have "\<forall>m \<in> set ms. json_depth (snd m) \<le> k"
        using JsonObject.prems(3) unfolding json_depth_members [symmetric] by simp
      then show ?thesis by (auto simp: k)
    qed
    have "\<exists>n. parses (parseValue n (d + 1)) sv (snd m) ends_number"
      if "m \<in> set ms" "serializeValue (snd m) [] = Inr sv" for m sv
      using that members(1) depth by (intro JsonObject.IH [of m "snd m"]) (auto simp: snds.simps)
    from parses_members [OF this False sm members(2,1)] obtain n where
      n: "parses (\<lambda>t. parseMembers n (d + 1) t []) (sm @ ''}'') (JsonObject ms) (\<lambda>_. True)" by auto
    obtain name w ms' where ms: "ms = (name, w) # ms'" using False by (cases ms) auto
    have first: "sm \<noteq> [] \<and> hd sm = CHR 0x22"
      using sm unfolding ms serialize_Cons by (auto simp: res_bind_Inr_iff json_string_text_def)
    have "parses (parseValue (Suc (Suc n)) d) s (JsonObject ms) ends_number"
      unfolding parses_def
    proof (intro allI impI)
      fix t p rest assume "drop p t = s @ rest"
      then have dr: "drop p t = ''{'' @ sm @ ''}'' @ rest" by (simp add: s)
      then have dr': "drop (p + 1) t = (sm @ ''}'') @ rest" using drop_Cons_at(4) [of p t] by simp
      have "parse_open t d p = Parsed False (p + 1)"
        using parse_open_run [OF dr d] first by (simp add: is_space_def)
      with parsesD [OF n dr'] peek_hd [OF dr]
      show "parseValue (Suc (Suc n)) d t p = Parsed (JsonObject ms) (p + length s)"
        by (simp add: s)
    qed
    then show ?thesis by blast
  qed
qed (rule parses_atom; simp)+

lemma parse_is_object:
  "parseObject n d t p = Parsed v q \<Longrightarrow> \<exists>ms. v = JsonObject ms"
  "parseMembers n d t acc p = Parsed v q \<Longrightarrow> \<exists>ms. v = JsonObject ms"
proof -
  show members: "\<exists>ms. v = JsonObject ms" if "parseMembers n d t acc p = Parsed v q" for n d t acc p v q
    using that
  proof (induction n arbitrary: acc p)
    case (Suc n)
    then show ?case by (auto simp: parse_bind_Parsed_iff split: if_splits)
  qed simp
  show "parseObject n d t p = Parsed v q \<Longrightarrow> \<exists>ms. v = JsonObject ms"
    by (cases n) (auto simp: parse_bind_Parsed_iff dest: members split: if_splits)
qed

text \<open>The serializer refuses non-finite numbers and nothing else.\<close>

fun json_numbers :: "json_value \<Rightarrow> f64 list" where
  "json_numbers (JsonNumber x) = [x]"
| "json_numbers (JsonObject ms) = concat (map (\<lambda>m. json_numbers (snd m)) ms)"
| "json_numbers _ = []"

lemma formatNumber_refuses:
  "formatNumber v = Inl e \<longleftrightarrow> \<not> f64_is_finite v \<and> e = ''JSON cannot represent a non-finite number''"
  using finite_guard [of v] by (auto simp: formatNumber_def Let_def)

lemma serialize_refuses:
  "(\<exists>s. serializeValue v [] = Inr s) \<longleftrightarrow> (\<forall>x \<in> set (json_numbers v). f64_is_finite x)"
proof (induction v)
  case (JsonNumber x)
  then show ?case using formatNumber_refuses [of x] by (cases "formatNumber x") (auto simp: res_bind_Inr_iff)
next
  case (JsonObject ms)
  have "(\<exists>s. serializeMembers b ms [] = Inr s) \<longleftrightarrow> (\<forall>m \<in> set ms. \<forall>x \<in> set (json_numbers (snd m)). f64_is_finite x)" for b
    using JsonObject
  proof (induction ms arbitrary: b)
    case (Cons m ms)
    obtain name v where m: "m = (name, v)" by fastforce
    have "(\<exists>s. serializeValue v [] = Inr s) \<longleftrightarrow> (\<forall>x \<in> set (json_numbers v). f64_is_finite x)"
      using Cons.prems [of m v] m by simp
    moreover have "(\<exists>s. serializeMembers False ms [] = Inr s)
        \<longleftrightarrow> (\<forall>m \<in> set ms. \<forall>x \<in> set (json_numbers (snd m)). f64_is_finite x)"
      by (rule Cons.IH) (rule Cons.prems, auto)
    ultimately show ?case unfolding m serialize_Cons res_bind_Inr_iff by auto
  qed simp
  then show ?case by (auto simp: serialize_object res_bind_Inr_iff simp del: serializeValue.simps)
qed simp_all

section \<open>Properties\<close>

lemma parseDocument_fuel: "parseDocument (parse_fuel t) t \<noteq> OutOfFuel"
  using parser_fuel(2) [of t "skipWhitespace t 0" "parse_fuel t" 0]
  by (auto simp: parseDocument_def Let_def parse_bind_OutOfFuel_iff parse_fuel_def)

text \<open>
  C10: the parser ends on every text. The fuel the model starts it with always suffices, so the
  answer is the one any larger fuel gives, and \<open>parseJsonObject\<close> never reports a lack of it.
\<close>

theorem parser_terminates:
  "parseDocument (parse_fuel t) t \<noteq> OutOfFuel \<and> parseDocument (parse_fuel t + k) t = parseDocument (parse_fuel t) t"
proof -
  have "parseObject (parse_fuel t + k) 0 t p = parseObject (parse_fuel t) 0 t p" for p
    by (rule parser_more_fuel(2)) (simp_all add: parser_fuel(2) parse_fuel_def)
  then have "parseDocument (parse_fuel t + k) t = parseDocument (parse_fuel t) t"
    unfolding parseDocument_def by (simp only:)
  then show ?thesis using parseDocument_fuel by simp
qed

text \<open>
  C9: an accepted text has at most 64 KiB and denotes an object with strictly increasing names
  in every object of it, only finite numbers, and at most 16 levels of nesting.
\<close>

theorem parse_delivers:
  assumes "parseJsonObject t = Inr v"
  shows "length t \<le> 65536 \<and> (\<exists>ms. v = JsonObject ms) \<and> json_all f64_is_finite v \<and> json_depth v \<le> 16"
proof -
  from assms have len: "length t \<le> 65536" and "\<exists>p. parseDocument (parse_fuel t) t = Parsed v p"
    by (auto simp: parseJsonObject_def kMaxInputBytes_def split: if_splits parsed.splits)
  then obtain p q where "parseObject (parse_fuel t) 0 t p = Parsed v q"
    by (auto simp: parseDocument_def Let_def parse_bind_Parsed_iff split: if_splits)
  from parser_delivers(2) [OF this] parse_is_object(1) [OF this] len show ?thesis
    by (simp add: kMaxDepth_def)
qed

lemma serialized_parses:
  assumes "serialize (JsonObject ms) = Inr s" and "json_all number_ok (JsonObject ms)"
    and "json_depth (JsonObject ms) \<le> 16" and "length s \<le> 65536"
  shows "parseJsonObject s = Inr (JsonObject ms)"
proof -
  have ser: "serializeValue (JsonObject ms) [] = Inr s" using assms(1) by (simp only: serialize_def)
  from parses_value [OF ser assms(2), of 0] assms(3) obtain n where
    n: "parses (parseValue n 0) s (JsonObject ms) ends_number" by (auto simp: kMaxDepth_def)
  obtain r where r: "s = CHR ''{'' # r"
    using ser by (auto simp: serialize_object res_bind_Inr_iff simp del: serializeValue.simps)
  have "parseValue n 0 s 0 = Parsed (JsonObject ms) (0 + length s)"
    by (rule parsesD [OF n, of _ _ "[]"]) (simp_all add: ends_number_def)
  then obtain k where k: "parseObject k 0 s 0 = Parsed (JsonObject ms) (length s)"
    by (cases n) (auto simp: r peek_def)
  have "parseObject (max k (parse_fuel s)) 0 s 0 = parseObject k 0 s 0"
    by (rule parser_more_fuel(2)) (simp_all add: k)
  moreover have "parseObject (max k (parse_fuel s)) 0 s 0 = parseObject (parse_fuel s) 0 s 0"
    by (rule parser_more_fuel(2)) (simp_all add: parser_fuel(2) parse_fuel_def)
  ultimately have o: "parseObject (parse_fuel s) 0 s 0 = Parsed (JsonObject ms) (length s)" using k by simp
  have "skipWhitespace s 0 = 0" using skipWhitespace_none [of 0 s "CHR ''{''" r] by (simp add: r is_space_def)
  moreover have "skipWhitespace s (length s) = length s" by (rule skipWhitespace_end) simp
  ultimately have "parseDocument (parse_fuel s) s = Parsed (JsonObject ms) (length s)"
    unfolding parseDocument_def Let_def using o by (simp add: r)
  then show ?thesis using assms(4) by (simp add: parseJsonObject_def kMaxInputBytes_def)
qed


text \<open>
  Serializing succeeds exactly when every number in the value is finite.
\<close>

lemma serialize_succeeds_iff:
  "(\<exists>s. serialize v = Inr s) \<longleftrightarrow> list_all f64_is_finite (json_numbers v)"
  unfolding serialize_def serialize_refuses by (simp add: list_all_iff)

section \<open>Witnesses\<close>

text \<open>The object \<open>{"a":{},"b":true}\<close> and its text.\<close>

definition sample_object :: "(string \<times> json_value) list" where
  "sample_object = [(''a'', JsonObject []), (''b'', JsonBoolean True)]"

definition sample_text :: string where
  "sample_text = ''{'' @ json_string_text ''a'' @ '':{},'' @ json_string_text ''b'' @ '':true}''"

lemma sample_serialized: "serialize (JsonObject sample_object) = Inr sample_text"
  by code_simp

lemma sample_parsed: "parseJsonObject sample_text = Inr (JsonObject sample_object)"
  by code_simp

theorem parse_delivers_witness: "json_depth (JsonObject sample_object) \<le> 16"
  using parse_delivers [OF sample_parsed] by blast


end
