(* ===== verification/FxJsonLimits.thy ===== *)
theory FxJsonLimits
  imports FxJsonRoundtrip
begin

text \<open>
  The one finite number the JSON codec loses. The serializer tries fifteen digits first and
  accepts them when reading them back gives the number again. For the largest double the
  fifteen digits round up beyond the range, the reading overflows, and an overflowing
  extraction stores the largest double: the comparison succeeds although the extraction failed.
\<close>

section \<open>Computing with large ratios\<close>

lemma rne_between:
  assumes "(2 * k - 1) * b < 2 * a" and "2 * a < (2 * k + 1) * b" and "0 < k"
  shows "rne a b = k"
proof -
  have b: "0 < b" using assms(2) by (rule contrapos_pp) simp
  obtain d where d: "k = Suc d" using assms(3) by (cases k) simp_all
  have "2 * k - 1 = 2 * d + 1" "2 * k + 1 = 2 * d + 3" by (simp_all add: d)
  note n = assms(1) [unfolded this(1)] assms(2) [unfolded this(2)]
  define v where "v = real a / real b"
  have a: "real a = v * real b" using b by (simp add: v_def)
  have "(2 * real d + 1) * real b < (2 * v) * real b" "(2 * v) * real b < (2 * real d + 3) * real b"
    using n [THEN of_nat_less_iff [where 'a = real, THEN iffD2]] a by (simp_all add: distrib_right)
  then have "2 * real d + 1 < 2 * v" "2 * v < 2 * real d + 3"
    using b by (simp_all only: mult_less_cancel_right_pos of_nat_0_less_iff)
  then have "\<bar>real a / real b - real k\<bar> < 1 / 2" unfolding v_def [symmetric] d of_nat_Suc by linarith
  from rne_real_close [OF this] rne_eq [OF b, of a] show ?thesis by simp
qed

lemma rne_lower: "k * b \<le> a \<Longrightarrow> 0 < b \<Longrightarrow> k \<le> rne a b"
proof -
  assume "k * b \<le> a" "0 < b"
  then have "k \<le> a div b" by (simp add: less_eq_div_iff_mult_less_eq)
  then show ?thesis by (simp add: rne_def Let_def)
qed

lemma bit_length_eq: "2 ^ k \<le> n \<Longrightarrow> n < 2 ^ Suc k \<Longrightarrow> bit_length n = Suc k"
proof -
  assume a: "2 ^ k \<le> n" "n < 2 ^ Suc k"
  have "0 < n" using a(1) by (rule less_le_trans [rotated]) simp
  note b = bit_length_bounds [OF this]
  have "(2::nat) ^ k < 2 ^ bit_length n" "(2::nat) ^ (bit_length n - 1) < 2 ^ Suc k" using a b by linarith+
  then have "k < bit_length n" "bit_length n - 1 < Suc k" by (simp_all only: power_strict_increasing_iff one_less_numeral_iff semiring_norm)
  then show ?thesis by simp
qed

lemma largest_ge: "1 * 10 ^ nat 308 \<le> ((2 ^ 53 - 1) * 2 ^ 971 :: nat)"
proof -
  have "10 ^ 308 \<le> ((2 ^ 53 - 1) * 2 ^ 971 :: nat)" by simp
  then show ?thesis by (simp only: nat_numeral mult_1)
qed

lemma largest_length: "length (nat_to_string ((2 ^ 53 - 1) * 2 ^ 971)) = 309"
proof -
  have *: "10 ^ 308 \<le> ((2 ^ 53 - 1) * 2 ^ 971 :: nat)" using largest_ge by (simp only: nat_numeral mult_1)
  have "((2 ^ 53 - 1) * 2 ^ 971 :: nat) < 2 ^ 53 * 2 ^ 971" by (rule mult_strict_right_mono) simp_all
  also have "\<dots> = 8 ^ 341 * 2" by (simp only: power_add [symmetric] power_mult [symmetric, of 2 3 341, simplified]) simp
  also have "\<dots> < 10 ^ Suc 308" by simp
  finally show ?thesis using nat_to_string_length [OF *] by (simp only: eval_nat_numeral)
qed

lemma largest_digits: "round_digits 15 ((2 ^ 53 - 1) * 2 ^ 971) 1 = (179769313486232, 308)"
proof -
  have "decimal_exponent ((2 ^ 53 - 1) * 2 ^ 971) 1 = 308"
    unfolding decimal_exponent_def largest_length Let_def using largest_ge by (simp only: nat_to_string.simps [of 1]) simp
  moreover have "rne ((2 ^ 53 - 1) * 2 ^ 971) (1 * 10 ^ nat 294) = 179769313486232"
    by (rule rne_between) simp_all
  ultimately show ?thesis by (simp add: round_digits_def)
qed

lemma overflow_length: "bit_length (179769313486232 * 10 ^ 294) = Suc 1024"
  by (rule bit_length_eq) simp_all

section \<open>The largest double\<close>

lemma digit_chars:
  "digit_char 0 = CHR ''0''" "digit_char (Suc 0) = CHR ''1''" "digit_char 1 = CHR ''1''"
  "digit_char 2 = CHR ''2''" "digit_char 3 = CHR ''3''" "digit_char 4 = CHR ''4''" "digit_char 5 = CHR ''5''"
  "digit_char 6 = CHR ''6''" "digit_char 7 = CHR ''7''" "digit_char 8 = CHR ''8''" "digit_char 9 = CHR ''9''"
  by (simp_all add: digit_char_def char_of_eq_iff)

definition largest_text :: string where
  "largest_text = ''1.79769313486232e+308''"

lemma largest_format: "format_g 15 179769313486232 308 = largest_text"
  by (simp add: format_g_def nat_to_string.simps digit_chars strip_zeros_def point_def exponent_text_def largest_text_def)

lemma largest_overflows: "magnitude_to_double largest_text = f64_inf"
proof -
  have p: "unsigned_parts largest_text = (179769313486232, 294)"
    by (simp add: unsigned_parts_def split_fraction_def decimal_value_def signed_decimal_def digit_value_def
        is_digit_def largest_text_def)
  define n :: nat where "n = 179769313486232 * 10 ^ 294"
  have "ilog2_ratio n 1 = 1024"
    unfolding ilog2_ratio_def n_def overflow_length Let_def by (simp add: bit_length.simps [of 1] del: One_nat_def)
  moreover have "0x10000000000000 \<le> rne n (1 * 2 ^ nat 972)" by (rule rne_lower) (simp_all add: n_def)
  moreover have "n \<noteq> 0" by (simp add: n_def)
  moreover have "decimal_ratio 179769313486232 294 = (n, 1)" by (simp add: decimal_ratio_def n_def)
  ultimately show ?thesis
    by (simp add: magnitude_to_double_def p round_mag_def scale_ratio_def)
qed

lemma largest_stream: "stream_to_double largest_text = (max_finite, True)"
  using largest_overflows
  by (simp add: stream_to_double_def largest_text_def Let_def f64_make_def max_double_def max_finite_def)

lemma largest_formatted: "formatNumber max_finite = Inr largest_text"
proof -
  have "mag_ratio 52 (- 1074) (f64_mag max_finite) = ((2 ^ 53 - 1) * 2 ^ 971, 1)"
    unfolding f64_mag_consts by (simp only: mag_ratio_def mag_split_def Let_def) simp
  then have t: "double_to_text 15 max_finite = largest_text"
    using largest_digits largest_format by (simp only: double_to_text_def f64_mag_consts) simp
  have "f64_is_finite max_finite" by (simp add: f64_is_finite_def f64_mag_consts)
  then have guard: "\<not> (\<not> f64_eq max_finite max_finite \<or> f64_less max_finite max_finite \<or> f64_less max_finite min_finite)"
    using finite_guard [of max_finite] by blast
  have "\<not> f64_le max_finite 0x4340000000000000"
    by (simp add: f64_le_def f64_key_def f64_mag_def f64_sign_def max_finite_def)
  then show ?thesis
    unfolding formatNumber_def if_not_P [OF guard] t largest_stream Let_def
    using guard by simp
qed

section \<open>Properties\<close>

text \<open>
  An object that holds the largest finite double is serialized without complaint, and the
  text is refused by the parser of the same codec.
\<close>

lemma largest_double_lost:
  "\<exists>s. serialize (JsonObject [(''x'', JsonNumber max_finite)]) = Inr s
     \<and> parseJsonObject s = Inl ''JSON error at byte 5: number out of range''"
proof -
  define S where "S = ''{'' @ json_string_text ''x'' @ '':'' @ largest_text @ ''}''"
  have ser: "serialize (JsonObject [(''x'', JsonNumber max_finite)]) = Inr S"
    unfolding serialize_def serialize_object serialize_Cons S_def
    by (simp add: largest_formatted)
  have d: "drop 0 S = ''{'' @ (json_string_text ''x'' @ '':'' @ largest_text @ ''}'') @ []" by (simp add: S_def)
  have opened: "parse_open S 0 0 = Parsed False 1"
    using parse_open_run [OF d] by (simp add: kMaxDepth_def json_string_text_def is_space_def)
  have d1: "drop 1 S = json_string_text ''x'' @ '':'' @ largest_text @ ''}''" by (simp add: S_def)
  have name: "parse_member_name S [] 1 = Parsed ''x'' 5"
    using parse_member_name_run [OF d1] by (simp add: largest_text_def is_space_def json_string_text_def escape_char_def)
  have d5: "drop 5 S = largest_text @ ''}''" by (simp add: S_def json_string_text_def escape_char_def)
  have "largest_text = ''1'' @ point ''79769313486232'' @ exponent_text 308"
    by (simp add: largest_text_def point_def exponent_text_def nat_to_string.simps digit_chars)
  then have num: "parseNumber S 5 = parse_fail 5 ''number out of range''"
    using largest_stream
    by (subst parseNumber_run [OF _ _ _ _ d5, where neg = False and i = "''1''" and f = "''79769313486232''" and e = "exponent_text 308"])
       (auto simp: number_start_def is_digit_def ends_number_def)
  have peek5: "peek S 5 = CHR ''1''" using peek_hd [OF d5] by (simp add: largest_text_def)
  have scalar: "parse_scalar S 5 = parse_fail 5 ''number out of range''"
    by (simp add: parse_scalar_def peek5 num is_digit_def)
  obtain k where k: "parse_fuel S = Suc (Suc (Suc k))" by (simp add: parse_fuel_def eval_nat_numeral)
  have val: "parseValue (Suc k) (Suc 0) S 5 = parse_fail 5 ''number out of range''"
    by (simp add: peek5 scalar)
  have ws: "skipWhitespace S 0 = 0"
    using skipWhitespace_none [of 0 S "CHR ''{''" "tl S"] by (simp add: S_def is_space_def)
  have start: "S \<noteq> []" "S ! 0 = CHR ''{''" by (simp_all add: S_def)
  have name': "parse_member_name S [] (Suc 0) = Parsed ''x'' 5" using name by simp
  have "parseDocument (parse_fuel S) S = parse_fail 5 ''number out of range''"
    unfolding parseDocument_def Let_def k ws
    by (simp add: start opened name' val parse_fail_def del: parseValue.simps)
  then have "parseJsonObject S = Inl ''JSON error at byte 5: number out of range''"
    by (simp add: parseJsonObject_def parse_fail_def positioned_def nat_to_string.simps digit_chars
        kMaxInputBytes_def json_string_text_def escape_char_def largest_text_def S_def)
  with ser show ?thesis by blast
qed

end
