(* ===== verification/FxConfiguration.thy ===== *)
theory FxConfiguration
  imports PubSubConfiguration
begin

text \<open>
  \<open>Fx/src/FxConfiguration.cpp\<close>: the staged \<open>Fx\<close> section of the configuration and
  \<open>finalizeAndValidate\<close>, which gives unnamed fields the last part of their address as a name
  and refuses a configuration the schema alone cannot rule out. The loops thread the sets of
  names seen so far as the source does; \<open>fx_valid\<close> is the declarative specification, and the
  two are shown to agree.
\<close>

section \<open>Structures\<close>

record dataset_field =
  df_name :: string
  df_address :: string

record output_dataset_config =
  od_name :: string
  od_writerGroupId :: "16 word"
  od_dataSetWriterId :: "16 word"
  od_publishingIntervalMs :: f64
  od_fields :: "dataset_field list"

record input_dataset_config =
  id_name :: string
  id_fields :: "dataset_field list"

record functional_entity_config =
  fe_name :: string
  fe_outputs :: "output_dataset_config list"
  fe_inputs :: "input_dataset_config list"

record fx_configuration =
  fx_automationComponent :: string
  fx_publisherIdType :: publisher_id_type
  fx_publisherId :: "64 word"
  fx_entities :: "functional_entity_config list"

section \<open>Validation\<close>

definition refuse :: "string \<Rightarrow> 'a result" where
  "refuse what = Inl (''Fx configuration: '' @ what)"

lemma refuse_simps [simp]: "refuse w \<noteq> Inr x" "res_bind (refuse w) f = refuse w"
  by (simp_all add: refuse_def)

definition requireUnique :: "string set \<Rightarrow> string \<Rightarrow> string \<Rightarrow> string set result" where
  "requireUnique seen name what =
     (if name = [] then refuse (''empty '' @ what @ '' name'')
      else if name \<in> seen then refuse (''duplicate '' @ what @ '' '' @ quoted name)
      else Inr (insert name seen))"

definition leafOf :: "string \<Rightarrow> string" where
  "leafOf address = (case rfind (CHR ''.'') address of None \<Rightarrow> address | Some dot \<Rightarrow> drop (dot + 1) address)"

text \<open>The loop of \<open>finalizeFields\<close>; it names the fields in place and collects the names.\<close>

definition default_name :: "dataset_field \<Rightarrow> dataset_field" where
  "default_name f = (if df_name f = [] then f\<lparr>df_name := leafOf (df_address f)\<rparr> else f)"

fun finalize_fields_loop ::
    "string \<Rightarrow> string \<Rightarrow> string set \<Rightarrow> dataset_field list \<Rightarrow> dataset_field list result" where
  "finalize_fields_loop datasetName direction names [] = Inr []"
| "finalize_fields_loop datasetName direction names (f # fs) =
     (if df_address f = []
        then refuse (direction @ '' '' @ quoted datasetName @ '' has a Field with an empty address'')
      else let f = default_name f in
      if df_name f = []
        then refuse (direction @ '' '' @ quoted datasetName @ '' has a Field with an empty name'')
      else if df_name f \<in> names
        then refuse (direction @ '' '' @ quoted datasetName @ '' has two Fields named '' @ quoted (df_name f)
          @ '' (give one an explicit name=\"...\")'')
      else res_bind (finalize_fields_loop datasetName direction (insert (df_name f) names) fs)
        (\<lambda>fs. Inr (f # fs)))"

definition finalizeFields :: "dataset_field list \<Rightarrow> string \<Rightarrow> string \<Rightarrow> dataset_field list result" where
  "finalizeFields flds datasetName direction =
     (if flds = [] then refuse (direction @ '' '' @ quoted datasetName @ '' has no Fields'')
      else finalize_fields_loop datasetName direction {} flds)"

text \<open>The interval bound: one day in milliseconds, as a double.\<close>

definition one_day_ms :: f64 where "one_day_ms = 0x4194997000000000"

fun validate_outputs :: "string set \<Rightarrow> 16 word set \<Rightarrow> output_dataset_config list
    \<Rightarrow> (output_dataset_config list \<times> 16 word set) result" where
  "validate_outputs outputNames writerGroupIds [] = Inr ([], writerGroupIds)"
| "validate_outputs outputNames writerGroupIds (d # ds) =
     res_bind (requireUnique outputNames (od_name d) ''OutputDataset'') (\<lambda>outputNames.
       if od_writerGroupId d \<in> writerGroupIds
         then refuse (''writerGroupId '' @ nat_to_string (unat (od_writerGroupId d))
           @ '' is used by more than one OutputDataset'')
       else if \<not> f64_less 0 (od_publishingIntervalMs d) \<or> f64_less one_day_ms (od_publishingIntervalMs d)
         then refuse (''OutputDataset '' @ quoted (od_name d)
           @ '': publishingIntervalMs must be positive and at most 86400000 (one day)'')
       else res_bind (finalizeFields (od_fields d) (od_name d) ''OutputDataset'') (\<lambda>flds.
         res_bind (validate_outputs outputNames (insert (od_writerGroupId d) writerGroupIds) ds)
           (\<lambda>(ds, ids). Inr (d\<lparr>od_fields := flds\<rparr> # ds, ids))))"

fun validate_inputs :: "string set \<Rightarrow> input_dataset_config list \<Rightarrow> input_dataset_config list result" where
  "validate_inputs inputNames [] = Inr []"
| "validate_inputs inputNames (d # ds) =
     res_bind (requireUnique inputNames (id_name d) ''InputDataset'') (\<lambda>inputNames.
     res_bind (finalizeFields (id_fields d) (id_name d) ''InputDataset'') (\<lambda>flds.
     res_bind (validate_inputs inputNames ds) (\<lambda>ds. Inr (d\<lparr>id_fields := flds\<rparr> # ds))))"

fun validate_entities :: "string set \<Rightarrow> 16 word set \<Rightarrow> functional_entity_config list
    \<Rightarrow> functional_entity_config list result" where
  "validate_entities entityNames writerGroupIds [] = Inr []"
| "validate_entities entityNames writerGroupIds (e # es) =
     res_bind (requireUnique entityNames (fe_name e) ''FunctionalEntity'') (\<lambda>entityNames.
     res_bind (validate_outputs {} writerGroupIds (fe_outputs e)) (\<lambda>(outputs, writerGroupIds).
     res_bind (validate_inputs {} (fe_inputs e)) (\<lambda>inputs.
       if outputs = [] \<and> inputs = []
         then refuse (''FunctionalEntity '' @ quoted (fe_name e) @ '' declares no datasets'')
       else res_bind (validate_entities entityNames writerGroupIds es) (\<lambda>es.
         Inr (e\<lparr>fe_outputs := outputs, fe_inputs := inputs\<rparr> # es)))))"

definition finalizeAndValidate :: "fx_configuration \<Rightarrow> fx_configuration result" where
  "finalizeAndValidate c =
     (if fx_automationComponent c = [] then refuse ''empty automationComponent name''
      else if publisherIdMaximum (fx_publisherIdType c) < fx_publisherId c
        then refuse (''publisherId '' @ nat_to_string (unat (fx_publisherId c))
          @ '' does not fit publisherIdType '' @ publisherIdTypeName (fx_publisherIdType c))
      else if 9007199254740992 < fx_publisherId c
        then refuse (''publisherId above 2^53 is not supported ''
          @ ''(the connection services exchange coordinates as JSON numbers)'')
      else if fx_entities c = [] then refuse ''no FunctionalEntity elements''
      else res_bind (validate_entities {} {} (fx_entities c)) (\<lambda>es. Inr (c\<lparr>fx_entities := es\<rparr>)))"

section \<open>Specification\<close>

definition fields_valid :: "dataset_field list \<Rightarrow> bool" where
  "fields_valid fs \<longleftrightarrow> fs \<noteq> [] \<and> (\<forall>f \<in> set fs. df_address f \<noteq> [] \<and> df_name (default_name f) \<noteq> [])
     \<and> distinct (map (df_name \<circ> default_name) fs)"

definition names_valid :: "string list \<Rightarrow> bool" where
  "names_valid ns \<longleftrightarrow> distinct ns \<and> [] \<notin> set ns"

definition output_valid :: "output_dataset_config \<Rightarrow> bool" where
  "output_valid d \<longleftrightarrow> fields_valid (od_fields d) \<and> f64_less 0 (od_publishingIntervalMs d)
     \<and> \<not> f64_less one_day_ms (od_publishingIntervalMs d)"

definition entity_valid :: "functional_entity_config \<Rightarrow> bool" where
  "entity_valid e \<longleftrightarrow> names_valid (map od_name (fe_outputs e)) \<and> names_valid (map id_name (fe_inputs e))
     \<and> (\<forall>d \<in> set (fe_outputs e). output_valid d) \<and> (\<forall>d \<in> set (fe_inputs e). fields_valid (id_fields d))
     \<and> (fe_outputs e \<noteq> [] \<or> fe_inputs e \<noteq> [])"

definition writer_group_ids :: "functional_entity_config list \<Rightarrow> 16 word list" where
  "writer_group_ids es = concat (map (\<lambda>e. map od_writerGroupId (fe_outputs e)) es)"

definition fx_valid :: "fx_configuration \<Rightarrow> bool" where
  "fx_valid c \<longleftrightarrow> fx_automationComponent c \<noteq> []
     \<and> fx_publisherId c \<le> publisherIdMaximum (fx_publisherIdType c) \<and> fx_publisherId c \<le> 2 ^ 53
     \<and> fx_entities c \<noteq> [] \<and> names_valid (map fe_name (fx_entities c))
     \<and> distinct (writer_group_ids (fx_entities c)) \<and> (\<forall>e \<in> set (fx_entities c). entity_valid e)"

definition default_output :: "output_dataset_config \<Rightarrow> output_dataset_config" where
  "default_output d = d\<lparr>od_fields := map default_name (od_fields d)\<rparr>"

definition default_input :: "input_dataset_config \<Rightarrow> input_dataset_config" where
  "default_input d = d\<lparr>id_fields := map default_name (id_fields d)\<rparr>"

definition default_entity :: "functional_entity_config \<Rightarrow> functional_entity_config" where
  "default_entity e = e\<lparr>fe_outputs := map default_output (fe_outputs e), fe_inputs := map default_input (fe_inputs e)\<rparr>"

definition with_default_names :: "fx_configuration \<Rightarrow> fx_configuration" where
  "with_default_names c = c\<lparr>fx_entities := map default_entity (fx_entities c)\<rparr>"

section \<open>The loops meet the specification\<close>

lemma requireUnique_Inr:
  "requireUnique seen n w = Inr seen' \<longleftrightarrow> n \<noteq> [] \<and> n \<notin> seen \<and> seen' = insert n seen"
  by (auto simp: requireUnique_def)

lemma finalize_fields_loop_Inr:
  "finalize_fields_loop n d names fs = Inr fs' \<longleftrightarrow> fs' = map default_name fs
     \<and> (\<forall>f \<in> set fs. df_address f \<noteq> [] \<and> df_name (default_name f) \<noteq> [])
     \<and> distinct (map (df_name \<circ> default_name) fs)
     \<and> names \<inter> set (map (df_name \<circ> default_name) fs) = {}"
  by (induction fs arbitrary: names fs') (auto simp: res_bind_Inr_iff Let_def)

lemma finalizeFields_Inr:
  "finalizeFields fs n d = Inr fs' \<longleftrightarrow> fields_valid fs \<and> fs' = map default_name fs"
  by (auto simp: finalizeFields_def fields_valid_def finalize_fields_loop_Inr)

lemma validate_outputs_Inr:
  "validate_outputs names ids ds = Inr (ds', ids') \<longleftrightarrow>
     ds' = map default_output ds \<and> ids' = ids \<union> set (map od_writerGroupId ds)
     \<and> names_valid (map od_name ds) \<and> names \<inter> set (map od_name ds) = {}
     \<and> distinct (map od_writerGroupId ds) \<and> ids \<inter> set (map od_writerGroupId ds) = {}
     \<and> (\<forall>d \<in> set ds. output_valid d)"
proof (induction ds arbitrary: names ids ds')
  case (Cons d ds)
  show ?case
    by (auto simp: res_bind_Inr_iff requireUnique_Inr finalizeFields_Inr Cons.IH names_valid_def
        default_output_def output_valid_def)
qed (auto simp: names_valid_def)

lemma validate_inputs_Inr:
  "validate_inputs names ds = Inr ds' \<longleftrightarrow> ds' = map default_input ds
     \<and> names_valid (map id_name ds) \<and> names \<inter> set (map id_name ds) = {}
     \<and> (\<forall>d \<in> set ds. fields_valid (id_fields d))"
  by (induction ds arbitrary: names ds')
     (auto simp: res_bind_Inr_iff requireUnique_Inr finalizeFields_Inr names_valid_def default_input_def)

lemma validate_entities_Inr:
  "validate_entities names ids es = Inr es' \<longleftrightarrow> es' = map default_entity es
     \<and> names_valid (map fe_name es) \<and> names \<inter> set (map fe_name es) = {}
     \<and> distinct (writer_group_ids es) \<and> ids \<inter> set (writer_group_ids es) = {}
     \<and> (\<forall>e \<in> set es. entity_valid e)"
proof (induction es arbitrary: names ids es')
  case (Cons e es)
  show ?case
    by (simp add: res_bind_Inr_iff requireUnique_Inr validate_outputs_Inr validate_inputs_Inr Cons.IH
          split_paired_Ex del: ex_simps)
       (simp add: names_valid_def writer_group_ids_def entity_valid_def default_entity_def,
        intro impI iffI; elim conjE; simp add: Int_Un_distrib Int_Un_distrib2)
qed (auto simp: names_valid_def writer_group_ids_def)

lemma finalize_meets_spec:
  "finalizeAndValidate c = Inr c' \<longleftrightarrow> fx_valid c \<and> c' = with_default_names c"
  by (auto simp: finalizeAndValidate_def fx_valid_def with_default_names_def res_bind_Inr_iff
      validate_entities_Inr not_less)

text \<open>Naming the fields keeps a valid part valid, and naming them twice changes nothing more.\<close>

lemma default_name_twice [simp]:
  "df_name (default_name f) \<noteq> [] \<Longrightarrow> default_name (default_name f) = default_name f"
  by (simp add: default_name_def)

lemma default_name_address [simp]: "df_address (default_name f) = df_address f"
  by (simp add: default_name_def)

lemma default_fields:
  assumes "fields_valid fs"
  shows "fields_valid (map default_name fs)" "map default_name (map default_name fs) = map default_name fs"
proof -
  have *: "default_name (default_name f) = default_name f" if "f \<in> set fs" for f
    using assms that by (simp add: fields_valid_def)
  then have names: "map (df_name \<circ> default_name \<circ> default_name) fs = map (df_name \<circ> default_name) fs" by simp
  from * show "fields_valid (map default_name fs)" "map default_name (map default_name fs) = map default_name fs"
    using assms by (simp_all add: fields_valid_def names)
qed

lemma default_entity_names [simp]:
  "fe_name (default_entity e) = fe_name e"
  "map od_name (fe_outputs (default_entity e)) = map od_name (fe_outputs e)"
  "map id_name (fe_inputs (default_entity e)) = map id_name (fe_inputs e)"
  "map od_writerGroupId (fe_outputs (default_entity e)) = map od_writerGroupId (fe_outputs e)"
  "fe_outputs (default_entity e) = [] \<longleftrightarrow> fe_outputs e = []"
  "fe_inputs (default_entity e) = [] \<longleftrightarrow> fe_inputs e = []"
  by (simp_all add: default_entity_def default_output_def default_input_def comp_def)

lemma writer_group_ids_default [simp]: "writer_group_ids (map default_entity es) = writer_group_ids es"
  by (simp add: writer_group_ids_def comp_def)

lemma default_entity_valid: "entity_valid e \<Longrightarrow> entity_valid (default_entity e)"
  unfolding entity_valid_def default_entity_names
  by (auto simp: default_entity_def default_output_def default_input_def output_valid_def default_fields)

lemma default_entity_twice:
  assumes "entity_valid e"
  shows "default_entity (default_entity e) = default_entity e"
proof -
  have "default_output (default_output d) = default_output d" if "d \<in> set (fe_outputs e)" for d
    using assms that default_fields(2) [of "od_fields d"]
    by (simp add: entity_valid_def output_valid_def default_output_def)
  moreover have "default_input (default_input d) = default_input d" if "d \<in> set (fe_inputs e)" for d
    using assms that default_fields(2) [of "id_fields d"]
    by (simp add: entity_valid_def default_input_def)
  ultimately show ?thesis by (simp add: default_entity_def)
qed

section \<open>Properties\<close>

text \<open>
  C7: \<open>finalizeAndValidate\<close> accepts exactly the valid configurations (names unique and
  nonempty at every level, writer group ids unique over the component, the publisher id within
  its type and at most \<open>2 ^ 53\<close>, intervals positive and at most a day, no empty dataset or
  entity) and changes nothing but the names of unnamed fields.
\<close>

theorem finalizeAndValidate_iff:
  "finalizeAndValidate c = Inr c' \<longleftrightarrow> fx_valid c \<and> c' = with_default_names c"
  by (rule finalize_meets_spec)

text \<open>
  A finalized configuration is a fixed point: finalizing it again accepts it and changes
  nothing, so the names the views show are stable.
\<close>

theorem finalizeAndValidate_idempotent:
  assumes "finalizeAndValidate c = Inr c'"
  shows "finalizeAndValidate c' = Inr c'"
proof -
  have valid: "fx_valid c" and c': "c' = with_default_names c"
    using assms unfolding finalize_meets_spec by auto
  have "entity_valid (default_entity e) \<and> default_entity (default_entity e) = default_entity e"
    if "e \<in> set (fx_entities c)" for e
    using that valid by (intro conjI default_entity_valid default_entity_twice) (auto simp: fx_valid_def)
  then have "fx_valid c'" "with_default_names c' = c'"
    using valid unfolding c' fx_valid_def with_default_names_def by (auto simp: comp_def)
  then show ?thesis by (simp add: finalize_meets_spec)
qed

definition sample_fx_configuration :: fx_configuration where
  "sample_fx_configuration = \<lparr>fx_automationComponent = ''AC'', fx_publisherIdType = PublisherIdByte,
     fx_publisherId = 91, fx_entities = [\<lparr>fe_name = ''FE'', fe_outputs = [],
       fe_inputs = [\<lparr>id_name = ''in'', id_fields = [\<lparr>df_name = [], df_address = ''FX1.t''\<rparr>]\<rparr>]\<rparr>]\<rparr>"

lemma finalizeAndValidate_idempotent_witness:
  "finalizeAndValidate (with_default_names sample_fx_configuration) = Inr (with_default_names sample_fx_configuration)"
proof (rule finalizeAndValidate_idempotent)
  show "finalizeAndValidate sample_fx_configuration = Inr (with_default_names sample_fx_configuration)"
    unfolding finalize_meets_spec
    by (simp add: sample_fx_configuration_def fx_valid_def entity_valid_def fields_valid_def names_valid_def
        writer_group_ids_def default_name_def leafOf_def word_le_nat_alt)
qed

end
