(* ===== verification/XsdBindings.thy ===== *)
theory XsdBindings
  imports FxConfiguration WireEncode
begin

text \<open>
  From the parsed configuration file to the configuration structures
  (\<open>PubSub/src/PubSubXsdBinding.cpp\<close> and \<open>Fx/src/FxXsdBinding.cpp\<close>). The classes of the
  parsed file are generated from the schema at build time; the records below are the accessors
  the bindings read, an optional attribute being an option.
\<close>

section \<open>The parsed file\<close>

record xsd_field =
  xf_name :: "string option"
  xf_source :: "string option"
  xf_target :: "string option"

record xsd_data_set_writer =
  xw_id :: "16 word"
  xw_Field :: "xsd_field list"

record xsd_writer_group =
  xg_id :: "16 word"
  xg_publishingIntervalMs :: f64
  xg_DataSetWriter :: "xsd_data_set_writer list"

record xsd_data_set_reader =
  xr_publisherId :: "64 word"
  xr_publisherIdType :: string
  xr_writerGroupId :: "16 word"
  xr_dataSetWriterId :: "16 word"
  xr_Field :: "xsd_field list"

record xsd_connection =
  xc_address :: string
  xc_ttl :: byte
  xc_loopback :: bool
  xc_WriterGroup :: "xsd_writer_group list"
  xc_DataSetReader :: "xsd_data_set_reader list"

record xsd_pubsub =
  xp_publisherId :: "64 word"
  xp_publisherIdType :: string
  xp_Connection :: "xsd_connection list"

record xsd_output_dataset =
  xo_name :: string
  xo_writerGroupId :: "16 word"
  xo_dataSetWriterId :: "16 word"
  xo_publishingIntervalMs :: f64
  xo_Field :: "xsd_field list"

record xsd_input_dataset =
  xi_name :: string
  xi_Field :: "xsd_field list"

record xsd_functional_entity =
  xe_name :: string
  xe_OutputDataset :: "xsd_output_dataset list"
  xe_InputDataset :: "xsd_input_dataset list"

record xsd_fx =
  xx_automationComponent :: string
  xx_publisherIdType :: string
  xx_publisherId :: "64 word"
  xx_FunctionalEntity :: "xsd_functional_entity list"

section \<open>The Pub/Sub section\<close>

definition fieldFromXsd :: "bool \<Rightarrow> xsd_field \<Rightarrow> field_config result" where
  "fieldFromXsd wantSource xsd =
     res_bind
       (if wantSource
        then (if xf_source xsd = None \<or> xf_target xsd \<noteq> None
              then Inl (''PubSub configuration: DataSetWriter Fields take a '' @ quoted ''source''
                        @ '' attribute (and no '' @ quoted ''target'' @ '')'')
              else Inr (the (xf_source xsd)))
        else (if xf_target xsd = None \<or> xf_source xsd \<noteq> None
              then Inl (''PubSub configuration: DataSetReader Fields take a '' @ quoted ''target''
                        @ '' attribute (and no '' @ quoted ''source'' @ '')'')
              else Inr (the (xf_target xsd))))
       (\<lambda>address. if address = [] then Inl ''PubSub configuration: empty Field address''
                  else Inr \<lparr>fc_address = address\<rparr>)"

definition writerFromXsd :: "xsd_data_set_writer \<Rightarrow> data_set_writer_config result" where
  "writerFromXsd xsdWriter =
     res_bind (res_map (fieldFromXsd True) (xw_Field xsdWriter)) (\<lambda>fields.
       Inr \<lparr>dwc_id = xw_id xsdWriter, dwc_fields = fields\<rparr>)"

definition groupFromXsd :: "xsd_writer_group \<Rightarrow> writer_group_config result" where
  "groupFromXsd xsdGroup =
     (if f64_le (xg_publishingIntervalMs xsdGroup) 0
      then Inl ''PubSub configuration: publishingIntervalMs must be positive''
      else res_bind (res_map writerFromXsd (xg_DataSetWriter xsdGroup)) (\<lambda>writers.
        Inr \<lparr>wgc_id = xg_id xsdGroup, wgc_publishingIntervalMs = xg_publishingIntervalMs xsdGroup,
             wgc_writers = writers\<rparr>))"

definition readerFromXsd :: "xsd_data_set_reader \<Rightarrow> data_set_reader_config result" where
  "readerFromXsd xsdReader =
     res_bind (parsePublisherIdType (xr_publisherIdType xsdReader)) (\<lambda>type.
     res_bind (res_map (fieldFromXsd False) (xr_Field xsdReader)) (\<lambda>targets.
       Inr \<lparr>drc_publisherIdType = type, drc_publisherId = xr_publisherId xsdReader,
            drc_writerGroupId = xr_writerGroupId xsdReader,
            drc_dataSetWriterId = xr_dataSetWriterId xsdReader, drc_targets = targets\<rparr>))"

definition connectionFromXsd :: "xsd_connection \<Rightarrow> connection_config result" where
  "connectionFromXsd xsdConnection =
     res_bind (parseNetworkAddress (xc_address xsdConnection)) (\<lambda>(host, port).
     res_bind (res_map groupFromXsd (xc_WriterGroup xsdConnection)) (\<lambda>groups.
     res_bind (res_map readerFromXsd (xc_DataSetReader xsdConnection)) (\<lambda>readers.
       if groups = [] \<and> readers = []
       then Inl ''PubSub configuration: Connection with neither WriterGroups nor DataSetReaders''
       else Inr \<lparr>cc_host = host, cc_port = port, cc_ttl = xc_ttl xsdConnection,
                 cc_loopback = xc_loopback xsdConnection, cc_writerGroups = groups, cc_readers = readers\<rparr>)))"

definition pubsubConfigurationFromXsd :: "xsd_pubsub \<Rightarrow> pubsub_configuration result" where
  "pubsubConfigurationFromXsd xsd =
     res_bind (parsePublisherIdType (xp_publisherIdType xsd)) (\<lambda>type.
     res_bind (res_map connectionFromXsd (xp_Connection xsd)) (\<lambda>connections.
       if connections = [] then Inl ''PubSub configuration: no Connection elements''
       else Inr \<lparr>pc_publisherIdType = type, pc_publisherId = xp_publisherId xsd,
                 pc_connections = connections\<rparr>))"

section \<open>The FX section\<close>

definition bindField :: "bool \<Rightarrow> string \<Rightarrow> xsd_field \<Rightarrow> dataset_field result" where
  "bindField isOutput datasetName xsdField =
     (let hasSource = xf_source xsdField \<noteq> None; hasTarget = xf_target xsdField \<noteq> None in
      if isOutput \<and> (\<not> hasSource \<or> hasTarget)
      then Inl (''Fx configuration: OutputDataset '' @ quoted datasetName @ '': Fields take a ''
                @ quoted ''source'' @ '' attribute (and no '' @ quoted ''target'' @ '')'')
      else if \<not> isOutput \<and> (\<not> hasTarget \<or> hasSource)
      then Inl (''Fx configuration: InputDataset '' @ quoted datasetName @ '': Fields take a ''
                @ quoted ''target'' @ '' attribute (and no '' @ quoted ''source'' @ '')'')
      else Inr \<lparr>df_name = (case xf_name xsdField of None \<Rightarrow> [] | Some n \<Rightarrow> n),
                df_address = (if isOutput then the (xf_source xsdField) else the (xf_target xsdField))\<rparr>)"

definition outputFromXsd :: "xsd_output_dataset \<Rightarrow> output_dataset_config result" where
  "outputFromXsd xsdOutput =
     res_bind (res_map (bindField True (xo_name xsdOutput)) (xo_Field xsdOutput)) (\<lambda>fields.
       Inr \<lparr>od_name = xo_name xsdOutput, od_writerGroupId = xo_writerGroupId xsdOutput,
            od_dataSetWriterId = xo_dataSetWriterId xsdOutput,
            od_publishingIntervalMs = xo_publishingIntervalMs xsdOutput, od_fields = fields\<rparr>)"

definition inputFromXsd :: "xsd_input_dataset \<Rightarrow> input_dataset_config result" where
  "inputFromXsd xsdInput =
     res_bind (res_map (bindField False (xi_name xsdInput)) (xi_Field xsdInput)) (\<lambda>fields.
       Inr \<lparr>id_name = xi_name xsdInput, id_fields = fields\<rparr>)"

definition entityFromXsd :: "xsd_functional_entity \<Rightarrow> functional_entity_config result" where
  "entityFromXsd xsdEntity =
     res_bind (res_map outputFromXsd (xe_OutputDataset xsdEntity)) (\<lambda>outputs.
     res_bind (res_map inputFromXsd (xe_InputDataset xsdEntity)) (\<lambda>inputs.
       Inr \<lparr>fe_name = xe_name xsdEntity, fe_outputs = outputs, fe_inputs = inputs\<rparr>))"

definition fxConfigurationFromXsd :: "xsd_fx \<Rightarrow> fx_configuration result" where
  "fxConfigurationFromXsd xsd =
     res_bind (parsePublisherIdType (xx_publisherIdType xsd)) (\<lambda>type.
     res_bind (res_map entityFromXsd (xx_FunctionalEntity xsd)) (\<lambda>entities.
       finalizeAndValidate \<lparr>fx_automationComponent = xx_automationComponent xsd,
         fx_publisherIdType = type, fx_publisherId = xx_publisherId xsd, fx_entities = entities\<rparr>))"

section \<open>What a bound Pub/Sub configuration satisfies\<close>

definition fields_ok :: "field_config list \<Rightarrow> bool" where
  "fields_ok fs = list_all (\<lambda>f. fc_address f \<noteq> []) fs"

definition group_ok :: "writer_group_config \<Rightarrow> bool" where
  "group_ok g \<longleftrightarrow> \<not> f64_le (wgc_publishingIntervalMs g) 0 \<and> list_all (fields_ok \<circ> dwc_fields) (wgc_writers g)"

definition connection_ok :: "connection_config \<Rightarrow> bool" where
  "connection_ok c \<longleftrightarrow> cc_host c \<noteq> [] \<and> cc_port c \<noteq> 0 \<and> list_all group_ok (cc_writerGroups c)
     \<and> list_all (fields_ok \<circ> drc_targets) (cc_readers c) \<and> (cc_writerGroups c \<noteq> [] \<or> cc_readers c \<noteq> [])"

definition pubsub_ok :: "pubsub_configuration \<Rightarrow> bool" where
  "pubsub_ok c \<longleftrightarrow> pc_connections c \<noteq> [] \<and> list_all connection_ok (pc_connections c)"

lemma fieldFromXsd_ok: "fieldFromXsd b x = Inr f \<Longrightarrow> fc_address f \<noteq> []"
  by (auto simp: fieldFromXsd_def res_bind_Inr_iff split: if_splits)

lemma fields_bound: "res_map (fieldFromXsd b) xs = Inr fs \<Longrightarrow> fields_ok fs"
  unfolding fields_ok_def by (rule res_map_Inr_all) (auto dest: fieldFromXsd_ok)

lemma writerFromXsd_ok: "writerFromXsd x = Inr w \<Longrightarrow> fields_ok (dwc_fields w)"
  by (auto simp: writerFromXsd_def res_bind_Inr_iff dest: fields_bound)

lemma groupFromXsd_ok: "groupFromXsd x = Inr g \<Longrightarrow> group_ok g"
  by (auto simp: groupFromXsd_def group_ok_def res_bind_Inr_iff comp_def intro: writerFromXsd_ok
      elim!: res_map_Inr_all split: if_splits)

lemma readerFromXsd_ok: "readerFromXsd x = Inr r \<Longrightarrow> fields_ok (drc_targets r)"
  by (auto simp: readerFromXsd_def res_bind_Inr_iff dest: fields_bound)

lemma accepted_port:
  assumes "parseNetworkAddress a = Inr (host, port)"
  shows "host \<noteq> [] \<and> port \<noteq> 0"
proof -
  obtain digits where d: "host \<noteq> []" "0 < decimal_value digits" "decimal_value digits \<le> 65535"
    "port = word_of_nat (decimal_value digits)"
    using parseNetworkAddress_accepts [OF assms] by auto
  then have "unat port = decimal_value digits" by (simp add: unat_of_nat)
  with d show ?thesis by auto
qed

lemma connectionFromXsd_ok: "connectionFromXsd x = Inr c \<Longrightarrow> connection_ok c"
  by (auto simp: connectionFromXsd_def connection_ok_def res_bind_Inr_iff comp_def dest!: accepted_port
      elim!: res_map_Inr_all intro: groupFromXsd_ok readerFromXsd_ok split: if_splits)

lemma pubsub_bound_ok: "pubsubConfigurationFromXsd x = Inr c \<Longrightarrow> pubsub_ok c"
  by (auto simp: pubsubConfigurationFromXsd_def pubsub_ok_def res_bind_Inr_iff
      elim!: res_map_Inr_all intro: connectionFromXsd_ok split: if_splits)

section \<open>What the FX binding accepts\<close>

text \<open>An output field names its source and nothing else, an input field its target.\<close>

definition source_only :: "xsd_field \<Rightarrow> bool" where
  "source_only f \<longleftrightarrow> xf_source f \<noteq> None \<and> xf_target f = None"

definition target_only :: "xsd_field \<Rightarrow> bool" where
  "target_only f \<longleftrightarrow> xf_target f \<noteq> None \<and> xf_source f = None"

definition bound_field :: "bool \<Rightarrow> xsd_field \<Rightarrow> dataset_field" where
  "bound_field out f = \<lparr>df_name = (case xf_name f of None \<Rightarrow> [] | Some n \<Rightarrow> n),
     df_address = the (if out then xf_source f else xf_target f)\<rparr>"

definition bound_output :: "xsd_output_dataset \<Rightarrow> output_dataset_config" where
  "bound_output d = \<lparr>od_name = xo_name d, od_writerGroupId = xo_writerGroupId d,
     od_dataSetWriterId = xo_dataSetWriterId d, od_publishingIntervalMs = xo_publishingIntervalMs d,
     od_fields = map (bound_field True) (xo_Field d)\<rparr>"

definition bound_input :: "xsd_input_dataset \<Rightarrow> input_dataset_config" where
  "bound_input d = \<lparr>id_name = xi_name d, id_fields = map (bound_field False) (xi_Field d)\<rparr>"

definition bound_entity :: "xsd_functional_entity \<Rightarrow> functional_entity_config" where
  "bound_entity e = \<lparr>fe_name = xe_name e, fe_outputs = map bound_output (xe_OutputDataset e),
     fe_inputs = map bound_input (xe_InputDataset e)\<rparr>"

definition bound_fx :: "publisher_id_type \<Rightarrow> xsd_fx \<Rightarrow> fx_configuration" where
  "bound_fx t x = \<lparr>fx_automationComponent = xx_automationComponent x, fx_publisherIdType = t,
     fx_publisherId = xx_publisherId x, fx_entities = map bound_entity (xx_FunctionalEntity x)\<rparr>"

definition entity_directed :: "xsd_functional_entity \<Rightarrow> bool" where
  "entity_directed e \<longleftrightarrow> list_all (list_all source_only \<circ> xo_Field) (xe_OutputDataset e)
     \<and> list_all (list_all target_only \<circ> xi_Field) (xe_InputDataset e)"

text \<open>A loop whose body is a guarded total function succeeds when the guard holds throughout.\<close>

lemma res_map_guarded:
  assumes "\<And>x y. f x = Inr y \<longleftrightarrow> P x \<and> y = g x"
  shows "res_map f xs = Inr ys \<longleftrightarrow> list_all P xs \<and> ys = map g xs"
  by (induction xs arbitrary: ys) (auto simp: res_bind_Inr_iff assms)

lemma bindField_Inr:
  "bindField True n f = Inr d \<longleftrightarrow> source_only f \<and> d = bound_field True f"
  "bindField False n f = Inr d \<longleftrightarrow> target_only f \<and> d = bound_field False f"
  by (auto simp: bindField_def Let_def source_only_def target_only_def bound_field_def)

lemma outputFromXsd_Inr:
  "outputFromXsd x = Inr d \<longleftrightarrow> (list_all source_only \<circ> xo_Field) x \<and> d = bound_output x"
  by (auto simp: outputFromXsd_def res_bind_Inr_iff res_map_guarded [OF bindField_Inr(1)] bound_output_def)

lemma inputFromXsd_Inr:
  "inputFromXsd x = Inr d \<longleftrightarrow> (list_all target_only \<circ> xi_Field) x \<and> d = bound_input x"
  by (auto simp: inputFromXsd_def res_bind_Inr_iff res_map_guarded [OF bindField_Inr(2)] bound_input_def)

lemma entityFromXsd_Inr: "entityFromXsd x = Inr e \<longleftrightarrow> entity_directed x \<and> e = bound_entity x"
  by (auto simp: entityFromXsd_def res_bind_Inr_iff res_map_guarded [OF outputFromXsd_Inr]
      res_map_guarded [OF inputFromXsd_Inr] entity_directed_def bound_entity_def comp_def)

section \<open>A sample file\<close>

definition sample_pubsub :: xsd_pubsub where
  "sample_pubsub = \<lparr>xp_publisherId = 0x10001, xp_publisherIdType = ''UInt16'',
     xp_Connection = [\<lparr>xc_address = ''opc.udp://224.0.0.5:4840/'', xc_ttl = 1, xc_loopback = True,
       xc_WriterGroup = [\<lparr>xg_id = 7, xg_publishingIntervalMs = 0x7FF8000000000000,
         xg_DataSetWriter = [\<lparr>xw_id = 1, xw_Field = [\<lparr>xf_name = None, xf_source = Some ''a.b'', xf_target = None\<rparr>]\<rparr>]\<rparr>],
       xc_DataSetReader = []\<rparr>]\<rparr>"

definition sample_pubsub_configuration :: pubsub_configuration where
  "sample_pubsub_configuration = \<lparr>pc_publisherIdType = PublisherIdUInt16, pc_publisherId = 0x10001,
     pc_connections = [\<lparr>cc_host = ''224.0.0.5'', cc_port = 4840, cc_ttl = 1, cc_loopback = True,
       cc_writerGroups = [\<lparr>wgc_id = 7, wgc_publishingIntervalMs = 0x7FF8000000000000,
         wgc_writers = [\<lparr>dwc_id = 1, dwc_fields = [\<lparr>fc_address = ''a.b''\<rparr>]\<rparr>]\<rparr>],
       cc_readers = []\<rparr>]\<rparr>"

lemma sample_pubsub_bound: "pubsubConfigurationFromXsd sample_pubsub = Inr sample_pubsub_configuration"
proof -
  have "''opc.udp://224.0.0.5:4840/'' = network_address ''224.0.0.5'' ''4840'' 1"
    by (simp add: network_address_def udp_scheme_def)
  then have "parseNetworkAddress ''opc.udp://224.0.0.5:4840/'' = Inr (''224.0.0.5'', 4840)"
    using parse_network_address [of "''224.0.0.5''" "''4840''" 1]
    by (simp add: is_digit_def decimal_value_def digit_value_def)
  moreover have "\<not> f64_le 0x7FF8000000000000 0" by (simp add: f64_le_def f64_is_nan_def f64_mag_def)
  ultimately show ?thesis
    by (simp add: sample_pubsub_def pubsubConfigurationFromXsd_def parsePublisherIdType_def connectionFromXsd_def
        groupFromXsd_def writerFromXsd_def fieldFromXsd_def sample_pubsub_configuration_def)
qed

section \<open>Properties\<close>

text \<open>
  C12: the FX section is accepted exactly when its publisher id type has a name of the four, its
  output fields carry only a source and its input fields only a target, and the configuration
  read from it is valid; the configuration is that one with the default field names filled in.
\<close>

theorem fx_binding_iff:
  "fxConfigurationFromXsd x = Inr c \<longleftrightarrow>
     (\<exists>t. xx_publisherIdType x = publisherIdTypeName t \<and> list_all entity_directed (xx_FunctionalEntity x)
        \<and> fx_valid (bound_fx t x) \<and> c = with_default_names (bound_fx t x))"
  by (auto simp: fxConfigurationFromXsd_def res_bind_Inr_iff parsePublisherIdType_Inr finalize_meets_spec
      res_map_guarded [OF entityFromXsd_Inr] bound_fx_def)

text \<open>
  An accepted Pub/Sub section has connections, each with a host, a port other than zero and a
  writer group or a reader, no interval that compares as zero or less, and no empty address.
\<close>

lemma pubsub_binding_ok:
  assumes "pubsubConfigurationFromXsd x = Inr c"
  shows "pubsub_ok c"
  using assms by (rule pubsub_bound_ok)

text \<open>
  Unlike the FX section, a Pub/Sub section may give a publisher id its type cannot carry, of
  which the encoder then sends the low bytes, and an interval that is not a number.
\<close>

lemma pubsub_binding_accepts_unfit:
  "\<exists>x c g. pubsubConfigurationFromXsd x = Inr c \<and> publisherIdMaximum (pc_publisherIdType c) < pc_publisherId c
     \<and> encodePublisherId [] (pc_publisherIdType c) (pc_publisherId c)
         = encodePublisherId [] (pc_publisherIdType c) 1
     \<and> g \<in> set (cc_writerGroups (hd (pc_connections c))) \<and> f64_is_nan (wgc_publishingIntervalMs g)"
proof (intro exI conjI)
  show "pubsubConfigurationFromXsd sample_pubsub = Inr sample_pubsub_configuration" by (rule sample_pubsub_bound)
  show "publisherIdMaximum (pc_publisherIdType sample_pubsub_configuration) < pc_publisherId sample_pubsub_configuration"
    by (simp add: sample_pubsub_configuration_def)
  show "encodePublisherId [] (pc_publisherIdType sample_pubsub_configuration) (pc_publisherId sample_pubsub_configuration)
      = encodePublisherId [] (pc_publisherIdType sample_pubsub_configuration) 1"
    by (simp add: sample_pubsub_configuration_def encodePublisherId_def putU16_def)
  show "hd (cc_writerGroups (hd (pc_connections sample_pubsub_configuration)))
      \<in> set (cc_writerGroups (hd (pc_connections sample_pubsub_configuration)))"
    by (simp add: sample_pubsub_configuration_def)
  show "f64_is_nan (wgc_publishingIntervalMs (hd (cc_writerGroups (hd (pc_connections sample_pubsub_configuration)))))"
    by (simp add: sample_pubsub_configuration_def f64_is_nan_def f64_mag_def)
qed

lemma pubsub_binding_ok_witness: "pubsub_ok sample_pubsub_configuration"
  using pubsub_binding_ok [OF sample_pubsub_bound] .

end
