(* ===== verification/FxRequests.thy ===== *)
theory FxRequests
  imports FxJsonRoundtrip FxConfiguration
begin

text \<open>
  The vocabulary of the FX services, the first section of \<open>Fx/src/FxEngine.cpp\<close>: the check of a
  connection name, the strict reading of a request's members, numbers as unsigned integers, and
  the texts of a status.
\<close>

section \<open>Numbers\<close>

text \<open>\<open>static_cast<double>(n)\<close> and, for a value from 0 up to \<open>2 ^ 63\<close>, \<open>static_cast<uint64_t>(v)\<close>.\<close>

definition f64_of_nat :: "nat \<Rightarrow> f64" where
  "f64_of_nat n = f64_make 0 (round_mag 52 (- 1074) f64_inf n 1)"

definition f64_to_nat :: "f64 \<Rightarrow> nat" where
  "f64_to_nat v = nat (f64_truncated v)"

section \<open>Names and statuses\<close>

definition kMaxEndpointsPerEntity :: nat where "kMaxEndpointsPerEntity = 64"

definition is_control :: "char \<Rightarrow> bool" where
  "is_control c \<longleftrightarrow> of_char c < (0x20 :: nat) \<or> c = CHR 0x7F"

definition validateConnectionName :: "string \<Rightarrow> unit result" where
  "validateConnectionName name =
     (if name = [] then Inl (quoted ''connectionName'' @ '' must not be empty'')
      else if 64 < length name then Inl (quoted ''connectionName'' @ '' must be at most 64 bytes'')
      else if list_ex is_control name
      then Inl (quoted ''connectionName'' @ '' must not contain control characters'')
      else Inr ())"

datatype endpoint_status =
    EndpointInitial | EndpointReady | EndpointPreOperational | EndpointOperational | EndpointError

fun endpoint_status_code :: "endpoint_status \<Rightarrow> 32 word" where
  "endpoint_status_code EndpointInitial = 0"
| "endpoint_status_code EndpointReady = 1"
| "endpoint_status_code EndpointPreOperational = 2"
| "endpoint_status_code EndpointOperational = 3"
| "endpoint_status_code EndpointError = 4"

fun endpointStatusName :: "endpoint_status \<Rightarrow> string" where
  "endpointStatusName EndpointInitial = ''Initial''"
| "endpointStatusName EndpointReady = ''Ready''"
| "endpointStatusName EndpointPreOperational = ''PreOperational''"
| "endpointStatusName EndpointOperational = ''Operational''"
| "endpointStatusName EndpointError = ''Error''"

definition statusDetail :: "string \<Rightarrow> string \<Rightarrow> string result" where
  "statusDetail status diagnostic =
     res_bind (setMember (JsonObject []) ''status'' (JsonString status)) (\<lambda>detail.
     res_bind (if diagnostic \<noteq> [] then setMember detail ''diagnostic'' (JsonString diagnostic) else Inr detail)
       serialize)"

section \<open>Members\<close>

definition requireOnlyMembers :: "json_value \<Rightarrow> string list \<Rightarrow> string \<Rightarrow> unit result" where
  "requireOnlyMembers object allowed ctxt =
     res_bind (requireObject object) (\<lambda>members.
       case find (\<lambda>(k, v). k \<notin> set allowed) members of
         Some (k, v) \<Rightarrow> Inl (''unknown member '' @ quoted k @ '' in '' @ ctxt)
       | None \<Rightarrow> Inr ())"

definition requiredString :: "json_value \<Rightarrow> string \<Rightarrow> string result" where
  "requiredString object key =
     res_bind (hasMember object key) (\<lambda>has.
       if \<not> has then Inl (''missing '' @ quoted key)
       else res_bind (json_member object key) (\<lambda>m. case m of
           JsonString s \<Rightarrow> asString m
         | _ \<Rightarrow> Inl (quoted key @ '' must be a string'')))"

definition kJsonExactIntegerLimit :: f64 where "kJsonExactIntegerLimit = 0x4340000000000000"

definition requiredUnsigned :: "json_value \<Rightarrow> string \<Rightarrow> 64 word \<Rightarrow> 64 word result" where
  "requiredUnsigned object key maximum =
     res_bind (hasMember object key) (\<lambda>has.
       if \<not> has then Inl (''missing '' @ quoted key)
       else res_bind (json_member object key) (\<lambda>m. case m of
           JsonNumber x \<Rightarrow> res_bind (asNumber m) (\<lambda>value.
             if \<not> f64_le 0 value \<or> f64_less kJsonExactIntegerLimit value
                \<or> \<not> f64_eq value (f64_of_nat (f64_to_nat value))
             then Inl (quoted key @ '' must be a non-negative integer (at most 2^53)'')
             else if maximum < word_of_nat (f64_to_nat value)
             then Inl (quoted key @ '' out of range (maximum '' @ nat_to_string (unat maximum) @ '')'')
             else Inr (word_of_nat (f64_to_nat value)))
         | _ \<Rightarrow> Inl (quoted key @ '' must be a number'')))"

end
