(* ===== verification/ArrayTools.thy ===== *)
theory ArrayTools
  imports Ieee754
begin

text \<open>
  The conversions between vectors and array variants (\<open>AddressSpace/src/ArrayTools.cpp\<close>).
  The \<open>UaVariant\<close> and \<open>UaString\<close> classes belong to the OPC UA toolkit the server is built
  with, so they are a parameter: the record \<open>ua_sdk\<close> of the members the code calls. An
  array of the toolkit is a list, and a getter answers \<open>None\<close> for a status that is not good.
\<close>

section \<open>The toolkit\<close>

datatype ua_type =
    OpcUaType_Null | OpcUaType_Boolean | OpcUaType_SByte | OpcUaType_Byte | OpcUaType_Int16
  | OpcUaType_UInt16 | OpcUaType_Int32 | OpcUaType_UInt32 | OpcUaType_Int64 | OpcUaType_UInt64
  | OpcUaType_Float | OpcUaType_Double | OpcUaType_String | OpcUaType_Other nat

record ('v, 'a) ua_access =
  ua_get :: "'v \<Rightarrow> 'a option"
  ua_set :: "'v \<Rightarrow> 'a \<Rightarrow> 'v"

record ('v, 's, 'b) ua_sdk =
  ua_type_of :: "'v \<Rightarrow> ua_type"
  ua_is_array :: "'v \<Rightarrow> bool"
  ua_bool :: "('v, byte) ua_access"
  ua_byte :: "('v, byte) ua_access"
  ua_int16 :: "('v, 16 word) ua_access"
  ua_uint16 :: "('v, 16 word) ua_access"
  ua_int32 :: "('v, 32 word) ua_access"
  ua_uint32 :: "('v, 32 word) ua_access"
  ua_int64 :: "('v, 64 word) ua_access"
  ua_uint64 :: "('v, 64 word) ua_access"
  ua_float :: "('v, f32) ua_access"
  ua_double :: "('v, f64) ua_access"
  ua_to_string :: "'v \<Rightarrow> 's"
  ua_set_string :: "'v \<Rightarrow> 's \<Rightarrow> 'v"
  ua_utf8 :: "'s \<Rightarrow> string option"
  ua_string_of :: "string \<Rightarrow> 's"
  ua_bools :: "('v, byte list) ua_access"
  ua_sbytes :: "('v, byte list) ua_access"
  ua_bytes :: "('v, byte list) ua_access"
  ua_int16s :: "('v, 16 word list) ua_access"
  ua_uint16s :: "('v, 16 word list) ua_access"
  ua_int32s :: "('v, 32 word list) ua_access"
  ua_uint32s :: "('v, 32 word list) ua_access"
  ua_int64s :: "('v, 64 word list) ua_access"
  ua_uint64s :: "('v, 64 word list) ua_access"
  ua_floats :: "('v, f32 list) ua_access"
  ua_doubles :: "('v, f64 list) ua_access"
  ua_strings :: "('v, 's list) ua_access"
  ua_byte_strings :: "('v, 'b list) ua_access"
  ua_variants :: "('v, 'v list) ua_access"
  ua_empty_string :: 's
  ua_empty_byte_string :: 'b
  ua_empty_variant :: 'v

section \<open>Copying element by element\<close>

definition copy_elements :: "'a list \<Rightarrow> 'a list \<Rightarrow> 'a list" where
  "copy_elements src dst = fold (\<lambda>i out. out[i := src ! i]) [0..<length src] dst"

lemma copy_prefix:
  "n \<le> length src \<Longrightarrow> length dst = length src \<Longrightarrow>
     fold (\<lambda>i out. out[i := src ! i]) [0..<n] dst = take n src @ drop n dst"
proof (induction n)
  case (Suc n)
  then have "fold (\<lambda>i out. out[i := src ! i]) [0..<Suc n] dst = (take n src @ drop n dst)[n := src ! n]" by simp
  also have "\<dots> = take n src @ (drop n dst)[0 := src ! n]"
    using Suc.prems by (simp add: list_update_append)
  also have "(drop n dst)[0 := src ! n] = src ! n # drop (Suc n) dst"
    using Suc.prems by (cases "drop n dst") (auto simp: drop_Suc tl_drop [symmetric])
  also have "take n src @ (src ! n # drop (Suc n) dst) = take (Suc n) src @ drop (Suc n) dst"
    using Suc.prems by (simp add: take_Suc_conv_app_nth)
  finally show ?case .
qed simp

lemma copy_elements_eq [simp]: "length dst = length src \<Longrightarrow> copy_elements src dst = src"
  unfolding copy_elements_def by (subst copy_prefix) simp_all

text \<open>
  \<open>array.create\<close> takes a 32-bit count, so the array a vector is copied into has its size
  modulo \<open>2 ^ 32\<close>; a vector that long is out of the model, an index past the array has no effect.
\<close>

definition vectorToUaVariant :: "'a \<Rightarrow> ('v, 'a list) ua_access \<Rightarrow> 'a list \<Rightarrow> 'v \<Rightarrow> 'v" where
  "vectorToUaVariant blank acc input output =
     ua_set acc output (copy_elements input (replicate (length input mod 2 ^ 32) blank))"

definition vectorToUaVariantByCopyTo :: "'a \<Rightarrow> ('v, 'a list) ua_access \<Rightarrow> 'a list \<Rightarrow> 'v \<Rightarrow> 'v" where
  "vectorToUaVariantByCopyTo blank acc input output =
     ua_set acc output (copy_elements input (replicate (length input mod 2 ^ 32) blank))"

definition uaVariantToVector :: "'a \<Rightarrow> ('v, 'a list) ua_access \<Rightarrow> 'v \<Rightarrow> 'a list option" where
  "uaVariantToVector blank acc input = (case ua_get acc input of
       None \<Rightarrow> None
     | Some array \<Rightarrow> Some (copy_elements array (replicate (length array) blank)))"

lemma vectorToUaVariant_eq [simp]:
  "length xs < 2 ^ 32 \<Longrightarrow> vectorToUaVariant b acc xs v = ua_set acc v xs"
  "length xs < 2 ^ 32 \<Longrightarrow> vectorToUaVariantByCopyTo b acc xs v = ua_set acc v xs"
  by (simp_all add: vectorToUaVariant_def vectorToUaVariantByCopyTo_def)

lemma uaVariantToVector_eq [simp]: "uaVariantToVector b acc v = ua_get acc v"
  by (simp add: uaVariantToVector_def split: option.split)

section \<open>From vectors to variants\<close>

definition convertBooleanVectorToUaVariant :: "('v, 's, 'b) ua_sdk \<Rightarrow> byte list \<Rightarrow> 'v \<Rightarrow> 'v" where
  "convertBooleanVectorToUaVariant sdk = vectorToUaVariant 0 (ua_bools sdk)"

definition convertByteVectorToUaVariant :: "('v, 's, 'b) ua_sdk \<Rightarrow> byte list \<Rightarrow> 'v \<Rightarrow> 'v" where
  "convertByteVectorToUaVariant sdk input output =
     ua_set (ua_bytes sdk) output (if 0 < length input then input else [])"

definition convertSByteVectorToUaVariant :: "('v, 's, 'b) ua_sdk \<Rightarrow> byte list \<Rightarrow> 'v \<Rightarrow> 'v" where
  "convertSByteVectorToUaVariant sdk = vectorToUaVariant 0 (ua_sbytes sdk)"

definition convertInt16VectorToUaVariant :: "('v, 's, 'b) ua_sdk \<Rightarrow> 16 word list \<Rightarrow> 'v \<Rightarrow> 'v" where
  "convertInt16VectorToUaVariant sdk = vectorToUaVariant 0 (ua_int16s sdk)"

definition convertUInt16VectorToUaVariant :: "('v, 's, 'b) ua_sdk \<Rightarrow> 16 word list \<Rightarrow> 'v \<Rightarrow> 'v" where
  "convertUInt16VectorToUaVariant sdk = vectorToUaVariant 0 (ua_uint16s sdk)"

definition convertInt32VectorToUaVariant :: "('v, 's, 'b) ua_sdk \<Rightarrow> 32 word list \<Rightarrow> 'v \<Rightarrow> 'v" where
  "convertInt32VectorToUaVariant sdk = vectorToUaVariant 0 (ua_int32s sdk)"

definition convertUInt32VectorToUaVariant :: "('v, 's, 'b) ua_sdk \<Rightarrow> 32 word list \<Rightarrow> 'v \<Rightarrow> 'v" where
  "convertUInt32VectorToUaVariant sdk = vectorToUaVariant 0 (ua_uint32s sdk)"

definition convertInt64VectorToUaVariant :: "('v, 's, 'b) ua_sdk \<Rightarrow> 64 word list \<Rightarrow> 'v \<Rightarrow> 'v" where
  "convertInt64VectorToUaVariant sdk = vectorToUaVariant 0 (ua_int64s sdk)"

definition convertUInt64VectorToUaVariant :: "('v, 's, 'b) ua_sdk \<Rightarrow> 64 word list \<Rightarrow> 'v \<Rightarrow> 'v" where
  "convertUInt64VectorToUaVariant sdk = vectorToUaVariant 0 (ua_uint64s sdk)"

definition convertFloatVectorToUaVariant :: "('v, 's, 'b) ua_sdk \<Rightarrow> f32 list \<Rightarrow> 'v \<Rightarrow> 'v" where
  "convertFloatVectorToUaVariant sdk = vectorToUaVariant 0 (ua_floats sdk)"

definition convertDoubleVectorToUaVariant :: "('v, 's, 'b) ua_sdk \<Rightarrow> f64 list \<Rightarrow> 'v \<Rightarrow> 'v" where
  "convertDoubleVectorToUaVariant sdk = vectorToUaVariant 0 (ua_doubles sdk)"

definition convertByteStringVectorToUaVariant :: "('v, 's, 'b) ua_sdk \<Rightarrow> 'b list \<Rightarrow> 'v \<Rightarrow> 'v" where
  "convertByteStringVectorToUaVariant sdk =
     vectorToUaVariantByCopyTo (ua_empty_byte_string sdk) (ua_byte_strings sdk)"

definition convertVariantVectorToUaVariant :: "('v, 's, 'b) ua_sdk \<Rightarrow> 'v list \<Rightarrow> 'v \<Rightarrow> 'v" where
  "convertVariantVectorToUaVariant sdk =
     vectorToUaVariantByCopyTo (ua_empty_variant sdk) (ua_variants sdk)"

definition convertStringVectorToUaVariant :: "('v, 's, 'b) ua_sdk \<Rightarrow> 's list \<Rightarrow> 'v \<Rightarrow> 'v" where
  "convertStringVectorToUaVariant sdk =
     vectorToUaVariantByCopyTo (ua_empty_string sdk) (ua_strings sdk)"

lemmas vector_to_variant_defs = convertBooleanVectorToUaVariant_def convertByteVectorToUaVariant_def
  convertSByteVectorToUaVariant_def convertInt16VectorToUaVariant_def convertUInt16VectorToUaVariant_def
  convertInt32VectorToUaVariant_def convertUInt32VectorToUaVariant_def convertInt64VectorToUaVariant_def
  convertUInt64VectorToUaVariant_def convertFloatVectorToUaVariant_def convertDoubleVectorToUaVariant_def
  convertByteStringVectorToUaVariant_def convertVariantVectorToUaVariant_def convertStringVectorToUaVariant_def

section \<open>From variants to vectors\<close>

definition convertUaVariantToBooleanVector :: "('v, 's, 'b) ua_sdk \<Rightarrow> 'v \<Rightarrow> byte list option" where
  "convertUaVariantToBooleanVector sdk = uaVariantToVector 0 (ua_bools sdk)"

definition convertUaVariantToByteVector :: "('v, 's, 'b) ua_sdk \<Rightarrow> 'v \<Rightarrow> byte list option" where
  "convertUaVariantToByteVector sdk input = (case ua_get (ua_bytes sdk) input of
       None \<Rightarrow> None
     | Some array \<Rightarrow> Some (copy_elements array (replicate (length array) 0)))"

definition convertUaVariantToSByteVector :: "('v, 's, 'b) ua_sdk \<Rightarrow> 'v \<Rightarrow> byte list option" where
  "convertUaVariantToSByteVector sdk = uaVariantToVector 0 (ua_sbytes sdk)"

definition convertUaVariantToInt16Vector :: "('v, 's, 'b) ua_sdk \<Rightarrow> 'v \<Rightarrow> 16 word list option" where
  "convertUaVariantToInt16Vector sdk = uaVariantToVector 0 (ua_int16s sdk)"

definition convertUaVariantToUInt16Vector :: "('v, 's, 'b) ua_sdk \<Rightarrow> 'v \<Rightarrow> 16 word list option" where
  "convertUaVariantToUInt16Vector sdk = uaVariantToVector 0 (ua_uint16s sdk)"

definition convertUaVariantToInt32Vector :: "('v, 's, 'b) ua_sdk \<Rightarrow> 'v \<Rightarrow> 32 word list option" where
  "convertUaVariantToInt32Vector sdk = uaVariantToVector 0 (ua_int32s sdk)"

definition convertUaVariantToUInt32Vector :: "('v, 's, 'b) ua_sdk \<Rightarrow> 'v \<Rightarrow> 32 word list option" where
  "convertUaVariantToUInt32Vector sdk = uaVariantToVector 0 (ua_uint32s sdk)"

definition convertUaVariantToInt64Vector :: "('v, 's, 'b) ua_sdk \<Rightarrow> 'v \<Rightarrow> 64 word list option" where
  "convertUaVariantToInt64Vector sdk = uaVariantToVector 0 (ua_int64s sdk)"

definition convertUaVariantToUInt64Vector :: "('v, 's, 'b) ua_sdk \<Rightarrow> 'v \<Rightarrow> 64 word list option" where
  "convertUaVariantToUInt64Vector sdk = uaVariantToVector 0 (ua_uint64s sdk)"

definition convertUaVariantToFloatVector :: "('v, 's, 'b) ua_sdk \<Rightarrow> 'v \<Rightarrow> f32 list option" where
  "convertUaVariantToFloatVector sdk = uaVariantToVector 0 (ua_floats sdk)"

definition convertUaVariantToDoubleVector :: "('v, 's, 'b) ua_sdk \<Rightarrow> 'v \<Rightarrow> f64 list option" where
  "convertUaVariantToDoubleVector sdk = uaVariantToVector 0 (ua_doubles sdk)"

definition convertUaVariantToStringVector :: "('v, 's, 'b) ua_sdk \<Rightarrow> 'v \<Rightarrow> 's list option" where
  "convertUaVariantToStringVector sdk = uaVariantToVector (ua_empty_string sdk) (ua_strings sdk)"

definition convertUaVariantToByteStringVector :: "('v, 's, 'b) ua_sdk \<Rightarrow> 'v \<Rightarrow> 'b list option" where
  "convertUaVariantToByteStringVector sdk =
     uaVariantToVector (ua_empty_byte_string sdk) (ua_byte_strings sdk)"

definition convertUaVariantToVariantVector :: "('v, 's, 'b) ua_sdk \<Rightarrow> 'v \<Rightarrow> 'v list option" where
  "convertUaVariantToVariantVector sdk =
     uaVariantToVector (ua_empty_variant sdk) (ua_variants sdk)"

lemmas variant_to_vector_defs = convertUaVariantToBooleanVector_def convertUaVariantToByteVector_def
  convertUaVariantToSByteVector_def convertUaVariantToInt16Vector_def convertUaVariantToUInt16Vector_def
  convertUaVariantToInt32Vector_def convertUaVariantToUInt32Vector_def convertUaVariantToInt64Vector_def
  convertUaVariantToUInt64Vector_def convertUaVariantToFloatVector_def convertUaVariantToDoubleVector_def
  convertUaVariantToStringVector_def convertUaVariantToByteStringVector_def convertUaVariantToVariantVector_def

lemma convertUaVariantToByteVector_eq [simp]:
  "convertUaVariantToByteVector sdk v = ua_get (ua_bytes sdk) v"
  by (simp add: convertUaVariantToByteVector_def split: option.split)

text \<open>\<open>c_str()\<close> of a string, and the strings the toolkit makes of it.\<close>

definition c_str :: "string \<Rightarrow> string" where
  "c_str s = takeWhile (\<lambda>c. c \<noteq> CHR 0x00) s"

definition convertStdStringsToUaStrings :: "('v, 's, 'b) ua_sdk \<Rightarrow> string list \<Rightarrow> 's list" where
  "convertStdStringsToUaStrings sdk input = map (\<lambda>x. ua_string_of sdk (c_str x)) input"

lemma c_str_no_nul [simp]: "CHR 0x00 \<notin> set s \<Longrightarrow> c_str s = s"
  by (auto simp: c_str_def takeWhile_eq_all_conv)

lemma c_str_clean [simp]: "CHR 0x00 \<notin> set (c_str s)"
  by (auto simp: c_str_def dest: set_takeWhileD)

end
