(* ===== verification/UaVariants.thy ===== *)
theory UaVariants
  imports ArrayTools WireRoundtrip
begin

text \<open>
  The two conversions between a variant of the address space and a value on the wire, the
  anonymous functions of \<open>PubSub/src/PubSubEngine.cpp\<close>. A refused conversion is \<open>None\<close>.
\<close>

section \<open>Variants to wire values\<close>

definition arrayToWireSigned :: "'w::len word list option \<Rightarrow> builtin_type \<Rightarrow> wire_value option" where
  "arrayToWireSigned converted type = (case converted of
       None \<Rightarrow> None
     | Some values \<Rightarrow> Some (makeArray type (map (\<lambda>x. makeSigned type (scast x)) values)))"

definition arrayToWireUnsigned :: "'w::len word list option \<Rightarrow> builtin_type \<Rightarrow> wire_value option" where
  "arrayToWireUnsigned converted type = (case converted of
       None \<Rightarrow> None
     | Some values \<Rightarrow> Some (makeArray type (map (\<lambda>x. makeUnsigned type (ucast x)) values)))"

definition utf8_text :: "('v, 's, 'b) ua_sdk \<Rightarrow> 's \<Rightarrow> string" where
  "utf8_text sdk s = (case ua_utf8 sdk s of None \<Rightarrow> [] | Some t \<Rightarrow> c_str t)"

definition uaArrayToWire :: "('v, 's, 'b) ua_sdk \<Rightarrow> 'v \<Rightarrow> wire_value option" where
  "uaArrayToWire sdk variant = (case ua_type_of sdk variant of
       OpcUaType_Boolean \<Rightarrow>
         (case convertUaVariantToBooleanVector sdk variant of
            None \<Rightarrow> None
          | Some values \<Rightarrow> Some (makeArray TypeBoolean (map (\<lambda>v. makeBoolean (v \<noteq> 0)) values)))
     | OpcUaType_Byte \<Rightarrow>
         (case convertUaVariantToByteVector sdk variant of
            None \<Rightarrow> None
          | Some values \<Rightarrow> Some (makeArray TypeByte (map (\<lambda>v. makeUnsigned TypeByte (ucast v)) values)))
     | OpcUaType_SByte \<Rightarrow> arrayToWireSigned (convertUaVariantToSByteVector sdk variant) TypeSByte
     | OpcUaType_Int16 \<Rightarrow> arrayToWireSigned (convertUaVariantToInt16Vector sdk variant) TypeInt16
     | OpcUaType_UInt16 \<Rightarrow> arrayToWireUnsigned (convertUaVariantToUInt16Vector sdk variant) TypeUInt16
     | OpcUaType_Int32 \<Rightarrow> arrayToWireSigned (convertUaVariantToInt32Vector sdk variant) TypeInt32
     | OpcUaType_UInt32 \<Rightarrow> arrayToWireUnsigned (convertUaVariantToUInt32Vector sdk variant) TypeUInt32
     | OpcUaType_Int64 \<Rightarrow> arrayToWireSigned (convertUaVariantToInt64Vector sdk variant) TypeInt64
     | OpcUaType_UInt64 \<Rightarrow> arrayToWireUnsigned (convertUaVariantToUInt64Vector sdk variant) TypeUInt64
     | OpcUaType_Float \<Rightarrow>
         (case convertUaVariantToFloatVector sdk variant of
            None \<Rightarrow> None
          | Some values \<Rightarrow> Some (makeArray TypeFloat (map makeFloat values)))
     | OpcUaType_Double \<Rightarrow>
         (case convertUaVariantToDoubleVector sdk variant of
            None \<Rightarrow> None
          | Some values \<Rightarrow> Some (makeArray TypeDouble (map makeDouble values)))
     | OpcUaType_String \<Rightarrow>
         (case convertUaVariantToStringVector sdk variant of
            None \<Rightarrow> None
          | Some values \<Rightarrow> Some (makeArray TypeString (map (\<lambda>s. makeString (utf8_text sdk s)) values)))
     | _ \<Rightarrow> None)"

definition uaVariantToWire :: "('v, 's, 'b) ua_sdk \<Rightarrow> 'v \<Rightarrow> wire_value option" where
  "uaVariantToWire sdk variant =
     (if ua_is_array sdk variant then uaArrayToWire sdk variant
      else case ua_type_of sdk variant of
          OpcUaType_Null \<Rightarrow> Some makeNull
        | OpcUaType_Boolean \<Rightarrow> map_option (\<lambda>v. makeBoolean (v \<noteq> 0)) (ua_get (ua_bool sdk) variant)
        | OpcUaType_Byte \<Rightarrow> map_option (\<lambda>v. makeUnsigned TypeByte (ucast v)) (ua_get (ua_byte sdk) variant)
        | OpcUaType_Int16 \<Rightarrow> map_option (\<lambda>v. makeSigned TypeInt16 (scast v)) (ua_get (ua_int16 sdk) variant)
        | OpcUaType_UInt16 \<Rightarrow> map_option (\<lambda>v. makeUnsigned TypeUInt16 (ucast v)) (ua_get (ua_uint16 sdk) variant)
        | OpcUaType_Int32 \<Rightarrow> map_option (\<lambda>v. makeSigned TypeInt32 (scast v)) (ua_get (ua_int32 sdk) variant)
        | OpcUaType_UInt32 \<Rightarrow> map_option (\<lambda>v. makeUnsigned TypeUInt32 (ucast v)) (ua_get (ua_uint32 sdk) variant)
        | OpcUaType_Int64 \<Rightarrow> map_option (\<lambda>v. makeSigned TypeInt64 v) (ua_get (ua_int64 sdk) variant)
        | OpcUaType_UInt64 \<Rightarrow> map_option (\<lambda>v. makeUnsigned TypeUInt64 v) (ua_get (ua_uint64 sdk) variant)
        | OpcUaType_Float \<Rightarrow> map_option makeFloat (ua_get (ua_float sdk) variant)
        | OpcUaType_Double \<Rightarrow> map_option makeDouble (ua_get (ua_double sdk) variant)
        | OpcUaType_String \<Rightarrow> Some (makeString (utf8_text sdk (ua_to_string sdk variant)))
        | _ \<Rightarrow> None)"

section \<open>Wire values to variants\<close>

definition wireArraySigned :: "wire_value \<Rightarrow> 'w::len word list" where
  "wireArraySigned value = map (\<lambda>e. ucast (m_int e)) (m_elements value)"

definition wireArrayUnsigned :: "wire_value \<Rightarrow> 'w::len word list" where
  "wireArrayUnsigned value = map (\<lambda>e. ucast (m_uint e)) (m_elements value)"

definition wireArrayToUa :: "('v, 's, 'b) ua_sdk \<Rightarrow> wire_value \<Rightarrow> 'v \<Rightarrow> 'v option" where
  "wireArrayToUa sdk value out = (case m_type value of
       TypeBoolean \<Rightarrow> Some (convertBooleanVectorToUaVariant sdk
                      (map (\<lambda>e. if boolValue e then 1 else 0) (m_elements value)) out)
     | TypeByte \<Rightarrow> Some (convertByteVectorToUaVariant sdk (wireArrayUnsigned value) out)
     | TypeSByte \<Rightarrow> Some (convertSByteVectorToUaVariant sdk (wireArraySigned value) out)
     | TypeInt16 \<Rightarrow> Some (convertInt16VectorToUaVariant sdk (wireArraySigned value) out)
     | TypeUInt16 \<Rightarrow> Some (convertUInt16VectorToUaVariant sdk (wireArrayUnsigned value) out)
     | TypeInt32 \<Rightarrow> Some (convertInt32VectorToUaVariant sdk (wireArraySigned value) out)
     | TypeUInt32 \<Rightarrow> Some (convertUInt32VectorToUaVariant sdk (wireArrayUnsigned value) out)
     | TypeInt64 \<Rightarrow> Some (convertInt64VectorToUaVariant sdk (wireArraySigned value) out)
     | TypeUInt64 \<Rightarrow> Some (convertUInt64VectorToUaVariant sdk (wireArrayUnsigned value) out)
     | TypeFloat \<Rightarrow> Some (convertFloatVectorToUaVariant sdk
                      (map (\<lambda>e. f64_to_f32 (m_float e)) (m_elements value)) out)
     | TypeDouble \<Rightarrow> Some (convertDoubleVectorToUaVariant sdk (map m_float (m_elements value)) out)
     | TypeString \<Rightarrow> Some (convertStringVectorToUaVariant sdk
                      (map (\<lambda>e. ua_string_of sdk (c_str (m_string e))) (m_elements value)) out)
     | _ \<Rightarrow> None)"

definition wireToUaVariant :: "('v, 's, 'b) ua_sdk \<Rightarrow> wire_value \<Rightarrow> 'v \<Rightarrow> 'v option" where
  "wireToUaVariant sdk value out =
     (if m_isArray value then wireArrayToUa sdk value out
      else case m_type value of
          TypeBoolean \<Rightarrow> Some (ua_set (ua_bool sdk) out (if boolValue value then 1 else 0))
        | TypeByte \<Rightarrow> Some (ua_set (ua_byte sdk) out (ucast (m_uint value)))
        | TypeInt16 \<Rightarrow> Some (ua_set (ua_int16 sdk) out (ucast (m_int value)))
        | TypeUInt16 \<Rightarrow> Some (ua_set (ua_uint16 sdk) out (ucast (m_uint value)))
        | TypeInt32 \<Rightarrow> Some (ua_set (ua_int32 sdk) out (ucast (m_int value)))
        | TypeUInt32 \<Rightarrow> Some (ua_set (ua_uint32 sdk) out (ucast (m_uint value)))
        | TypeInt64 \<Rightarrow> Some (ua_set (ua_int64 sdk) out (m_int value))
        | TypeUInt64 \<Rightarrow> Some (ua_set (ua_uint64 sdk) out (m_uint value))
        | TypeFloat \<Rightarrow> Some (ua_set (ua_float sdk) out (f64_to_f32 (m_float value)))
        | TypeDouble \<Rightarrow> Some (ua_set (ua_double sdk) out (m_float value))
        | TypeString \<Rightarrow> Some (ua_set_string sdk out (ua_string_of sdk (c_str (m_string value))))
        | _ \<Rightarrow> None)"

section \<open>Documented behaviour of the toolkit\<close>

text \<open>
  What the setters and getters of a variant promise: a variant that was set has the type and the
  shape of the setter and gives the value back, and a string made of a C string gives its text.
\<close>

definition access_law :: "('v, 's, 'b) ua_sdk \<Rightarrow> ('v, 'a) ua_access \<Rightarrow> ua_type \<Rightarrow> bool \<Rightarrow> bool" where
  "access_law sdk acc type arr \<longleftrightarrow> (\<forall>v x. ua_type_of sdk (ua_set acc v x) = type
     \<and> ua_is_array sdk (ua_set acc v x) = arr \<and> ua_get acc (ua_set acc v x) = Some x)"

definition scalar_laws :: "('v, 's, 'b) ua_sdk \<Rightarrow> bool" where
  "scalar_laws sdk \<longleftrightarrow> access_law sdk (ua_bool sdk) OpcUaType_Boolean False
     \<and> access_law sdk (ua_byte sdk) OpcUaType_Byte False
     \<and> access_law sdk (ua_int16 sdk) OpcUaType_Int16 False
     \<and> access_law sdk (ua_uint16 sdk) OpcUaType_UInt16 False
     \<and> access_law sdk (ua_int32 sdk) OpcUaType_Int32 False
     \<and> access_law sdk (ua_uint32 sdk) OpcUaType_UInt32 False
     \<and> access_law sdk (ua_int64 sdk) OpcUaType_Int64 False
     \<and> access_law sdk (ua_uint64 sdk) OpcUaType_UInt64 False
     \<and> access_law sdk (ua_float sdk) OpcUaType_Float False
     \<and> access_law sdk (ua_double sdk) OpcUaType_Double False
     \<and> (\<forall>v s. ua_type_of sdk (ua_set_string sdk v s) = OpcUaType_String
          \<and> \<not> ua_is_array sdk (ua_set_string sdk v s) \<and> ua_to_string sdk (ua_set_string sdk v s) = s)
     \<and> (\<forall>t. CHR 0x00 \<notin> set t \<longrightarrow> ua_utf8 sdk (ua_string_of sdk t) = Some t)"

definition array_laws :: "('v, 's, 'b) ua_sdk \<Rightarrow> bool" where
  "array_laws sdk \<longleftrightarrow> access_law sdk (ua_bools sdk) OpcUaType_Boolean True
     \<and> access_law sdk (ua_bytes sdk) OpcUaType_Byte True
     \<and> access_law sdk (ua_sbytes sdk) OpcUaType_SByte True
     \<and> access_law sdk (ua_int16s sdk) OpcUaType_Int16 True
     \<and> access_law sdk (ua_uint16s sdk) OpcUaType_UInt16 True
     \<and> access_law sdk (ua_int32s sdk) OpcUaType_Int32 True
     \<and> access_law sdk (ua_uint32s sdk) OpcUaType_UInt32 True
     \<and> access_law sdk (ua_int64s sdk) OpcUaType_Int64 True
     \<and> access_law sdk (ua_uint64s sdk) OpcUaType_UInt64 True
     \<and> access_law sdk (ua_floats sdk) OpcUaType_Float True
     \<and> access_law sdk (ua_doubles sdk) OpcUaType_Double True
     \<and> access_law sdk (ua_strings sdk) OpcUaType_String True"

definition ua_laws :: "('v, 's, 'b) ua_sdk \<Rightarrow> bool" where
  "ua_laws sdk \<longleftrightarrow> scalar_laws sdk \<and> array_laws sdk"

lemma access_lawD:
  assumes "access_law sdk acc type arr"
  shows "ua_type_of sdk (ua_set acc v x) = type" "ua_is_array sdk (ua_set acc v x) = arr"
    "ua_get acc (ua_set acc v x) = Some x"
  using assms by (auto simp: access_law_def)

lemma utf8_text_law: "scalar_laws sdk \<Longrightarrow> utf8_text sdk (ua_string_of sdk (c_str s)) = c_str s"
  by (simp add: scalar_laws_def utf8_text_def)

section \<open>Which types convert\<close>

text \<open>
  The value a receiver keeps of a wire value: strings end at their first NUL character. Scalars
  of the types \<open>SByte\<close> and \<open>DateTime\<close> are not converted although arrays of
  \<open>SByte\<close> are, and a null value is published but not received.
\<close>

fun received_scalar :: "builtin_type \<Rightarrow> bool" where
  "received_scalar t = (t \<in> {TypeBoolean, TypeByte, TypeInt16, TypeUInt16, TypeInt32, TypeUInt32,
     TypeInt64, TypeUInt64, TypeFloat, TypeDouble, TypeString})"

definition received_type :: "wire_value \<Rightarrow> bool" where
  "received_type v \<longleftrightarrow> received_scalar (m_type v) \<or> m_isArray v \<and> m_type v = TypeSByte"

definition received_element :: "wire_value \<Rightarrow> wire_value" where
  "received_element v = (if m_type v = TypeString then makeString (c_str (m_string v)) else v)"

definition received_value :: "wire_value \<Rightarrow> wire_value" where
  "received_value v = (if m_isArray v then makeArray (m_type v) (map received_element (m_elements v))
                       else received_element v)"

lemma wireToUaVariant_Some: "(\<exists>u. wireToUaVariant sdk v out = Some u) \<longleftrightarrow> received_type v"
  by (cases "m_type v") (auto simp: wireToUaVariant_def wireArrayToUa_def received_type_def)

section \<open>There and back\<close>

lemmas ucast_fits_simps = scast_ucast_fits [where 'a = 8, simplified] scast_ucast_fits [where 'a = 16, simplified]
  scast_ucast_fits [where 'a = 32, simplified] ucast_ucast_fits [where 'a = 8, simplified]
  ucast_ucast_fits [where 'a = 16, simplified] ucast_ucast_fits [where 'a = 32, simplified]

lemma scalar_back:
  assumes "scalar_laws sdk" and "scalar_ok t v" and "wireToUaVariant sdk v out = Some u"
  shows "uaVariantToWire sdk u = Some (received_element v)"
proof -
  have shape: "m_type v = t" "\<not> m_isArray v" using scalar_okD [OF assms(2)] by simp_all
  note laws = assms(1) [unfolded scalar_laws_def]
  show ?thesis
    using assms(2,3) shape laws utf8_text_law [OF assms(1), of "m_string v"]
    by (cases t) (auto simp: scalar_ok_def wireToUaVariant_def uaVariantToWire_def access_law_def
        received_element_def ucast_fits_simps makeBoolean_def boolValue_def)
qed

lemma makeArray_parts [simp]:
  "m_type (makeArray t es) = t" "m_isArray (makeArray t es)" "m_elements (makeArray t es) = es"
  by (simp_all add: makeArray_def)

lemma received_element_ok:
  "scalar_ok t e \<Longrightarrow> received_element e = (if t = TypeString then makeString (c_str (m_string e)) else e)"
  by (simp add: received_element_def scalar_okD(1))

text \<open>One element of an array, taken apart and put together by the conversions of its type.\<close>

lemma element_back:
  "scalar_ok TypeBoolean e \<Longrightarrow> boolValue e \<Longrightarrow> makeBoolean True = received_element e"
  "scalar_ok TypeBoolean e \<Longrightarrow> \<not> boolValue e \<Longrightarrow> makeBoolean False = received_element e"
  "scalar_ok TypeByte e \<Longrightarrow> makeUnsigned TypeByte (ucast (ucast (m_uint e) :: 8 word)) = received_element e"
  "scalar_ok TypeSByte e \<Longrightarrow> makeSigned TypeSByte (scast (ucast (m_int e) :: 8 word)) = received_element e"
  "scalar_ok TypeInt16 e \<Longrightarrow> makeSigned TypeInt16 (scast (ucast (m_int e) :: 16 word)) = received_element e"
  "scalar_ok TypeUInt16 e \<Longrightarrow> makeUnsigned TypeUInt16 (ucast (ucast (m_uint e) :: 16 word)) = received_element e"
  "scalar_ok TypeInt32 e \<Longrightarrow> makeSigned TypeInt32 (scast (ucast (m_int e) :: 32 word)) = received_element e"
  "scalar_ok TypeUInt32 e \<Longrightarrow> makeUnsigned TypeUInt32 (ucast (ucast (m_uint e) :: 32 word)) = received_element e"
  "scalar_ok TypeInt64 e \<Longrightarrow> makeSigned TypeInt64 (m_int e) = received_element e"
  "scalar_ok TypeUInt64 e \<Longrightarrow> makeUnsigned TypeUInt64 (m_uint e) = received_element e"
  "scalar_ok TypeFloat e \<Longrightarrow> makeFloat (f64_to_f32 (m_float e)) = received_element e"
  "scalar_ok TypeDouble e \<Longrightarrow> makeDouble (m_float e) = received_element e"
  "scalar_ok TypeString e \<Longrightarrow> makeString (c_str (m_string e)) = received_element e"
  by (simp_all only: received_element_ok builtin_type.distinct if_False refl if_True)
     (auto simp: scalar_ok_def ucast_fits_simps boolValue_def makeBoolean_def)

lemma array_lawD:
  assumes "array_laws sdk"
  shows "access_law sdk (ua_bools sdk) OpcUaType_Boolean True" "access_law sdk (ua_bytes sdk) OpcUaType_Byte True"
    "access_law sdk (ua_sbytes sdk) OpcUaType_SByte True" "access_law sdk (ua_int16s sdk) OpcUaType_Int16 True"
    "access_law sdk (ua_uint16s sdk) OpcUaType_UInt16 True" "access_law sdk (ua_int32s sdk) OpcUaType_Int32 True"
    "access_law sdk (ua_uint32s sdk) OpcUaType_UInt32 True" "access_law sdk (ua_int64s sdk) OpcUaType_Int64 True"
    "access_law sdk (ua_uint64s sdk) OpcUaType_UInt64 True" "access_law sdk (ua_floats sdk) OpcUaType_Float True"
    "access_law sdk (ua_doubles sdk) OpcUaType_Double True" "access_law sdk (ua_strings sdk) OpcUaType_String True"
  using assms by (simp_all only: array_laws_def)

lemma array_back:
  assumes laws: "ua_laws sdk" and es: "\<And>e. e \<in> set es \<Longrightarrow> scalar_ok t e" and len: "length es < 2 ^ 32"
    and conv: "wireToUaVariant sdk (makeArray t es) out = Some u"
  shows "uaVariantToWire sdk u = Some (makeArray t (map received_element es))"
proof -
  have arrays: "array_laws sdk" using laws by (simp add: ua_laws_def)
  note stored = array_lawD [OF arrays, THEN access_lawD(1)] array_lawD [OF arrays, THEN access_lawD(2)]
    array_lawD [OF arrays, THEN access_lawD(3)]
  have utf8: "utf8_text sdk (ua_string_of sdk (c_str s)) = c_str s" for s
    using laws by (simp add: ua_laws_def utf8_text_law)
  show ?thesis
    using conv es len
    by (cases t)
       (simp_all add: wireToUaVariant_def wireArrayToUa_def, auto simp: uaVariantToWire_def uaArrayToWire_def stored
          vector_to_variant_defs variant_to_vector_defs arrayToWireSigned_def arrayToWireUnsigned_def
          wireArraySigned_def wireArrayUnsigned_def utf8
          intro!: arg_cong [where f = "makeArray _"] map_cong [OF refl] element_back)
qed

lemma variant_back:
  assumes "ua_laws sdk" and "wire_ok v"
  shows "if received_type v
         then \<exists>u. wireToUaVariant sdk v out = Some u \<and> uaVariantToWire sdk u = Some (received_value v)
         else wireToUaVariant sdk v out = None"
proof (cases "received_type v")
  case True
  then obtain u where u: "wireToUaVariant sdk v out = Some u" using wireToUaVariant_Some [of sdk v out] by blast
  have "uaVariantToWire sdk u = Some (received_value v)"
  proof (cases "m_isArray v")
    case arr: True
    then obtain t es where v: "v = makeArray t es" and es: "length es \<le> 1000000" "\<And>e. e \<in> set es \<Longrightarrow> scalar_ok t e"
      using assms(2) by (auto simp: wire_ok_def)
    show ?thesis using array_back [OF assms(1) es(2)] es(1) u by (simp add: v received_value_def)
  next
    case False
    then show ?thesis using scalar_back [of sdk _ v] assms u by (simp add: wire_ok_def ua_laws_def received_value_def)
  qed
  with True u show ?thesis by simp
next
  case False
  then show ?thesis using wireToUaVariant_Some [of sdk v out] by (cases "wireToUaVariant sdk v out") auto
qed

section \<open>Properties\<close>

text \<open>
  C11: a value of the wire is stored in a variable exactly when it is an array or a scalar of the
  received types; the publisher then sends back the same value, with every string cut at its
  first NUL character.
\<close>

theorem variant_roundtrip:
  assumes "ua_laws sdk" and "wire_ok v"
  shows "if received_type v
         then \<exists>u. wireToUaVariant sdk v out = Some u \<and> uaVariantToWire sdk u = Some (received_value v)
         else wireToUaVariant sdk v out = None"
  using assms by (rule variant_back)

section \<open>Witness\<close>

text \<open>A toolkit whose variants hold a type, a shape, numbers and texts.\<close>

datatype sample_variant = SampleVariant ua_type bool "nat list" "string list"

definition sample_set :: "ua_type \<Rightarrow> bool \<Rightarrow> sample_variant \<Rightarrow> nat list \<Rightarrow> string list \<Rightarrow> sample_variant" where
  "sample_set type arr v ns ts = SampleVariant type arr ns ts"

definition sample_scalar :: "ua_type \<Rightarrow> (sample_variant, 'w::len word) ua_access" where
  "sample_scalar type = \<lparr>ua_get = \<lambda>v. case v of SampleVariant t arr ns ts \<Rightarrow>
       if t = type \<and> \<not> arr \<and> ns \<noteq> [] then Some (word_of_nat (hd ns)) else None,
     ua_set = \<lambda>v x. SampleVariant type False [unat x] []\<rparr>"

definition sample_array :: "ua_type \<Rightarrow> (sample_variant, 'w::len word list) ua_access" where
  "sample_array type = \<lparr>ua_get = \<lambda>v. case v of SampleVariant t arr ns ts \<Rightarrow>
       if t = type \<and> arr then Some (map word_of_nat ns) else None,
     ua_set = \<lambda>v xs. SampleVariant type True (map unat xs) []\<rparr>"

definition sample_texts :: "ua_type \<Rightarrow> (sample_variant, string list) ua_access" where
  "sample_texts type = \<lparr>ua_get = \<lambda>v. case v of SampleVariant t arr ns ts \<Rightarrow>
       if t = type \<and> arr then Some ts else None,
     ua_set = \<lambda>v xs. SampleVariant type True [] xs\<rparr>"

definition sample_sdk :: "(sample_variant, string, string) ua_sdk" where
  "sample_sdk = \<lparr>ua_type_of = \<lambda>v. case v of SampleVariant t arr ns ts \<Rightarrow> t,
     ua_is_array = \<lambda>v. case v of SampleVariant t arr ns ts \<Rightarrow> arr,
     ua_bool = sample_scalar OpcUaType_Boolean, ua_byte = sample_scalar OpcUaType_Byte,
     ua_int16 = sample_scalar OpcUaType_Int16, ua_uint16 = sample_scalar OpcUaType_UInt16,
     ua_int32 = sample_scalar OpcUaType_Int32, ua_uint32 = sample_scalar OpcUaType_UInt32,
     ua_int64 = sample_scalar OpcUaType_Int64, ua_uint64 = sample_scalar OpcUaType_UInt64,
     ua_float = sample_scalar OpcUaType_Float, ua_double = sample_scalar OpcUaType_Double,
     ua_to_string = \<lambda>v. case v of SampleVariant t arr ns ts \<Rightarrow> concat ts,
     ua_set_string = \<lambda>v s. SampleVariant OpcUaType_String False [] [s],
     ua_utf8 = Some, ua_string_of = id,
     ua_bools = sample_array OpcUaType_Boolean, ua_sbytes = sample_array OpcUaType_SByte,
     ua_bytes = sample_array OpcUaType_Byte,
     ua_int16s = sample_array OpcUaType_Int16, ua_uint16s = sample_array OpcUaType_UInt16,
     ua_int32s = sample_array OpcUaType_Int32, ua_uint32s = sample_array OpcUaType_UInt32,
     ua_int64s = sample_array OpcUaType_Int64, ua_uint64s = sample_array OpcUaType_UInt64,
     ua_floats = sample_array OpcUaType_Float, ua_doubles = sample_array OpcUaType_Double,
     ua_strings = sample_texts OpcUaType_String, ua_byte_strings = sample_texts (OpcUaType_Other 0),
     ua_variants = \<lparr>ua_get = \<lambda>v. None, ua_set = \<lambda>v xs. v\<rparr>,
     ua_empty_string = [], ua_empty_byte_string = [],
     ua_empty_variant = SampleVariant OpcUaType_Null False [] []\<rparr>"

lemma sample_access:
  "ua_type_of sample_sdk (SampleVariant t arr ns ts) = t"
  "ua_is_array sample_sdk (SampleVariant t arr ns ts) = arr"
  "access_law sample_sdk (sample_scalar type :: (sample_variant, 'w::len word) ua_access) type False"
  "access_law sample_sdk (sample_array type :: (sample_variant, 'w::len word list) ua_access) type True"
  "access_law sample_sdk (sample_texts type) type True"
  by (simp_all add: access_law_def sample_sdk_def sample_scalar_def sample_array_def sample_texts_def
      comp_def)

lemma sample_sdk_laws: "ua_laws sample_sdk"
proof -
  note laws = sample_access [unfolded sample_sdk_def]
  have "scalar_laws sample_sdk"
    unfolding scalar_laws_def by (simp add: laws sample_sdk_def)
  moreover have "array_laws sample_sdk"
    unfolding array_laws_def by (simp add: laws sample_sdk_def)
  ultimately show ?thesis by (simp add: ua_laws_def)
qed

theorem variant_roundtrip_witness:
  "\<exists>u. wireToUaVariant sample_sdk (makeArray TypeInt16 [makeSigned TypeInt16 (- 3)]) (ua_empty_variant sample_sdk) = Some u
      \<and> uaVariantToWire sample_sdk u = Some (makeArray TypeInt16 [makeSigned TypeInt16 (- 3)])"
proof -
  let ?v = "makeArray TypeInt16 [makeSigned TypeInt16 (- 3)]"
  have "wire_ok ?v"
    by (simp add: wire_ok_def scalar_ok_def makeSigned_def code_ok_def builtin_of_code_def fits_signed_def)
  moreover have "received_type ?v" "received_value ?v = ?v"
    by (simp_all add: received_type_def received_value_def received_element_def makeSigned_def)
  ultimately show ?thesis using variant_roundtrip [OF sample_sdk_laws, of ?v] by simp
qed

end
