(* ===== verification/Effects.thy ===== *)
theory Effects
  imports Prelude "HOL-Library.AList"
begin

text \<open>
  Operations on mutable state that may throw. What the operation changed before it threw stays
  changed, so the state is part of both outcomes. The loop combinator stops at the first body
  that throws. A \<open>std::map\<close> is an association list with distinct keys; its order is not
  observable in the components modelled here.
\<close>

section \<open>State and exceptions\<close>

type_synonym ('s, 'r) action = "'s \<Rightarrow> 's \<times> 'r result"

definition act_return :: "'r \<Rightarrow> ('s, 'r) action" where
  "act_return x = (\<lambda>s. (s, Inr x))"

definition act_throw :: "string \<Rightarrow> ('s, 'r) action" where
  "act_throw e = (\<lambda>s. (s, Inl e))"

definition act_get :: "('s, 's) action" where
  "act_get = (\<lambda>s. (s, Inr s))"

definition act_modify :: "('s \<Rightarrow> 's) \<Rightarrow> ('s, unit) action" where
  "act_modify f = (\<lambda>s. (f s, Inr ()))"

definition act_lift :: "'r result \<Rightarrow> ('s, 'r) action" where
  "act_lift r = (\<lambda>s. (s, r))"

definition act_bind :: "('s, 'a) action \<Rightarrow> ('a \<Rightarrow> ('s, 'b) action) \<Rightarrow> ('s, 'b) action" where
  "act_bind m f = (\<lambda>s. case m s of (s', Inl e) \<Rightarrow> (s', Inl e) | (s', Inr x) \<Rightarrow> f x s')"

fun act_for :: "('a \<Rightarrow> ('s, unit) action) \<Rightarrow> 'a list \<Rightarrow> ('s, unit) action" where
  "act_for body [] = act_return ()"
| "act_for body (x # xs) = act_bind (body x) (\<lambda>_. act_for body xs)"

lemma act_simps [simp]:
  "act_return x s = (s, Inr x)"
  "act_throw e s = (s, Inl e)"
  "act_get s = (s, Inr s)"
  "act_modify f s = (f s, Inr ())"
  "act_lift r s = (s, r)"
  by (simp_all add: act_return_def act_throw_def act_get_def act_modify_def act_lift_def)

lemma act_bind_simps [simp]:
  "act_bind act_get f s = f s s"
  "act_bind (act_throw e) f s = (s, Inl e)"
  "act_bind (act_modify g) h s = h () (g s)"
  "act_bind (act_return x) f s = f x s"
  by (simp_all add: act_bind_def)

lemma act_bind_eq:
  "m s = (s', Inl e) \<Longrightarrow> act_bind m f s = (s', Inl e)"
  "m s = (s', Inr x) \<Longrightarrow> act_bind m f s = f x s'"
  by (simp_all add: act_bind_def)

lemma act_bind_Inr_iff:
  "act_bind m f s = (s', Inr y) \<longleftrightarrow> (\<exists>t x. m s = (t, Inr x) \<and> f x t = (s', Inr y))"
  by (cases "m s") (auto simp: act_bind_def split: sum.splits)

lemma act_bind_Inl_iff:
  "act_bind m f s = (s', Inl e) \<longleftrightarrow>
     m s = (s', Inl e) \<or> (\<exists>t x. m s = (t, Inr x) \<and> f x t = (s', Inl e))"
  by (cases "m s") (auto simp: act_bind_def split: sum.splits)

text \<open>Every outcome of an action keeps a property of the state.\<close>

definition act_keeps :: "('s \<Rightarrow> bool) \<Rightarrow> ('s, 'r) action \<Rightarrow> bool" where
  "act_keeps I m \<longleftrightarrow> (\<forall>s. I s \<longrightarrow> I (fst (m s)))"

text \<open>Every successful outcome does.\<close>

definition act_delivers :: "('s \<Rightarrow> bool) \<Rightarrow> ('s, 'r) action \<Rightarrow> bool" where
  "act_delivers I m \<longleftrightarrow> (\<forall>s s' x. I s \<longrightarrow> m s = (s', Inr x) \<longrightarrow> I s')"

lemma act_deliversD: "act_delivers I m \<Longrightarrow> I s \<Longrightarrow> m s = (s', Inr x) \<Longrightarrow> I s'"
  by (auto simp: act_delivers_def)

lemma act_delivers_bind:
  "act_delivers I m \<Longrightarrow> (\<And>x. act_delivers I (f x)) \<Longrightarrow> act_delivers I (act_bind m f)"
  unfolding act_delivers_def act_bind_Inr_iff by blast

lemma act_delivers_for:
  "(\<And>x. x \<in> set xs \<Longrightarrow> act_delivers I (body x)) \<Longrightarrow> act_delivers I (act_for body xs)"
proof (induction xs)
  case Nil
  show ?case by (simp add: act_delivers_def)
next
  case (Cons x xs)
  have "act_delivers I (body x)" "act_delivers I (act_for body xs)" using Cons by simp_all
  then show ?case unfolding act_for.simps by (rule act_delivers_bind)
qed

text \<open>
  Every outcome, an exception or a value, is related to the state before by a preorder that the
  parts of the action respect.
\<close>

definition act_moves :: "('s \<Rightarrow> 's \<Rightarrow> bool) \<Rightarrow> ('s, 'r) action \<Rightarrow> bool" where
  "act_moves R m \<longleftrightarrow> (\<forall>s. R s (fst (m s)))"

lemma act_movesD: "act_moves R m \<Longrightarrow> m s = (s', r) \<Longrightarrow> R s s'"
  by (metis act_moves_def fst_conv)

lemma act_moves_simple:
  assumes "reflp R"
  shows "act_moves R (act_return x)" and "act_moves R (act_throw e)" and "act_moves R act_get"
    and "act_moves R (act_lift r)"
  using assms by (simp_all add: act_moves_def reflpD)

lemma act_moves_modify: "(\<And>s. R s (f s)) \<Longrightarrow> act_moves R (act_modify f)"
  by (simp add: act_moves_def)

lemma act_moves_bind:
  assumes "transp R" and "act_moves R m" and "\<And>x. act_moves R (f x)"
  shows "act_moves R (act_bind m f)"
  unfolding act_moves_def
proof
  fix s
  obtain s' r where m: "m s = (s', r)" by fastforce
  have "R s s'" using assms(2) m by (rule act_movesD)
  moreover have "R s' (fst (f x s'))" for x using assms(3) [of x] by (simp add: act_moves_def)
  ultimately show "R s (fst (act_bind m f s))"
    using transpD [OF assms(1)] by (cases r) (auto simp: act_bind_def m)
qed

lemma act_moves_for:
  assumes "reflp R" and "transp R" and "\<And>x. act_moves R (body x)"
  shows "act_moves R (act_for body xs)"
proof (induction xs)
  case Nil
  show ?case unfolding act_for.simps using assms(1) by (rule act_moves_simple)
next
  case (Cons x xs)
  then show ?case unfolding act_for.simps by (intro act_moves_bind assms)
qed

text \<open>An action that throws has changed nothing.\<close>

definition act_atomic :: "('s, 'r) action \<Rightarrow> bool" where
  "act_atomic m \<longleftrightarrow> (\<forall>s s' e. m s = (s', Inl e) \<longrightarrow> s' = s)"

lemma act_atomicD: "act_atomic m \<Longrightarrow> m s = (s', Inl e) \<Longrightarrow> s' = s"
  by (auto simp: act_atomic_def)

section \<open>Association lists with distinct keys\<close>

abbreviation keys :: "('k \<times> 'v) list \<Rightarrow> 'k list" where
  "keys m \<equiv> map fst m"

lemma map_of_filter_keys:
  "distinct (keys m) \<Longrightarrow> map_of (filter P m) k = (case map_of m k of None \<Rightarrow> None
     | Some v \<Rightarrow> if P (k, v) then Some v else None)"
  by (induction m) (auto simp: map_of_eq_None_iff dest: map_of_SomeD split: option.splits)

lemma distinct_keys_filter: "distinct (keys m) \<Longrightarrow> distinct (keys (filter P m))"
  by (induction m) auto

lemma alist_all_map_of:
  "distinct (keys m) \<Longrightarrow> (\<forall>(k, v) \<in> set m. P k v) \<longleftrightarrow> (\<forall>k v. map_of m k = Some v \<longrightarrow> P k v)"
  by (auto simp: map_of_eq_Some_iff)

lemma alist_update_new: "k \<notin> set (keys m) \<Longrightarrow> AList.update k v m = m @ [(k, v)]"
  by (induction m) auto

lemma alist_delete_filter: "AList.delete k m = filter (\<lambda>e. fst e \<noteq> k) m"
  by (simp add: AList.delete_eq case_prod_unfold eq_commute [of k])

lemma alist_delete_new: "k \<notin> set (keys m) \<Longrightarrow> AList.delete k (m @ [(k, v)]) = m"
  by (induction m) auto

lemma alist_update_same: "map_of m k = Some v \<Longrightarrow> AList.update k v m = m"
  by (induction m) (auto split: if_splits)

end
