(* ===== verification/PubSubEngine.thy ===== *)
theory PubSubEngine
  imports UaVariants PubSubConfiguration Effects
begin

text \<open>
  The Pub/Sub engine (\<open>PubSub/src/PubSubEngine.cpp\<close>, \<open>PubSub/include/PubSubEngine.h\<close>): its
  runtime objects, the dynamic interface, publication and reception. The engine confines its
  state to one io thread and serializes the interface by a mutex, so an operation is one action
  on the state. A variable of the address space is a reference of type \<open>'p\<close>, a first-data callback
  one of type \<open>'c\<close>; what they do to the world \<open>'a\<close> is the parameter \<open>world_ops\<close>. Whether a
  socket can be made is the parameter \<open>udp_ops\<close>: the message of the exception, if any.
\<close>

section \<open>Parameters\<close>

record ('a, 'p, 'c, 'v) world_ops =
  w_value :: "'a \<Rightarrow> 'p \<Rightarrow> 'v option"
  w_setValue :: "'a \<Rightarrow> 'p \<Rightarrow> 'v \<Rightarrow> 'a"
  w_callback :: "'a \<Rightarrow> 'c \<Rightarrow> 'a \<times> bool"

record udp_ops =
  udp_transmitter_error :: "string \<Rightarrow> 16 word \<Rightarrow> byte \<Rightarrow> bool \<Rightarrow> string option"
  udp_receiver_error :: "string \<Rightarrow> 16 word \<Rightarrow> string option"

text \<open>A node of the address space: a cache variable, or another node.\<close>

datatype 'p node = CacheVariable 'p | OtherNode

section \<open>State\<close>

record 'p dynamic_field =
  dyn_address :: string
  dyn_variable :: 'p

record 'p dynamic_writer_group =
  dwg_id :: "16 word"
  dwg_dataSetWriterId :: "16 word"
  dwg_publishingIntervalMs :: f64
  dwg_fields :: "'p dynamic_field list"
  dwg_host :: string
  dwg_port :: "16 word"
  dwg_ttl :: byte
  dwg_loopback :: bool

record ('p, 'c) dynamic_reader =
  dr_publisherIdType :: publisher_id_type
  dr_publisherId :: "64 word"
  dr_writerGroupId :: "16 word"
  dr_dataSetWriterId :: "16 word"
  dr_targets :: "'p dynamic_field list"
  dr_host :: string
  dr_port :: "16 word"
  dr_onFirstData :: "'c option"

record 'p writer_runtime =
  wr_config :: data_set_writer_config
  wr_sequenceNumber :: "16 word"
  wr_variables :: "'p list"

record udp_transmitter =
  tx_host :: string
  tx_port :: "16 word"
  tx_ttl :: byte
  tx_loopback :: bool

record 'p writer_group_runtime =
  gr_config :: writer_group_config
  gr_sequenceNumber :: "16 word"
  gr_publisherIdType :: publisher_id_type
  gr_publisherId :: "64 word"
  gr_ownerTag :: string
  gr_stopped :: bool
  gr_transmitter :: udp_transmitter
  gr_writers :: "'p writer_runtime list"

record ('p, 'c) reader_runtime =
  rr_config :: data_set_reader_config
  rr_ownerTag :: string
  rr_host :: string
  rr_port :: "16 word"
  rr_targets :: "'p list"
  rr_onFirstData :: "'c option"
  rr_firstDataSignalled :: bool
  rr_dataSeen :: bool

record receiver_entry =
  re_armed :: bool
  re_useCount :: nat

type_synonym receiver_key = "string \<times> 16 word"
type_synonym reader_key = "64 word \<times> 16 word \<times> 16 word"

text \<open>
  The writer groups are shared objects: a container of the engine and the pending timer handlers
  refer to them by number. \<open>en_timers\<close> lists the outstanding waits; a cancelled wait stays in it
  until its handler has run.
\<close>

record ('p, 'c) engine =
  en_staged :: "pubsub_configuration option"
  en_heap :: "nat \<Rightarrow> 'p writer_group_runtime option"
  en_next :: nat
  en_writerGroups :: "nat list"
  en_timers :: "nat list"
  en_receivers :: "(receiver_key \<times> receiver_entry) list"
  en_readers :: "(reader_key \<times> ('p, 'c) reader_runtime) list"
  en_running :: bool

definition new_engine :: "('p, 'c) engine" where
  "new_engine = \<lparr>en_staged = None, en_heap = Map.empty, en_next = 0, en_writerGroups = [], en_timers = [],
     en_receivers = [], en_readers = [], en_running = False\<rparr>"

abbreviation group_at :: "('p, 'c) engine \<Rightarrow> nat \<Rightarrow> 'p writer_group_runtime" where
  "group_at s g \<equiv> the (en_heap s g)"

section \<open>Starting\<close>

definition stageConfiguration :: "pubsub_configuration \<Rightarrow> (('p, 'c) engine, unit) action" where
  "stageConfiguration configuration = act_bind act_get (\<lambda>s.
     if en_running s then act_throw ''PubSub: engine is already running''
     else act_modify (\<lambda>s. s\<lparr>en_staged := Some configuration\<rparr>))"

definition startIoThread :: "(('p, 'c) engine, unit) action" where
  "startIoThread = act_modify (\<lambda>s. s\<lparr>en_running := True\<rparr>)"

definition ensureStarted :: "(('p, 'c) engine, unit) action" where
  "ensureStarted = act_bind act_get (\<lambda>s.
     if en_running s then act_return ()
     else if en_staged s \<noteq> None
     then act_throw ''PubSub: ensureStarted called while a configuration is staged but not started''
     else startIoThread)"

text \<open>A new wait of the group's timer.\<close>

definition scheduleGroup :: "nat \<Rightarrow> ('p, 'c) engine \<Rightarrow> ('p, 'c) engine" where
  "scheduleGroup g s = s\<lparr>en_timers := en_timers s @ [g]\<rparr>"

definition acquireReceiver :: "udp_ops \<Rightarrow> string \<Rightarrow> 16 word \<Rightarrow> bool \<Rightarrow> (('p, 'c) engine, unit) action" where
  "acquireReceiver udp host port armImmediately = act_bind act_get (\<lambda>s.
     case map_of (en_receivers s) (host, port) of
       Some entry \<Rightarrow> act_modify (\<lambda>s. s\<lparr>en_receivers :=
         AList.update (host, port) (entry\<lparr>re_useCount := re_useCount entry + 1\<rparr>) (en_receivers s)\<rparr>)
     | None \<Rightarrow> (case udp_receiver_error udp host port of
         Some e \<Rightarrow> act_throw e
       | None \<Rightarrow> act_modify (\<lambda>s. s\<lparr>en_receivers :=
           AList.update (host, port) \<lparr>re_armed = armImmediately, re_useCount = 1\<rparr> (en_receivers s)\<rparr>)))"

definition releaseReceiver :: "string \<Rightarrow> 16 word \<Rightarrow> (receiver_key \<times> receiver_entry) list
    \<Rightarrow> (receiver_key \<times> receiver_entry) list" where
  "releaseReceiver host port rs = (case map_of rs (host, port) of
       None \<Rightarrow> rs
     | Some entry \<Rightarrow>
         (let entry' = entry\<lparr>re_useCount := re_useCount entry - 1\<rparr> in
          if re_useCount entry' = 0 then AList.delete (host, port) rs
          else AList.update (host, port) entry' rs))"

definition resolveVariable :: "(string \<Rightarrow> 'p node option) \<Rightarrow> string \<Rightarrow> 'p result" where
  "resolveVariable nodes address = (case nodes address of
       None \<Rightarrow> Inl (''PubSub: address '' @ quoted address @ '' does not exist in the address space'')
     | Some OtherNode \<Rightarrow> Inl (''PubSub: address '' @ quoted address @ '' is not a cache variable'')
     | Some (CacheVariable p) \<Rightarrow> Inr p)"

definition config_reader_key :: "data_set_reader_config \<Rightarrow> reader_key" where
  "config_reader_key c = (drc_publisherId c, drc_writerGroupId c, drc_dataSetWriterId c)"

text \<open>A group enters the container and the heap at once, with no wait on its timer yet.\<close>

definition commit_group :: "'p writer_group_runtime \<Rightarrow> ('p, 'c) engine \<Rightarrow> ('p, 'c) engine" where
  "commit_group grp s = s\<lparr>en_heap := (en_heap s)(en_next s \<mapsto> grp), en_next := en_next s + 1,
     en_writerGroups := en_writerGroups s @ [en_next s]\<rparr>"

definition resolve_writer :: "(string \<Rightarrow> 'p node option) \<Rightarrow> data_set_writer_config \<Rightarrow> 'p writer_runtime result" where
  "resolve_writer nodes config =
     res_bind (res_map (\<lambda>f. resolveVariable nodes (fc_address f)) (dwc_fields config)) (\<lambda>variables.
       Inr \<lparr>wr_config = config, wr_sequenceNumber = 0, wr_variables = variables\<rparr>)"

definition build_group :: "udp_ops \<Rightarrow> (string \<Rightarrow> 'p node option) \<Rightarrow> pubsub_configuration \<Rightarrow> connection_config
    \<Rightarrow> writer_group_config \<Rightarrow> (('p, 'c) engine, unit) action" where
  "build_group udp nodes configuration connection config =
     (case udp_transmitter_error udp (cc_host connection) (cc_port connection) (cc_ttl connection)
             (cc_loopback connection) of
        Some e \<Rightarrow> act_throw e
      | None \<Rightarrow> act_bind (act_lift (res_map (resolve_writer nodes) (wgc_writers config))) (\<lambda>writers.
          act_modify (commit_group \<lparr>gr_config = config, gr_sequenceNumber = 0,
            gr_publisherIdType = pc_publisherIdType configuration, gr_publisherId = pc_publisherId configuration,
            gr_ownerTag = [], gr_stopped = False,
            gr_transmitter = \<lparr>tx_host = cc_host connection, tx_port = cc_port connection,
              tx_ttl = cc_ttl connection, tx_loopback = cc_loopback connection\<rparr>,
            gr_writers = writers\<rparr>)))"

definition build_reader :: "udp_ops \<Rightarrow> (string \<Rightarrow> 'p node option) \<Rightarrow> connection_config \<Rightarrow> data_set_reader_config
    \<Rightarrow> (('p, 'c) engine, unit) action" where
  "build_reader udp nodes connection config =
     act_bind (act_lift (res_map (\<lambda>f. resolveVariable nodes (fc_address f)) (drc_targets config))) (\<lambda>targets.
     act_bind act_get (\<lambda>s.
       if config_reader_key config \<in> set (keys (en_readers s))
       then act_throw ''PubSub: duplicate DataSetReader (publisherId/writerGroupId/dataSetWriterId)''
       else act_bind (act_modify (\<lambda>s. s\<lparr>en_readers := AList.update (config_reader_key config)
              \<lparr>rr_config = config, rr_ownerTag = [], rr_host = cc_host connection, rr_port = cc_port connection,
               rr_targets = targets, rr_onFirstData = None, rr_firstDataSignalled = False, rr_dataSeen = False\<rparr>
              (en_readers s)\<rparr>))
            (\<lambda>_. acquireReceiver udp (cc_host connection) (cc_port connection) False)))"

definition build_connection :: "udp_ops \<Rightarrow> (string \<Rightarrow> 'p node option) \<Rightarrow> pubsub_configuration \<Rightarrow> connection_config
    \<Rightarrow> (('p, 'c) engine, unit) action" where
  "build_connection udp nodes configuration connection =
     act_bind (act_for (build_group udp nodes configuration connection) (cc_writerGroups connection))
       (\<lambda>_. act_for (build_reader udp nodes connection) (cc_readers connection))"

definition buildRuntimes :: "udp_ops \<Rightarrow> (string \<Rightarrow> 'p node option) \<Rightarrow> pubsub_configuration
    \<Rightarrow> (('p, 'c) engine, unit) action" where
  "buildRuntimes udp nodes configuration =
     act_for (build_connection udp nodes configuration) (pc_connections configuration)"

definition start_all :: "('p, 'c) engine \<Rightarrow> ('p, 'c) engine" where
  "start_all s = (fold scheduleGroup (en_writerGroups s) s)
     \<lparr>en_receivers := map (\<lambda>(k, e). (k, e\<lparr>re_armed := True\<rparr>)) (en_receivers s)\<rparr>"

definition startIfStaged :: "udp_ops \<Rightarrow> (string \<Rightarrow> 'p node option) \<Rightarrow> (('p, 'c) engine, unit) action" where
  "startIfStaged udp nodes = act_bind act_get (\<lambda>s.
     case en_staged s of
       None \<Rightarrow> act_return ()
     | Some configuration \<Rightarrow>
         if en_running s then act_throw ''PubSub: engine is already running''
         else act_bind (act_modify (\<lambda>s. s\<lparr>en_staged := None\<rparr>)) (\<lambda>_.
              act_bind (buildRuntimes udp nodes configuration) (\<lambda>_.
              act_bind (act_modify start_all) (\<lambda>_. startIoThread))))"

section \<open>The dynamic interface\<close>

definition same_coordinates :: "publisher_id_type \<Rightarrow> 64 word \<Rightarrow> 16 word \<Rightarrow> 'p writer_group_runtime \<Rightarrow> bool" where
  "same_coordinates type publisherId i grp \<longleftrightarrow>
     wgc_id (gr_config grp) = i \<and> gr_publisherId grp = publisherId \<and> gr_publisherIdType grp = type"

definition dynamic_writer :: "'p dynamic_writer_group \<Rightarrow> 'p writer_runtime" where
  "dynamic_writer grp = \<lparr>wr_config = \<lparr>dwc_id = dwg_dataSetWriterId grp,
       dwc_fields = map (\<lambda>f. \<lparr>fc_address = dyn_address f\<rparr>) (dwg_fields grp)\<rparr>,
     wr_sequenceNumber = 0, wr_variables = map dyn_variable (dwg_fields grp)\<rparr>"

definition dynamic_group :: "string \<Rightarrow> publisher_id_type \<Rightarrow> 64 word \<Rightarrow> 'p dynamic_writer_group
    \<Rightarrow> 'p writer_group_runtime" where
  "dynamic_group ownerTag type publisherId grp =
     \<lparr>gr_config = \<lparr>wgc_id = dwg_id grp, wgc_publishingIntervalMs = dwg_publishingIntervalMs grp,
        wgc_writers = [wr_config (dynamic_writer grp)]\<rparr>,
      gr_sequenceNumber = 0, gr_publisherIdType = type, gr_publisherId = publisherId,
      gr_ownerTag = ownerTag, gr_stopped = False,
      gr_transmitter = \<lparr>tx_host = dwg_host grp, tx_port = dwg_port grp, tx_ttl = dwg_ttl grp,
        tx_loopback = dwg_loopback grp\<rparr>,
      gr_writers = [dynamic_writer grp]\<rparr>"

definition addDynamicWriterGroup :: "udp_ops \<Rightarrow> string \<Rightarrow> publisher_id_type \<Rightarrow> 64 word \<Rightarrow> 'p dynamic_writer_group
    \<Rightarrow> (('p, 'c) engine, unit) action" where
  "addDynamicWriterGroup udp ownerTag type publisherId grp = act_bind act_get (\<lambda>s.
     if \<not> en_running s then act_throw ''PubSub: engine is not running''
     else if dwg_fields grp = [] then act_throw ''PubSub: dynamic writer group without fields''
     else if \<not> f64_less 0 (dwg_publishingIntervalMs grp)
     then act_throw ''PubSub: publishing interval must be positive''
     else if list_ex (\<lambda>g. same_coordinates type publisherId (dwg_id grp) (group_at s g)) (en_writerGroups s)
     then act_throw (''PubSub: writer group '' @ nat_to_string (unat (dwg_id grp)) @ '' of publisher ''
       @ nat_to_string (unat publisherId) @ '' is already active'')
     else case udp_transmitter_error udp (dwg_host grp) (dwg_port grp) (dwg_ttl grp) (dwg_loopback grp) of
       Some e \<Rightarrow> act_throw e
     | None \<Rightarrow> act_modify (\<lambda>s. scheduleGroup (en_next s)
         (commit_group (dynamic_group ownerTag type publisherId grp) s)))"

definition dynamic_reader_key :: "('p, 'c) dynamic_reader \<Rightarrow> reader_key" where
  "dynamic_reader_key reader = (dr_publisherId reader, dr_writerGroupId reader, dr_dataSetWriterId reader)"

definition dynamic_reader_runtime :: "string \<Rightarrow> ('p, 'c) dynamic_reader \<Rightarrow> ('p, 'c) reader_runtime" where
  "dynamic_reader_runtime ownerTag reader =
     \<lparr>rr_config = \<lparr>drc_publisherIdType = dr_publisherIdType reader, drc_publisherId = dr_publisherId reader,
        drc_writerGroupId = dr_writerGroupId reader, drc_dataSetWriterId = dr_dataSetWriterId reader,
        drc_targets = map (\<lambda>f. \<lparr>fc_address = dyn_address f\<rparr>) (dr_targets reader)\<rparr>,
      rr_ownerTag = ownerTag, rr_host = dr_host reader, rr_port = dr_port reader,
      rr_targets = map dyn_variable (dr_targets reader), rr_onFirstData = dr_onFirstData reader,
      rr_firstDataSignalled = False, rr_dataSeen = False\<rparr>"

definition addDynamicReader :: "udp_ops \<Rightarrow> string \<Rightarrow> ('p, 'c) dynamic_reader
    \<Rightarrow> (('p, 'c) engine, unit) action" where
  "addDynamicReader udp ownerTag reader = act_bind act_get (\<lambda>s.
     if \<not> en_running s then act_throw ''PubSub: engine is not running''
     else if dr_targets reader = [] then act_throw ''PubSub: dynamic reader without targets''
     else if dynamic_reader_key reader \<in> set (keys (en_readers s))
     then act_throw (''PubSub: a reader for publisher '' @ nat_to_string (unat (dr_publisherId reader))
       @ '', writer group '' @ nat_to_string (unat (dr_writerGroupId reader)) @ '', data set writer ''
       @ nat_to_string (unat (dr_dataSetWriterId reader)) @ '' is already active'')
     else act_bind (acquireReceiver udp (dr_host reader) (dr_port reader) True) (\<lambda>_.
       act_modify (\<lambda>s. s\<lparr>en_readers := AList.update (dynamic_reader_key reader)
         (dynamic_reader_runtime ownerTag reader) (en_readers s)\<rparr>)))"

fun remove_groups :: "string \<Rightarrow> nat list \<Rightarrow> (nat \<Rightarrow> 'p writer_group_runtime option)
    \<Rightarrow> nat list \<times> (nat \<Rightarrow> 'p writer_group_runtime option)" where
  "remove_groups ownerTag [] heap = ([], heap)"
| "remove_groups ownerTag (g # gs) heap =
     (if gr_ownerTag (the (heap g)) = ownerTag
      then remove_groups ownerTag gs (heap(g \<mapsto> (the (heap g))\<lparr>gr_stopped := True\<rparr>))
      else (case remove_groups ownerTag gs heap of (kept, heap') \<Rightarrow> (g # kept, heap')))"

fun remove_readers :: "string \<Rightarrow> (reader_key \<times> ('p, 'c) reader_runtime) list \<Rightarrow> (receiver_key \<times> receiver_entry) list
    \<Rightarrow> (reader_key \<times> ('p, 'c) reader_runtime) list \<times> (receiver_key \<times> receiver_entry) list" where
  "remove_readers ownerTag [] rs = ([], rs)"
| "remove_readers ownerTag ((k, r) # readers) rs =
     (if rr_ownerTag r = ownerTag
      then remove_readers ownerTag readers (releaseReceiver (rr_host r) (rr_port r) rs)
      else (case remove_readers ownerTag readers rs of (kept, rs') \<Rightarrow> ((k, r) # kept, rs')))"

definition removeDynamic :: "string \<Rightarrow> ('p, 'c) engine \<Rightarrow> ('p, 'c) engine" where
  "removeDynamic ownerTag s =
     (if \<not> en_running s then s
      else (case remove_groups ownerTag (en_writerGroups s) (en_heap s) of (gs, heap) \<Rightarrow>
            case remove_readers ownerTag (en_readers s) (en_receivers s) of (readers, rs) \<Rightarrow>
              s\<lparr>en_writerGroups := gs, en_heap := heap, en_readers := readers, en_receivers := rs\<rparr>))"

definition readerDataSeen :: "string \<Rightarrow> ('p, 'c) engine \<Rightarrow> bool" where
  "readerDataSeen ownerTag s =
     (if \<not> en_running s then False
      else list_ex (\<lambda>(k, r). rr_ownerTag r = ownerTag \<and> rr_dataSeen r) (en_readers s))"

definition stop_all :: "nat list \<Rightarrow> (nat \<Rightarrow> 'p writer_group_runtime option) \<Rightarrow> (nat \<Rightarrow> 'p writer_group_runtime option)" where
  "stop_all gs heap = fold (\<lambda>g h. h(g \<mapsto> (the (h g))\<lparr>gr_stopped := True\<rparr>)) gs heap"

text \<open>Destroying the io context drops the handlers that have not run.\<close>

definition shutdown :: "('p, 'c) engine \<Rightarrow> ('p, 'c) engine" where
  "shutdown s =
     (if \<not> en_running s then s
      else s\<lparr>en_heap := stop_all (en_writerGroups s) (en_heap s), en_writerGroups := [], en_receivers := [],
             en_readers := [], en_timers := [], en_running := False\<rparr>)"

section \<open>Publishing\<close>

definition published_value :: "('v, 's, 'b) ua_sdk \<Rightarrow> ('a, 'p, 'c, 'v) world_ops \<Rightarrow> 'a \<Rightarrow> 'p \<Rightarrow> wire_value" where
  "published_value sdk w a p = (case w_value w a p of
       None \<Rightarrow> makeNull
     | Some v \<Rightarrow> (case uaVariantToWire sdk v of None \<Rightarrow> makeNull | Some wire \<Rightarrow> wire))"

definition writer_message :: "('v, 's, 'b) ua_sdk \<Rightarrow> ('a, 'p, 'c, 'v) world_ops \<Rightarrow> 'a \<Rightarrow> 'p writer_runtime
    \<Rightarrow> data_set_message" where
  "writer_message sdk w a writer = new_data_set_message\<lparr>dsm_dataSetWriterId := dwc_id (wr_config writer),
     dsm_sequenceNumberEnabled := True, dsm_sequenceNumber := wr_sequenceNumber writer + 1,
     dsm_fields := map (published_value sdk w a) (wr_variables writer)\<rparr>"

definition group_message :: "('v, 's, 'b) ua_sdk \<Rightarrow> ('a, 'p, 'c, 'v) world_ops \<Rightarrow> 'a \<Rightarrow> 'p writer_group_runtime
    \<Rightarrow> network_message" where
  "group_message sdk w a grp = new_network_message\<lparr>nm_publisherIdType := gr_publisherIdType grp,
     nm_publisherId := gr_publisherId grp, nm_writerGroupIdEnabled := True,
     nm_writerGroupId := wgc_id (gr_config grp), nm_groupSequenceNumberEnabled := True,
     nm_groupSequenceNumber := gr_sequenceNumber grp + 1,
     nm_messages := map (writer_message sdk w a) (gr_writers grp)\<rparr>"

definition publishGroup :: "('v, 's, 'b) ua_sdk \<Rightarrow> ('a, 'p, 'c, 'v) world_ops \<Rightarrow> 'a \<Rightarrow> 'p writer_group_runtime
    \<Rightarrow> 'p writer_group_runtime \<times> (udp_transmitter \<times> bytes) option" where
  "publishGroup sdk w a grp =
     (grp\<lparr>gr_sequenceNumber := gr_sequenceNumber grp + 1,
            gr_writers := map (\<lambda>writer. writer\<lparr>wr_sequenceNumber := wr_sequenceNumber writer + 1\<rparr>) (gr_writers grp)\<rparr>,
      (case encodeNetworkMessage (group_message sdk w a grp) of
         Inl e \<Rightarrow> None
       | Inr payload \<Rightarrow> Some (gr_transmitter grp, payload)))"

text \<open>The handler of an expired or cancelled wait on the timer of a group.\<close>

definition timer_handler :: "('v, 's, 'b) ua_sdk \<Rightarrow> ('a, 'p, 'c, 'v) world_ops \<Rightarrow> 'a \<Rightarrow> nat \<Rightarrow> bool \<Rightarrow> ('p, 'c) engine
    \<Rightarrow> ('p, 'c) engine \<times> (udp_transmitter \<times> bytes) option" where
  "timer_handler sdk w a g aborted s =
     (let s1 = s\<lparr>en_timers := remove1 g (en_timers s)\<rparr>; grp = group_at s g in
      if aborted \<or> gr_stopped grp then (s1, None)
      else (case publishGroup sdk w a grp of (grp', sent) \<Rightarrow>
              (scheduleGroup g (s1\<lparr>en_heap := (en_heap s1)(g \<mapsto> grp')\<rparr>), sent)))"

section \<open>Receiving\<close>

fun store_fields :: "('v, 's, 'b) ua_sdk \<Rightarrow> ('a, 'p, 'c, 'v) world_ops \<Rightarrow> wire_value list \<Rightarrow> 'p list \<Rightarrow> 'a \<Rightarrow> 'a" where
  "store_fields sdk w (value # values) (p # ps) a =
     store_fields sdk w values ps
       (case wireToUaVariant sdk value (ua_empty_variant sdk) of None \<Rightarrow> a | Some v \<Rightarrow> w_setValue w a p v)"
| "store_fields sdk w values ps a = a"

definition signal_first_data :: "('a, 'p, 'c, 'v) world_ops \<Rightarrow> ('p, 'c) reader_runtime \<Rightarrow> 'a
    \<Rightarrow> ('p, 'c) reader_runtime \<times> 'a" where
  "signal_first_data w reader a =
     (if rr_firstDataSignalled reader then (reader, a)
      else case rr_onFirstData reader of
          None \<Rightarrow> (reader, a)
        | Some c \<Rightarrow> (case w_callback w a c of (a', handled) \<Rightarrow>
            (if handled then reader\<lparr>rr_firstDataSignalled := True\<rparr> else reader, a')))"

definition receive_message :: "('v, 's, 'b) ua_sdk \<Rightarrow> ('a, 'p, 'c, 'v) world_ops \<Rightarrow> 64 word \<Rightarrow> 16 word \<Rightarrow> data_set_message
    \<Rightarrow> ('p, 'c) engine \<times> 'a \<Rightarrow> ('p, 'c) engine \<times> 'a" where
  "receive_message sdk w publisher grp dsm sa = (case sa of (s, a) \<Rightarrow>
     if dsm_keepAlive dsm then (s, a)
     else let key = (publisher, grp, dsm_dataSetWriterId dsm) in
       case map_of (en_readers s) key of
         None \<Rightarrow> (s, a)
       | Some reader \<Rightarrow>
           (let a1 = store_fields sdk w (dsm_fields dsm) (rr_targets reader) a in
            if 0 < min (length (dsm_fields dsm)) (length (rr_targets reader))
            then (case signal_first_data w (reader\<lparr>rr_dataSeen := True\<rparr>) a1 of (reader', a2) \<Rightarrow>
                    (s\<lparr>en_readers := AList.update key reader' (en_readers s)\<rparr>, a2))
            else (s, a1)))"

definition handleDatagram :: "('v, 's, 'b) ua_sdk \<Rightarrow> ('a, 'p, 'c, 'v) world_ops \<Rightarrow> bytes
    \<Rightarrow> ('p, 'c) engine \<times> 'a \<Rightarrow> ('p, 'c) engine \<times> 'a" where
  "handleDatagram sdk w datagram sa =
     (case decodeNetworkMessage new_network_message datagram (length datagram) of
        Got message _ \<Rightarrow>
          fold (receive_message sdk w (nm_publisherId message)
                 (if nm_writerGroupIdEnabled message then nm_writerGroupId message else 0)) (nm_messages message) sa
      | _ \<Rightarrow> sa)"

end
