(* ===== verification/Reachability.thy ===== *)
theory Reachability
  imports Main
begin

text \<open>
  Runs of a labelled step relation, and what every run keeps. A component with a step relation
  interprets \<open>inductive_invariant\<close> with its relation, its start states and its invariant.
\<close>

inductive run :: "('s \<Rightarrow> 'e \<Rightarrow> 's \<Rightarrow> bool) \<Rightarrow> 's \<Rightarrow> 'e list \<Rightarrow> 's \<Rightarrow> bool" for step where
  run_Nil: "run step s [] s"
| run_Cons: "step s e t \<Longrightarrow> run step t es u \<Longrightarrow> run step s (e # es) u"

inductive_cases run_NilE [elim!]: "run step s [] t"
inductive_cases run_ConsE [elim]: "run step s (e # es) t"

lemma run_append: "run step s es t \<Longrightarrow> run step t fs u \<Longrightarrow> run step s (es @ fs) u"
  by (induction rule: run.induct) (auto intro: run_Cons)

lemma run_step: "run step s es t \<Longrightarrow> step t e u \<Longrightarrow> run step s (es @ [e]) u"
  using run_append [of step s es t "[e]" u] by (auto intro: run_Cons run_Nil)

locale inductive_invariant =
  fixes step :: "'s \<Rightarrow> 'e \<Rightarrow> 's \<Rightarrow> bool" and start :: "'s \<Rightarrow> bool" and inv :: "'s \<Rightarrow> bool"
  assumes start_inv: "start s \<Longrightarrow> inv s"
    and step_inv: "inv s \<Longrightarrow> step s e t \<Longrightarrow> inv t"
begin

lemma run_inv: "run step s es t \<Longrightarrow> inv s \<Longrightarrow> inv t"
  by (induction rule: run.induct) (auto intro: step_inv)

lemma reachable_inv: "start s \<Longrightarrow> run step s es t \<Longrightarrow> inv t"
  by (blast intro: run_inv start_inv)

text \<open>
  A property that every step from an invariant state keeps, and that forces a property of the
  label of the step, holds along a run and of all its labels.
\<close>

lemma run_stable:
  assumes "run step s es t" and "inv s" and "P s"
    and keeps: "\<And>s e t. inv s \<Longrightarrow> P s \<Longrightarrow> step s e t \<Longrightarrow> P t \<and> Q e"
  shows "P t \<and> list_all Q es"
  using assms(1,2,3)
proof (induction rule: run.induct)
  case (run_Cons s e t es u)
  from keeps [OF run_Cons.prems run_Cons.hyps(1)] have "P t" "Q e" by simp_all
  with run_Cons.IH [OF step_inv [OF run_Cons.prems(1) run_Cons.hyps(1)]] show ?case by simp
qed simp

end

end
