(* ===== verification/PubSubRegistry.thy ===== *)
theory PubSubRegistry
  imports PubSubEngine Reachability
begin

text \<open>
  The containers of the engine: one receiver per address, counted by the readers that listen
  there, readers under their wire coordinates, and writer groups that the timers share.
\<close>

section \<open>Counted receivers\<close>

text \<open>
  What the readers need of the receivers: a registry that counts the users of every key, where
  releasing a key in use takes one user away.
\<close>

locale counted_registry =
  fixes release :: "'k \<Rightarrow> 'r \<Rightarrow> 'r" and counted :: "'r \<Rightarrow> ('k \<Rightarrow> nat) \<Rightarrow> bool"
  assumes release_law: "counted r f \<Longrightarrow> 0 < f k \<Longrightarrow> counted (release k r) (f(k := f k - 1))"
begin

lemma release_all: "counted r (\<lambda>k. f k + count_list ks k) \<Longrightarrow> counted (fold release ks r) f"
proof (induction ks arbitrary: r)
  case (Cons k ks)
  let ?f = "\<lambda>x. f x + count_list (k # ks) x"
  have "?f(k := ?f k - 1) = (\<lambda>x. f x + count_list ks x)" by auto
  with release_law [OF Cons.prems, of k] have "counted (release k r) (\<lambda>x. f x + count_list ks x)" by simp
  then show ?case by (simp add: Cons.IH)
qed simp

end

definition use_count :: "(receiver_key \<times> receiver_entry) list \<Rightarrow> receiver_key \<Rightarrow> nat" where
  "use_count rs k = (case map_of rs k of None \<Rightarrow> 0 | Some e \<Rightarrow> re_useCount e)"

definition receivers_counted :: "(receiver_key \<times> receiver_entry) list \<Rightarrow> (receiver_key \<Rightarrow> nat) \<Rightarrow> bool" where
  "receivers_counted rs f \<longleftrightarrow> distinct (keys rs) \<and> use_count rs = f
     \<and> (\<forall>k e. map_of rs k = Some e \<longrightarrow> 0 < re_useCount e)"

lemma use_count_update: "use_count (AList.update k e rs) = (use_count rs)(k := re_useCount e)"
  by (auto simp: use_count_def update_conv' fun_eq_iff)

lemma receivers_counted_update:
  "receivers_counted rs f \<Longrightarrow> 0 < re_useCount e \<Longrightarrow> receivers_counted (AList.update k e rs) (f(k := re_useCount e))"
  by (auto simp: receivers_counted_def use_count_update distinct_update update_conv')

lemma receivers_counted_delete:
  "receivers_counted rs f \<Longrightarrow> receivers_counted (AList.delete k rs) (f(k := 0))"
  by (auto simp: receivers_counted_def use_count_def delete_conv' distinct_delete fun_eq_iff restrict_map_def)

lemma acquire_counted:
  assumes "receivers_counted (en_receivers s) f" and "acquireReceiver udp host port armed s = (s', Inr ())"
  shows "receivers_counted (en_receivers s') (f((host, port) := f (host, port) + 1))"
proof (cases "map_of (en_receivers s) (host, port)")
  case None
  with assms have s': "s' = s\<lparr>en_receivers :=
      AList.update (host, port) \<lparr>re_armed = armed, re_useCount = 1\<rparr> (en_receivers s)\<rparr>"
    by (auto simp: acquireReceiver_def split: option.splits)
  have "f (host, port) = 0" using None assms(1) by (auto simp: receivers_counted_def use_count_def)
  then show ?thesis using receivers_counted_update [OF assms(1), of "\<lparr>re_armed = armed, re_useCount = 1\<rparr>"] by (simp add: s')
next
  case (Some e)
  with assms have s': "s' = s\<lparr>en_receivers :=
      AList.update (host, port) (e\<lparr>re_useCount := re_useCount e + 1\<rparr>) (en_receivers s)\<rparr>"
    by (auto simp: acquireReceiver_def)
  have "f (host, port) = re_useCount e" using Some assms(1) by (auto simp: receivers_counted_def use_count_def)
  then show ?thesis using receivers_counted_update [OF assms(1), of "e\<lparr>re_useCount := re_useCount e + 1\<rparr>"] by (simp add: s')
qed

lemma acquire_frame:
  assumes "acquireReceiver udp host port armed s = (s', Inr ())"
  shows "s' = s\<lparr>en_receivers := en_receivers s'\<rparr>"
  using assms by (auto simp: acquireReceiver_def split: option.splits)

lemma acquire_heap: "acquireReceiver udp host port armed s = (s', r) \<Longrightarrow> en_heap s' = en_heap s"
  by (auto simp: acquireReceiver_def split: option.splits)

lemma acquire_atomic: "act_atomic (acquireReceiver udp host port armed)"
  by (auto simp: act_atomic_def acquireReceiver_def split: option.splits)

definition release_key :: "receiver_key \<Rightarrow> (receiver_key \<times> receiver_entry) list \<Rightarrow> (receiver_key \<times> receiver_entry) list" where
  "release_key k rs = releaseReceiver (fst k) (snd k) rs"

lemma release_counted:
  assumes "receivers_counted rs f" and "0 < f k"
  shows "receivers_counted (release_key k rs) (f(k := f k - 1))"
proof -
  obtain host port where k: "k = (host, port)" by fastforce
  have f: "f k = use_count rs k" using assms(1) by (auto simp: receivers_counted_def)
  with assms(2) obtain e where e: "map_of rs k = Some e" "f k = re_useCount e"
    by (auto simp: use_count_def split: option.splits)
  show ?thesis
  proof (cases "re_useCount e = 1")
    case True
    then show ?thesis using receivers_counted_delete [OF assms(1), of k] e
      by (simp add: release_key_def releaseReceiver_def k)
  next
    case False
    with assms(2) e have "0 < re_useCount e - 1" by simp
    then show ?thesis using receivers_counted_update [OF assms(1), of "e\<lparr>re_useCount := re_useCount e - 1\<rparr>" k] e
      by (simp add: release_key_def releaseReceiver_def k)
  qed
qed

interpretation receivers: counted_registry release_key receivers_counted
  by unfold_locales (rule release_counted)

section \<open>Removing by owner\<close>

abbreviation reader_endpoint :: "('p, 'c) reader_runtime \<Rightarrow> receiver_key" where
  "reader_endpoint r \<equiv> (rr_host r, rr_port r)"

abbreviation endpoints :: "(reader_key \<times> ('p, 'c) reader_runtime) list \<Rightarrow> receiver_key list" where
  "endpoints readers \<equiv> map (reader_endpoint \<circ> snd) readers"

abbreviation owned :: "string \<Rightarrow> reader_key \<times> ('p, 'c) reader_runtime \<Rightarrow> bool" where
  "owned tag e \<equiv> rr_ownerTag (snd e) = tag"

lemma remove_readers_eq:
  "remove_readers tag readers rs =
     (filter (\<lambda>e. \<not> owned tag e) readers, fold release_key (endpoints (filter (owned tag) readers)) rs)"
  by (induction tag readers rs rule: remove_readers.induct) (simp_all add: release_key_def)

lemma remove_groups_kept:
  "distinct gs \<Longrightarrow> fst (remove_groups tag gs heap) = filter (\<lambda>g. gr_ownerTag (the (heap g)) \<noteq> tag) gs"
proof (induction gs arbitrary: heap)
  case (Cons g gs)
  show ?case
  proof (cases "gr_ownerTag (the (heap g)) = tag")
    case True
    have "filter (\<lambda>x. gr_ownerTag (the ((heap(g \<mapsto> y)) x)) \<noteq> tag) gs
        = filter (\<lambda>x. gr_ownerTag (the (heap x)) \<noteq> tag) gs" for y
      using Cons.prems by (intro filter_cong) auto
    then show ?thesis using True Cons.IH Cons.prems by simp
  next
    case False
    then show ?thesis using Cons.IH [of heap] Cons.prems by (cases "remove_groups tag gs heap") simp
  qed
qed simp

lemma remove_groups_heap:
  "distinct gs \<Longrightarrow> snd (remove_groups tag gs heap) x =
     (if x \<in> set gs \<and> gr_ownerTag (the (heap x)) = tag then Some ((the (heap x))\<lparr>gr_stopped := True\<rparr>) else heap x)"
proof (induction gs arbitrary: heap)
  case (Cons g gs)
  show ?case
  proof (cases "gr_ownerTag (the (heap g)) = tag")
    case True
    define h where "h = heap(g \<mapsto> (the (heap g))\<lparr>gr_stopped := True\<rparr>)"
    have h: "h g = Some ((the (heap g))\<lparr>gr_stopped := True\<rparr>)" "x \<noteq> g \<Longrightarrow> h x = heap x"
      by (simp_all add: h_def)
    have "snd (remove_groups tag (g # gs) heap) x = snd (remove_groups tag gs h) x" using True by (simp add: h_def)
    then show ?thesis using Cons.IH [of h] Cons.prems h True by (cases "x = g") auto
  next
    case False
    then show ?thesis using Cons.IH [of heap] Cons.prems by (cases "remove_groups tag gs heap") auto
  qed
qed simp

lemma stop_all_heap:
  "distinct gs \<Longrightarrow> stop_all gs heap x =
     (if x \<in> set gs then Some ((the (heap x))\<lparr>gr_stopped := True\<rparr>) else heap x)"
  unfolding stop_all_def by (induction gs arbitrary: heap) auto

section \<open>The invariant\<close>

definition readers_ok :: "('p, 'c) engine \<Rightarrow> bool" where
  "readers_ok s \<longleftrightarrow> distinct (keys (en_readers s))
     \<and> (\<forall>(k, r) \<in> set (en_readers s). k = config_reader_key (rr_config r))
     \<and> receivers_counted (en_receivers s) (count_list (endpoints (en_readers s)))"

definition groups_ok :: "('p, 'c) engine \<Rightarrow> bool" where
  "groups_ok s \<longleftrightarrow> distinct (en_writerGroups s)
     \<and> (\<forall>g \<in> set (en_writerGroups s). \<exists>grp. en_heap s g = Some grp \<and> \<not> gr_stopped grp)
     \<and> (\<forall>g. en_heap s g \<noteq> None \<longrightarrow> g < en_next s)"

text \<open>Every group of the container waits once; any other wait is of a stopped group.\<close>

definition timers_ok :: "('p, 'c) engine \<Rightarrow> bool" where
  "timers_ok s \<longleftrightarrow> distinct (en_timers s) \<and> set (en_writerGroups s) \<subseteq> set (en_timers s)
     \<and> (\<forall>g \<in> set (en_timers s) - set (en_writerGroups s). \<exists>grp. en_heap s g = Some grp \<and> gr_stopped grp)"

definition idle :: "('p, 'c) engine \<Rightarrow> bool" where
  "idle s \<longleftrightarrow> en_writerGroups s = [] \<and> en_timers s = [] \<and> en_receivers s = [] \<and> en_readers s = []"

definition engine_inv :: "('p, 'c) engine \<Rightarrow> bool" where
  "engine_inv s \<longleftrightarrow> readers_ok s \<and> groups_ok s \<and> (if en_running s then timers_ok s else idle s)"

lemma idle_inv: "idle s \<Longrightarrow> readers_ok s" "idle s \<Longrightarrow> timers_ok s"
  by (auto simp: idle_def readers_ok_def timers_ok_def receivers_counted_def use_count_def fun_eq_iff)

lemma new_engine_inv: "engine_inv new_engine"
  using idle_inv(1) [of new_engine]
  by (simp add: engine_inv_def new_engine_def groups_ok_def idle_def)

text \<open>The parts of the invariant look at their own components only.\<close>

lemma readers_ok_cong:
  "en_readers s' = en_readers s \<Longrightarrow> en_receivers s' = en_receivers s \<Longrightarrow> readers_ok s' = readers_ok s"
  by (simp add: readers_ok_def)

lemma groups_ok_cong:
  "en_writerGroups s' = en_writerGroups s \<Longrightarrow> en_heap s' = en_heap s \<Longrightarrow> en_next s' = en_next s
     \<Longrightarrow> groups_ok s' = groups_ok s"
  by (simp add: groups_ok_def)

section \<open>Adding and removing\<close>

lemma commit_group_ok:
  assumes "groups_ok s" and "\<not> gr_stopped grp"
  shows "groups_ok (commit_group grp s)"
  using assms by (auto simp: groups_ok_def commit_group_def)

lemma readers_ok_add:
  assumes "readers_ok s" and "k \<notin> set (keys (en_readers s))" and "k = config_reader_key (rr_config r)"
    and "receivers_counted rs' ((count_list (endpoints (en_readers s)))
      (reader_endpoint r := count_list (endpoints (en_readers s)) (reader_endpoint r) + 1))"
  shows "readers_ok (s\<lparr>en_readers := AList.update k r (en_readers s), en_receivers := rs'\<rparr>)"
proof -
  have "count_list (endpoints (en_readers s @ [(k, r)])) = (count_list (endpoints (en_readers s)))
      (reader_endpoint r := count_list (endpoints (en_readers s)) (reader_endpoint r) + 1)"
    by (rule ext) simp
  with assms(4) have "receivers_counted rs' (count_list (endpoints (en_readers s @ [(k, r)])))" by (simp only:)
  moreover have "AList.update k r (en_readers s) = en_readers s @ [(k, r)]" using assms(2) by (rule alist_update_new)
  ultimately show ?thesis using assms(1,2,3) by (simp add: readers_ok_def)
qed

lemma count_list_filter:
  "count_list (map f xs) k = count_list (map f (filter (\<lambda>x. \<not> P x) xs)) k + count_list (map f (filter P xs)) k"
  by (induction xs) auto

lemma readers_ok_remove:
  assumes "readers_ok s"
  shows "readers_ok (s\<lparr>en_readers := filter (\<lambda>e. \<not> owned tag e) (en_readers s),
    en_receivers := fold release_key (endpoints (filter (owned tag) (en_readers s))) (en_receivers s)\<rparr>)"
proof -
  let ?kept = "filter (\<lambda>e. \<not> owned tag e) (en_readers s)"
  have "count_list (endpoints (en_readers s)) = (\<lambda>k. count_list (endpoints ?kept) k
      + count_list (endpoints (filter (owned tag) (en_readers s))) k)"
    by (rule ext) (rule count_list_filter)
  moreover have ok: "receivers_counted (en_receivers s) (count_list (endpoints (en_readers s)))"
    "distinct (keys (en_readers s))" "\<forall>(k, r) \<in> set (en_readers s). k = config_reader_key (rr_config r)"
    using assms unfolding readers_ok_def by blast+
  ultimately have "receivers_counted (fold release_key (endpoints (filter (owned tag) (en_readers s))) (en_receivers s))
      (count_list (endpoints ?kept))"
    by (intro receivers.release_all) simp
  with ok(2,3) show ?thesis by (auto simp: readers_ok_def distinct_keys_filter)
qed

end
