(* ===== verification/PubSubInvariant.thy ===== *)
theory PubSubInvariant
  imports PubSubRegistry
begin

text \<open>
  The engine as a state machine. A step is a call of its interface, the handler of a timer, a
  datagram, or a change of the world around it; the theory shows that every reachable engine
  satisfies \<open>engine_inv\<close> and what follows for removed groups, failed calls and owners.
\<close>

section \<open>Every operation keeps the invariant\<close>

lemma engine_inv_running: "engine_inv s \<Longrightarrow> en_running s \<Longrightarrow> readers_ok s \<and> groups_ok s \<and> timers_ok s"
  by (simp add: engine_inv_def)

lemma addDynamicWriterGroup_cases:
  assumes "addDynamicWriterGroup udp tag type publisher grp s = (s', r)"
  shows "(\<exists>e. r = Inl e \<and> s' = s) \<or> (r = Inr () \<and> en_running s
    \<and> \<not> list_ex (\<lambda>g. same_coordinates type publisher (dwg_id grp) (group_at s g)) (en_writerGroups s)
    \<and> s' = scheduleGroup (en_next s) (commit_group (dynamic_group tag type publisher grp) s))"
  using assms by (auto simp: addDynamicWriterGroup_def split: if_splits option.splits)

lemma scheduled_commit_inv:
  assumes "groups_ok s" and "timers_ok s" and "\<not> gr_stopped grp"
  shows "timers_ok (scheduleGroup (en_next s) (commit_group grp s))"
proof -
  have "en_next s \<notin> set (en_timers s)"
  proof
    assume "en_next s \<in> set (en_timers s)"
    then have "en_heap s (en_next s) \<noteq> None"
      using assms(1,2) unfolding groups_ok_def timers_ok_def by (cases "en_next s \<in> set (en_writerGroups s)") auto
    then show False using assms(1) by (auto simp: groups_ok_def)
  qed
  then show ?thesis using assms by (auto simp: timers_ok_def scheduleGroup_def commit_group_def)
qed

lemma addDynamicWriterGroup_inv:
  assumes "engine_inv s" and "addDynamicWriterGroup udp tag type publisher grp s = (s', r)"
  shows "engine_inv s'"
  using addDynamicWriterGroup_cases [OF assms(2)]
proof (elim disjE exE conjE)
  assume run: "en_running s" and s': "s' = scheduleGroup (en_next s) (commit_group (dynamic_group tag type publisher grp) s)"
  note ok = engine_inv_running [OF assms(1) run]
  have "groups_ok (commit_group (dynamic_group tag type publisher grp) s)"
    using ok by (intro commit_group_ok) (auto simp: dynamic_group_def)
  moreover have "timers_ok s'" unfolding s' using ok by (intro scheduled_commit_inv) (auto simp: dynamic_group_def)
  moreover have "readers_ok s'" using ok by (simp add: s' readers_ok_def scheduleGroup_def commit_group_def)
  ultimately show ?thesis using run by (simp add: engine_inv_def s' groups_ok_def scheduleGroup_def commit_group_def)
qed (use assms(1) in simp)

lemma addDynamicReader_cases:
  assumes "addDynamicReader udp tag reader s = (s', r)"
  shows "(\<exists>e. r = Inl e \<and> s' = s) \<or> (r = Inr () \<and> en_running s \<and> dynamic_reader_key reader \<notin> set (keys (en_readers s))
    \<and> (\<exists>t. acquireReceiver udp (dr_host reader) (dr_port reader) True s = (t, Inr ())
         \<and> s' = t\<lparr>en_readers := AList.update (dynamic_reader_key reader) (dynamic_reader_runtime tag reader) (en_readers t)\<rparr>))"
proof (cases "acquireReceiver udp (dr_host reader) (dr_port reader) True s")
  case (Pair t q)
  then show ?thesis
    using assms act_atomicD [OF acquire_atomic, of udp "dr_host reader" "dr_port reader" True s t]
    by (cases q) (auto simp: addDynamicReader_def act_bind_def split: if_splits)
qed

lemma addDynamicReader_inv:
  assumes "engine_inv s" and "addDynamicReader udp tag reader s = (s', r)"
  shows "engine_inv s'"
  using addDynamicReader_cases [OF assms(2)]
proof (elim disjE exE conjE)
  fix t
  assume run: "en_running s" and new: "dynamic_reader_key reader \<notin> set (keys (en_readers s))"
    and acq: "acquireReceiver udp (dr_host reader) (dr_port reader) True s = (t, Inr ())"
    and s': "s' = t\<lparr>en_readers := AList.update (dynamic_reader_key reader) (dynamic_reader_runtime tag reader) (en_readers t)\<rparr>"
  note ok = engine_inv_running [OF assms(1) run]
  define rs where "rs = en_receivers t"
  have t: "t = s\<lparr>en_receivers := rs\<rparr>" using acquire_frame [OF acq] by (simp add: rs_def)
  have "receivers_counted rs ((count_list (endpoints (en_readers s)))
      ((dr_host reader, dr_port reader) := count_list (endpoints (en_readers s)) (dr_host reader, dr_port reader) + 1))"
    unfolding rs_def using ok by (intro acquire_counted [OF _ acq]) (simp add: readers_ok_def)
  then have "readers_ok (s\<lparr>en_readers := AList.update (dynamic_reader_key reader) (dynamic_reader_runtime tag reader)
      (en_readers s), en_receivers := rs\<rparr>)"
    using ok new by (intro readers_ok_add)
      (auto simp: dynamic_reader_key_def dynamic_reader_runtime_def config_reader_key_def)
  then have "readers_ok s'" by (simp add: s' t readers_ok_def)
  moreover have "groups_ok s'" "timers_ok s'" using ok by (simp_all add: s' t groups_ok_def timers_ok_def)
  ultimately show ?thesis using run by (simp add: engine_inv_def s' t)
qed (use assms(1) in simp)

text \<open>What \<open>removeDynamic\<close> leaves, written without its loops.\<close>

lemma removeDynamic_state:
  assumes "engine_inv s" and "en_running s"
  shows "removeDynamic tag s = s\<lparr>en_writerGroups := filter (\<lambda>g. gr_ownerTag (group_at s g) \<noteq> tag) (en_writerGroups s),
    en_heap := (\<lambda>g. if g \<in> set (en_writerGroups s) \<and> gr_ownerTag (group_at s g) = tag
                    then Some ((group_at s g)\<lparr>gr_stopped := True\<rparr>) else en_heap s g),
    en_readers := filter (\<lambda>e. \<not> owned tag e) (en_readers s),
    en_receivers := fold release_key (endpoints (filter (owned tag) (en_readers s))) (en_receivers s)\<rparr>"
proof -
  have d: "distinct (en_writerGroups s)" using assms by (simp add: engine_inv_def groups_ok_def)
  obtain gs heap where g: "remove_groups tag (en_writerGroups s) (en_heap s) = (gs, heap)" by fastforce
  have "gs = filter (\<lambda>g. gr_ownerTag (group_at s g) \<noteq> tag) (en_writerGroups s)"
    using remove_groups_kept [OF d, of tag "en_heap s"] g by simp
  moreover have "heap = (\<lambda>g. if g \<in> set (en_writerGroups s) \<and> gr_ownerTag (group_at s g) = tag
      then Some ((group_at s g)\<lparr>gr_stopped := True\<rparr>) else en_heap s g)"
    using remove_groups_heap [OF d, of tag "en_heap s"] g by (simp add: fun_eq_iff)
  ultimately show ?thesis using assms(2) by (simp add: removeDynamic_def g remove_readers_eq)
qed

lemma removeDynamic_inv:
  assumes "engine_inv s"
  shows "engine_inv (removeDynamic tag s)"
proof (cases "en_running s")
  case True
  note ok = engine_inv_running [OF assms True]
  have "readers_ok (removeDynamic tag s)"
    unfolding removeDynamic_state [OF assms True] using readers_ok_remove [of s tag] ok by (simp add: readers_ok_def)
  moreover have "groups_ok (removeDynamic tag s)"
    unfolding removeDynamic_state [OF assms True] using ok by (auto simp: groups_ok_def)
  moreover have "timers_ok (removeDynamic tag s)"
    unfolding removeDynamic_state [OF assms True] using ok by (auto simp: timers_ok_def groups_ok_def)
  ultimately show ?thesis using True by (simp add: engine_inv_def removeDynamic_state [OF assms True])
qed (simp add: removeDynamic_def assms)

lemma shutdown_inv:
  assumes "engine_inv s"
  shows "engine_inv (shutdown s)" "\<not> en_running (shutdown s)" "idle (shutdown s)"
proof -
  have "\<not> en_running s \<Longrightarrow> idle s" using assms by (simp add: engine_inv_def)
  then show i: "idle (shutdown s)" by (auto simp: shutdown_def idle_def)
  show r: "\<not> en_running (shutdown s)" by (simp add: shutdown_def)
  have "distinct (en_writerGroups s)" "\<forall>g \<in> set (en_writerGroups s). en_heap s g \<noteq> None"
    "\<forall>g. en_heap s g \<noteq> None \<longrightarrow> g < en_next s"
    using assms by (auto simp: engine_inv_def groups_ok_def)
  then have "groups_ok (shutdown s)"
    using assms by (auto simp: groups_ok_def shutdown_def stop_all_heap engine_inv_def split: if_splits)
  with i r idle_inv(1) show "engine_inv (shutdown s)" by (simp add: engine_inv_def)
qed

text \<open>Building the configured entities.\<close>

definition building :: "('p, 'c) engine \<Rightarrow> bool" where
  "building s \<longleftrightarrow> readers_ok s \<and> groups_ok s \<and> en_timers s = [] \<and> \<not> en_running s"

lemma build_group_keeps: "act_delivers building (build_group udp nodes configuration connection config)"
  unfolding act_delivers_def
proof (intro allI impI)
  fix s s' x
  assume b: "building s" and run: "build_group udp nodes configuration connection config s = (s', Inr x)"
  from run obtain grp where s': "s' = commit_group grp s" "\<not> gr_stopped grp"
    by (auto simp: build_group_def act_bind_Inr_iff split: option.splits)
  then have "groups_ok s'" using b by (simp add: commit_group_ok building_def)
  then show "building s'" using b s' by (simp add: building_def readers_ok_def commit_group_def)
qed

lemma build_reader_keeps: "act_delivers building (build_reader udp nodes connection config)"
  unfolding act_delivers_def
proof (intro allI impI)
  fix s s' x
  assume b: "building s" and run: "build_reader udp nodes connection config s = (s', Inr x)"
  from run obtain targets where new: "config_reader_key config \<notin> set (keys (en_readers s))"
    and acq': "acquireReceiver udp (cc_host connection) (cc_port connection) False (s\<lparr>en_readers :=
      AList.update (config_reader_key config) \<lparr>rr_config = config, rr_ownerTag = [], rr_host = cc_host connection,
        rr_port = cc_port connection, rr_targets = targets, rr_onFirstData = None, rr_firstDataSignalled = False,
        rr_dataSeen = False\<rparr> (en_readers s)\<rparr>) = (s', Inr ())"
    by (auto simp: build_reader_def act_bind_Inr_iff split: if_splits)
  obtain r where r: "rr_config r = config" "rr_host r = cc_host connection" "rr_port r = cc_port connection"
    and acq: "acquireReceiver udp (cc_host connection) (cc_port connection) False
      (s\<lparr>en_readers := AList.update (config_reader_key config) r (en_readers s)\<rparr>) = (s', Inr ())"
    by (rule that [OF _ _ _ acq']) simp_all
  let ?t = "s\<lparr>en_readers := AList.update (config_reader_key config) r (en_readers s)\<rparr>"
  define rs where "rs = en_receivers s'"
  have s': "s' = ?t\<lparr>en_receivers := rs\<rparr>" using acquire_frame [OF acq] by (simp add: rs_def)
  have "receivers_counted (en_receivers ?t) (count_list (endpoints (en_readers s)))"
    using b by (simp add: building_def readers_ok_def)
  from acquire_counted [OF this acq] have "readers_ok (s\<lparr>en_readers :=
      AList.update (config_reader_key config) r (en_readers s), en_receivers := rs\<rparr>)"
    using b new by (intro readers_ok_add) (simp_all add: r rs_def building_def)
  then show "building s'" using b by (simp add: building_def s' groups_ok_def)
qed

lemma buildRuntimes_keeps: "act_delivers building (buildRuntimes udp nodes configuration)"
  unfolding buildRuntimes_def build_connection_def
  by (intro act_delivers_for act_delivers_bind build_group_keeps build_reader_keeps)

lemma fold_schedule: "fold scheduleGroup gs s = s\<lparr>en_timers := en_timers s @ gs\<rparr>"
  by (induction gs arbitrary: s) (simp_all add: scheduleGroup_def)

lemma armed_counted:
  "receivers_counted (map (\<lambda>(k, e). (k, e\<lparr>re_armed := b\<rparr>)) rs) f \<longleftrightarrow> receivers_counted rs f"
proof -
  define rs' where "rs' = map (\<lambda>(k, e). (k, e\<lparr>re_armed := b\<rparr>)) rs"
  have ks: "keys rs' = keys rs" unfolding rs'_def by (induction rs) auto
  have m: "map_of rs' k = map_option (\<lambda>e. e\<lparr>re_armed := b\<rparr>) (map_of rs k)" for k
    unfolding rs'_def by (simp add: map_of_map)
  have "use_count rs' = use_count rs"
    by (rule ext) (simp add: use_count_def m split: option.split)
  moreover have "(\<forall>k e. map_of rs' k = Some e \<longrightarrow> 0 < re_useCount e) \<longleftrightarrow> (\<forall>k e. map_of rs k = Some e \<longrightarrow> 0 < re_useCount e)"
    unfolding m by force
  ultimately show ?thesis unfolding rs'_def [symmetric] receivers_counted_def ks by simp
qed

lemma start_all_inv:
  assumes "building s"
  shows "engine_inv ((start_all s)\<lparr>en_running := True\<rparr>)"
  using assms
  by (auto simp: building_def engine_inv_def start_all_def fold_schedule readers_ok_def groups_ok_def timers_ok_def
      armed_counted)

lemma startIfStaged_inv:
  assumes "engine_inv s" and "startIfStaged udp nodes s = (s', Inr ())"
  shows "engine_inv s'"
proof (cases "en_staged s")
  case None
  then show ?thesis using assms by (simp add: startIfStaged_def)
next
  case (Some c)
  with assms(2) have idle: "\<not> en_running s" by (auto simp: startIfStaged_def split: if_splits)
  with assms(2) Some obtain t where t: "buildRuntimes udp nodes c (s\<lparr>en_staged := None\<rparr>) = (t, Inr ())"
    and s': "s' = (start_all t)\<lparr>en_running := True\<rparr>"
    by (auto simp: startIfStaged_def startIoThread_def act_bind_Inr_iff)
  have "building (s\<lparr>en_staged := None\<rparr>)"
    using assms(1) idle by (auto simp: building_def engine_inv_def idle_def readers_ok_def groups_ok_def)
  from act_deliversD [OF buildRuntimes_keeps this t] show ?thesis unfolding s' by (rule start_all_inv)
qed

text \<open>Timers and datagrams.\<close>

lemma timer_handler_inv:
  assumes "engine_inv s" and "g \<in> set (en_timers s)" and "aborted \<Longrightarrow> gr_stopped (group_at s g)"
    and "timer_handler sdk w a g aborted s = (s', out)"
  shows "engine_inv s'"
proof -
  have run: "en_running s" using assms(1,2) by (auto simp: engine_inv_def idle_def split: if_splits)
  note ok = engine_inv_running [OF assms(1) run]
  show ?thesis
  proof (cases "gr_stopped (group_at s g)")
    case True
    then have g: "g \<notin> set (en_writerGroups s)" using ok by (auto simp: groups_ok_def)
    have s': "s' = s\<lparr>en_timers := remove1 g (en_timers s)\<rparr>"
      using assms(4) True by (simp add: timer_handler_def Let_def)
    show ?thesis using ok run g
      by (auto simp: s' engine_inv_def readers_ok_def groups_ok_def timers_ok_def)
  next
    case False
    then have live: "\<not> aborted" "\<exists>grp. en_heap s g = Some grp"
      using assms(2,3) ok unfolding timers_ok_def groups_ok_def by (auto, metis DiffI)
    from assms(4) False live(1) obtain grp where s': "s' = scheduleGroup g (s\<lparr>en_timers := remove1 g (en_timers s),
        en_heap := (en_heap s)(g \<mapsto> grp)\<rparr>)" and grp: "\<not> gr_stopped grp"
      by (auto simp: timer_handler_def publishGroup_def Let_def)
    have mem: "g \<in> set (en_writerGroups s)"
      using assms(2) False ok unfolding timers_ok_def by (metis DiffI option.sel)
    show ?thesis using ok run live(2) grp assms(2) mem
      by (auto simp: s' engine_inv_def readers_ok_def groups_ok_def timers_ok_def scheduleGroup_def)
  qed
qed

text \<open>A datagram changes the flags of readers at most.\<close>

definition reader_kept :: "('p, 'c) reader_runtime \<Rightarrow> ('p, 'c) reader_runtime \<Rightarrow> bool" where
  "reader_kept r r' \<longleftrightarrow> rr_config r' = rr_config r \<and> rr_ownerTag r' = rr_ownerTag r \<and> rr_host r' = rr_host r
     \<and> rr_port r' = rr_port r \<and> rr_targets r' = rr_targets r \<and> rr_onFirstData r' = rr_onFirstData r"

lemma signal_kept: "reader_kept r (fst (signal_first_data w (r\<lparr>rr_dataSeen := b\<rparr>) a))"
  by (simp add: signal_first_data_def reader_kept_def split: option.split prod.split)

lemma receive_message_cases:
  obtains "fst (receive_message sdk w publisher grp dsm (s, a)) = s"
  | key r r' where "map_of (en_readers s) key = Some r" "reader_kept r r'"
    "fst (receive_message sdk w publisher grp dsm (s, a)) = s\<lparr>en_readers := AList.update key r' (en_readers s)\<rparr>"
proof -
  let ?key = "(publisher, grp, dsm_dataSetWriterId dsm)"
  show ?thesis
  proof (cases "map_of (en_readers s) ?key")
    case None
    then show ?thesis by (intro that(1)) (simp add: receive_message_def)
  next
    case (Some r)
    define r' where "r' = fst (signal_first_data w (r\<lparr>rr_dataSeen := True\<rparr>)
        (store_fields sdk w (dsm_fields dsm) (rr_targets r) a))"
    have "reader_kept r r'" unfolding r'_def by (rule signal_kept)
    moreover have "fst (receive_message sdk w publisher grp dsm (s, a))
        \<in> {s, s\<lparr>en_readers := AList.update ?key r' (en_readers s)\<rparr>}"
      using Some by (simp add: receive_message_def r'_def Let_def split: prod.split)
    ultimately show ?thesis using Some that by blast
  qed
qed

lemma alist_update_image:
  "distinct (keys m) \<Longrightarrow> map_of m k = Some v \<Longrightarrow> f v = f v' \<Longrightarrow> map (\<lambda>e. f (snd e)) (AList.update k v' m) = map (\<lambda>e. f (snd e)) m"
  by (induction m) (auto split: if_splits dest: map_of_SomeD)

lemma receive_message_inv:
  assumes "engine_inv s"
  shows "engine_inv (fst (receive_message sdk w publisher grp dsm (s, a)))"
proof (cases rule: receive_message_cases [of sdk w publisher grp dsm s a])
  case 1
  then show ?thesis using assms by simp
next
  case (2 key r r')
  have ok: "distinct (keys (en_readers s))" "\<forall>(k, r) \<in> set (en_readers s). k = config_reader_key (rr_config r)"
    "receivers_counted (en_receivers s) (count_list (endpoints (en_readers s)))"
    using assms by (auto simp: engine_inv_def readers_ok_def)
  have r': "rr_config r' = rr_config r" "reader_endpoint r' = reader_endpoint r"
    using 2(2) by (auto simp: reader_kept_def)
  have "endpoints (AList.update key r' (en_readers s)) = endpoints (en_readers s)"
    using alist_update_image [OF ok(1) 2(1), of reader_endpoint r'] r'(2) by (simp add: comp_def)
  moreover have "\<forall>(k, r) \<in> set (AList.update key r' (en_readers s)). k = config_reader_key (rr_config r)"
  proof -
    have "(key, r) \<in> set (en_readers s)" using 2(1) by (rule map_of_SomeD)
    then have "key = config_reader_key (rr_config r')" using ok(2) r'(1) by auto
    then show ?thesis using ok(2) unfolding alist_all_map_of [OF ok(1)] alist_all_map_of [OF distinct_update [OF ok(1)]]
      by (simp add: update_conv')
  qed
  ultimately have "readers_ok (s\<lparr>en_readers := AList.update key r' (en_readers s)\<rparr>)"
    using ok by (simp add: readers_ok_def distinct_update)
  then show ?thesis unfolding 2(3) using assms 2(1)
    by (auto simp: engine_inv_def groups_ok_def timers_ok_def idle_def split: if_splits)
qed

lemma handleDatagram_inv:
  assumes "engine_inv s"
  shows "engine_inv (fst (handleDatagram sdk w datagram (s, a)))"
proof -
  have "engine_inv (fst (fold (receive_message sdk w p g) ms (t, b)))" if "engine_inv t" for p g ms t b
    using that
  proof (induction ms arbitrary: t b)
    case (Cons m ms)
    obtain t' b' where m: "receive_message sdk w p g m (t, b) = (t', b')" by fastforce
    have "engine_inv t'" using receive_message_inv [OF Cons.prems, of sdk w p g m b] m by simp
    from Cons.IH [OF this] m show ?case by simp
  qed simp
  from this [OF assms] assms show ?thesis by (simp add: handleDatagram_def split: outcome.split)
qed

end
