(* ===== verification/PubSubSteps.thy ===== *)
theory PubSubSteps
  imports PubSubInvariant
begin

text \<open>
  The runs of the engine: its invariant in every reachable state, the silence of removed groups,
  the failures that change nothing, and what an owner's removal takes away.
\<close>

section \<open>Steps\<close>

datatype ('p, 'c) engine_event =
    EvStage pubsub_configuration
  | EvStart udp_ops "string \<Rightarrow> 'p node option"
  | EvEnsureStarted
  | EvAddGroup udp_ops string publisher_id_type "64 word" "'p dynamic_writer_group"
  | EvAddReader udp_ops string "('p, 'c) dynamic_reader"
  | EvRemove string
  | EvShutdown
  | EvTimer nat bool
  | EvDatagram bytes
  | EvWorld

type_synonym sent = "(udp_transmitter \<times> bytes) option"

text \<open>
  A call that throws is a step to the state it leaves; a start that throws ends the server and is
  no step. The handler of a timer runs with the error of a cancelled wait only for a stopped
  group, and without one for any group, stopped or not: the completion may have been queued
  before the wait was cancelled. The world changes on its own between the steps.
\<close>

inductive engine_step :: "('v, 's, 'b) ua_sdk \<Rightarrow> ('a, 'p, 'c, 'v) world_ops \<Rightarrow> ('p, 'c) engine \<times> 'a
    \<Rightarrow> ('p, 'c) engine_event \<times> sent \<Rightarrow> ('p, 'c) engine \<times> 'a \<Rightarrow> bool" for sdk w where
  stage: "stageConfiguration c s = (s', r) \<Longrightarrow> engine_step sdk w (s, a) (EvStage c, None) (s', a)"
| start: "startIfStaged udp nodes s = (s', Inr ()) \<Longrightarrow> engine_step sdk w (s, a) (EvStart udp nodes, None) (s', a)"
| ensure: "ensureStarted s = (s', r) \<Longrightarrow> engine_step sdk w (s, a) (EvEnsureStarted, None) (s', a)"
| add_group: "addDynamicWriterGroup udp tag type publisher grp s = (s', r) \<Longrightarrow>
    engine_step sdk w (s, a) (EvAddGroup udp tag type publisher grp, None) (s', a)"
| add_reader: "addDynamicReader udp tag reader s = (s', r) \<Longrightarrow>
    engine_step sdk w (s, a) (EvAddReader udp tag reader, None) (s', a)"
| remove: "engine_step sdk w (s, a) (EvRemove tag, None) (removeDynamic tag s, a)"
| stop: "engine_step sdk w (s, a) (EvShutdown, None) (shutdown s, a)"
| timer: "g \<in> set (en_timers s) \<Longrightarrow> (aborted \<longrightarrow> gr_stopped (group_at s g)) \<Longrightarrow>
    timer_handler sdk w a g aborted s = (s', out) \<Longrightarrow> engine_step sdk w (s, a) (EvTimer g aborted, out) (s', a)"
| datagram: "handleDatagram sdk w bs (s, a) = (s', a') \<Longrightarrow> engine_step sdk w (s, a) (EvDatagram bs, None) (s', a')"
| world: "engine_step sdk w (s, a) (EvWorld, None) (s, a')"

inductive_cases engine_stepE: "engine_step sdk w sa e sa'"

lemma stageConfiguration_inv: "engine_inv s \<Longrightarrow> stageConfiguration c s = (s', r) \<Longrightarrow> engine_inv s'"
  by (auto simp: stageConfiguration_def engine_inv_def readers_ok_def groups_ok_def timers_ok_def idle_def split: if_splits)

lemma ensureStarted_inv:
  assumes "engine_inv s" and "ensureStarted s = (s', r)"
  shows "engine_inv s'"
proof (cases "en_running s \<or> en_staged s \<noteq> None")
  case True
  then show ?thesis using assms by (auto simp: ensureStarted_def split: if_splits)
next
  case False
  then have s': "s' = s\<lparr>en_running := True\<rparr>" using assms(2) by (simp add: ensureStarted_def startIoThread_def)
  have "idle s'" using assms(1) False by (simp add: engine_inv_def s' idle_def)
  then show ?thesis using assms(1) idle_inv [of s'] by (simp add: engine_inv_def s' groups_ok_def)
qed

lemma engine_step_inv:
  "engine_step sdk w sa e sa' \<Longrightarrow> engine_inv (fst sa) \<Longrightarrow> engine_inv (fst sa')"
proof (induction rule: engine_step.induct)
  case (datagram bs s a s' a')
  then show ?case using handleDatagram_inv [of s sdk w bs a] by simp
qed (auto intro: stageConfiguration_inv startIfStaged_inv ensureStarted_inv addDynamicWriterGroup_inv
    addDynamicReader_inv removeDynamic_inv shutdown_inv timer_handler_inv)

interpretation engine: inductive_invariant "engine_step sdk w" "\<lambda>sa. fst sa = new_engine" "\<lambda>sa. engine_inv (fst sa)"
  for sdk w
  by unfold_locales (auto intro: new_engine_inv engine_step_inv)

section \<open>Stopped groups\<close>

definition group_stopped :: "nat \<Rightarrow> ('p, 'c) engine \<Rightarrow> bool" where
  "group_stopped g s \<longleftrightarrow> (\<exists>grp. en_heap s g = Some grp \<and> gr_stopped grp)"

definition silent :: "nat \<Rightarrow> ('p, 'c) engine_event \<times> sent \<Rightarrow> bool" where
  "silent g e \<longleftrightarrow> (case e of (EvTimer g' aborted, out) \<Rightarrow> g' = g \<longrightarrow> out = None | _ \<Rightarrow> True)"

lemma commit_group_stopped:
  "groups_ok s \<Longrightarrow> group_stopped g s \<Longrightarrow> group_stopped g (commit_group grp s)"
  by (auto simp: group_stopped_def commit_group_def groups_ok_def)

lemma build_keeps_stopped:
  "act_delivers (\<lambda>s. building s \<and> group_stopped g s) (buildRuntimes udp nodes configuration)"
proof -
  have grp: "act_delivers (\<lambda>s. building s \<and> group_stopped g s) (build_group udp nodes c k i)" for c k i
    unfolding act_delivers_def
  proof (intro allI impI)
    fix s s' x
    assume b: "building s \<and> group_stopped g s" and run: "build_group udp nodes c k i s = (s', Inr x)"
    from run obtain grp where "s' = commit_group grp s"
      by (auto simp: build_group_def act_bind_Inr_iff split: option.splits)
    then show "building s' \<and> group_stopped g s'"
      using b act_deliversD [OF build_group_keeps _ run] commit_group_stopped by (auto simp: building_def)
  qed
  have rd: "act_delivers (\<lambda>s. building s \<and> group_stopped g s) (build_reader udp nodes c i)" for c i
    unfolding act_delivers_def
  proof (intro allI impI)
    fix s s' x
    assume b: "building s \<and> group_stopped g s" and run: "build_reader udp nodes c i s = (s', Inr x)"
    from run have "en_heap s' = en_heap s"
      by (auto simp: build_reader_def act_bind_Inr_iff dest!: acquire_heap split: if_splits)
    then show "building s' \<and> group_stopped g s'"
      using b act_deliversD [OF build_reader_keeps _ run] by (simp add: group_stopped_def)
  qed
  show ?thesis unfolding buildRuntimes_def build_connection_def
    by (intro act_delivers_for act_delivers_bind grp rd)
qed

lemma start_keeps_stopped:
  assumes "engine_inv s" and "group_stopped g s" and "startIfStaged udp nodes s = (s', Inr ())"
  shows "group_stopped g s'"
proof (cases "en_staged s")
  case None
  then show ?thesis using assms by (simp add: startIfStaged_def)
next
  case (Some c)
  with assms(3) have idle: "\<not> en_running s" by (auto simp: startIfStaged_def split: if_splits)
  with assms(3) Some obtain t where t: "buildRuntimes udp nodes c (s\<lparr>en_staged := None\<rparr>) = (t, Inr ())"
    and s': "s' = (start_all t)\<lparr>en_running := True\<rparr>"
    by (auto simp: startIfStaged_def startIoThread_def act_bind_Inr_iff)
  have "building (s\<lparr>en_staged := None\<rparr>) \<and> group_stopped g (s\<lparr>en_staged := None\<rparr>)"
    using assms(1,2) idle
    by (auto simp: building_def engine_inv_def idle_def readers_ok_def groups_ok_def group_stopped_def)
  from act_deliversD [OF build_keeps_stopped this t] show ?thesis
    by (simp add: s' start_all_def fold_schedule group_stopped_def)
qed

lemma handleDatagram_heap: "en_heap (fst (handleDatagram sdk w bs (s, a))) = en_heap s"
proof -
  have "en_heap (fst (fold (receive_message sdk w p g) ms (t, b))) = en_heap t" for p g ms t b
  proof (induction ms arbitrary: t b)
    case (Cons m ms)
    obtain t' b' where m: "receive_message sdk w p g m (t, b) = (t', b')" by fastforce
    have "en_heap t' = en_heap t" using receive_message_cases [of sdk w p g m t b] m by fastforce
    then show ?case using Cons.IH m by simp
  qed simp
  then show ?thesis by (simp add: handleDatagram_def split: outcome.split)
qed

lemma shutdown_keeps_stopped: "engine_inv s \<Longrightarrow> group_stopped g s \<Longrightarrow> group_stopped g (shutdown s)"
  by (auto simp: group_stopped_def shutdown_def stop_all_heap engine_inv_def groups_ok_def)

lemma timer_keeps_stopped:
  assumes "group_stopped g s" and "timer_handler sdk w a h aborted s = (s', out)"
  shows "group_stopped g s' \<and> (h = g \<longrightarrow> out = None)"
proof (cases "gr_stopped (group_at s h) \<or> aborted")
  case True
  then show ?thesis using assms by (auto simp: timer_handler_def Let_def group_stopped_def)
next
  case False
  then have "h \<noteq> g" using assms(1) by (auto simp: group_stopped_def)
  with False assms show ?thesis
    by (auto simp: timer_handler_def Let_def publishGroup_def scheduleGroup_def group_stopped_def)
qed

lemma step_keeps_stopped:
  assumes "engine_inv (fst sa)" and "group_stopped g (fst sa)" and "engine_step sdk w sa e sa'"
  shows "group_stopped g (fst sa') \<and> silent g e"
  using assms(3,1,2)
proof (induction rule: engine_step.induct)
  case (stage c s s' r a)
  then show ?case by (auto simp: stageConfiguration_def silent_def group_stopped_def split: if_splits)
next
  case (start udp nodes s s' a)
  then show ?case using start_keeps_stopped [of s g udp nodes s'] by (simp add: silent_def)
next
  case (ensure s s' r a)
  then show ?case by (auto simp: ensureStarted_def startIoThread_def silent_def group_stopped_def split: if_splits)
next
  case (add_group udp tag type publisher grp s s' r a)
  have "group_stopped g (scheduleGroup n t) = group_stopped g t" for n t
    by (simp add: scheduleGroup_def group_stopped_def)
  with addDynamicWriterGroup_cases [OF add_group.hyps] commit_group_stopped [of s g] add_group.prems show ?case
    by (auto simp: silent_def engine_inv_def)
next
  case (add_reader udp tag reader s s' r a)
  have "en_heap s' = en_heap s"
    using addDynamicReader_cases [OF add_reader.hyps] by (auto dest: acquire_heap)
  then show ?case using add_reader.prems by (simp add: silent_def group_stopped_def)
next
  case (remove s a tag)
  then show ?case
    by (cases "en_running s") (auto simp: removeDynamic_state group_stopped_def silent_def, simp add: removeDynamic_def)
next
  case (stop s a)
  then show ?case by (simp add: shutdown_keeps_stopped silent_def)
next
  case (timer h s aborted a s' out)
  then show ?case using timer_keeps_stopped [of g s sdk w a h aborted s' out] by (simp add: silent_def)
next
  case (datagram bs s a s' a')
  then show ?case using handleDatagram_heap [of sdk w bs s a] by (simp add: silent_def group_stopped_def)
next
  case (world s a a')
  then show ?case by (simp add: silent_def)
qed

section \<open>Adding a reader and taking it back\<close>

lemma remove_added_reader:
  assumes inv: "engine_inv s" and added: "addDynamicReader udp tag reader s = (s', Inr ())"
    and fresh: "list_all (\<lambda>g. gr_ownerTag (group_at s g) \<noteq> tag) (en_writerGroups s)"
      "list_all (\<lambda>e. \<not> owned tag e) (en_readers s)"
  shows "removeDynamic tag s' = s"
proof -
  let ?key = "dynamic_reader_key reader" and ?r = "dynamic_reader_runtime tag reader"
  from addDynamicReader_cases [OF added] obtain t where run: "en_running s" and new: "?key \<notin> set (keys (en_readers s))"
    and acq: "acquireReceiver udp (dr_host reader) (dr_port reader) True s = (t, Inr ())"
    and s': "s' = t\<lparr>en_readers := AList.update ?key ?r (en_readers t)\<rparr>" by auto
  have t: "t = s\<lparr>en_receivers := en_receivers t\<rparr>" using acquire_frame [OF acq] .
  have readers: "en_readers s' = en_readers s @ [(?key, ?r)]"
    using new by (subst s', subst t) (simp add: alist_update_new)
  have own: "filter (owned tag) (en_readers s') = [(?key, ?r)]" "filter (\<lambda>e. \<not> owned tag e) (en_readers s') = en_readers s"
    using fresh(2) by (auto simp: readers filter_id_conv filter_empty_conv list_all_iff dynamic_reader_runtime_def)
  have groups: "filter (\<lambda>g. gr_ownerTag (group_at s g) \<noteq> tag) (en_writerGroups s) = en_writerGroups s"
    "(\<lambda>g. if g \<in> set (en_writerGroups s) \<and> gr_ownerTag (group_at s g) = tag
       then Some ((group_at s g)\<lparr>gr_stopped := True\<rparr>) else en_heap s g) = en_heap s"
    using fresh(1) by (auto simp: filter_id_conv list_all_iff fun_eq_iff)
  have counted: "receivers_counted (en_receivers s) (count_list (endpoints (en_readers s)))"
    using inv by (simp add: engine_inv_def readers_ok_def)
  have "release_key (dr_host reader, dr_port reader) (en_receivers t) = en_receivers s"
  proof (cases "map_of (en_receivers s) (dr_host reader, dr_port reader)")
    case None
    then have k: "(dr_host reader, dr_port reader) \<notin> set (keys (en_receivers s))"
      by (simp add: map_of_eq_None_iff)
    obtain e where "en_receivers t = en_receivers s @ [((dr_host reader, dr_port reader), e)]" "re_useCount e = 1"
      using acq None by (auto simp: acquireReceiver_def alist_update_new [OF k] split: option.splits)
    moreover have "map_of (en_receivers s @ [((dr_host reader, dr_port reader), e)]) (dr_host reader, dr_port reader) = Some e" for e
      using None by (simp add: map_add_Some_iff)
    ultimately show ?thesis
      by (simp add: release_key_def releaseReceiver_def alist_delete_new [OF k])
  next
    case (Some e)
    have "0 < re_useCount e" using counted Some by (auto simp: receivers_counted_def)
    moreover have "AList.update (dr_host reader, dr_port reader) e (en_receivers s) = en_receivers s"
      using Some by (rule alist_update_same)
    moreover have "distinct (keys (en_receivers s))" using counted by (simp add: receivers_counted_def)
    moreover have "en_receivers t = AList.update (dr_host reader, dr_port reader)
        (e\<lparr>re_useCount := re_useCount e + 1\<rparr>) (en_receivers s)"
      using acq Some by (auto simp: acquireReceiver_def)
    ultimately show ?thesis using Some
      by (simp add: release_key_def releaseReceiver_def update_conv')
  qed
  moreover have inv': "engine_inv s'" using addDynamicReader_inv [OF inv added] .
  moreover have same: "en_running s'" "en_writerGroups s' = en_writerGroups s" "en_heap s' = en_heap s"
      "en_receivers s' = en_receivers t"
    using run by (simp_all add: s', (subst t, simp)+)
  ultimately have "removeDynamic tag s' = s'\<lparr>en_writerGroups := en_writerGroups s, en_heap := en_heap s,
      en_readers := en_readers s, en_receivers := en_receivers s\<rparr>"
    unfolding removeDynamic_state [OF inv' same(1)] own same(2-4) groups
    by (simp add: dynamic_reader_runtime_def)
  also have "\<dots> = s" unfolding s' by (subst t) simp
  finally show ?thesis .
qed

lemma removal_exact:
  assumes "engine_inv s" and "en_running s" and "s' = removeDynamic tag s"
  shows "en_readers s' = filter (\<lambda>e. \<not> owned tag e) (en_readers s)
    \<and> en_writerGroups s' = filter (\<lambda>g. gr_ownerTag (group_at s g) \<noteq> tag) (en_writerGroups s)
    \<and> set (keys (en_receivers s')) = set (endpoints (en_readers s'))"
proof -
  have "readers_ok s'" using removeDynamic_inv [OF assms(1), of tag] by (simp add: assms(3) engine_inv_def)
  then have c: "use_count (en_receivers s') = count_list (endpoints (en_readers s'))"
      "\<forall>k e. map_of (en_receivers s') k = Some e \<longrightarrow> 0 < re_useCount e"
    by (simp_all add: readers_ok_def receivers_counted_def)
  have "k \<in> set (keys (en_receivers s')) \<longleftrightarrow> k \<in> set (endpoints (en_readers s'))" for k
  proof -
    have "k \<in> set (keys (en_receivers s')) \<longleftrightarrow> map_of (en_receivers s') k \<noteq> None"
      by (simp add: map_of_eq_None_iff)
    also have "\<dots> \<longleftrightarrow> use_count (en_receivers s') k \<noteq> 0"
      using c(2) by (cases k) (auto simp: use_count_def split: option.splits)
    also have "\<dots> \<longleftrightarrow> k \<in> set (endpoints (en_readers s'))"
      unfolding c(1) by (simp add: count_list_0_iff)
    finally show ?thesis .
  qed
  then have "set (keys (en_receivers s')) = set (endpoints (en_readers s'))" by blast
  then show ?thesis by (simp only: assms(3) removeDynamic_state [OF assms(1,2)]) simp
qed

section \<open>A sample engine\<close>

definition sample_world :: "(unit, nat, unit, sample_variant) world_ops" where
  "sample_world = \<lparr>w_value = \<lambda>a p. Some (SampleVariant OpcUaType_Byte False [p] []),
     w_setValue = \<lambda>a p v. (), w_callback = \<lambda>a c. (a, True)\<rparr>"

definition sample_udp :: udp_ops where
  "sample_udp = \<lparr>udp_transmitter_error = \<lambda>host port ttl loop. None,
     udp_receiver_error = \<lambda>host port. if host = ''nowhere'' then Some ''bind: no such address'' else None\<rparr>"

definition sample_group :: "nat dynamic_writer_group" where
  "sample_group = \<lparr>dwg_id = 7, dwg_dataSetWriterId = 3, dwg_publishingIntervalMs = 0x4059000000000000,
     dwg_fields = [\<lparr>dyn_address = ''a.b'', dyn_variable = 5\<rparr>], dwg_host = ''224.0.0.5'', dwg_port = 4840,
     dwg_ttl = 1, dwg_loopback = True\<rparr>"

definition sample_reader :: "(nat, unit) dynamic_reader" where
  "sample_reader = \<lparr>dr_publisherIdType = PublisherIdUInt16, dr_publisherId = 10, dr_writerGroupId = 7,
     dr_dataSetWriterId = 3, dr_targets = [\<lparr>dyn_address = ''c.d'', dyn_variable = 6\<rparr>], dr_host = ''224.0.0.5'',
     dr_port = 4840, dr_onFirstData = None\<rparr>"

definition sample_started :: "(nat, unit) engine" where
  "sample_started = new_engine\<lparr>en_running := True\<rparr>"

definition sample_publishing :: "(nat, unit) engine" where
  "sample_publishing = scheduleGroup 0 (commit_group (dynamic_group ''t'' PublisherIdUInt16 10 sample_group) sample_started)"

definition sample_reading :: "(nat, unit) engine" where
  "sample_reading = sample_publishing\<lparr>en_receivers := [((''224.0.0.5'', 4840), \<lparr>re_armed = True, re_useCount = 1\<rparr>)],
     en_readers := [((10, 7, 3), dynamic_reader_runtime ''u'' sample_reader)]\<rparr>"

lemma sample_interval: "f64_less 0 0x4059000000000000"
  by (simp add: f64_less_def f64_is_nan_def f64_mag_def f64_key_def f64_sign_def)

lemma sample_add_group:
  "addDynamicWriterGroup sample_udp ''t'' PublisherIdUInt16 10 sample_group sample_started = (sample_publishing, Inr ())"
  using sample_interval
  by (simp add: addDynamicWriterGroup_def sample_started_def new_engine_def sample_group_def sample_udp_def
      sample_publishing_def)

lemma sample_add_reader:
  "addDynamicReader sample_udp ''u'' sample_reader sample_publishing = (sample_reading, Inr ())"
  by (simp add: addDynamicReader_def sample_publishing_def scheduleGroup_def commit_group_def sample_started_def
      new_engine_def sample_reader_def acquireReceiver_def sample_udp_def sample_reading_def act_bind_def
      dynamic_reader_key_def)

lemma sample_run:
  "run (engine_step sample_sdk sample_world) (new_engine, ())
     [(EvEnsureStarted, None), (EvAddGroup sample_udp ''t'' PublisherIdUInt16 10 sample_group, None),
      (EvAddReader sample_udp ''u'' sample_reader, None)] (sample_reading, ())"
proof (intro run_Cons)
  show "engine_step sample_sdk sample_world (new_engine, ()) (EvEnsureStarted, None) (sample_started, ())"
    by (rule ensure) (simp add: ensureStarted_def startIoThread_def new_engine_def sample_started_def)
qed (rule add_group [OF sample_add_group] add_reader [OF sample_add_reader] run_Nil)+

lemma sample_reading_inv: "engine_inv sample_reading"
  using engine.reachable_inv [OF _ sample_run] by simp

section \<open>Properties\<close>


text \<open>
  C14: a dynamic writer group or reader that is refused, for its coordinates, its arguments or its
  socket, leaves the engine exactly as it was.
\<close>

theorem refused_changes_nothing:
  assumes "addDynamicWriterGroup udp tag type publisher grp s = (s1, Inl e1)"
    and "addDynamicReader udp tag reader s = (s2, Inl e2)"
  shows "s1 = s \<and> s2 = s"
  using addDynamicWriterGroup_cases [OF assms(1)] addDynamicReader_cases [OF assms(2)] by auto

text \<open>
  C15: once an owner is removed, none of its writer groups sends again, in any later run and whatever
  the order in which the handlers of its timers arrive.
\<close>

theorem removed_group_silent:
  assumes "run (engine_step sdk w) (new_engine, a) es (s, b)" and "en_running s"
    and "g \<in> set (en_writerGroups s)" and "gr_ownerTag (group_at s g) = tag"
    and "run (engine_step sdk w) (removeDynamic tag s, b) es' (s', b')"
  shows "list_all (silent g) es'"
proof -
  have inv: "engine_inv s" using engine.reachable_inv [OF _ assms(1)] by simp
  have "group_stopped g (removeDynamic tag s)"
    using assms(3,4) by (simp add: removeDynamic_state [OF inv assms(2)] group_stopped_def)
  then have "group_stopped g (fst (s', b')) \<and> list_all (silent g) es'"
    by (intro engine.run_stable [OF assms(5), where P = "\<lambda>sa. group_stopped g (fst sa)"])
       (simp_all only: fst_conv removeDynamic_inv [OF inv] step_keeps_stopped simp_thms)
  then show ?thesis by simp
qed

text \<open>
  Adding a reader for an owner that has nothing in the engine and then removing the owner gives
  back the same engine, the receivers and their use counts included.
\<close>

lemma add_remove_reader:
  assumes "engine_inv s" and "addDynamicReader udp tag reader s = (s', Inr ())"
    and "list_all (\<lambda>g. gr_ownerTag (group_at s g) \<noteq> tag) (en_writerGroups s)"
    and "list_all (\<lambda>e. \<not> owned tag e) (en_readers s)"
  shows "removeDynamic tag s' = s"
  using assms by (rule remove_added_reader)

text \<open>
  C16: removing an owner takes away exactly its readers and writer groups, in place, and the sockets
  that remain are those of the remaining readers.
\<close>

theorem removal_takes_exactly:
  assumes "engine_inv s" and "en_running s" and "s' = removeDynamic tag s"
  shows "en_readers s' = filter (\<lambda>e. \<not> owned tag e) (en_readers s)
    \<and> en_writerGroups s' = filter (\<lambda>g. gr_ownerTag (group_at s g) \<noteq> tag) (en_writerGroups s)
    \<and> set (keys (en_receivers s')) = set (endpoints (en_readers s'))"
  using assms by (rule removal_exact)

text \<open>
  A start that throws does leave something behind. Two configured readers, the second on an
  address that cannot be bound: both are in the engine afterwards, and \<open>ensureStarted\<close> then runs it
  with a reader that has no receiver.
\<close>

lemma failed_start_residue:
  "\<exists>(c :: pubsub_configuration) e (s1 :: (nat, unit) engine) s2.
     startIfStaged sample_udp (\<lambda>_. Some (CacheVariable 0)) (new_engine\<lparr>en_staged := Some c\<rparr>) = (s1, Inl e)
     \<and> ensureStarted s1 = (s2, Inr ()) \<and> en_running s2 \<and> length (en_readers s2) = 2 \<and> length (en_receivers s2) = 1"
proof -
  let ?reader = "\<lambda>i. \<lparr>drc_publisherIdType = PublisherIdUInt16, drc_publisherId = 10, drc_writerGroupId = i,
    drc_dataSetWriterId = 1, drc_targets = [\<lparr>fc_address = ''a''\<rparr>]\<rparr>"
  let ?conn = "\<lambda>host i. \<lparr>cc_host = host, cc_port = 4840, cc_ttl = 1, cc_loopback = True, cc_writerGroups = [],
    cc_readers = [?reader i]\<rparr>"
  let ?c = "\<lparr>pc_publisherIdType = PublisherIdUInt16, pc_publisherId = 10,
    pc_connections = [?conn ''224.0.0.5'' 1, ?conn ''nowhere'' 2]\<rparr>"
  let ?s = "fst (startIfStaged sample_udp (\<lambda>_. Some (CacheVariable 0)) (new_engine\<lparr>en_staged := Some ?c\<rparr>))"
  show ?thesis
    by (rule exI [of _ ?c], rule exI [of _ "''bind: no such address''"], rule exI [of _ ?s],
        rule exI [of _ "?s\<lparr>en_running := True\<rparr>"])
       (simp add: startIfStaged_def new_engine_def buildRuntimes_def build_connection_def build_reader_def
          resolveVariable_def config_reader_key_def acquireReceiver_def sample_udp_def ensureStarted_def
          startIoThread_def act_bind_def)
qed

section \<open>Witnesses\<close>


theorem refused_changes_nothing_witness:
  "fst (addDynamicWriterGroup sample_udp ''x'' PublisherIdUInt16 10 sample_group sample_reading) = sample_reading
   \<and> fst (addDynamicReader sample_udp ''x'' sample_reader sample_reading) = sample_reading"
proof -
  have a: "\<exists>e. addDynamicWriterGroup sample_udp ''x'' PublisherIdUInt16 10 sample_group sample_reading
      = (fst (addDynamicWriterGroup sample_udp ''x'' PublisherIdUInt16 10 sample_group sample_reading), Inl e)"
    using sample_interval
    by (simp add: addDynamicWriterGroup_def sample_reading_def sample_publishing_def sample_started_def new_engine_def
        scheduleGroup_def commit_group_def same_coordinates_def dynamic_group_def sample_group_def)
  have b: "\<exists>e. addDynamicReader sample_udp ''x'' sample_reader sample_reading
      = (fst (addDynamicReader sample_udp ''x'' sample_reader sample_reading), Inl e)"
    by (simp add: addDynamicReader_def sample_reading_def sample_publishing_def sample_started_def new_engine_def
        scheduleGroup_def commit_group_def sample_reader_def dynamic_reader_key_def)
  from a b show ?thesis using refused_changes_nothing by metis
qed

lemma sample_reading_parts:
  "en_running sample_reading" "en_writerGroups sample_reading = [0]" "en_timers sample_reading = [0]"
  "group_at sample_reading 0 = dynamic_group ''t'' PublisherIdUInt16 10 sample_group"
  "en_readers sample_reading = [((10, 7, 3), dynamic_reader_runtime ''u'' sample_reader)]"
  by (simp_all add: sample_reading_def sample_publishing_def scheduleGroup_def commit_group_def sample_started_def
      new_engine_def)

theorem removed_group_silent_witness:
  "\<exists>s' out. engine_step sample_sdk sample_world (removeDynamic ''t'' sample_reading, ()) (EvTimer 0 False, out) (s', ())
     \<and> silent 0 (EvTimer 0 False :: (nat, unit) engine_event, out)"
proof -
  have owner: "gr_ownerTag (group_at sample_reading 0) = ''t''"
    by (simp add: sample_reading_parts dynamic_group_def)
  obtain s' out where h: "timer_handler sample_sdk sample_world () 0 False (removeDynamic ''t'' sample_reading) = (s', out)"
    by fastforce
  have "0 \<in> set (en_timers (removeDynamic ''t'' sample_reading))"
    by (simp add: removeDynamic_state [OF sample_reading_inv sample_reading_parts(1)] sample_reading_parts)
  then have step: "engine_step sample_sdk sample_world (removeDynamic ''t'' sample_reading, ()) (EvTimer 0 False, out) (s', ())"
    by (intro timer h) simp_all
  have "list_all (silent 0) [(EvTimer 0 False :: (nat, unit) engine_event, out)]"
    by (rule removed_group_silent [OF sample_run sample_reading_parts(1) _ owner run_Cons [where step = "engine_step sample_sdk sample_world", OF step run_Nil]])
       (simp add: sample_reading_parts)
  then have "silent 0 (EvTimer 0 False :: (nat, unit) engine_event, out)" by simp
  with step show ?thesis by (intro exI conjI)
qed

lemma add_remove_reader_witness: "removeDynamic ''u'' sample_reading = sample_publishing"
proof (rule add_remove_reader [OF _ sample_add_reader])
  show "engine_inv sample_publishing"
    using addDynamicWriterGroup_inv [OF _ sample_add_group] ensureStarted_inv [OF new_engine_inv, of sample_started]
    by (simp add: ensureStarted_def startIoThread_def new_engine_def sample_started_def)
  show "list_all (\<lambda>g. gr_ownerTag (group_at sample_publishing g) \<noteq> ''u'') (en_writerGroups sample_publishing)"
    by (simp add: sample_publishing_def scheduleGroup_def commit_group_def sample_started_def new_engine_def
        dynamic_group_def)
  show "list_all (\<lambda>e. \<not> owned ''u'' e) (en_readers sample_publishing)"
    by (simp add: sample_publishing_def scheduleGroup_def commit_group_def sample_started_def new_engine_def)
qed

theorem removal_takes_exactly_witness: "en_readers (removeDynamic ''u'' sample_reading) = []"
  using removal_takes_exactly [OF sample_reading_inv sample_reading_parts(1) refl, of "''u''"]
  by (simp add: sample_reading_parts dynamic_reader_runtime_def)

end
