(* ===== verification/PubSubDelivery.thy ===== *)
theory PubSubDelivery
  imports PubSubSteps
begin

text \<open>
  One engine publishes, another receives. What the publisher converts fits the wire format, so the
  datagram it sends is decoded to the message it was made of, and the receiver stores the fields
  in the targets of the reader that is filed under the coordinates of the writer group.
\<close>

section \<open>Published values fit the format\<close>

text \<open>The sizes the format imposes: strings below 2 GiB, arrays of at most a million elements.\<close>

definition size_ok :: "wire_value \<Rightarrow> bool" where
  "size_ok v \<longleftrightarrow> (if m_isArray v then length (m_elements v) \<le> 1000000
       \<and> (\<forall>e \<in> set (m_elements v). length (m_string e) < 2 ^ 31)
     else length (m_string v) < 2 ^ 31)"

lemma fits_converted:
  "fits_signed 8 (scast (x :: 8 word))" "fits_signed 16 (scast (y :: 16 word))" "fits_signed 32 (scast (z :: 32 word))"
  "fits_unsigned 8 (ucast (x :: 8 word))" "fits_unsigned 16 (ucast (y :: 16 word))" "fits_unsigned 32 (ucast (z :: 32 word))"
proof -
  have s: "sint (scast w :: 64 word) = sint w" if "LENGTH('b) \<le> 64" for w :: "'b::len word"
    using that by (intro sint_up_scast) (simp add: is_up)
  have u: "unat w < 2 ^ LENGTH('b)" for w :: "'b::len word" by (rule unsigned_less)
  show "fits_signed 8 (scast x)" "fits_signed 16 (scast y)" "fits_signed 32 (scast z)"
    using sint_ge [of x] sint_lt [of x] sint_ge [of y] sint_lt [of y] sint_ge [of z] sint_lt [of z]
    by (simp_all add: fits_signed_def s)
  show "fits_unsigned 8 (ucast x)" "fits_unsigned 16 (ucast y)" "fits_unsigned 32 (ucast z)"
    using u [of x] u [of y] u [of z]
    by (simp_all add: fits_unsigned_def unsigned_ucast_eq take_bit_nat_eq_self)
qed

lemma makeFloat_ok: "scalar_ok TypeFloat (makeFloat x)"
  by (simp add: scalar_ok_def makeFloat_def f32_to_f64_narrowed)

lemma scalar_published:
  assumes "uaVariantToWire sdk v = Some x" and "\<not> ua_is_array sdk v" and "length (m_string x) < 2 ^ 31"
  shows "\<exists>t. scalar_ok t x"
  using assms makeFloat_ok
  by (auto simp: uaVariantToWire_def scalar_ok_def make_defs fits_converted
      split: ua_type.splits intro!: exI [of _ "m_type x"])

lemma published_ok:
  assumes "uaVariantToWire sdk v = Some x" and "size_ok x"
  shows "wire_ok x"
proof (cases "ua_is_array sdk v")
  case False
  have "\<not> m_isArray x"
    using assms(1) False by (auto simp: uaVariantToWire_def make_defs split: ua_type.splits)
  then show ?thesis using scalar_published [OF assms(1) False] assms(2) scalar_okD(1)
    by (auto simp: wire_ok_def size_ok_def)
next
  case True
  then have "uaArrayToWire sdk v = Some x" using assms(1) by (simp add: uaVariantToWire_def)
  then obtain t es where x: "x = makeArray t es" and es: "\<forall>e \<in> set es. length (m_string e) < 2 ^ 31 \<longrightarrow> scalar_ok t e"
      "is_named t"
    by (auto simp: uaArrayToWire_def arrayToWireSigned_def arrayToWireUnsigned_def split: ua_type.splits option.splits
        intro!: that simp: f32_to_f64_narrowed scalar_ok_def make_defs fits_converted)
  then show ?thesis using assms(2) by (auto simp: wire_ok_def size_ok_def named_code_ok)
qed

lemma null_ok: "wire_ok makeNull" "size_ok makeNull"
  by (simp_all add: wire_ok_def scalar_ok_def size_ok_def) (simp_all add: makeNull_def)

lemma published_value_ok: "size_ok (published_value sdk w a p) \<Longrightarrow> wire_ok (published_value sdk w a p)"
  by (auto simp: published_value_def null_ok published_ok split: option.splits)

section \<open>What arrives\<close>

text \<open>The conditions under which a group's message fits: its publisher id and its values.\<close>

definition publishable :: "('v, 's, 'b) ua_sdk \<Rightarrow> ('a, 'p, 'c, 'v) world_ops \<Rightarrow> 'a \<Rightarrow> 'p writer_group_runtime \<Rightarrow> bool" where
  "publishable sdk w a grp \<longleftrightarrow> publisher_id_fits (gr_publisherIdType grp) (gr_publisherId grp)
     \<and> (\<forall>writer \<in> set (gr_writers grp). length (wr_variables writer) < 2 ^ 16
          \<and> (\<forall>p \<in> set (wr_variables writer). size_ok (published_value sdk w a p)))"

lemma group_message_ok: "publishable sdk w a grp \<Longrightarrow> network_message_ok (group_message sdk w a grp)"
  by (auto simp: publishable_def network_message_ok_def group_message_def message_ok_def writer_message_def
      new_network_message_def new_data_set_message_def published_value_ok)

lemma handle_published:
  assumes "publishable sdk w a grp" and "publishGroup sdk w a grp = (grp', Some (tx, bs))" and "length bs < 2 ^ 63"
  shows "handleDatagram sdk' w' bs sa = fold (receive_message sdk' w' (gr_publisherId grp) (wgc_id (gr_config grp)))
    (map (writer_message sdk w a) (gr_writers grp)) sa"
proof -
  have "encodeNetworkMessage (group_message sdk w a grp) = Inr bs"
    using assms(2) by (auto simp: publishGroup_def split: sum.splits)
  from decodes_encoded [OF group_message_ok [OF assms(1)] this, of "[]"] assms(3)
  show ?thesis by (simp add: handleDatagram_def group_message_def new_network_message_def)
qed

text \<open>
  Documented behaviour of a cache variable: it gives back the value it was set to, and setting it
  changes no other variable.
\<close>

definition world_laws :: "('a, 'p, 'c, 'v) world_ops \<Rightarrow> bool" where
  "world_laws w \<longleftrightarrow> (\<forall>a p v q. w_value w (w_setValue w a p v) q = (if q = p then Some v else w_value w a q))"

text \<open>Only the variables of a reader are written, each by the value of its field.\<close>

lemma store_fields_other:
  "world_laws w \<Longrightarrow> q \<notin> set ps \<Longrightarrow> w_value w (store_fields sdk w vs ps a) q = w_value w a q"
  by (induction sdk w vs ps a rule: store_fields.induct) (auto simp: world_laws_def split: option.splits)

lemma store_fields_read:
  assumes "world_laws w"
  shows "distinct ps \<Longrightarrow> length ps = length vs \<Longrightarrow> i < length ps \<Longrightarrow>
    w_value w (store_fields sdk w vs ps a) (ps ! i) =
      (case wireToUaVariant sdk (vs ! i) (ua_empty_variant sdk) of None \<Rightarrow> w_value w a (ps ! i) | Some v \<Rightarrow> Some v)"
proof (induction vs arbitrary: ps i a)
  case (Cons x vs)
  then obtain p qs where ps: "ps = p # qs" by (cases ps) auto
  let ?a = "case wireToUaVariant sdk x (ua_empty_variant sdk) of None \<Rightarrow> a | Some v \<Rightarrow> w_setValue w a p v"
  show ?case
  proof (cases i)
    case 0
    then show ?thesis using assms Cons.prems unfolding ps 0
      by (simp add: store_fields_other) (simp add: world_laws_def split: option.split)
  next
    case (Suc j)
    have "w_value w ?a (qs ! j) = w_value w a (qs ! j)"
    proof -
      have "qs ! j \<noteq> p" using Cons.prems Suc nth_mem [of j qs] by (auto simp: ps)
      then show ?thesis using assms by (simp add: world_laws_def split: option.split)
    qed
    then show ?thesis using Cons.IH [of qs j ?a] Cons.prems unfolding ps Suc
      by (simp split: option.splits)
  qed
qed simp

text \<open>What a variable holds after one wire value was stored in it.\<close>

definition holds :: "('v, 's, 'b) ua_sdk \<Rightarrow> ('a, 'p, 'c, 'v) world_ops \<Rightarrow> 'a \<Rightarrow> 'a \<Rightarrow> 'p \<Rightarrow> wire_value \<Rightarrow> bool" where
  "holds sdk w a a' p x \<longleftrightarrow> (if received_type x
     then \<exists>u. w_value w a' p = Some u \<and> uaVariantToWire sdk u = Some (received_value x)
     else w_value w a' p = w_value w a p)"

lemma stored_holds:
  assumes "ua_laws sdk" and "world_laws w" and "distinct ps" and "length ps = length vs" and "i < length ps"
    and "wire_ok (vs ! i)"
  shows "holds sdk w a (store_fields sdk w vs ps a) (ps ! i) (vs ! i)"
  using store_fields_read [OF assms(2-5), of sdk a] variant_back [OF assms(1,6), of "ua_empty_variant sdk"]
  by (auto simp: holds_def split: if_splits)

section \<open>Sequence numbers\<close>

fun publish_times :: "nat \<Rightarrow> ('v, 's, 'b) ua_sdk \<Rightarrow> ('a, 'p, 'c, 'v) world_ops \<Rightarrow> 'a \<Rightarrow> 'p writer_group_runtime
    \<Rightarrow> 'p writer_group_runtime" where
  "publish_times 0 sdk w a grp = grp"
| "publish_times (Suc n) sdk w a grp = publish_times n sdk w a (fst (publishGroup sdk w a grp))"

lemma publish_times_numbers:
  "gr_sequenceNumber (publish_times n sdk w a grp) = gr_sequenceNumber grp + of_nat n
   \<and> map wr_sequenceNumber (gr_writers (publish_times n sdk w a grp))
       = map (\<lambda>x. wr_sequenceNumber x + of_nat n) (gr_writers grp)"
  by (induction n arbitrary: grp) (auto simp: publishGroup_def comp_def algebra_simps)

section \<open>Properties\<close>


text \<open>
  C18: the n-th message of a writer group carries the sequence numbers it started from plus n, modulo
  \<open>2 ^ 16\<close>, in the group header and in every data set message, whether the earlier ones could be
  encoded or not.
\<close>

theorem sequence_numbers:
  "nm_groupSequenceNumber (group_message sdk w a (publish_times n sdk w a grp)) = gr_sequenceNumber grp + of_nat (Suc n)
   \<and> map dsm_sequenceNumber (nm_messages (group_message sdk w a (publish_times n sdk w a grp)))
       = map (\<lambda>x. wr_sequenceNumber x + of_nat (Suc n)) (gr_writers grp)"
proof -
  have "map (\<lambda>x. wr_sequenceNumber x + 1) (gr_writers (publish_times n sdk w a grp))
      = map (\<lambda>k. k + 1) (map wr_sequenceNumber (gr_writers (publish_times n sdk w a grp)))" by simp
  also have "\<dots> = map (\<lambda>x. wr_sequenceNumber x + of_nat (Suc n)) (gr_writers grp)"
    by (simp only: conjunct2 [OF publish_times_numbers]) (simp add: algebra_simps)
  finally show ?thesis using publish_times_numbers [of n sdk w a grp]
    by (simp add: group_message_def writer_message_def new_network_message_def comp_def algebra_simps)
qed

section \<open>Witness\<close>

text \<open>A world of variables that hold variants.\<close>

definition sample_memory :: "(nat \<Rightarrow> sample_variant option, nat, unit, sample_variant) world_ops" where
  "sample_memory = \<lparr>w_value = \<lambda>a p. a p, w_setValue = \<lambda>a p v. a(p \<mapsto> v), w_callback = \<lambda>a c. (a, True)\<rparr>"

lemma sample_memory_laws: "world_laws sample_memory"
  by (simp add: world_laws_def sample_memory_def)

definition sample_values :: "nat \<Rightarrow> sample_variant option" where
  "sample_values = [5 \<mapsto> SampleVariant OpcUaType_Byte False [42] []]"

lemma sample_published: "published_value sample_sdk sample_memory sample_values 5 = makeUnsigned TypeByte 42"
  by (simp add: published_value_def sample_memory_def sample_values_def uaVariantToWire_def sample_sdk_def
      sample_scalar_def)


end
