(* ===== verification/NodeManager.thy ===== *)
theory NodeManager
  imports ArrayTools Effects
begin

text \<open>
  The node manager of the address space, \<open>AddressSpace/src/ASNodeManager.cpp\<close>: the identifiers of
  child nodes, the addition of a node under a parent, the nodes that hang under no parent and the
  start-up delegate. The node table itself is the toolkit's: the parameter \<open>node_ops\<close> gives the
  status text of a refused addition, from the additions made so far, and the text of an identifier.
\<close>

section \<open>Identifiers\<close>

datatype node_id =
    NumericId "16 word" "32 word"
  | StringId "16 word" string
  | OpaqueId nat

definition OpcUaId_ObjectsFolder :: "32 word" where "OpcUaId_ObjectsFolder = 85"

definition makeChildNodeId :: "16 word \<Rightarrow> node_id \<Rightarrow> string \<Rightarrow> node_id result" where
  "makeChildNodeId ns parent childName = (case parent of
       NumericId pns i \<Rightarrow>
         (if pns = 0 \<and> i = OpcUaId_ObjectsFolder then Inr (StringId ns childName)
          else Inl ''CASUtils::makeChildNodeId: numeric identifier which can't have children.'')
     | StringId pns s \<Rightarrow> Inr (StringId pns (s @ ''.'' @ childName))
     | OpaqueId k \<Rightarrow> Inl ''CASUtils::makeChildNodeId: not applicable for this identifier type'')"

section \<open>Nodes\<close>

datatype node_kind = ObjectNode | VariableNode | MethodNode | ArgumentsNode "string list"
datatype reference_type = Organizes | HasComponent | HasProperty

record added_node =
  an_parent :: node_id
  an_id :: node_id
  an_kind :: node_kind
  an_reference :: reference_type

record node_ops =
  no_namespace :: "16 word"
  no_badStatus :: "added_node list \<Rightarrow> added_node \<Rightarrow> string option"
  no_idText :: "node_id \<Rightarrow> string"
  no_origin :: "nat \<Rightarrow> string"

text \<open>
  The two overloads differ in how the parent is named to the toolkit, by its identifier or by its
  node, and in the source line that the message gives.
\<close>

definition refused_addition :: "node_ops \<Rightarrow> nat \<Rightarrow> added_node \<Rightarrow> string \<Rightarrow> string" where
  "refused_addition ops line n status = ''At '' @ no_origin ops line @ '' While adding node: '' @ status
     @ ''(from: '' @ no_idText ops (an_parent n) @ '' to: '' @ no_idText ops (an_id n) @ '' )''"

definition addNodeAndReferenceThrows :: "node_ops \<Rightarrow> added_node \<Rightarrow> (added_node list, unit) action" where
  "addNodeAndReferenceThrows ops n = act_bind act_get (\<lambda>nodes.
     case no_badStatus ops nodes n of
       Some status \<Rightarrow> act_throw (refused_addition ops 72 n status)
     | None \<Rightarrow> act_modify (\<lambda>nodes. nodes @ [n]))"

definition addNodeAndReferenceThrows_node :: "node_ops \<Rightarrow> added_node \<Rightarrow> (added_node list, unit) action" where
  "addNodeAndReferenceThrows_node ops n = act_bind act_get (\<lambda>nodes.
     case no_badStatus ops nodes n of
       Some status \<Rightarrow> act_throw (refused_addition ops 91 n status)
     | None \<Rightarrow> act_modify (\<lambda>nodes. nodes @ [n]))"

lemma addNode_cases:
  "addNodeAndReferenceThrows ops n nodes = (nodes', r) \<Longrightarrow>
     (\<exists>e. r = Inl e \<and> nodes' = nodes) \<or> (r = Inr () \<and> nodes' = nodes @ [n])"
  "addNodeAndReferenceThrows_node ops n nodes = (nodes', r) \<Longrightarrow>
     (\<exists>e. r = Inl e \<and> nodes' = nodes) \<or> (r = Inr () \<and> nodes' = nodes @ [n])"
  by (auto simp: addNodeAndReferenceThrows_def addNodeAndReferenceThrows_node_def split: option.splits)

section \<open>Start-up and nodes without a parent\<close>

text \<open>
  \<open>afterStartUp\<close> creates the type nodes, whose status is always good, and then calls the delegate
  if one was set; a status is good or not. The destructor gives up one reference of every node
  that was registered without a parent, in the order of registration.
\<close>

record ('p, 'w) node_manager =
  nm_delegate :: "('w \<Rightarrow> 'w \<times> bool) option"
  nm_unreferenced :: "'p list"

definition new_node_manager :: "('p, 'w) node_manager" where
  "new_node_manager = \<lparr>nm_delegate = None, nm_unreferenced = []\<rparr>"

definition setAfterStartupDelegate :: "('w \<Rightarrow> 'w \<times> bool) \<Rightarrow> ('p, 'w) node_manager \<Rightarrow> ('p, 'w) node_manager" where
  "setAfterStartupDelegate d m = m\<lparr>nm_delegate := Some d\<rparr>"

definition addUnreferencedNode :: "'p \<Rightarrow> ('p, 'w) node_manager \<Rightarrow> ('p, 'w) node_manager \<times> bool" where
  "addUnreferencedNode node m = (m\<lparr>nm_unreferenced := nm_unreferenced m @ [node]\<rparr>, True)"

definition createTypeNodes :: "('w \<Rightarrow> 'w) \<Rightarrow> 'w \<Rightarrow> 'w \<times> bool" where
  "createTypeNodes createNodesOfTypes w = (createNodesOfTypes w, True)"

definition afterStartUp :: "('w \<Rightarrow> 'w) \<Rightarrow> ('p, 'w) node_manager \<Rightarrow> 'w \<Rightarrow> 'w \<times> bool" where
  "afterStartUp createNodesOfTypes m w = (case createTypeNodes createNodesOfTypes w of (w1, good) \<Rightarrow>
     if \<not> good then (w1, good)
     else case nm_delegate m of
       None \<Rightarrow> (w1, True)
     | Some d \<Rightarrow> (case d w1 of (w2, good) \<Rightarrow> if \<not> good then (w2, good) else (w2, True)))"

definition destroy_node_manager :: "('p \<Rightarrow> 'w \<Rightarrow> 'w) \<Rightarrow> ('p, 'w) node_manager \<Rightarrow> 'w \<Rightarrow> 'w" where
  "destroy_node_manager releaseReference m w = fold releaseReference (nm_unreferenced m) w"

end
