(* ===== verification/FxEngine.thy ===== *)
theory FxEngine
  imports FxRequests PubSubDelivery NodeManager
begin

text \<open>
  The FX engine, \<open>Fx/src/FxEngine.cpp\<close>: the automation component's model of functional entities
  and datasets, and the connections that its two services establish and close over the dynamic
  interface of the Pub/Sub engine. A state is the pair of the two engines. The engine's mutex
  makes a service one action; the io thread of the Pub/Sub engine runs beside it, and what that
  thread does between the activation of a connection and its report is the argument \<open>io\<close> of
  \<open>establish\<close>. A variable the engine adds to the address space is the number of its creation.
\<close>

section \<open>State\<close>

datatype view_value = Int32View "32 word" | StringView string

record 'p dataset_runtime =
  ds_name :: string
  ds_writerGroupId :: "16 word"
  ds_dataSetWriterId :: "16 word"
  ds_publishingIntervalMs :: f64
  ds_fields :: "dataset_field list"
  ds_variables :: "'p list"

record 'p entity_runtime =
  en_name :: string
  en_outputs :: "'p dataset_runtime list"
  en_inputs :: "'p dataset_runtime list"
  en_endpointsFolder :: node_id

record endpoint =
  ep_entity :: string
  ep_dataset :: string
  ep_role :: string
  ep_address :: string
  ep_ownerTag :: string
  ep_active :: bool
  ep_statusVariable :: "nat option"
  ep_addressVariable :: "nat option"
  ep_datasetVariable :: "nat option"

definition new_endpoint :: endpoint where
  "new_endpoint = \<lparr>ep_entity = [], ep_dataset = [], ep_role = [], ep_address = [], ep_ownerTag = [],
     ep_active = False, ep_statusVariable = None, ep_addressVariable = None, ep_datasetVariable = None\<rparr>"

text \<open>\<open>fs_endpoints\<close> is a \<open>std::map\<close> in its order; \<open>fs_variables\<close> holds the values of the added variables.\<close>

record 'p fx =
  fs_staged :: "fx_configuration option"
  fs_configuration :: fx_configuration
  fs_entities :: "'p entity_runtime list"
  fs_endpoints :: "(string \<times> endpoint) list"
  fs_poisonedNames :: "string list"
  fs_started :: bool
  fs_nodes :: "added_node list"
  fs_variables :: "view_value list"

definition new_configuration :: fx_configuration where
  "new_configuration = \<lparr>fx_automationComponent = [], fx_publisherIdType = PublisherIdUInt16,
     fx_publisherId = 0, fx_entities = []\<rparr>"

definition new_fx :: "'p fx" where
  "new_fx = \<lparr>fs_staged = None, fs_configuration = new_configuration, fs_entities = [], fs_endpoints = [],
     fs_poisonedNames = [], fs_started = False, fs_nodes = [], fs_variables = []\<rparr>"

type_synonym 'p fx_system = "'p fx \<times> ('p, string) engine"

text \<open>An action of the Pub/Sub engine, of the FX engine, and of its nodes, on the pair.\<close>

definition on_engine :: "(('p, string) engine, 'r) action \<Rightarrow> ('p fx_system, 'r) action" where
  "on_engine m = (\<lambda>(f, e). case m e of (e', r) \<Rightarrow> ((f, e'), r))"

definition on_fx :: "('p fx, 'r) action \<Rightarrow> ('p fx_system, 'r) action" where
  "on_fx m = (\<lambda>(f, e). case m f of (f', r) \<Rightarrow> ((f', e), r))"

definition on_nodes :: "(added_node list, 'r) action \<Rightarrow> ('p fx, 'r) action" where
  "on_nodes m = (\<lambda>f. case m (fs_nodes f) of (ns, r) \<Rightarrow> (f\<lparr>fs_nodes := ns\<rparr>, r))"

section \<open>Starting\<close>

definition stageConfiguration_fx :: "fx_configuration \<Rightarrow> ('p fx, unit) action" where
  "stageConfiguration_fx configuration = act_bind act_get (\<lambda>f.
     if fs_started f then act_throw ''Fx: engine is already started''
     else act_modify (\<lambda>f. f\<lparr>fs_staged := Some configuration\<rparr>))"

definition resolveVariable_fx :: "(string \<Rightarrow> 'p node option) \<Rightarrow> string \<Rightarrow> string \<Rightarrow> 'p result" where
  "resolveVariable_fx nodes address diagnosticContext = (case nodes (c_str address) of
       None \<Rightarrow> Inl (''Fx: '' @ diagnosticContext @ '': address '' @ quoted address
         @ '' does not exist in the address space'')
     | Some OtherNode \<Rightarrow> Inl (''Fx: '' @ diagnosticContext @ '': address '' @ quoted address
         @ '' is not a cache variable'')
     | Some (CacheVariable p) \<Rightarrow> Inr p)"

definition resolve_fields :: "(string \<Rightarrow> 'p node option) \<Rightarrow> string \<Rightarrow> string \<Rightarrow> string \<Rightarrow> dataset_field list
    \<Rightarrow> 'p list result" where
  "resolve_fields nodes entityName direction datasetName flds =
     res_map (\<lambda>f. resolveVariable_fx nodes (df_address f)
       (''FunctionalEntity '' @ quoted entityName @ '' '' @ direction @ '' '' @ quoted datasetName
         @ '' Field '' @ quoted (df_name f))) flds"

definition output_runtime :: "(string \<Rightarrow> 'p node option) \<Rightarrow> string \<Rightarrow> output_dataset_config
    \<Rightarrow> 'p dataset_runtime result" where
  "output_runtime nodes entityName c =
     res_bind (resolve_fields nodes entityName ''OutputDataset'' (od_name c) (od_fields c)) (\<lambda>variables.
       Inr \<lparr>ds_name = od_name c, ds_writerGroupId = od_writerGroupId c, ds_dataSetWriterId = od_dataSetWriterId c,
         ds_publishingIntervalMs = od_publishingIntervalMs c, ds_fields = od_fields c, ds_variables = variables\<rparr>)"

text \<open>The interval of an input keeps the default of the structure, a hundred milliseconds.\<close>

definition input_runtime :: "(string \<Rightarrow> 'p node option) \<Rightarrow> string \<Rightarrow> input_dataset_config
    \<Rightarrow> 'p dataset_runtime result" where
  "input_runtime nodes entityName c =
     res_bind (resolve_fields nodes entityName ''InputDataset'' (id_name c) (id_fields c)) (\<lambda>variables.
       Inr \<lparr>ds_name = id_name c, ds_writerGroupId = 0, ds_dataSetWriterId = 0,
         ds_publishingIntervalMs = 0x4059000000000000, ds_fields = id_fields c, ds_variables = variables\<rparr>)"

definition entity_runtime_of :: "(string \<Rightarrow> 'p node option) \<Rightarrow> functional_entity_config
    \<Rightarrow> 'p entity_runtime result" where
  "entity_runtime_of nodes c =
     res_bind (res_map (output_runtime nodes (fe_name c)) (fe_outputs c)) (\<lambda>outputs.
     res_bind (res_map (input_runtime nodes (fe_name c)) (fe_inputs c)) (\<lambda>inputs.
       Inr \<lparr>en_name = fe_name c, en_outputs = outputs, en_inputs = inputs, en_endpointsFolder = OpaqueId 0\<rparr>))"

definition buildRuntimes_fx :: "(string \<Rightarrow> 'p node option) \<Rightarrow> ('p fx, unit) action" where
  "buildRuntimes_fx nodes = act_bind act_get (\<lambda>f.
     act_for (\<lambda>c. act_bind (act_lift (entity_runtime_of nodes c)) (\<lambda>entity.
         act_modify (\<lambda>f. f\<lparr>fs_entities := fs_entities f @ [entity]\<rparr>)))
       (fx_entities (fs_configuration f)))"

section \<open>The information model\<close>

definition add_node :: "node_ops \<Rightarrow> node_id \<Rightarrow> string \<Rightarrow> node_kind \<Rightarrow> reference_type \<Rightarrow> ('p fx, node_id) action" where
  "add_node ops parent name kind ref =
     act_bind (act_lift (makeChildNodeId (no_namespace ops) parent (c_str name))) (\<lambda>i.
     act_bind (on_nodes (addNodeAndReferenceThrows ops
         \<lparr>an_parent = parent, an_id = i, an_kind = kind, an_reference = ref\<rparr>)) (\<lambda>_. act_return i))"

definition addObject :: "node_ops \<Rightarrow> node_id \<Rightarrow> string \<Rightarrow> bool \<Rightarrow> ('p fx, node_id) action" where
  "addObject ops parent name underObjectsFolder =
     add_node ops parent name ObjectNode (if underObjectsFolder then Organizes else HasComponent)"

text \<open>The variable exists, with its initial value, before its node is referenced from the parent.\<close>

definition addVariable :: "node_ops \<Rightarrow> node_id \<Rightarrow> string \<Rightarrow> view_value \<Rightarrow> ('p fx, nat) action" where
  "addVariable ops parent name initialValue =
     act_bind (act_lift (makeChildNodeId (no_namespace ops) parent (c_str name))) (\<lambda>i.
     act_bind act_get (\<lambda>f.
     act_bind (act_modify (\<lambda>f. f\<lparr>fs_variables := fs_variables f @ [initialValue]\<rparr>)) (\<lambda>_.
     act_bind (on_nodes (addNodeAndReferenceThrows ops
         \<lparr>an_parent = parent, an_id = i, an_kind = VariableNode, an_reference = HasComponent\<rparr>)) (\<lambda>_.
       act_return (length (fs_variables f))))))"

text \<open>
  A method: its argument properties are referenced from it before it is referenced from its parent.
\<close>

definition addArguments :: "node_ops \<Rightarrow> node_id \<Rightarrow> string \<Rightarrow> string list \<Rightarrow> ('p fx, unit) action" where
  "addArguments ops methodId name arguments =
     act_bind (act_lift (makeChildNodeId (no_namespace ops) methodId name)) (\<lambda>i.
       on_nodes (addNodeAndReferenceThrows_node ops
         \<lparr>an_parent = methodId, an_id = i, an_kind = ArgumentsNode arguments, an_reference = HasProperty\<rparr>))"

definition addMethod :: "node_ops \<Rightarrow> node_id \<Rightarrow> string \<Rightarrow> string list \<Rightarrow> string list \<Rightarrow> ('p fx, unit) action" where
  "addMethod ops parent name arguments returns =
     act_bind (act_lift (makeChildNodeId (no_namespace ops) parent name)) (\<lambda>i.
     act_bind (addArguments ops i ''args'' arguments) (\<lambda>_.
     act_bind (addArguments ops i ''return_values'' returns) (\<lambda>_.
       on_nodes (addNodeAndReferenceThrows ops
         \<lparr>an_parent = parent, an_id = i, an_kind = MethodNode, an_reference = HasComponent\<rparr>))))"

definition addMethods :: "node_ops \<Rightarrow> node_id \<Rightarrow> ('p fx, unit) action" where
  "addMethods ops parent =
     act_bind (addMethod ops parent ''EstablishConnections'' [''connectionConfiguration''] [''connectionId'', ''detail''])
       (\<lambda>_. addMethod ops parent ''CloseConnections'' [''connectionId''] [''detail''])"

text \<open>A dataset is an object with one variable per field that names the mapped address.\<close>

definition addDataset :: "node_ops \<Rightarrow> node_id \<Rightarrow> 'p dataset_runtime \<Rightarrow> ('p fx, unit) action" where
  "addDataset ops folder dataset =
     act_bind (addObject ops folder (ds_name dataset) False) (\<lambda>i.
       act_for (\<lambda>f. act_bind (addVariable ops i (df_name f) (StringView (c_str (df_address f)))) (\<lambda>_. act_return ()))
         (ds_fields dataset))"

definition addEntity :: "node_ops \<Rightarrow> node_id \<Rightarrow> nat \<Rightarrow> ('p fx, unit) action" where
  "addEntity ops folder k = act_bind act_get (\<lambda>f. let entity = fs_entities f ! k in
     act_bind (addObject ops folder (en_name entity) False) (\<lambda>entityNode.
     act_bind (addObject ops entityNode ''OutputData'' False) (\<lambda>outputData.
     act_bind (addObject ops entityNode ''InputData'' False) (\<lambda>inputData.
     act_bind (addObject ops entityNode ''ConnectionEndpoints'' False) (\<lambda>endpoints.
     act_bind (act_modify (\<lambda>f. f\<lparr>fs_entities := (fs_entities f)[k := entity\<lparr>en_endpointsFolder := endpoints\<rparr>]\<rparr>)) (\<lambda>_.
     act_bind (act_for (addDataset ops outputData) (en_outputs entity)) (\<lambda>_.
       act_for (addDataset ops inputData) (en_inputs entity))))))))"

definition buildModel :: "node_ops \<Rightarrow> ('p fx, unit) action" where
  "buildModel ops = act_bind act_get (\<lambda>f.
     act_bind (add_node ops (NumericId 0 OpcUaId_ObjectsFolder) (fx_automationComponent (fs_configuration f))
         ObjectNode Organizes) (\<lambda>acNodeId.
     act_bind (addMethods ops acNodeId) (\<lambda>_.
     act_bind (addObject ops acNodeId ''FunctionalEntities'' False) (\<lambda>entitiesFolder.
       act_for (addEntity ops entitiesFolder) [0..<length (fs_entities f)]))))"

definition startIfStaged_fx :: "node_ops \<Rightarrow> (string \<Rightarrow> 'p node option) \<Rightarrow> ('p fx_system, unit) action" where
  "startIfStaged_fx ops nodes = act_bind act_get (\<lambda>(f, e).
     case fs_staged f of
       None \<Rightarrow> act_return ()
     | Some configuration \<Rightarrow>
         if fs_started f then act_throw ''Fx: engine is already started''
         else act_bind (on_fx (act_modify (\<lambda>f. f\<lparr>fs_configuration := configuration, fs_staged := None\<rparr>))) (\<lambda>_.
              act_bind (on_fx (buildRuntimes_fx nodes)) (\<lambda>_.
              act_bind (on_fx (buildModel ops)) (\<lambda>_.
              act_bind (on_engine ensureStarted) (\<lambda>_.
                on_fx (act_modify (\<lambda>f. f\<lparr>fs_started := True\<rparr>)))))))"

section \<open>Endpoints\<close>

definition findEntity :: "string \<Rightarrow> 'p fx \<Rightarrow> 'p entity_runtime option" where
  "findEntity name f = find (\<lambda>e. en_name e = name) (fs_entities f)"

definition findDataset :: "'p dataset_runtime list \<Rightarrow> string \<Rightarrow> 'p dataset_runtime option" where
  "findDataset datasets name = find (\<lambda>d. ds_name d = name) datasets"

definition activeConnectionNameFor :: "string \<Rightarrow> string \<Rightarrow> string \<Rightarrow> 'p fx \<Rightarrow> string" where
  "activeConnectionNameFor entity role dataset f =
     (case find (\<lambda>(n, ep). ep_active ep \<and> ep_entity ep = entity \<and> ep_role ep = role \<and> ep_dataset ep = dataset)
             (fs_endpoints f) of
        None \<Rightarrow> [] | Some (n, ep) \<Rightarrow> n)"

definition endpointCountOf :: "string \<Rightarrow> 'p fx \<Rightarrow> nat" where
  "endpointCountOf entityName f = length (filter (\<lambda>(n, ep). ep_entity ep = entityName) (fs_endpoints f))"

text \<open>The dash of the messages, in UTF-8.\<close>

definition em_dash :: string where
  "em_dash = [CHR 0xE2, CHR 0x80, CHR 0x94]"

definition auto_name :: "nat \<Rightarrow> string" where
  "auto_name n = ''cep-'' @ nat_to_string n"

definition auto_usable :: "string \<Rightarrow> 'p fx \<Rightarrow> string \<Rightarrow> bool" where
  "auto_usable entityName f candidate \<longleftrightarrow> candidate \<notin> set (fs_poisonedNames f)
     \<and> (case map_of (fs_endpoints f) candidate of
          None \<Rightarrow> True | Some ep \<Rightarrow> \<not> ep_active ep \<and> ep_entity ep = entityName)"

definition firstFreeAutoName :: "string \<Rightarrow> 'p fx \<Rightarrow> string result" where
  "firstFreeAutoName entityName f =
     (let bound = length (fs_endpoints f) + length (fs_poisonedNames f) + 1;
          fresh = (if endpointCountOf entityName f < kMaxEndpointsPerEntity
            then find (auto_usable entityName f) (map auto_name [1..<bound + 1]) else None)
      in case fresh of
           Some candidate \<Rightarrow> Inr candidate
         | None \<Rightarrow> (case find (\<lambda>(n, ep). \<not> ep_active ep \<and> ep_entity ep = entityName) (fs_endpoints f) of
             Some (n, ep) \<Rightarrow> Inr n
           | None \<Rightarrow> Inl (''functional entity '' @ quoted entityName @ '' reached its connection endpoint limit (''
               @ nat_to_string kMaxEndpointsPerEntity
               @ '') and every endpoint is busy '' @ em_dash @ '' close a connection first'')))"

definition setEndpointStatus :: "endpoint \<Rightarrow> endpoint_status \<Rightarrow> 'p fx \<Rightarrow> 'p fx" where
  "setEndpointStatus ep status f = (case ep_statusVariable ep of
       None \<Rightarrow> f
     | Some r \<Rightarrow> f\<lparr>fs_variables := (fs_variables f)[r := Int32View (endpoint_status_code status)]\<rparr>)"

definition set_view :: "nat option \<Rightarrow> string \<Rightarrow> 'p fx \<Rightarrow> 'p fx" where
  "set_view v s f = (case v of
       None \<Rightarrow> f | Some r \<Rightarrow> f\<lparr>fs_variables := (fs_variables f)[r := StringView (c_str s)]\<rparr>)"

definition refreshEndpointView :: "endpoint \<Rightarrow> 'p fx \<Rightarrow> 'p fx" where
  "refreshEndpointView ep f =
     set_view (ep_datasetVariable ep) (ep_role ep @ '':'' @ ep_entity ep @ ''.'' @ ep_dataset ep)
       (set_view (ep_addressVariable ep) (ep_address ep) f)"

definition markSubscriberOperational :: "bool \<Rightarrow> string \<Rightarrow> 'p fx \<Rightarrow> 'p fx \<times> bool" where
  "markSubscriberOperational locked connectionName f =
     (if locked then (f, False)
      else case map_of (fs_endpoints f) connectionName of
          None \<Rightarrow> (f, True)
        | Some ep \<Rightarrow> if \<not> ep_active ep \<or> ep_role ep \<noteq> ''subscriber'' then (f, True)
            else (setEndpointStatus ep EndpointOperational f, True))"

end
