(* ===== verification/FxServices.thy ===== *)
theory FxServices
  imports FxEngine
begin

text \<open>
  The two services of the FX engine, \<open>establishConnections\<close> and \<open>closeConnections\<close> of
  \<open>Fx/src/FxEngine.cpp\<close>, its shutdown, and the methods of the automation component's node that
  call them. The body of each \<open>try\<close> block is an action; the service maps its outcome to a status, an
  identifier and a detail text.
\<close>

section \<open>Reading a request\<close>

record establish_request =
  rq_json :: json_value
  rq_entity :: string
  rq_role :: string
  rq_dataset :: string
  rq_address :: string

definition establish_members :: "string list" where
  "establish_members = [''functionalEntity'', ''role'', ''dataset'', ''address'',
     ''connectionName'', ''publishingIntervalMs'', ''ttl'', ''peer'']"

definition read_request :: "string \<Rightarrow> establish_request result" where
  "read_request requestJson =
     res_bind (parseJsonObject requestJson) (\<lambda>request.
     res_bind (requireOnlyMembers request establish_members ''the connection configuration'') (\<lambda>_.
     res_bind (requiredString request ''functionalEntity'') (\<lambda>entityName.
     res_bind (requiredString request ''role'') (\<lambda>role.
     res_bind (requiredString request ''dataset'') (\<lambda>datasetName.
     res_bind (requiredString request ''address'') (\<lambda>address.
       Inr \<lparr>rq_json = request, rq_entity = entityName, rq_role = role, rq_dataset = datasetName,
         rq_address = address\<rparr>))))))"

definition request_entity :: "'p fx \<Rightarrow> establish_request \<Rightarrow> 'p entity_runtime result" where
  "request_entity f rq = (case findEntity (rq_entity rq) f of
       None \<Rightarrow> Inl (''unknown functional entity '' @ quoted (rq_entity rq))
     | Some entity \<Rightarrow> if rq_role rq \<noteq> ''publisher'' \<and> rq_role rq \<noteq> ''subscriber''
         then Inl (''role must be '' @ quoted ''publisher'' @ '' or '' @ quoted ''subscriber'') else Inr entity)"

definition connection_name :: "'p fx \<Rightarrow> establish_request \<Rightarrow> string result" where
  "connection_name f rq =
     res_bind (hasMember (rq_json rq) ''connectionName'') (\<lambda>has.
       if has
       then res_bind (json_member (rq_json rq) ''connectionName'') (\<lambda>m. case m of
           JsonString s \<Rightarrow> res_bind (asString m) (\<lambda>name. res_bind (validateConnectionName name) (\<lambda>_. Inr name))
         | _ \<Rightarrow> Inl (quoted ''connectionName'' @ '' must be a string''))
       else firstFreeAutoName (rq_entity rq) f)"

definition check_name :: "'p fx \<Rightarrow> string \<Rightarrow> string \<Rightarrow> unit result" where
  "check_name f entityName name =
     (if name \<in> set (fs_poisonedNames f)
      then Inl (''connection name '' @ quoted name @ '' is unusable: its endpoint ''
        @ ''view was left half-created by an earlier failure (choose another name)'')
      else case map_of (fs_endpoints f) name of
          Some existing \<Rightarrow>
            (if ep_active existing then Inl (''connection '' @ quoted name @ '' is already established'')
             else if ep_entity existing \<noteq> entityName
             then Inl (''connection name '' @ quoted name @ '' belongs to functional entity ''
               @ quoted (ep_entity existing))
             else Inr ())
        | None \<Rightarrow>
            (if kMaxEndpointsPerEntity \<le> endpointCountOf entityName f
             then Inl (''functional entity '' @ quoted entityName @ '' reached its connection endpoint limit (''
               @ nat_to_string kMaxEndpointsPerEntity @ ''); close and reuse an existing connection name'')
             else Inr ()))"

definition check_free :: "'p fx \<Rightarrow> establish_request \<Rightarrow> unit result" where
  "check_free f rq =
     (let busy = activeConnectionNameFor (rq_entity rq) (rq_role rq) (rq_dataset rq) f in
      if busy \<noteq> []
      then Inl (''dataset '' @ quoted (rq_dataset rq) @ '' is already connected as '' @ quoted busy
        @ '' '' @ em_dash @ '' close that connection first'')
      else Inr ())"

definition owner_tag :: "fx_configuration \<Rightarrow> string \<Rightarrow> string \<Rightarrow> string" where
  "owner_tag c entityName name = ''fx:'' @ fx_automationComponent c @ ''/'' @ entityName @ ''/'' @ name"

definition prepared_endpoint :: "'p fx \<Rightarrow> establish_request \<Rightarrow> string \<Rightarrow> endpoint" where
  "prepared_endpoint f rq name =
     (case map_of (fs_endpoints f) name of None \<Rightarrow> new_endpoint | Some existing \<Rightarrow> existing)
       \<lparr>ep_entity := rq_entity rq, ep_dataset := rq_dataset rq, ep_role := rq_role rq,
        ep_address := rq_address rq, ep_ownerTag := owner_tag (fs_configuration f) (rq_entity rq) name\<rparr>"

section \<open>The data plane\<close>

definition dynamic_fields :: "'p dataset_runtime \<Rightarrow> 'p dynamic_field list" where
  "dynamic_fields dataset = map (\<lambda>(f, p). \<lparr>dyn_address = df_address f, dyn_variable = p\<rparr>)
     (zip (ds_fields dataset) (ds_variables dataset))"

definition requested_interval :: "json_value \<Rightarrow> f64 \<Rightarrow> f64 result" where
  "requested_interval request configured =
     res_bind (hasMember request ''publishingIntervalMs'') (\<lambda>has.
       if \<not> has then Inr configured
       else res_bind (json_member request ''publishingIntervalMs'') (\<lambda>m. case m of
           JsonNumber x \<Rightarrow> res_bind (asNumber m) (\<lambda>v.
             if \<not> f64_less 0 v \<or> f64_less one_day_ms v
             then Inl (quoted ''publishingIntervalMs'' @ '' must be positive and at most 86400000 (one day)'')
             else Inr v)
         | _ \<Rightarrow> Inl (quoted ''publishingIntervalMs'' @ '' must be a number'')))"

text \<open>The time to live keeps the default of the structure, 1, and loopback is on.\<close>

definition requested_ttl :: "json_value \<Rightarrow> byte result" where
  "requested_ttl request =
     res_bind (hasMember request ''ttl'') (\<lambda>has.
       if has then res_bind (requiredUnsigned request ''ttl'' 255) (\<lambda>n. Inr (ucast n)) else Inr 1)"

definition publisher_group :: "'p entity_runtime \<Rightarrow> establish_request \<Rightarrow> string \<Rightarrow> 16 word
    \<Rightarrow> 'p dynamic_writer_group result" where
  "publisher_group entity rq host port =
     res_bind (hasMember (rq_json rq) ''peer'') (\<lambda>peer.
       if peer then Inl (quoted ''peer'' @ '' applies to subscriber connections only'')
       else case findDataset (en_outputs entity) (rq_dataset rq) of
           None \<Rightarrow> Inl (''functional entity '' @ quoted (rq_entity rq) @ '' has no output dataset ''
             @ quoted (rq_dataset rq))
         | Some dataset \<Rightarrow>
             res_bind (requested_interval (rq_json rq) (ds_publishingIntervalMs dataset)) (\<lambda>interval.
             res_bind (requested_ttl (rq_json rq)) (\<lambda>ttl.
               Inr \<lparr>dwg_id = ds_writerGroupId dataset, dwg_dataSetWriterId = ds_dataSetWriterId dataset,
                 dwg_publishingIntervalMs = interval, dwg_fields = dynamic_fields dataset,
                 dwg_host = host, dwg_port = port, dwg_ttl = ttl, dwg_loopback = True\<rparr>)))"

definition peer_members :: "string list" where
  "peer_members = [''publisherId'', ''publisherIdType'', ''writerGroupId'', ''dataSetWriterId'']"

definition peer_coordinates :: "json_value \<Rightarrow> (publisher_id_type \<times> 64 word \<times> 16 word \<times> 16 word) result" where
  "peer_coordinates peer =
     res_bind (requireOnlyMembers peer peer_members (quoted ''peer'')) (\<lambda>_.
     res_bind (hasMember peer ''publisherIdType'') (\<lambda>has.
     res_bind (res_bind (if has then requiredString peer ''publisherIdType'' else Inr ''UInt16'')
         parsePublisherIdType) (\<lambda>type.
     res_bind (requiredUnsigned peer ''publisherId'' (publisherIdMaximum type)) (\<lambda>publisherId.
     res_bind (requiredUnsigned peer ''writerGroupId'' 0xFFFF) (\<lambda>writerGroupId.
     res_bind (requiredUnsigned peer ''dataSetWriterId'' 0xFFFF) (\<lambda>dataSetWriterId.
       Inr (type, publisherId, ucast writerGroupId, ucast dataSetWriterId)))))))"

definition subscriber_reader :: "'p entity_runtime \<Rightarrow> establish_request \<Rightarrow> string \<Rightarrow> 16 word \<Rightarrow> string
    \<Rightarrow> ('p, string) dynamic_reader result" where
  "subscriber_reader entity rq host port name =
     res_bind (hasMember (rq_json rq) ''publishingIntervalMs'') (\<lambda>interval.
     res_bind (hasMember (rq_json rq) ''ttl'') (\<lambda>ttl.
       if interval \<or> ttl
       then Inl (quoted ''publishingIntervalMs'' @ ''/'' @ quoted ''ttl'' @ '' apply to publisher connections only'')
       else case findDataset (en_inputs entity) (rq_dataset rq) of
           None \<Rightarrow> Inl (''functional entity '' @ quoted (rq_entity rq) @ '' has no input dataset ''
             @ quoted (rq_dataset rq))
         | Some dataset \<Rightarrow>
             res_bind (hasMember (rq_json rq) ''peer'') (\<lambda>has.
               if \<not> has then Inl (''subscriber connections need a '' @ quoted ''peer'' @ '' object ''
                 @ ''(the publishing side'' @ [CHR 0x27] @ ''s wire coordinates)'')
               else res_bind (json_member (rq_json rq) ''peer'') (\<lambda>peer. case peer of
                   JsonObject _ \<Rightarrow> res_bind (peer_coordinates peer) (\<lambda>(type, publisherId, writerGroupId, dataSetWriterId).
                     Inr \<lparr>dr_publisherIdType = type, dr_publisherId = publisherId,
                       dr_writerGroupId = writerGroupId, dr_dataSetWriterId = dataSetWriterId,
                       dr_targets = dynamic_fields dataset, dr_host = host, dr_port = port,
                       dr_onFirstData = Some name\<rparr>)
                 | _ \<Rightarrow> Inl (quoted ''peer'' @ '' must be an object'')))))"

definition activate :: "udp_ops \<Rightarrow> 'p fx \<Rightarrow> 'p entity_runtime \<Rightarrow> establish_request \<Rightarrow> string \<Rightarrow> string \<Rightarrow> 16 word
    \<Rightarrow> (('p, string) engine, endpoint_status) action" where
  "activate udp f entity rq name host port =
     (let tag = owner_tag (fs_configuration f) (rq_entity rq) name in
      if rq_role rq = ''publisher''
      then act_bind (act_lift (publisher_group entity rq host port)) (\<lambda>grp.
           act_bind (addDynamicWriterGroup udp tag (fx_publisherIdType (fs_configuration f))
             (fx_publisherId (fs_configuration f)) grp) (\<lambda>_. act_return EndpointOperational))
      else act_bind (act_lift (subscriber_reader entity rq host port name)) (\<lambda>reader.
           act_bind (addDynamicReader udp tag reader) (\<lambda>_. act_return EndpointPreOperational)))"

section \<open>The view of an endpoint\<close>

definition create_view :: "node_ops \<Rightarrow> node_id \<Rightarrow> string \<Rightarrow> endpoint \<Rightarrow> ('p fx, endpoint) action" where
  "create_view ops folder name ep =
     act_bind (addObject ops folder name False) (\<lambda>endpointNode.
     act_bind (addVariable ops endpointNode ''Status'' (Int32View (endpoint_status_code EndpointInitial))) (\<lambda>status.
     act_bind (addVariable ops endpointNode ''Address'' (StringView [])) (\<lambda>address.
     act_bind (addVariable ops endpointNode ''Dataset'' (StringView [])) (\<lambda>dataset.
       act_return (ep\<lparr>ep_statusVariable := Some status, ep_addressVariable := Some address,
         ep_datasetVariable := Some dataset\<rparr>)))))"

text \<open>A view that cannot be built undoes the data plane and poisons the name.\<close>

definition ensure_view :: "node_ops \<Rightarrow> node_id \<Rightarrow> string \<Rightarrow> endpoint \<Rightarrow> ('p fx_system, endpoint) action" where
  "ensure_view ops folder name ep =
     (if ep_statusVariable ep \<noteq> None then act_return ep
      else (\<lambda>(f, e). case create_view ops folder name ep f of
          (f', Inr ep') \<Rightarrow> ((f', e), Inr ep')
        | (f', Inl m) \<Rightarrow> ((f'\<lparr>fs_poisonedNames := List.insert name (fs_poisonedNames f')\<rparr>,
            removeDynamic (ep_ownerTag ep) e), Inl m)))"

section \<open>Establishing\<close>

definition coordinates_detail :: "fx_configuration \<Rightarrow> 'p dataset_runtime \<Rightarrow> json_value result" where
  "coordinates_detail c dataset =
     res_bind (setMember (JsonObject []) ''publisherIdType''
       (JsonString (publisherIdTypeName (fx_publisherIdType c)))) (\<lambda>j.
     res_bind (setMember j ''publisherId'' (JsonNumber (f64_of_nat (unat (fx_publisherId c))))) (\<lambda>j.
     res_bind (setMember j ''writerGroupId'' (JsonNumber (f64_of_nat (unat (ds_writerGroupId dataset))))) (\<lambda>j.
       setMember j ''dataSetWriterId'' (JsonNumber (f64_of_nat (unat (ds_dataSetWriterId dataset)))))))"

text \<open>The source reads the dataset without a test; it was found when the data plane was activated.\<close>

definition established_detail :: "'p fx \<Rightarrow> 'p entity_runtime \<Rightarrow> establish_request \<Rightarrow> endpoint_status
    \<Rightarrow> json_value result" where
  "established_detail f entity rq status =
     res_bind (setMember (JsonObject []) ''status'' (JsonString (endpointStatusName status))) (\<lambda>j.
     res_bind (setMember j ''address'' (JsonString (rq_address rq))) (\<lambda>j.
       if rq_role rq = ''publisher''
       then res_bind (coordinates_detail (fs_configuration f)
           (the (findDataset (en_outputs entity) (rq_dataset rq)))) (\<lambda>c. setMember j ''coordinates'' c)
       else Inr j))"

definition commit_endpoint :: "string \<Rightarrow> endpoint \<Rightarrow> 'p fx \<Rightarrow> 'p fx" where
  "commit_endpoint name ep f = refreshEndpointView ep (f\<lparr>fs_endpoints := insert_member name ep (fs_endpoints f)\<rparr>)"

definition reported_status :: "endpoint_status \<Rightarrow> string \<Rightarrow> ('p, string) engine \<Rightarrow> endpoint_status" where
  "reported_status initialStatus tag e =
     (if initialStatus = EndpointPreOperational \<and> readerDataSeen tag e then EndpointOperational else initialStatus)"

definition establish :: "udp_ops \<Rightarrow> node_ops \<Rightarrow> (('p, string) engine \<Rightarrow> ('p, string) engine) \<Rightarrow> string
    \<Rightarrow> ('p fx_system, string \<times> string) action" where
  "establish udp ops io requestJson = act_bind act_get (\<lambda>(f, e).
     if \<not> fs_started f then act_throw ''FX is not active on this server''
     else
       act_bind (act_lift (read_request requestJson)) (\<lambda>rq.
       act_bind (act_lift (request_entity f rq)) (\<lambda>entity.
       act_bind (act_lift (connection_name f rq)) (\<lambda>name.
       act_bind (act_lift (check_name f (rq_entity rq) name)) (\<lambda>_.
       act_bind (act_lift (check_free f rq)) (\<lambda>_.
       act_bind (act_lift (parseNetworkAddress (rq_address rq))) (\<lambda>(host, port).
       act_bind (on_engine (activate udp f entity rq name host port)) (\<lambda>initialStatus.
       act_bind (on_engine (act_modify io)) (\<lambda>_.
       act_bind (ensure_view ops (en_endpointsFolder entity) name (prepared_endpoint f rq name)) (\<lambda>ep.
       act_bind (on_fx (act_modify (commit_endpoint name (ep\<lparr>ep_active := True\<rparr>)))) (\<lambda>_.
       act_bind act_get (\<lambda>(f', e').
         let status = reported_status initialStatus (ep_ownerTag ep) e' in
         act_bind (on_fx (act_modify (setEndpointStatus (ep\<lparr>ep_active := True\<rparr>) status))) (\<lambda>_.
         act_bind (act_lift (res_bind (established_detail f entity rq status) serialize)) (\<lambda>detail.
           act_return (name, detail)))))))))))))))"

record response =
  rs_good :: bool
  rs_connectionId :: string
  rs_detail :: string

definition refusal :: "string \<Rightarrow> response result" where
  "refusal message = res_bind (statusDetail (endpointStatusName EndpointError) message) (\<lambda>detail.
     Inr \<lparr>rs_good = False, rs_connectionId = [], rs_detail = detail\<rparr>)"

text \<open>The identifier is cleared first and assigned after the connection is up.\<close>

definition establishConnections :: "udp_ops \<Rightarrow> node_ops \<Rightarrow> (('p, string) engine \<Rightarrow> ('p, string) engine) \<Rightarrow> string
    \<Rightarrow> ('p fx_system, response) action" where
  "establishConnections udp ops io requestJson = (\<lambda>s. case establish udp ops io requestJson s of
       (s', Inr (name, detail)) \<Rightarrow> (s', Inr \<lparr>rs_good = True, rs_connectionId = name, rs_detail = detail\<rparr>)
     | (s', Inl message) \<Rightarrow> (s', refusal message))"

section \<open>Closing\<close>

definition close_name :: "'p fx \<Rightarrow> string \<Rightarrow> string result" where
  "close_name f requestText =
     (if map_of (fs_endpoints f) requestText = None \<and> requestText \<noteq> [] \<and> hd requestText = CHR ''{''
      then res_bind (parseJsonObject requestText) (\<lambda>request.
           res_bind (requireOnlyMembers request [''connectionId''] ''the close request'') (\<lambda>_.
             requiredString request ''connectionId''))
      else Inr requestText)"

definition close_endpoint :: "string \<Rightarrow> endpoint \<Rightarrow> 'p fx_system \<Rightarrow> 'p fx_system" where
  "close_endpoint name ep = (\<lambda>(f, e). (setEndpointStatus ep EndpointInitial
     (f\<lparr>fs_endpoints := insert_member name (ep\<lparr>ep_active := False\<rparr>) (fs_endpoints f)\<rparr>),
     removeDynamic (ep_ownerTag ep) e))"

definition close :: "string \<Rightarrow> ('p fx_system, string) action" where
  "close requestText = act_bind act_get (\<lambda>(f, e).
     if \<not> fs_started f then act_throw ''FX is not active on this server''
     else act_bind (act_lift (close_name f requestText)) (\<lambda>name.
       if name = [] then act_throw ''empty connectionId''
       else case map_of (fs_endpoints f) name of
           None \<Rightarrow> act_throw (''unknown connection '' @ quoted name)
         | Some ep \<Rightarrow> if \<not> ep_active ep then act_throw (''connection '' @ quoted name @ '' is not established'')
             else act_bind (act_modify (close_endpoint name ep)) (\<lambda>_.
                  act_lift (statusDetail (endpointStatusName EndpointInitial) []))))"

definition closeConnections :: "string \<Rightarrow> ('p fx_system, response) action" where
  "closeConnections requestText = (\<lambda>s. case close requestText s of
       (s', Inr detail) \<Rightarrow> (s', Inr \<lparr>rs_good = True, rs_connectionId = [], rs_detail = detail\<rparr>)
     | (s', Inl message) \<Rightarrow> (s', refusal message))"

definition shutdown_fx :: "'p fx_system \<Rightarrow> 'p fx_system" where
  "shutdown_fx = (\<lambda>(f, e).
     if \<not> fs_started f then (f, e)
     else case fold (\<lambda>(name, ep) s. if ep_active ep then close_endpoint name ep s else s) (fs_endpoints f) (f, e) of
       (f', e') \<Rightarrow> (f'\<lparr>fs_started := False\<rparr>, e'))"

section \<open>The methods of the automation component\<close>

text \<open>
  A variant of the toolkit carries the request; the outputs are variants again. The call itself
  always reports success, the status of the service goes to the callback.
\<close>

definition extractStringArgument :: "('v, 's, 'b) ua_sdk \<Rightarrow> 'v list \<Rightarrow> string option" where
  "extractStringArgument sdk inputArguments = (case inputArguments of
       [v] \<Rightarrow> if ua_type_of sdk v \<noteq> OpcUaType_String then None
         else Some (case ua_utf8 sdk (ua_to_string sdk v) of None \<Rightarrow> [] | Some t \<Rightarrow> t)
     | _ \<Rightarrow> None)"

definition finishWithStrings :: "('v, 's, 'b) ua_sdk \<Rightarrow> string list \<Rightarrow> 'v list" where
  "finishWithStrings sdk outputs =
     map (\<lambda>s. ua_set_string sdk (ua_empty_variant sdk) (ua_string_of sdk (c_str s))) outputs"

definition callEstablishConnections :: "('v, 's, 'b) ua_sdk \<Rightarrow> udp_ops \<Rightarrow> node_ops
    \<Rightarrow> (('p, string) engine \<Rightarrow> ('p, string) engine) \<Rightarrow> 'v list \<Rightarrow> ('p fx_system, 'v list \<times> bool) action" where
  "callEstablishConnections sdk udp ops io inputArguments = (case extractStringArgument sdk inputArguments of
       None \<Rightarrow> act_lift (res_bind (statusDetail ''Error'' ''expected one String argument: connectionConfiguration'')
         (\<lambda>detail. Inr (finishWithStrings sdk [[], detail], False)))
     | Some request \<Rightarrow> act_bind (establishConnections udp ops io request) (\<lambda>r.
         act_return (finishWithStrings sdk [rs_connectionId r, rs_detail r], rs_good r)))"

definition callCloseConnections :: "('v, 's, 'b) ua_sdk \<Rightarrow> 'v list \<Rightarrow> ('p fx_system, 'v list \<times> bool) action" where
  "callCloseConnections sdk inputArguments = (case extractStringArgument sdk inputArguments of
       None \<Rightarrow> act_lift (res_bind (statusDetail ''Error'' ''expected one String argument: connectionId'')
         (\<lambda>detail. Inr (finishWithStrings sdk [detail], False)))
     | Some request \<Rightarrow> act_bind (closeConnections request) (\<lambda>r.
         act_return (finishWithStrings sdk [rs_detail r], rs_good r)))"

end
