(* ===== verification/FxCoordinates.thy ===== *)
theory FxCoordinates
  imports FxServices FxJsonLimits
begin

text \<open>
  The wire coordinates that a publisher connection reports, and the peer object of a subscriber
  connection: what the first writes the second reads, for every publisher identifier a JSON
  number can carry exactly.
\<close>

section \<open>Integers as doubles\<close>

lemma normal_double_exact:
  assumes "2 ^ 52 \<le> k" and "k < 2 ^ 53" and x: "real n = real k * 2 powi e"
    and "- 1074 \<le> e" and "e \<le> 0 \<or> e = 1 \<and> k = 2 ^ 52"
  shows "mag_real 52 (- 1074) (round_mag 52 (- 1074) f64_inf n 1) = real n
    \<and> round_mag 52 (- 1074) f64_inf n 1 \<le> 0x4340000000000000"
proof -
  have k: "0 < k" using assms(1) by simp
  have "log2_floor (real n) = 52 + e"
    unfolding x using log2_floor_scaled [of 52 k e] assms(1,2) by simp
  then have e: "e = max (- 1074) (log2_floor (real n) - int 52)" using assms(4) by simp
  define E where "E = nat (e - - 1074)"
  have E: "E \<le> 1074 \<or> E = 1075 \<and> k = 2 ^ 52" using assms(4,5) by (auto simp: E_def)
  then have below: "E * 2 ^ 52 + k \<le> 0x4340000000000000"
  proof
    assume "E \<le> 1074"
    then have "E * 2 ^ 52 \<le> 1074 * 2 ^ (52 :: nat)" by (rule mult_right_mono) simp
    then show ?thesis using assms(2) by simp
  qed simp
  then have cap: "nat (e - - 1074) * 2 ^ 52 + k \<le> f64_inf" unfolding E_def [symmetric] by simp
  have r: "round_mag 52 (- 1074) f64_inf n 1 = round_real 52 (- 1074) f64_inf (real n)"
    using round_mag_correct [of 1 52 "- 1074" f64_inf n] by simp
  have "round_real 52 (- 1074) f64_inf (real n) = E * 2 ^ 52 + k"
    using round_real_representable [OF k e x, of f64_inf] cap unfolding E_def [symmetric] by simp
  then show ?thesis using mag_real_round_real [OF k e x cap] below unfolding r by simp
qed

lemma nat_double_exact:
  assumes "0 < n" and "n \<le> 2 ^ 53"
  shows "mag_real 52 (- 1074) (round_mag 52 (- 1074) f64_inf n 1) = real n
    \<and> round_mag 52 (- 1074) f64_inf n 1 \<le> 0x4340000000000000"
proof (cases "n = 2 ^ 53")
  case True
  then show ?thesis by (intro normal_double_exact [of "2 ^ 52" _ 1]) simp_all
next
  case False
  obtain j where j: "2 ^ j \<le> n" "n < 2 ^ Suc j" using nat_leading_bit [OF assms(1)] by blast
  have "(2::nat) ^ j < 2 ^ 53" using j(1) assms(2) False by linarith
  then have "j < 53" by (simp only: power_strict_increasing_iff one_less_numeral_iff semiring_norm)
  then have j52: "j \<le> 52" by simp
  have pow: "(2::nat) ^ j * 2 ^ (52 - j) = 2 ^ 52" "(2::nat) ^ Suc j * 2 ^ (52 - j) = 2 ^ 53"
    using j52 by (simp_all flip: power_add)
  show ?thesis
  proof (rule normal_double_exact)
    show "2 ^ 52 \<le> n * 2 ^ (52 - j)" using mult_right_mono [OF j(1), of "2 ^ (52 - j)"] unfolding pow by simp
    show "n * 2 ^ (52 - j) < 2 ^ 53" using mult_strict_right_mono [OF j(2), of "2 ^ (52 - j)"] unfolding pow by simp
    show "real n = real (n * 2 ^ (52 - j)) * 2 powi (int j - 52)"
      using j52 by (cases "j = 52") (simp_all add: powi_neg nat_diff_distrib')
  qed (use j52 in auto)
qed

lemma f64_of_nat_parts:
  assumes "n \<le> 2 ^ 53"
  shows "f64_to_nat (f64_of_nat n) = n \<and> f64_sign (f64_of_nat n) = 0
    \<and> f64_mag (f64_of_nat n) \<le> 0x4340000000000000"
proof -
  define m where "m = round_mag 52 (- 1074) f64_inf n 1"
  have m: "mag_real 52 (- 1074) m = real n" "m \<le> 0x4340000000000000"
    using nat_double_exact [OF _ assms]
    by (cases "n = 0"; simp add: m_def round_mag_def mag_real_def mag_split_def)+
  have parts: "f64_sign (f64_of_nat n) = 0" "f64_mag (f64_of_nat n) = m"
    using f64_make_sign_mag [of 0 m] m(2) by (simp_all add: f64_of_nat_def m_def)
  obtain a b where ab: "mag_ratio 52 (- 1074) m = (a, b)" by fastforce
  have "real a = real n * real b" using mag_ratio_real [OF ab] m(1) by (simp add: field_simps)
  then have "a = n * b" by (simp flip: of_nat_mult)
  then have "a div b = n" using mag_ratio_real(1) [OF ab] by simp
  with parts m(2) show ?thesis by (simp add: f64_to_nat_def f64_truncated_def ab)
qed

lemma requiredUnsigned_number:
  assumes "map_of ms key = Some (JsonNumber (f64_of_nat (unat w)))" and "unat w \<le> 2 ^ 53"
    and "w \<le> maximum"
  shows "requiredUnsigned (JsonObject ms) key maximum = Inr w"
proof -
  define v where "v = f64_of_nat (unat w)"
  have v: "f64_to_nat v = unat w" "f64_sign v = 0" "f64_mag v \<le> 0x4340000000000000"
    using f64_of_nat_parts [OF assms(2)] by (simp_all add: v_def)
  have "f64_le 0 v \<and> \<not> f64_less kJsonExactIntegerLimit v \<and> f64_eq v v"
    using v by (simp add: f64_le_def f64_less_def f64_eq_def f64_is_nan_def f64_key_def kJsonExactIntegerLimit_def
        f64_mag_def [of 0] f64_sign_def [of 0] f64_mag_def [of "0x4340000000000000"] f64_sign_def [of "0x4340000000000000"])
  then show ?thesis
    using assms(1,3) v(1) by (simp add: requiredUnsigned_def hasMember_def json_member_def requireObject_def
        asNumber_def v_def [symmetric])
qed

text \<open>Every 64-bit number has a finite double, exact or not.\<close>

lemma f64_of_nat_finite:
  assumes "n < 2 ^ 64"
  shows "f64_is_finite (f64_of_nat n)"
proof (cases "n = 0")
  case True
  then show ?thesis by (simp add: f64_of_nat_def round_mag_def f64_is_finite_def f64_make_def f64_mag_def)
next
  case False
  obtain j where j: "2 ^ j \<le> n" "n < 2 ^ Suc j" using nat_leading_bit [of n] False by auto
  have "(2::nat) ^ j < 2 ^ 64" using j(1) assms by linarith
  then have j64: "j < 64" by (simp only: power_strict_increasing_iff one_less_numeral_iff semiring_norm)
  define e where "e = int j - 52"
  have log: "log2_floor (real n) = int j" using log2_floor_scaled [OF j, of 0] by simp
  define y where "y = real n / 2 powi e"
  have "real n < real (2 ^ Suc j)" using j(2) by (simp only: of_nat_less_iff)
  also have "real (2 ^ Suc j) = 2 ^ 53 * 2 powi e" by (simp add: e_def powi_diff2)
  finally have "y < 2 ^ 53" using powi_pos [of e] by (simp add: y_def field_simps)
  then have "real_of_int (rne_real y) < 2 ^ 53 + 1" using rne_real_error [of y] by linarith
  then have "real_of_int (rne_real y) < real_of_int (2 ^ 53 + 1)" by simp
  then have "rne_real y < 2 ^ 53 + 1" by (simp only: of_int_less_iff)
  then have small: "nat (e - - 1074) * 2 ^ 52 + nat (rne_real y) < f64_inf"
  proof -
    have "nat (e - - 1074) \<le> 1085" using j64 by (simp add: e_def)
    then have "nat (e - - 1074) * 2 ^ 52 \<le> 1085 * 2 ^ 52" by (rule mult_right_mono) simp
    moreover have "nat (rne_real y) \<le> 2 ^ 53" using \<open>rne_real y < 2 ^ 53 + 1\<close> by simp
    ultimately show ?thesis by simp
  qed
  have "round_mag 52 (- 1074) f64_inf n 1 = round_real 52 (- 1074) f64_inf (real n)"
    using round_mag_correct [of 1 52 "- 1074" f64_inf n] by simp
  also have "\<dots> = min f64_inf (nat (e - - 1074) * 2 ^ 52 + nat (rne_real y))"
    using False by (simp add: round_real_def Let_def log y_def e_def max_def)
  finally have "round_mag 52 (- 1074) f64_inf n 1 < f64_inf" using small by simp
  then show ?thesis
    using f64_make_sign_mag(2) [of 0 "round_mag 52 (- 1074) f64_inf n 1"] by (simp add: f64_of_nat_def f64_is_finite_def)
qed

section \<open>Reported and requested coordinates\<close>

lemma coordinates_detail_members:
  "coordinates_detail c d = Inr (JsonObject [(''dataSetWriterId'', JsonNumber (f64_of_nat (unat (ds_dataSetWriterId d)))),
     (''publisherId'', JsonNumber (f64_of_nat (unat (fx_publisherId c)))),
     (''publisherIdType'', JsonString (publisherIdTypeName (fx_publisherIdType c))),
     (''writerGroupId'', JsonNumber (f64_of_nat (unat (ds_writerGroupId d))))])"
  by (simp add: coordinates_detail_def setMember_def requireObject_def)

lemma requiredUnsigned_16:
  assumes "map_of ms key = Some (JsonNumber (f64_of_nat (unat (w :: 16 word))))"
  shows "requiredUnsigned (JsonObject ms) key 0xFFFF = Inr (ucast w)"
proof -
  have w: "unat w < 2 ^ 16" using unsigned_less [of w] by simp
  then have u: "unat (ucast w :: 64 word) = unat w"
    by (simp add: unsigned_ucast_eq take_bit_nat_eq_self)
  show ?thesis
  proof (rule requiredUnsigned_number)
    show "map_of ms key = Some (JsonNumber (f64_of_nat (unat (ucast w :: 64 word))))" using assms u by simp
    show "unat (ucast w :: 64 word) \<le> 2 ^ 53" "(ucast w :: 64 word) \<le> 0xFFFF"
      using w u by (simp_all add: word_le_nat_alt)
  qed
qed

lemma ucast_16_64 [simp]: "ucast (ucast (w :: 16 word) :: 64 word) = w"
  by transfer simp

lemma round_2_53: "f64_of_nat 9007199254740993 = f64_of_nat 9007199254740992"
proof -
  have "bit_length 9007199254740993 = Suc 53" "bit_length 9007199254740992 = Suc 53" "bit_length 1 = Suc 0"
    by (rule bit_length_eq; simp)+
  then have "ilog2_ratio 9007199254740993 1 = 53" "ilog2_ratio 9007199254740992 1 = 53"
    by (simp_all add: ilog2_ratio_def)
  then show ?thesis by (simp add: f64_of_nat_def round_mag_def scale_ratio_def rne_def Let_def)
qed

lemma coordinates_read:
  assumes "coordinates_detail c d = Inr peer" and "fx_publisherId c \<le> publisherIdMaximum (fx_publisherIdType c)"
    and "unat (fx_publisherId c) \<le> 2 ^ 53"
  shows "peer_coordinates peer
    = Inr (fx_publisherIdType c, fx_publisherId c, ds_writerGroupId d, ds_dataSetWriterId d)"
proof -
  define ms where "ms = [(''dataSetWriterId'', JsonNumber (f64_of_nat (unat (ds_dataSetWriterId d)))),
     (''publisherId'', JsonNumber (f64_of_nat (unat (fx_publisherId c)))),
     (''publisherIdType'', JsonString (publisherIdTypeName (fx_publisherIdType c))),
     (''writerGroupId'', JsonNumber (f64_of_nat (unat (ds_writerGroupId d))))]"
  have peer: "peer = JsonObject ms" using assms(1) by (simp add: coordinates_detail_members ms_def)
  have m: "map_of ms ''publisherIdType'' = Some (JsonString (publisherIdTypeName (fx_publisherIdType c)))"
    "map_of ms ''publisherId'' = Some (JsonNumber (f64_of_nat (unat (fx_publisherId c))))"
    "map_of ms ''writerGroupId'' = Some (JsonNumber (f64_of_nat (unat (ds_writerGroupId d))))"
    "map_of ms ''dataSetWriterId'' = Some (JsonNumber (f64_of_nat (unat (ds_dataSetWriterId d))))"
    by (simp_all add: ms_def)
  have "requireOnlyMembers peer peer_members (quoted ''peer'') = Inr ()"
    by (simp add: peer ms_def requireOnlyMembers_def requireObject_def peer_members_def)
  moreover have "hasMember peer ''publisherIdType'' = Inr True"
    "requiredString peer ''publisherIdType'' = Inr (publisherIdTypeName (fx_publisherIdType c))"
    by (simp_all add: peer m requiredString_def hasMember_def json_member_def requireObject_def asString_def)
  moreover have "requiredUnsigned peer ''publisherId'' (publisherIdMaximum (fx_publisherIdType c)) = Inr (fx_publisherId c)"
    unfolding peer using assms(2,3) by (intro requiredUnsigned_number m)
  moreover have "requiredUnsigned peer ''writerGroupId'' 0xFFFF = Inr (ucast (ds_writerGroupId d))"
    "requiredUnsigned peer ''dataSetWriterId'' 0xFFFF = Inr (ucast (ds_dataSetWriterId d))"
    unfolding peer by (intro requiredUnsigned_16 m)+
  ultimately show ?thesis by (simp add: peer_coordinates_def parsePublisherIdType_name)
qed

section \<open>Properties\<close>

text \<open>
  C21: the coordinates that establishing a publisher reports, given as the peer of a subscriber,
  are read back as the type, the identifier and the two writer numbers they were made of, when
  the identifier is one its type can carry and at most \<open>2 ^ 53\<close>.
\<close>

theorem coordinates_roundtrip:
  assumes "coordinates_detail c d = Inr peer" and "fx_publisherId c \<le> publisherIdMaximum (fx_publisherIdType c)"
    and "unat (fx_publisherId c) \<le> 2 ^ 53"
  shows "peer_coordinates peer
    = Inr (fx_publisherIdType c, fx_publisherId c, ds_writerGroupId d, ds_dataSetWriterId d)"
  using assms by (rule coordinates_read)

text \<open>
  Beyond that bound the report is wrong: an automation component may have the publisher
  identifier \<open>2 ^ 53 + 1\<close>, its publishers report \<open>2 ^ 53\<close>, and a subscriber that is given the report
  listens to another publisher.
\<close>

lemma large_publisher_id_lost:
  "\<exists>c peer. fx_publisherId c \<le> publisherIdMaximum (fx_publisherIdType c)
     \<and> coordinates_detail c (d :: nat dataset_runtime) = Inr peer
     \<and> peer_coordinates peer = Inr (fx_publisherIdType c, fx_publisherId c - 1, ds_writerGroupId d, ds_dataSetWriterId d)"
proof -
  let ?c = "new_configuration\<lparr>fx_publisherIdType := PublisherIdUInt64, fx_publisherId := 2 ^ 53 + 1\<rparr>"
  let ?c' = "?c\<lparr>fx_publisherId := 2 ^ 53\<rparr>"
  have "coordinates_detail ?c d = coordinates_detail ?c' d" using round_2_53 by (simp add: coordinates_detail_members)
  then have detail: "coordinates_detail ?c d = Inr (projr (coordinates_detail ?c' d))"
    by (simp add: coordinates_detail_members)
  have "peer_coordinates (projr (coordinates_detail ?c' d))
      = Inr (fx_publisherIdType ?c', fx_publisherId ?c', ds_writerGroupId d, ds_dataSetWriterId d)"
    by (rule coordinates_read) (simp_all add: coordinates_detail_members)
  with detail show ?thesis by (intro exI [of _ ?c] exI [of _ "projr (coordinates_detail ?c' d)"]) simp
qed

section \<open>Witness\<close>

definition sample_dataset :: "nat dataset_runtime" where
  "sample_dataset = \<lparr>ds_name = ''flow'', ds_writerGroupId = 7, ds_dataSetWriterId = 3,
     ds_publishingIntervalMs = 0x4059000000000000, ds_fields = [\<lparr>df_name = ''v'', df_address = ''a.v''\<rparr>],
     ds_variables = [5]\<rparr>"

definition sample_component :: fx_configuration where
  "sample_component = new_configuration\<lparr>fx_automationComponent := ''ac'', fx_publisherId := 10\<rparr>"

lemma coordinates_roundtrip_witness:
  "\<exists>peer. coordinates_detail sample_component sample_dataset = Inr peer
     \<and> peer_coordinates peer = Inr (PublisherIdUInt16, 10, 7, 3)"
proof -
  obtain peer where p: "coordinates_detail sample_component sample_dataset = Inr peer"
    by (simp add: coordinates_detail_members)
  then have "peer_coordinates peer = Inr (fx_publisherIdType sample_component, fx_publisherId sample_component,
      ds_writerGroupId sample_dataset, ds_dataSetWriterId sample_dataset)"
    by (rule coordinates_roundtrip) (simp_all add: sample_component_def new_configuration_def)
  with p show ?thesis by (simp add: sample_component_def new_configuration_def sample_dataset_def)
qed

end
