(* ===== verification/FxNames.thy ===== *)
theory FxNames
  imports FxServices "HOL-Library.Multiset"
begin

text \<open>
  The names of connections. An automatic name is found by search among one more candidate than
  there are names in use, so the search cannot fail below the entity's limit; at the limit a
  closed endpoint is taken again.
\<close>

section \<open>Ordered members\<close>

lemma map_of_insert_member [simp]: "map_of (insert_member n v ms) = (map_of ms)(n \<mapsto> v)"
  by (induction ms) (auto simp: fun_eq_iff)

lemma keys_insert_member [simp]: "fst ` set (insert_member n v ms) = insert n (fst ` set ms)"
proof (induction ms)
  case (Cons e ms)
  then show ?case by (cases e) (auto simp only: insert_member.simps list.set image_insert fst_conv split: if_splits)
qed simp

lemma string_less_not_same: "string_less k n \<Longrightarrow> k \<noteq> n"
  by auto

abbreviation in_order :: "(string \<times> 'a) list \<Rightarrow> bool" where
  "in_order ms \<equiv> sorted_wrt string_less (keys ms)"

lemma in_order_distinct: "in_order ms \<Longrightarrow> distinct (keys ms)"
  by (induction ms) (auto dest: string_less_not_same)

lemma in_order_insert: "in_order ms \<Longrightarrow> in_order (insert_member n v ms)"
proof (induction ms)
  case (Cons e ms)
  obtain k w where e: "e = (k, w)" by fastforce
  show ?case
  proof (cases "n = k \<or> string_less n k")
    case True
    then show ?thesis using Cons.prems by (auto simp: e dest: string_less_trans)
  next
    case False
    then have "string_less k n" using string_less_linear [of n k] by auto
    then have "\<forall>k' \<in> set (keys (insert_member n v ms)). string_less k k'"
      using Cons.prems by (auto simp: e simp del: fst_conv) (auto simp: e)
    then show ?thesis using False Cons by (auto simp: e)
  qed
qed simp

text \<open>Putting a member in its place, as a list: what stands for the others is unchanged.\<close>

lemma filter_insert_other:
  assumes "in_order ms" and "\<not> P (n, v)" and "\<And>w. map_of ms n = Some w \<Longrightarrow> \<not> P (n, w)"
  shows "filter P (insert_member n v ms) = filter P ms"
  using assms
proof (induction ms)
  case (Cons e ms)
  obtain k w where e: "e = (k, w)" by fastforce
  have "map_of ms n = Some u \<Longrightarrow> \<not> P (n, u)" if "n \<noteq> k" for u using Cons.prems(3) [of u] that by (simp add: e)
  then show ?case using Cons.IH Cons.prems by (cases "n = k") (auto simp: e)
qed simp

lemma mset_insert_member:
  assumes "in_order ms"
  shows "mset (insert_member n v ms) = add_mset (n, v)
    (case map_of ms n of None \<Rightarrow> mset ms | Some w \<Rightarrow> mset ms - {#(n, w)#})"
  using assms
proof (induction ms)
  case (Cons e ms)
  obtain k w where e: "e = (k, w)" by fastforce
  show ?case
  proof (cases "n = k")
    case False
    have mem: "map_of ms n = Some u \<Longrightarrow> (n, u) \<in># mset ms" for u by (auto dest: map_of_SomeD)
    have "map_of ms n = None" if "string_less n k"
    proof (rule ccontr)
      assume "map_of ms n \<noteq> None"
      then have "n \<in> set (keys ms)" by (simp add: map_of_eq_None_iff)
      then have "string_less k n" using Cons.prems by (auto simp: e)
      with that show False by (meson string_less_irrefl string_less_trans)
    qed
    with mem show ?thesis using Cons False by (auto simp: e split: option.splits)
  qed (simp add: e)
qed simp

lemma in_order_mem: "in_order ms \<Longrightarrow> (k, v) \<in> set ms \<longleftrightarrow> map_of ms k = Some v"
  by (simp add: in_order_distinct)

section \<open>Automatic names\<close>

lemma auto_name_inj: "auto_name m = auto_name n \<longleftrightarrow> m = n"
proof
  assume "auto_name m = auto_name n"
  then have "decimal_value (nat_to_string m) = decimal_value (nat_to_string n)" by (simp add: auto_name_def)
  then show "m = n" by simp
qed simp

lemma auto_candidate:
  assumes "finite used" and "card used < b"
  shows "\<exists>n \<in> set [1..<b + 1]. auto_name n \<notin> used"
proof (rule ccontr)
  assume "\<not> ?thesis"
  then have "auto_name ` set [1..<b + 1] \<subseteq> used" by auto
  then have "card (auto_name ` set [1..<b + 1]) \<le> card used" using assms(1) by (rule card_mono [rotated])
  moreover have "card (auto_name ` set [1..<b + 1]) = b"
    by (subst card_image) (simp_all add: inj_on_def auto_name_inj del: upt_Suc)
  ultimately show False using assms(2) by simp
qed

lemma auto_fresh_found:
  "\<exists>c. find (auto_usable entityName f)
      (map auto_name [1..<length (fs_endpoints f) + length (fs_poisonedNames f) + 1 + 1]) = Some c"
proof -
  let ?used = "set (keys (fs_endpoints f)) \<union> set (fs_poisonedNames f)"
  have "card ?used \<le> card (set (keys (fs_endpoints f))) + card (set (fs_poisonedNames f))" by (rule card_Un_le)
  also have "\<dots> \<le> length (fs_endpoints f) + length (fs_poisonedNames f)"
    using card_length [of "keys (fs_endpoints f)"] card_length [of "fs_poisonedNames f"] by simp
  finally obtain n where n: "n \<in> set [1..<length (fs_endpoints f) + length (fs_poisonedNames f) + 1 + 1]"
    "auto_name n \<notin> ?used" using auto_candidate [of ?used "length (fs_endpoints f) + length (fs_poisonedNames f) + 1"]
    by (auto simp del: upt_Suc)
  then have "map_of (fs_endpoints f) (auto_name n) = None" by (simp add: map_of_eq_None_iff del: upt_Suc)
  with n have "auto_usable entityName f (auto_name n)" by (simp add: auto_usable_def del: upt_Suc)
  with n(1) show ?thesis
    by (intro not_None_eq [THEN iffD1]) (auto simp: find_None_iff simp del: upt_Suc)
qed

lemma find_first: "find P xs = Some x \<Longrightarrow> x \<in> set xs \<and> P x"
  by (auto simp: find_Some_iff)

definition reusable :: "string \<Rightarrow> 'p fx \<Rightarrow> bool" where
  "reusable entityName f \<longleftrightarrow> list_ex (\<lambda>(n, ep). \<not> ep_active ep \<and> ep_entity ep = entityName) (fs_endpoints f)"

lemma firstFreeAutoName_cases:
  assumes "firstFreeAutoName entityName f = r"
  obtains (fresh) n where "r = Inr n" and "endpointCountOf entityName f < kMaxEndpointsPerEntity"
      and "auto_usable entityName f n" and "n \<noteq> []"
    | (reused) n ep where "r = Inr n" and "(n, ep) \<in> set (fs_endpoints f)" and "\<not> ep_active ep"
      and "ep_entity ep = entityName"
    | (full) m where "r = Inl m" and "\<not> endpointCountOf entityName f < kMaxEndpointsPerEntity"
      and "\<not> reusable entityName f"
proof (cases "endpointCountOf entityName f < kMaxEndpointsPerEntity")
  case True
  obtain c where c: "find (auto_usable entityName f)
      (map auto_name [1..<length (fs_endpoints f) + length (fs_poisonedNames f) + 1 + 1]) = Some c"
    using auto_fresh_found by blast
  then have "r = Inr c" using assms True by (simp add: firstFreeAutoName_def Let_def)
  moreover have "c \<noteq> []" using find_first [OF c] by (auto simp: auto_name_def)
  ultimately show ?thesis using True conjunct2 [OF find_first [OF c]] by (intro fresh)
next
  case False
  show ?thesis
  proof (cases "find (\<lambda>(n, ep). \<not> ep_active ep \<and> ep_entity ep = entityName) (fs_endpoints f)")
    case None
    then have "\<not> reusable entityName f" by (auto simp: find_None_iff reusable_def list_ex_iff)
    with None False assms show ?thesis by (auto simp: firstFreeAutoName_def intro: full)
  next
    case (Some e)
    with find_first [OF Some] False assms show ?thesis
      by (auto simp: firstFreeAutoName_def intro: reused)
  qed
qed

lemma auto_name_found:
  "(\<exists>n. firstFreeAutoName entityName f = Inr n) \<longleftrightarrow>
     endpointCountOf entityName f < kMaxEndpointsPerEntity \<or> reusable entityName f"
  by (rule firstFreeAutoName_cases [OF refl, of entityName f]) (auto simp: reusable_def list_ex_iff)

lemma auto_name_passes:
  assumes "in_order (fs_endpoints f)" and "set (fs_poisonedNames f) \<inter> set (keys (fs_endpoints f)) = {}"
    and "firstFreeAutoName entityName f = Inr n"
  shows "check_name f entityName n = Inr ()"
  using assms(3)
proof (cases rule: firstFreeAutoName_cases)
  case (fresh m)
  then show ?thesis by (auto simp: check_name_def auto_usable_def split: option.splits)
next
  case (reused m ep)
  then have "map_of (fs_endpoints f) n = Some ep" using assms(1) by (simp add: in_order_mem)
  moreover have "n \<in> set (keys (fs_endpoints f))" using reused by force
  then have "n \<notin> set (fs_poisonedNames f)" using assms(2) by blast
  ultimately have "map_of (fs_endpoints f) n = Some ep" "n \<notin> set (fs_poisonedNames f)" .
  then show ?thesis using reused by (simp add: check_name_def)
qed simp

section \<open>Property\<close>

text \<open>
  C20: an automatic name is found exactly when the entity has fewer than its limit of endpoints or
  one of them is closed, and the name found is one that may be established for the entity.
\<close>

theorem auto_naming:
  assumes "in_order (fs_endpoints f)" and "set (fs_poisonedNames f) \<inter> set (keys (fs_endpoints f)) = {}"
  shows "((\<exists>n. firstFreeAutoName entityName f = Inr n) \<longleftrightarrow>
      endpointCountOf entityName f < kMaxEndpointsPerEntity \<or> reusable entityName f)
    \<and> (\<forall>n. firstFreeAutoName entityName f = Inr n \<longrightarrow> check_name f entityName n = Inr ())"
  using auto_name_found auto_name_passes [OF assms] by blast

section \<open>Witness\<close>

text \<open>The first two automatic names are taken, by a busy connection and by a wreck.\<close>

definition sample_fx_names :: "nat fx" where
  "sample_fx_names = new_fx\<lparr>fs_endpoints := [(''cep-1'', new_endpoint\<lparr>ep_entity := ''e'', ep_active := True\<rparr>)],
     fs_poisonedNames := [''cep-2'']\<rparr>"

lemma auto_naming_witness:
  "firstFreeAutoName ''e'' sample_fx_names = Inr ''cep-3'' \<and> check_name sample_fx_names ''e'' ''cep-3'' = Inr ()"
proof -
  have "firstFreeAutoName ''e'' sample_fx_names = Inr ''cep-3''" by code_simp
  moreover have "in_order (fs_endpoints sample_fx_names)"
    "set (fs_poisonedNames sample_fx_names) \<inter> set (keys (fs_endpoints sample_fx_names)) = {}"
    by (simp_all add: sample_fx_names_def new_fx_def)
  ultimately show ?thesis using auto_naming [of sample_fx_names "''e''"] by blast
qed

end
