(* ===== verification/FxModel.thy ===== *)
theory FxModel
  imports FxNames
begin

text \<open>
  What the engine does to its own address space: nodes and variables are only ever added, and
  building the information model or the view of an endpoint touches nothing else. The relation
  \<open>grows\<close> says so; the actions respect it as a preorder.
\<close>

section \<open>Growth\<close>

definition grows :: "'p fx \<Rightarrow> 'p fx \<Rightarrow> bool" where
  "grows f f' \<longleftrightarrow> fs_staged f' = fs_staged f \<and> fs_configuration f' = fs_configuration f
     \<and> map en_name (fs_entities f') = map en_name (fs_entities f) \<and> fs_endpoints f' = fs_endpoints f
     \<and> fs_poisonedNames f' = fs_poisonedNames f \<and> fs_started f' = fs_started f
     \<and> (\<exists>ns. fs_nodes f' = fs_nodes f @ ns) \<and> (\<exists>vs. fs_variables f' = fs_variables f @ vs)"

lemma grows_refl: "grows f f"
  by (simp add: grows_def)

lemma grows_trans: "grows f g \<Longrightarrow> grows g h \<Longrightarrow> grows f h"
  by (auto simp: grows_def)

lemma grows_order: "reflp grows" "transp grows"
  by (auto intro!: reflpI transpI grows_refl intro: grows_trans)

lemmas grows_moves = act_moves_simple [OF grows_order(1)] act_moves_bind [OF grows_order(2)]
  act_moves_for [OF grows_order]

lemma on_nodes_eq: "on_nodes m f = (f\<lparr>fs_nodes := fst (m (fs_nodes f))\<rparr>, snd (m (fs_nodes f)))"
  by (simp add: on_nodes_def case_prod_unfold)

lemma on_nodes_grows:
  "act_moves grows (on_nodes (addNodeAndReferenceThrows ops n))"
  "act_moves grows (on_nodes (addNodeAndReferenceThrows_node ops n))"
  by (auto simp: act_moves_def on_nodes_eq grows_def addNodeAndReferenceThrows_def addNodeAndReferenceThrows_node_def
      split: option.splits)

lemma add_node_grows: "act_moves grows (add_node ops parent name kind ref)"
  unfolding add_node_def by (intro grows_moves on_nodes_grows)

lemma addObject_grows: "act_moves grows (addObject ops parent name b)"
  unfolding addObject_def by (rule add_node_grows)

lemma addVariable_grows: "act_moves grows (addVariable ops parent name v)"
  unfolding addVariable_def
  by (intro grows_moves on_nodes_grows act_moves_modify) (simp add: grows_def)

lemma addMethods_grows: "act_moves grows (addMethods ops parent)"
  unfolding addMethods_def addMethod_def addArguments_def by (intro grows_moves on_nodes_grows)

lemma addDataset_grows: "act_moves grows (addDataset ops folder d)"
  unfolding addDataset_def by (intro grows_moves addObject_grows addVariable_grows)

text \<open>The folder of an entity is stored in the entity itself, which keeps its name.\<close>

definition after :: "'p fx \<Rightarrow> 'p fx \<Rightarrow> 'p fx \<Rightarrow> bool" where
  "after f s s' \<longleftrightarrow> (grows f s \<longrightarrow> grows f s')"

lemma after_order: "reflp (after f)" "transp (after f)"
  by (auto simp: after_def intro!: reflpI transpI)

lemma after_grows: "act_moves grows m \<Longrightarrow> act_moves (after f) m"
  by (auto simp: act_moves_def after_def intro: grows_trans)

lemma after_folder:
  fixes f :: "'p fx"
  assumes "entity = fs_entities f ! k"
  shows "act_moves (after f) (act_modify (\<lambda>s. s\<lparr>fs_entities := (fs_entities s)[k := entity\<lparr>en_endpointsFolder := i\<rparr>]\<rparr>))"
proof (rule act_moves_modify)
  fix s :: "'p fx"
  have "map en_name ((fs_entities s)[k := entity\<lparr>en_endpointsFolder := i\<rparr>]) = map en_name (fs_entities f)"
    if "map en_name (fs_entities s) = map en_name (fs_entities f)"
  proof (cases "k < length (fs_entities f)")
    case True
    then show ?thesis using list_update_id [of "map en_name (fs_entities f)" k]
      by (simp add: map_update that assms)
  next
    case False
    then show ?thesis using that by (metis length_map list_update_beyond not_less)
  qed
  then show "after f s (s\<lparr>fs_entities := (fs_entities s)[k := entity\<lparr>en_endpointsFolder := i\<rparr>]\<rparr>)"
    by (auto simp: after_def grows_def)
qed

lemma addEntity_grows: "act_moves grows (addEntity ops folder k)"
  unfolding act_moves_def
proof
  fix f :: "'a fx"
  have "act_moves (after f) (let entity = fs_entities f ! k in
     act_bind (addObject ops folder (en_name entity) False) (\<lambda>entityNode.
     act_bind (addObject ops entityNode ''OutputData'' False) (\<lambda>outputData.
     act_bind (addObject ops entityNode ''InputData'' False) (\<lambda>inputData.
     act_bind (addObject ops entityNode ''ConnectionEndpoints'' False) (\<lambda>endpoints.
     act_bind (act_modify (\<lambda>f. f\<lparr>fs_entities := (fs_entities f)[k := entity\<lparr>en_endpointsFolder := endpoints\<rparr>]\<rparr>)) (\<lambda>_.
     act_bind (act_for (addDataset ops outputData) (en_outputs entity)) (\<lambda>_.
       act_for (addDataset ops inputData) (en_inputs entity))))))))" (is "act_moves _ ?m")
    unfolding Let_def
    by (intro act_moves_bind after_order after_folder refl act_moves_for after_grows addObject_grows
        addDataset_grows)
  then have "after f f (fst (?m f))" by (simp add: act_moves_def)
  then show "grows f (fst (addEntity ops folder k f))"
    by (simp add: addEntity_def after_def grows_refl Let_def)
qed

lemma buildModel_grows: "act_moves grows (buildModel ops)"
  unfolding buildModel_def
  by (intro grows_moves add_node_grows addMethods_grows addObject_grows addEntity_grows)

section \<open>Building the runtimes\<close>

lemma entity_runtime_name: "entity_runtime_of nodes c = Inr e \<Longrightarrow> en_name e = fe_name c"
  by (auto simp: entity_runtime_of_def res_bind_Inr_iff)

lemma build_entities:
  "act_for (\<lambda>c. act_bind (act_lift (entity_runtime_of nodes c)) (\<lambda>entity.
       act_modify (\<lambda>f. f\<lparr>fs_entities := fs_entities f @ [entity]\<rparr>))) cs f = (f', r) \<Longrightarrow>
   \<exists>es. f' = f\<lparr>fs_entities := fs_entities f @ es\<rparr> \<and> set (map en_name es) \<subseteq> set (map fe_name cs)"
proof (induction cs arbitrary: f)
  case Nil
  then show ?case by (intro exI [of _ "[]"]) simp
next
  case (Cons c cs)
  show ?case
  proof (cases "entity_runtime_of nodes c")
    case (Inl m)
    then show ?thesis using Cons.prems by (intro exI [of _ "[]"]) (simp add: act_bind_def)
  next
    case (Inr e)
    with Cons.prems obtain es where es: "f' = f\<lparr>fs_entities := fs_entities f @ e # es\<rparr>"
      "set (map en_name es) \<subseteq> set (map fe_name cs)"
      using Cons.IH [of "f\<lparr>fs_entities := fs_entities f @ [e]\<rparr>"] by (auto simp: act_bind_def)
    then show ?thesis using entity_runtime_name [OF Inr] by (intro exI [of _ "e # es"]) auto
  qed
qed

lemma buildRuntimes_entities:
  assumes "buildRuntimes_fx nodes f = (f', r)"
  obtains es where "f' = f\<lparr>fs_entities := fs_entities f @ es\<rparr>"
    and "set (map en_name es) \<subseteq> set (map fe_name (fx_entities (fs_configuration f)))"
  using build_entities [of nodes _ f f' r] assms unfolding buildRuntimes_fx_def act_bind_simps by blast

section \<open>The view of an endpoint\<close>

lemma addVariable_Inr:
  assumes "addVariable ops parent name v f = (f', Inr r)"
  shows "r = length (fs_variables f) \<and> grows f f' \<and> fs_variables f' = fs_variables f @ [v]"
proof -
  have "grows f f'" using act_movesD [OF addVariable_grows assms] .
  then show ?thesis using assms
    by (auto simp: addVariable_def act_bind_Inr_iff on_nodes_eq act_return_def)
qed

lemma addObject_variables: "addObject ops parent name b f = (f', r) \<Longrightarrow> fs_variables f' = fs_variables f"
  by (auto simp: addObject_def add_node_def act_bind_def on_nodes_eq split: sum.splits prod.splits)

lemma create_view_grows: "act_moves grows (create_view ops folder name ep)"
  unfolding create_view_def by (intro grows_moves addObject_grows addVariable_grows)

lemma create_view_Inr:
  assumes "create_view ops folder name ep f = (f', Inr ep')"
  shows "grows f f' \<and> ep' = ep\<lparr>ep_statusVariable := Some (length (fs_variables f)),
      ep_addressVariable := Some (length (fs_variables f) + 1), ep_datasetVariable := Some (length (fs_variables f) + 2)\<rparr>
    \<and> fs_variables f' = fs_variables f @ [Int32View 0, StringView [], StringView []]"
proof -
  have g: "grows f f'" using act_movesD [OF create_view_grows assms] .
  obtain f1 i f2 a f3 b c where
    "addObject ops folder name False f = (f1, Inr i)"
    "addVariable ops i ''Status'' (Int32View 0) f1 = (f2, Inr a)"
    "addVariable ops i ''Address'' (StringView []) f2 = (f3, Inr b)"
    "addVariable ops i ''Dataset'' (StringView []) f3 = (f', Inr c)"
    "ep' = ep\<lparr>ep_statusVariable := Some a, ep_addressVariable := Some b, ep_datasetVariable := Some c\<rparr>"
    using assms by (auto simp: create_view_def act_bind_Inr_iff)
  then show ?thesis using g addObject_variables [of ops folder name False f f1 "Inr i"]
    by (auto dest!: addVariable_Inr)
qed

end
