(* ===== verification/FxPlane.thy ===== *)
theory FxPlane
  imports FxModel
begin

text \<open>
  The data plane as the FX engine sees it: who owns the writer groups and the readers of the
  Pub/Sub engine. Every operation of that engine that FX uses changes the owners in one way; the io
  thread does not change them at all.
\<close>

section \<open>Owners\<close>

definition group_owners :: "('p, 'c) engine \<Rightarrow> string multiset" where
  "group_owners e = mset (map (\<lambda>g. gr_ownerTag (group_at e g)) (en_writerGroups e))"

definition reader_owners :: "('p, 'c) engine \<Rightarrow> (string \<times> 'c option) multiset" where
  "reader_owners e = mset (map (\<lambda>kr. (rr_ownerTag (snd kr), rr_onFirstData (snd kr))) (en_readers e))"

lemma owners_cong:
  "en_writerGroups e' = en_writerGroups e \<Longrightarrow> en_heap e' = en_heap e \<Longrightarrow> group_owners e' = group_owners e"
  "en_readers e' = en_readers e \<Longrightarrow> reader_owners e' = reader_owners e"
  by (simp_all add: group_owners_def reader_owners_def)

lemma add_group_owners:
  assumes "engine_inv e" and "addDynamicWriterGroup udp tag type publisher grp e = (e', Inr ())"
  shows "group_owners e' = add_mset tag (group_owners e) \<and> reader_owners e' = reader_owners e
    \<and> en_running e' \<and> en_running e"
proof -
  from addDynamicWriterGroup_cases [OF assms(2)] have run: "en_running e"
    and e': "e' = scheduleGroup (en_next e) (commit_group (dynamic_group tag type publisher grp) e)" by auto
  have "en_next e \<notin> set (en_writerGroups e)" using assms(1) by (auto simp: engine_inv_def groups_ok_def)
  then have "map (\<lambda>g. gr_ownerTag (group_at e' g)) (en_writerGroups e) = map (\<lambda>g. gr_ownerTag (group_at e g)) (en_writerGroups e)"
    by (auto simp: e' scheduleGroup_def commit_group_def)
  moreover have "en_writerGroups e' = en_writerGroups e @ [en_next e]" "gr_ownerTag (group_at e' (en_next e)) = tag"
    "en_readers e' = en_readers e" "en_running e' = en_running e"
    by (simp_all add: e' scheduleGroup_def commit_group_def dynamic_group_def)
  ultimately show ?thesis using run by (simp add: group_owners_def reader_owners_def del: mset_map map_eq_conv)
qed

lemma add_reader_owners:
  assumes "addDynamicReader udp tag reader e = (e', Inr ())"
  shows "group_owners e' = group_owners e \<and> reader_owners e' = add_mset (tag, dr_onFirstData reader) (reader_owners e)
    \<and> en_running e' \<and> en_running e
    \<and> en_readers e' = en_readers e @ [(dynamic_reader_key reader, dynamic_reader_runtime tag reader)]"
proof -
  from addDynamicReader_cases [OF assms] obtain t where run: "en_running e"
    and new: "dynamic_reader_key reader \<notin> set (keys (en_readers e))"
    and acq: "acquireReceiver udp (dr_host reader) (dr_port reader) True e = (t, Inr ())"
    and e': "e' = t\<lparr>en_readers := AList.update (dynamic_reader_key reader) (dynamic_reader_runtime tag reader) (en_readers t)\<rparr>"
    by auto
  have t: "t = e\<lparr>en_receivers := en_receivers t\<rparr>" using acquire_frame [OF acq] .
  have same: "en_readers t = en_readers e" "en_writerGroups t = en_writerGroups e" "en_heap t = en_heap e"
    "en_running t = en_running e" by (subst t, simp)+
  have "en_readers e' = en_readers e @ [(dynamic_reader_key reader, dynamic_reader_runtime tag reader)]"
    using new by (simp add: e' same alist_update_new)
  then show ?thesis using run
    by (simp add: group_owners_def reader_owners_def e' same dynamic_reader_runtime_def)
qed

lemma remove_owners:
  assumes "engine_inv e" and "en_running e"
  shows "group_owners (removeDynamic tag e) = filter_mset (\<lambda>t. t \<noteq> tag) (group_owners e)
    \<and> reader_owners (removeDynamic tag e) = filter_mset (\<lambda>tc. fst tc \<noteq> tag) (reader_owners e)
    \<and> en_readers (removeDynamic tag e) = filter (\<lambda>kr. rr_ownerTag (snd kr) \<noteq> tag) (en_readers e)"
proof -
  note s = removeDynamic_state [OF assms, of tag]
  have "map (\<lambda>g. gr_ownerTag (group_at (removeDynamic tag e) g)) (filter (\<lambda>g. gr_ownerTag (group_at e g) \<noteq> tag) (en_writerGroups e))
      = filter (\<lambda>t. t \<noteq> tag) (map (\<lambda>g. gr_ownerTag (group_at e g)) (en_writerGroups e))"
    by (simp add: s filter_map comp_def)
  then have "group_owners (removeDynamic tag e) = filter_mset (\<lambda>t. t \<noteq> tag) (group_owners e)"
    unfolding group_owners_def mset_filter [symmetric] by (simp add: s)
  moreover have "en_readers (removeDynamic tag e) = filter (\<lambda>kr. rr_ownerTag (snd kr) \<noteq> tag) (en_readers e)"
    by (simp add: s case_prod_unfold)
  moreover from this have "reader_owners (removeDynamic tag e) = filter_mset (\<lambda>tc. fst tc \<noteq> tag) (reader_owners e)"
    unfolding reader_owners_def mset_filter [symmetric] by (simp add: filter_map comp_def)
  ultimately show ?thesis by blast
qed

lemma remove_running [simp]: "en_running (removeDynamic tag e) = en_running e"
  by (auto simp: removeDynamic_def split: prod.split)

lemma ensure_owners:
  "ensureStarted e = (e', r) \<Longrightarrow> group_owners e' = group_owners e \<and> reader_owners e' = reader_owners e
     \<and> en_readers e' = en_readers e \<and> (r = Inr () \<longrightarrow> en_running e')"
  by (auto simp: ensureStarted_def startIoThread_def group_owners_def reader_owners_def split: if_splits)

lemma shutdown_owners:
  assumes "engine_inv e"
  shows "group_owners (shutdown e) = {#}" and "reader_owners (shutdown e) = {#}"
  using shutdown_inv(3) [OF assms] by (simp_all add: idle_def group_owners_def reader_owners_def)

section \<open>The io thread\<close>

lemma timer_owners:
  assumes "timer_handler sdk w a g aborted e = (e', out)"
  shows "group_owners e' = group_owners e \<and> en_readers e' = en_readers e \<and> en_running e' = en_running e"
proof -
  have "gr_ownerTag (fst (publishGroup sdk w a grp)) = gr_ownerTag grp" for grp
    by (simp add: publishGroup_def)
  then have "gr_ownerTag (group_at e' h) = gr_ownerTag (group_at e h)" for h
    using assms by (auto simp: timer_handler_def Let_def scheduleGroup_def split: if_splits prod.splits) (metis fst_conv)
  moreover have "en_writerGroups e' = en_writerGroups e" "en_readers e' = en_readers e" "en_running e' = en_running e"
    using assms by (auto simp: timer_handler_def Let_def scheduleGroup_def split: if_splits prod.splits)
  ultimately show ?thesis by (simp add: group_owners_def)
qed

lemma receive_owners:
  assumes "engine_inv e"
  shows "reader_owners (fst (receive_message sdk w p g m (e, a))) = reader_owners e"
proof (cases rule: receive_message_cases [of sdk w p g m e a])
  case (2 key r r')
  have "distinct (keys (en_readers e))" using assms by (simp add: engine_inv_def readers_ok_def)
  from alist_update_image [OF this 2(1), of "\<lambda>r. (rr_ownerTag r, rr_onFirstData r)" r'] 2(2,3) show ?thesis
    by (simp add: reader_owners_def reader_kept_def)
qed simp

lemma receive_frame:
  "en_writerGroups (fst (receive_message sdk w p g m (e, a))) = en_writerGroups e
   \<and> en_heap (fst (receive_message sdk w p g m (e, a))) = en_heap e
   \<and> en_running (fst (receive_message sdk w p g m (e, a))) = en_running e"
  by (cases rule: receive_message_cases [of sdk w p g m e a]) simp_all

text \<open>What every message of a datagram keeps, the datagram keeps.\<close>

lemma datagram_keeps:
  assumes "handleDatagram sdk w bs (e, a) = (e', a')" and "P e a"
    and "\<And>e a p g m e1 a1. P e a \<Longrightarrow> receive_message sdk w p g m (e, a) = (e1, a1) \<Longrightarrow> P e1 a1"
  shows "P e' a'"
proof -
  have "P e1 a1 \<Longrightarrow> fold (receive_message sdk w p g) ms (e1, a1) = (e2, a2) \<Longrightarrow> P e2 a2" for p g ms e1 a1 e2 a2
  proof (induction ms arbitrary: e1 a1)
    case (Cons m ms)
    obtain e3 a3 where m: "receive_message sdk w p g m (e1, a1) = (e3, a3)" by fastforce
    then show ?case using Cons.IH [of e3 a3] Cons.prems assms(3) [OF Cons.prems(1) m] by simp
  qed simp
  then show ?thesis using assms(1,2) by (auto simp: handleDatagram_def split: outcome.splits)
qed

lemma datagram_owners:
  assumes "engine_inv e" and "handleDatagram sdk w bs (e, a) = (e', a')"
  shows "engine_inv e' \<and> group_owners e' = group_owners e \<and> reader_owners e' = reader_owners e
    \<and> en_running e' = en_running e"
  by (rule datagram_keeps [OF assms(2), where P = "\<lambda>x b. engine_inv x \<and> group_owners x = group_owners e
        \<and> reader_owners x = reader_owners e \<and> en_running x = en_running e"])
     (use assms(1) receive_message_inv receive_owners receive_frame owners_cong(1) in \<open>simp, metis fst_conv\<close>)

end
