(* ===== verification/FxInvariant.thy ===== *)
theory FxInvariant
  imports FxPlane
begin

text \<open>
  The invariant of the FX engine: its endpoints are ordered by distinct names, at most 64 for an
  entity; a dataset is connected once at a time; and the writer groups and readers that carry an
  owner in the Pub/Sub engine are exactly those of the active connections, one each.
\<close>

section \<open>Names that cannot be confused\<close>

text \<open>
  The owner tag joins the entity and the connection by a slash, so it names them uniquely when
  no entity has a slash in its name. Nothing in the configuration forbids one.
\<close>

definition plain :: "string \<Rightarrow> bool" where
  "plain s \<longleftrightarrow> CHR ''/'' \<notin> set s"

definition plain_configuration :: "fx_configuration \<Rightarrow> bool" where
  "plain_configuration c \<longleftrightarrow> list_all (\<lambda>e. plain (fe_name e)) (fx_entities c)"

lemma owner_tag_inj:
  assumes "owner_tag c e n = owner_tag c e' n'" and "plain e" and "plain e'"
  shows "e = e' \<and> n = n'"
proof -
  have eq: "e @ CHR ''/'' # n = e' @ CHR ''/'' # n'" using assms(1) by (simp add: owner_tag_def)
  have tw: "takeWhile (\<lambda>c. c \<noteq> CHR ''/'') (s @ CHR ''/'' # t) = s" if "plain s" for s t
    using that by (subst takeWhile_append2) (auto simp: plain_def)
  from arg_cong [OF eq, of "takeWhile (\<lambda>c. c \<noteq> CHR ''/'')"] have "e = e'" using assms(2,3) by (simp add: tw)
  with eq show ?thesis by simp
qed

lemma owner_tag_not_Nil [simp]: "owner_tag c e n \<noteq> []"
  by (simp add: owner_tag_def)

section \<open>Endpoints\<close>

definition entity_names :: "'p fx \<Rightarrow> string set" where
  "entity_names f = set (map en_name (fs_entities f))"

definition same_dataset :: "endpoint \<Rightarrow> endpoint \<Rightarrow> bool" where
  "same_dataset ep ep' \<longleftrightarrow> ep_entity ep = ep_entity ep' \<and> ep_role ep = ep_role ep' \<and> ep_dataset ep = ep_dataset ep'"

definition endpoint_ok :: "'p fx \<Rightarrow> string \<Rightarrow> endpoint \<Rightarrow> bool" where
  "endpoint_ok f n ep \<longleftrightarrow> n \<noteq> [] \<and> n \<notin> set (fs_poisonedNames f) \<and> ep_entity ep \<in> entity_names f
     \<and> (ep_role ep = ''publisher'' \<or> ep_role ep = ''subscriber'') \<and> ep_statusVariable ep \<noteq> None
     \<and> (ep_active ep \<longrightarrow> fs_started f \<and> ep_ownerTag ep = owner_tag (fs_configuration f) (ep_entity ep) n)"

definition exclusive :: "(string \<times> endpoint) list \<Rightarrow> bool" where
  "exclusive eps \<longleftrightarrow> (\<forall>(n, ep) \<in> set eps. \<forall>(n', ep') \<in> set eps.
     ep_active ep \<and> ep_active ep' \<and> same_dataset ep ep' \<longrightarrow> n = n')"

definition registry_ok :: "'p fx \<Rightarrow> bool" where
  "registry_ok f \<longleftrightarrow> in_order (fs_endpoints f) \<and> (\<forall>(n, ep) \<in> set (fs_endpoints f). endpoint_ok f n ep)
     \<and> exclusive (fs_endpoints f) \<and> (\<forall>e. endpointCountOf e f \<le> kMaxEndpointsPerEntity)
     \<and> (\<forall>e \<in> entity_names f. plain e) \<and> plain_configuration (fs_configuration f)
     \<and> (\<forall>c. fs_staged f = Some c \<longrightarrow> plain_configuration c)"

text \<open>A name put in place of nothing or of a closed endpoint, and an endpoint that is closed.\<close>

lemma insert_member_mem:
  "in_order ms \<Longrightarrow> (k, v) \<in> set (insert_member n w ms) \<longleftrightarrow> (if k = n then v = w else (k, v) \<in> set ms)"
  by (auto simp: in_order_mem in_order_insert)

lemma filter_insert:
  assumes "in_order ms" and "\<And>w. map_of ms n = Some w \<Longrightarrow> \<not> P (n, w)"
  shows "mset (filter P (insert_member n v ms)) = (if P (n, v) then {#(n, v)#} else {#}) + mset (filter P ms)"
proof -
  have "filter_mset P (case map_of ms n of None \<Rightarrow> mset ms | Some w \<Rightarrow> mset ms - {#(n, w)#}) = filter_mset P (mset ms)"
    using assms(2) by (auto split: option.split)
  then show ?thesis by (simp add: mset_insert_member [OF assms(1)])
qed

lemma filter_drop:
  assumes "in_order ms" and "\<not> P (n, v)"
  shows "filter P (insert_member n v ms) = filter (\<lambda>e. P e \<and> fst e \<noteq> n) ms"
  using assms
proof (induction ms)
  case (Cons e ms)
  obtain k w where e: "e = (k, w)" by fastforce
  have above: "\<forall>x \<in> set ms. string_less k (fst x)" using Cons.prems(1) by (auto simp: e)
  show ?case
  proof (cases "n = k \<or> string_less n k")
    case True
    then have "\<forall>x \<in> set ms. fst x \<noteq> n" using above by (metis string_less_not_same string_less_trans)
    then have "filter P ms = filter (\<lambda>e. P e \<and> fst e \<noteq> n) ms" by (auto intro: filter_cong)
    then show ?thesis using True Cons.prems(2) by (auto simp: e dest: string_less_not_same)
  next
    case False
    then show ?thesis using Cons by (auto simp: e)
  qed
qed simp

lemma endpoint_count: "endpointCountOf e f = size (filter_mset (\<lambda>(n, ep). ep_entity ep = e) (mset (fs_endpoints f)))"
  by (simp only: endpointCountOf_def mset_filter [symmetric] size_mset)

lemma count_insert:
  assumes ord: "in_order (fs_endpoints f)" and f': "fs_endpoints f' = insert_member n ep (fs_endpoints f)"
    and old: "\<And>old. map_of (fs_endpoints f) n = Some old \<Longrightarrow> ep_entity old = ep_entity ep"
  shows "endpointCountOf e f' = endpointCountOf e f
    + (if ep_entity ep = e \<and> map_of (fs_endpoints f) n = None then 1 else 0)"
proof (cases "map_of (fs_endpoints f) n")
  case None
  then show ?thesis by (simp add: endpoint_count f' mset_insert_member [OF ord])
next
  case (Some w)
  have mem: "mset (fs_endpoints f) = add_mset (n, w) (mset (fs_endpoints f) - {#(n, w)#})"
    using Some by (simp add: map_of_SomeD)
  have "endpointCountOf e f = size (filter_mset (\<lambda>(n, ep). ep_entity ep = e)
      (add_mset (n, w) (mset (fs_endpoints f) - {#(n, w)#})))"
    unfolding endpoint_count by (subst mem) (rule refl)
  then show ?thesis using Some old [OF Some]
    by (simp add: endpoint_count [of e f'] f' mset_insert_member [OF ord])
qed

lemma registry_change:
  assumes "registry_ok f" and "fs_endpoints f' = fs_endpoints f" and "fs_poisonedNames f' = fs_poisonedNames f"
    and "entity_names f \<subseteq> entity_names f'" and "\<forall>e \<in> entity_names f'. plain e"
    and "plain_configuration (fs_configuration f')"
    and "\<And>c. fs_staged f' = Some c \<Longrightarrow> plain_configuration c"
    and "fs_started f \<Longrightarrow> fs_started f' \<and> fs_configuration f' = fs_configuration f"
  shows "registry_ok f'"
proof -
  have "endpoint_ok f n ep \<Longrightarrow> endpoint_ok f' n ep" for n ep
    using assms(3,4,8) by (auto simp: endpoint_ok_def)
  then show ?thesis using assms by (fastforce simp: registry_ok_def endpointCountOf_def)
qed

lemma grows_registry: "grows f f' \<Longrightarrow> registry_ok f \<Longrightarrow> registry_ok f'"
  by (rule registry_change [of f]) (auto simp: grows_def entity_names_def registry_ok_def)

lemma variables_registry [simp]: "registry_ok (f\<lparr>fs_variables := vs\<rparr>) = registry_ok f"
  by (simp add: registry_ok_def endpoint_ok_def endpointCountOf_def entity_names_def)

lemma set_status_frame:
  "\<exists>vs. setEndpointStatus ep st f = f\<lparr>fs_variables := vs\<rparr>"
  by (cases "ep_statusVariable ep") (auto simp: setEndpointStatus_def intro: exI [of _ "fs_variables f"])

lemma refresh_frame: "\<exists>vs. refreshEndpointView ep f = f\<lparr>fs_variables := vs\<rparr>"
proof -
  have "\<exists>vs. set_view v s g = g\<lparr>fs_variables := vs\<rparr>" for v s and g :: "'a fx"
    by (cases v) (auto simp: set_view_def intro: exI [of _ "fs_variables g"])
  then show ?thesis unfolding refreshEndpointView_def by (metis fx.surjective fx.update_convs(8))
qed

text \<open>A connection enters the registry, or leaves it.\<close>

lemma registry_insert:
  assumes reg: "registry_ok f" and ok: "endpoint_ok f n ep"
    and old: "\<And>old. map_of (fs_endpoints f) n = Some old \<Longrightarrow> ep_entity old = ep_entity ep"
    and room: "map_of (fs_endpoints f) n = None \<Longrightarrow> endpointCountOf (ep_entity ep) f < kMaxEndpointsPerEntity"
    and free: "\<And>n' ep'. ep_active ep \<Longrightarrow> (n', ep') \<in> set (fs_endpoints f) \<Longrightarrow> ep_active ep' \<Longrightarrow> same_dataset ep ep' \<Longrightarrow> n' = n"
    and f': "f' = f\<lparr>fs_endpoints := insert_member n ep (fs_endpoints f)\<rparr>"
  shows "registry_ok f'"
proof -
  have ord: "in_order (fs_endpoints f)" using reg by (simp add: registry_ok_def)
  have mem: "(k, v) \<in> set (fs_endpoints f') \<longleftrightarrow> (if k = n then v = ep else (k, v) \<in> set (fs_endpoints f))" for k v
    using insert_member_mem [OF ord] by (simp add: f')
  have eps: "fs_endpoints f' = insert_member n ep (fs_endpoints f)" by (simp add: f')
  have "endpoint_ok f' k v = endpoint_ok f k v" for k v by (simp add: endpoint_ok_def f' entity_names_def)
  moreover have "endpointCountOf e f' \<le> kMaxEndpointsPerEntity" for e
  proof -
    have "endpointCountOf e f \<le> kMaxEndpointsPerEntity" using reg by (simp add: registry_ok_def)
    then show ?thesis
      using count_insert [OF ord eps old, of e] room by (cases "ep_entity ep = e \<and> map_of (fs_endpoints f) n = None") auto
  qed
  moreover have "exclusive (fs_endpoints f')"
    unfolding exclusive_def
  proof (intro ballI, clarify)
    fix k v k' v'
    assume m: "(k, v) \<in> set (fs_endpoints f')" "(k', v') \<in> set (fs_endpoints f')"
      and a: "ep_active v" "ep_active v'" "same_dataset v v'"
    have ex: "exclusive (fs_endpoints f)" using reg by (simp add: registry_ok_def)
    have sym: "same_dataset v' v" using a(3) by (auto simp: same_dataset_def)
    show "k = k'"
    proof (cases "k = n \<or> k' = n")
      case True
      then show ?thesis
      proof
        assume "k = n"
        then show ?thesis using m a free [of k' v'] by (cases "k' = n") (simp_all add: mem)
      next
        assume "k' = n"
        then show ?thesis using m a sym free [of k v] by (cases "k = n") (simp_all add: mem)
      qed
    next
      case False
      then have "(k, v) \<in> set (fs_endpoints f)" "(k', v') \<in> set (fs_endpoints f)" using m by (simp_all add: mem)
      then show ?thesis using ex a unfolding exclusive_def by blast
    qed
  qed
  moreover have "in_order (fs_endpoints f')" using ord by (simp add: eps in_order_insert)
  moreover have "\<forall>(k, v) \<in> set (fs_endpoints f'). endpoint_ok f k v"
  proof (clarify)
    fix k v
    assume "(k, v) \<in> set (fs_endpoints f')"
    then show "endpoint_ok f k v" using reg ok by (auto simp: mem registry_ok_def split: if_splits)
  qed
  moreover have "entity_names f' = entity_names f" "fs_configuration f' = fs_configuration f" "fs_staged f' = fs_staged f"
    by (simp_all add: f' entity_names_def)
  ultimately show ?thesis using reg by (simp add: registry_ok_def)
qed

section \<open>The data plane\<close>

definition connected :: "string \<Rightarrow> 'p fx \<Rightarrow> (string \<times> endpoint) list" where
  "connected role f = filter (\<lambda>e. ep_active (snd e) \<and> ep_role (snd e) = role) (fs_endpoints f)"

definition plane_ok :: "'p fx_system \<Rightarrow> bool" where
  "plane_ok s \<longleftrightarrow> (case s of (f, e) \<Rightarrow>
     filter_mset (\<lambda>t. t \<noteq> []) (group_owners e)
       = mset (map (\<lambda>e. ep_ownerTag (snd e)) (connected ''publisher'' f))
     \<and> filter_mset (\<lambda>tc. fst tc \<noteq> []) (reader_owners e)
       = mset (map (\<lambda>e. (ep_ownerTag (snd e), Some (fst e))) (connected ''subscriber'' f)))"

definition fx_inv :: "'p fx_system \<Rightarrow> bool" where
  "fx_inv s \<longleftrightarrow> engine_inv (snd s) \<and> registry_ok (fst s) \<and> plane_ok s \<and> (fs_started (fst s) \<longrightarrow> en_running (snd s))"

lemma plane_cong:
  "fs_endpoints f' = fs_endpoints f \<Longrightarrow> group_owners e' = group_owners e \<Longrightarrow> reader_owners e' = reader_owners e
     \<Longrightarrow> plane_ok (f', e') = plane_ok (f, e)"
  by (simp add: plane_ok_def connected_def)

lemma connected_tag:
  assumes "registry_ok f" and "(n, ep) \<in> set (fs_endpoints f)" and "ep_active ep" and "plain e"
  shows "ep_ownerTag ep = owner_tag (fs_configuration f) e m \<longleftrightarrow> n = m \<and> ep_entity ep = e"
proof -
  have "plain (ep_entity ep)" and "ep_ownerTag ep = owner_tag (fs_configuration f) (ep_entity ep) n"
    using assms(1-3) by (auto simp: registry_ok_def endpoint_ok_def)
  then show ?thesis using owner_tag_inj [OF _ _ assms(4), of "fs_configuration f" "ep_entity ep" n m] by auto
qed

lemma connected_insert:
  assumes "in_order (fs_endpoints f)" and "\<And>old. map_of (fs_endpoints f) n = Some old \<Longrightarrow> \<not> ep_active old"
    and "ep_active ep" and "fs_endpoints f' = insert_member n ep (fs_endpoints f)"
  shows "mset (connected role f') = (if ep_role ep = role then {#(n, ep)#} else {#}) + mset (connected role f)"
  unfolding connected_def assms(4)
  by (subst filter_insert [OF assms(1)]) (use assms(2,3) in auto)

text \<open>Closing a connection takes exactly its own owner from the plane.\<close>

lemma connected_close:
  assumes reg: "registry_ok f" and ep: "map_of (fs_endpoints f) n = Some ep" and act: "ep_active ep"
    and f': "fs_endpoints f' = insert_member n (ep\<lparr>ep_active := False\<rparr>) (fs_endpoints f)"
  shows "connected role f' = filter (\<lambda>e. ep_ownerTag (snd e) \<noteq> ep_ownerTag ep) (connected role f)"
proof -
  have ord: "in_order (fs_endpoints f)" using reg by (simp add: registry_ok_def)
  have mem: "(n, ep) \<in> set (fs_endpoints f)" using ep by (simp add: map_of_SomeD)
  then have ok: "plain (ep_entity ep)" "ep_ownerTag ep = owner_tag (fs_configuration f) (ep_entity ep) n"
    using reg act by (auto simp: registry_ok_def endpoint_ok_def)
  have "connected role f' = filter (\<lambda>e. (ep_active (snd e) \<and> ep_role (snd e) = role) \<and> fst e \<noteq> n) (fs_endpoints f)"
    unfolding connected_def f' by (rule filter_drop [OF ord]) simp
  also have "\<dots> = filter (\<lambda>e. (ep_active (snd e) \<and> ep_role (snd e) = role) \<and> ep_ownerTag (snd e) \<noteq> ep_ownerTag ep) (fs_endpoints f)"
  proof (rule filter_cong [OF refl])
    fix x
    assume x: "x \<in> set (fs_endpoints f)"
    obtain k v where kv: "x = (k, v)" by fastforce
    have "ep_active v \<Longrightarrow> ep_ownerTag v = ep_ownerTag ep \<longleftrightarrow> k = n \<and> ep_entity v = ep_entity ep"
      using connected_tag [OF reg _ _ ok(1), of k v n] x by (simp add: kv ok(2))
    moreover have "k = n \<Longrightarrow> v = ep" using x ep ord by (simp add: kv in_order_mem)
    ultimately show "((ep_active (snd x) \<and> ep_role (snd x) = role) \<and> fst x \<noteq> n)
        = ((ep_active (snd x) \<and> ep_role (snd x) = role) \<and> ep_ownerTag (snd x) \<noteq> ep_ownerTag ep)"
      by (auto simp: kv)
  qed
  finally show ?thesis by (simp add: connected_def filter_filter conj_ac)
qed

lemma filter_map_mset: "mset (map h (filter (\<lambda>x. Q (h x)) xs)) = filter_mset Q (mset (map h xs))"
  by (induction xs) auto

lemma filter_tagged_mset:
  "mset (map (\<lambda>x. (h x, c x)) (filter (\<lambda>x. h x \<noteq> t) xs)) = filter_mset (\<lambda>tc. fst tc \<noteq> t) (mset (map (\<lambda>x. (h x, c x)) xs))"
  by (induction xs) auto

lemma close_inv:
  assumes inv: "fx_inv (f, e)" and ep: "map_of (fs_endpoints f) n = Some ep" and act: "ep_active ep"
  shows "fx_inv (close_endpoint n ep (f, e))"
proof -
  note reg = inv [unfolded fx_inv_def]
  have mem: "(n, ep) \<in> set (fs_endpoints f)" using ep by (simp add: map_of_SomeD)
  then have ok: "endpoint_ok f n ep" using reg by (auto simp: registry_ok_def)
  let ?f = "f\<lparr>fs_endpoints := insert_member n (ep\<lparr>ep_active := False\<rparr>) (fs_endpoints f)\<rparr>"
  have run: "en_running e" using reg ok act by (auto simp: endpoint_ok_def)
  obtain vs where f': "setEndpointStatus ep EndpointInitial ?f = ?f\<lparr>fs_variables := vs\<rparr>"
    using set_status_frame by metis
  have "registry_ok ?f"
  proof (rule registry_insert)
    show "endpoint_ok f n (ep\<lparr>ep_active := False\<rparr>)" using ok by (simp add: endpoint_ok_def)
  qed (use reg ep in auto)
  moreover have "plane_ok (?f, removeDynamic (ep_ownerTag ep) e)"
  proof -
    have own: "ep_ownerTag ep \<noteq> []" using ok act by (simp add: endpoint_ok_def)
    note r = remove_owners [OF _ run, of "ep_ownerTag ep"]
    note c = connected_close [OF _ ep act, of ?f]
    have swap: "filter_mset P (filter_mset Q M) = filter_mset Q (filter_mset P M)" for P Q and M :: "'x multiset"
      by (simp add: filter_filter_mset conj_commute)
    show ?thesis using reg unfolding plane_ok_def
      by (simp add: r c swap [of "\<lambda>t. t \<noteq> []"] swap [of "\<lambda>tc. fst tc \<noteq> []"]
        filter_map_mset [of "\<lambda>x. ep_ownerTag (snd x)" "\<lambda>t. t \<noteq> ep_ownerTag ep"]
        filter_tagged_mset del: mset_map)
  qed
  ultimately show ?thesis
    using reg removeDynamic_inv [of e "ep_ownerTag ep"] run
    by (simp add: close_endpoint_def f' fx_inv_def plane_ok_def connected_def)
qed

end
