(* ===== verification/FxReplies.thy ===== *)
theory FxReplies
  imports FxCoordinates FxInvariant
begin

text \<open>
  What a service can end in. An establish is refused with nothing changed, or fails while it
  builds the view of a new endpoint, or commits the connection; its reply is always a text.
\<close>

section \<open>Texts\<close>

lemma serialize_finite: "\<forall>x \<in> set (json_numbers v). f64_is_finite x \<Longrightarrow> \<exists>s. serialize v = Inr s"
  unfolding serialize_def by (simp only: serialize_refuses)

lemma statusDetail_text: "\<exists>s. statusDetail status diagnostic = Inr s"
  by (auto simp: statusDetail_def setMember_def requireObject_def intro!: serialize_finite)

lemma refusal_text: "\<exists>detail. refusal message = Inr \<lparr>rs_good = False, rs_connectionId = [], rs_detail = detail\<rparr>"
  using statusDetail_text [of "endpointStatusName EndpointError" message] by (auto simp: refusal_def)

lemma unat_double_finite [simp]: "LENGTH('w) \<le> 64 \<Longrightarrow> f64_is_finite (f64_of_nat (unat (w :: 'w::len word)))"
proof -
  assume "LENGTH('w) \<le> 64"
  then have "(2::nat) ^ LENGTH('w) \<le> 2 ^ 64" by (rule power_increasing) simp
  then have "unat w < 2 ^ 64" using less_le_trans [OF unsigned_less] by blast
  then show ?thesis by (rule f64_of_nat_finite)
qed

lemma established_detail_text: "\<exists>s. res_bind (established_detail f entity rq status) serialize = Inr s"
proof -
  have "\<exists>j. established_detail f entity rq status = Inr j \<and> (\<forall>x \<in> set (json_numbers j). f64_is_finite x)"
    by (simp add: established_detail_def coordinates_detail_members setMember_def requireObject_def)
  then show ?thesis using serialize_finite by auto
qed

section \<open>The outcomes of an activation\<close>

lemma subscriber_callback:
  assumes "subscriber_reader entity rq host port name = Inr reader"
  shows "dr_onFirstData reader = Some name"
proof -
  obtain dataset peer where "(case peer of
      JsonObject _ \<Rightarrow> res_bind (peer_coordinates peer) (\<lambda>(type, publisherId, writerGroupId, dataSetWriterId).
        Inr \<lparr>dr_publisherIdType = type, dr_publisherId = publisherId, dr_writerGroupId = writerGroupId,
          dr_dataSetWriterId = dataSetWriterId, dr_targets = dynamic_fields dataset, dr_host = host, dr_port = port,
          dr_onFirstData = Some name\<rparr>)
    | _ \<Rightarrow> Inl (quoted ''peer'' @ '' must be an object'')) = Inr reader"
    using assms by (auto simp: subscriber_reader_def res_bind_Inr_iff split: if_splits option.splits)
  then show ?thesis by (cases peer) (auto simp: res_bind_Inr_iff)
qed

lemma activate_cases:
  assumes "activate udp f entity rq name host port e = (e', r)"
  obtains (refused) m where "r = Inl m" and "e' = e"
  | (publisher) grp where "r = Inr EndpointOperational" and "rq_role rq = ''publisher''"
      and "publisher_group entity rq host port = Inr grp"
      and "addDynamicWriterGroup udp (owner_tag (fs_configuration f) (rq_entity rq) name)
        (fx_publisherIdType (fs_configuration f)) (fx_publisherId (fs_configuration f)) grp e = (e', Inr ())"
  | (subscriber) reader where "r = Inr EndpointPreOperational" and "rq_role rq \<noteq> ''publisher''"
      and "subscriber_reader entity rq host port name = Inr reader" and "dr_onFirstData reader = Some name"
      and "addDynamicReader udp (owner_tag (fs_configuration f) (rq_entity rq) name) reader e = (e', Inr ())"
proof (cases "rq_role rq = ''publisher''")
  case True
  show ?thesis
  proof (cases "publisher_group entity rq host port")
    case (Inl m)
    then show ?thesis using assms True by (intro refused) (auto simp: activate_def act_bind_def)
  next
    case (Inr grp)
    let ?add = "addDynamicWriterGroup udp (owner_tag (fs_configuration f) (rq_entity rq) name)
        (fx_publisherIdType (fs_configuration f)) (fx_publisherId (fs_configuration f)) grp e"
    obtain e1 q where add: "?add = (e1, q)" by fastforce
    have "(e', r) = (case q of Inl m \<Rightarrow> (e1, Inl m) | Inr _ \<Rightarrow> (e1, Inr EndpointOperational))"
      using assms True Inr add by (simp add: activate_def act_bind_def)
    then show ?thesis using addDynamicWriterGroup_cases [OF add] refused publisher [OF _ True Inr] add
      by (cases q) auto
  qed
next
  case False
  show ?thesis
  proof (cases "subscriber_reader entity rq host port name")
    case (Inl m)
    then show ?thesis using assms False by (intro refused) (auto simp: activate_def act_bind_def)
  next
    case (Inr reader)
    let ?add = "addDynamicReader udp (owner_tag (fs_configuration f) (rq_entity rq) name) reader e"
    obtain e1 q where add: "?add = (e1, q)" by fastforce
    have "(e', r) = (case q of Inl m \<Rightarrow> (e1, Inl m) | Inr _ \<Rightarrow> (e1, Inr EndpointPreOperational))"
      using assms False Inr add by (simp add: activate_def act_bind_def)
    moreover have "dr_onFirstData reader = Some name" using Inr by (rule subscriber_callback)
    ultimately show ?thesis using addDynamicReader_cases [OF add] refused subscriber [OF _ False Inr] add
      by (cases q) auto
  qed
qed

section \<open>The outcomes of an establish\<close>

text \<open>The request has passed every check before the activation.\<close>

definition accepted :: "'p fx \<Rightarrow> string \<Rightarrow> establish_request \<Rightarrow> 'p entity_runtime \<Rightarrow> string \<Rightarrow> string \<Rightarrow> 16 word \<Rightarrow> bool" where
  "accepted f requestJson rq entity name host port \<longleftrightarrow> fs_started f \<and> read_request requestJson = Inr rq
     \<and> request_entity f rq = Inr entity \<and> connection_name f rq = Inr name \<and> check_name f (rq_entity rq) name = Inr ()
     \<and> check_free f rq = Inr () \<and> parseNetworkAddress (rq_address rq) = Inr (host, port)"

definition committed :: "string \<Rightarrow> endpoint \<Rightarrow> endpoint_status \<Rightarrow> 'p fx \<Rightarrow> 'p fx" where
  "committed name ep status f = setEndpointStatus ep status (commit_endpoint name ep f)"

lemma ensure_view_eq:
  "ensure_view ops folder name ep (f, e) =
     (if ep_statusVariable ep \<noteq> None then ((f, e), Inr ep)
      else case create_view ops folder name ep f of
          (f', Inr ep') \<Rightarrow> ((f', e), Inr ep')
        | (f', Inl m) \<Rightarrow> ((f'\<lparr>fs_poisonedNames := List.insert name (fs_poisonedNames f')\<rparr>,
            removeDynamic (ep_ownerTag ep) e), Inl m))"
  by (simp add: ensure_view_def)

lemma act_bind_cases:
  assumes "act_bind m g s = (s', r)"
  obtains (throws) e where "m s = (s', Inl e)" and "r = Inl e" | (goes) x t where "m s = (t, Inr x)" and "g x t = (s', r)"
  using assms by (cases "m s"; cases "snd (m s)") (auto simp: act_bind_def)

lemma act_lift_bind:
  assumes "act_bind (act_lift m) g s = (s', r)"
  obtains (throws) e where "m = Inl e" and "s' = s" and "r = Inl e" | (goes) x where "m = Inr x" and "g x s = (s', r)"
  using assms by (cases m) (auto simp: act_bind_def)

text \<open>From the activation on.\<close>

definition establish_tail :: "udp_ops \<Rightarrow> node_ops \<Rightarrow> (('p, string) engine \<Rightarrow> ('p, string) engine) \<Rightarrow> 'p fx
    \<Rightarrow> establish_request \<Rightarrow> 'p entity_runtime \<Rightarrow> string \<Rightarrow> string \<Rightarrow> 16 word \<Rightarrow> ('p fx_system, string \<times> string) action" where
  "establish_tail udp ops io f rq entity name host port =
     act_bind (on_engine (activate udp f entity rq name host port)) (\<lambda>initialStatus.
     act_bind (on_engine (act_modify io)) (\<lambda>_.
     act_bind (ensure_view ops (en_endpointsFolder entity) name (prepared_endpoint f rq name)) (\<lambda>ep.
     act_bind (on_fx (act_modify (commit_endpoint name (ep\<lparr>ep_active := True\<rparr>)))) (\<lambda>_.
     act_bind act_get (\<lambda>(f', e').
       let status = reported_status initialStatus (ep_ownerTag ep) e' in
       act_bind (on_fx (act_modify (setEndpointStatus (ep\<lparr>ep_active := True\<rparr>) status))) (\<lambda>_.
       act_bind (act_lift (res_bind (established_detail f entity rq status) serialize)) (\<lambda>detail.
         act_return (name, detail))))))))"

lemma establish_checks:
  assumes "establish udp ops io requestJson (f, e) = (s', r)"
  obtains (refused) m where "r = Inl m" and "s' = (f, e)"
  | (accepted) rq entity name host port where "accepted f requestJson rq entity name host port"
      and "establish_tail udp ops io f rq entity name host port (f, e) = (s', r)"
proof (cases "fs_started f")
  case False
  then show ?thesis using assms by (intro refused) (auto simp: establish_def)
next
  case True
  from assms True have
    "act_bind (act_lift (read_request requestJson)) (\<lambda>rq.
     act_bind (act_lift (request_entity f rq)) (\<lambda>entity.
     act_bind (act_lift (connection_name f rq)) (\<lambda>name.
     act_bind (act_lift (check_name f (rq_entity rq) name)) (\<lambda>_.
     act_bind (act_lift (check_free f rq)) (\<lambda>_.
     act_bind (act_lift (parseNetworkAddress (rq_address rq))) (\<lambda>(host, port).
       establish_tail udp ops io f rq entity name host port)))))) (f, e) = (s', r)"
    by (simp add: establish_def establish_tail_def)
  then show ?thesis
    using True refused accepted unfolding accepted_def
    by (elim act_lift_bind) (auto split: prod.splits)
qed

lemma establish_cases:
  assumes "establish udp ops io requestJson (f, e) = (s', r)"
  obtains (refused) m where "r = Inl m" and "s' = (f, e)"
  | (wrecked) rq entity name host port e1 st f1 m where "accepted f requestJson rq entity name host port"
      and "activate udp f entity rq name host port e = (e1, Inr st)"
      and "ep_statusVariable (prepared_endpoint f rq name) = None"
      and "create_view ops (en_endpointsFolder entity) name (prepared_endpoint f rq name) f = (f1, Inl m)"
      and "s' = (f1\<lparr>fs_poisonedNames := List.insert name (fs_poisonedNames f1)\<rparr>,
        removeDynamic (owner_tag (fs_configuration f) (rq_entity rq) name) (io e1))" and "r = Inl m"
  | (established) rq entity name host port e1 st f1 ep detail where "accepted f requestJson rq entity name host port"
      and "activate udp f entity rq name host port e = (e1, Inr st)"
      and "ep_statusVariable (prepared_endpoint f rq name) \<noteq> None \<and> ep = prepared_endpoint f rq name \<and> f1 = f
        \<or> ep_statusVariable (prepared_endpoint f rq name) = None
          \<and> create_view ops (en_endpointsFolder entity) name (prepared_endpoint f rq name) f = (f1, Inr ep)"
      and "s' = (committed name (ep\<lparr>ep_active := True\<rparr>) (reported_status st (ep_ownerTag ep) (io e1)) f1, io e1)"
      and "res_bind (established_detail f entity rq (reported_status st (ep_ownerTag ep) (io e1))) serialize = Inr detail"
      and "r = Inr (name, detail)"
  using assms
proof (cases rule: establish_checks)
  case (refused m)
  then show ?thesis by (rule that(1))
next
  case (accepted rq entity name host port)
  obtain e1 q where act: "activate udp f entity rq name host port e = (e1, q)" by fastforce
  have own: "ep_ownerTag (prepared_endpoint f rq name) = owner_tag (fs_configuration f) (rq_entity rq) name"
    by (simp add: prepared_endpoint_def)
  show ?thesis
  proof (cases q)
    case (Inl m)
    then have "e1 = e" using activate_cases [OF act] by auto
    then show ?thesis using accepted(2) act Inl
      by (intro that(1)) (auto simp: establish_tail_def act_bind_def on_engine_def)
  next
    case (Inr st)
    let ?ep = "prepared_endpoint f rq name"
    have tail: "act_bind (ensure_view ops (en_endpointsFolder entity) name ?ep) (\<lambda>ep.
     act_bind (on_fx (act_modify (commit_endpoint name (ep\<lparr>ep_active := True\<rparr>)))) (\<lambda>_.
     act_bind act_get (\<lambda>(f', e').
       let status = reported_status st (ep_ownerTag ep) e' in
       act_bind (on_fx (act_modify (setEndpointStatus (ep\<lparr>ep_active := True\<rparr>) status))) (\<lambda>_.
       act_bind (act_lift (res_bind (established_detail f entity rq status) serialize)) (\<lambda>detail.
         act_return (name, detail)))))) (f, io e1) = (s', r)"
      using accepted(2) act Inr unfolding establish_tail_def by (simp add: act_bind_def on_engine_def)
    have commit: thesis
      if view: "ensure_view ops (en_endpointsFolder entity) name ?ep (f, io e1) = ((f1, io e1), Inr ep)"
        and how: "ep_statusVariable ?ep \<noteq> None \<and> ep = ?ep \<and> f1 = f \<or> ep_statusVariable ?ep = None
          \<and> create_view ops (en_endpointsFolder entity) name ?ep f = (f1, Inr ep)" for f1 ep
    proof -
      obtain detail where d: "res_bind (established_detail f entity rq (reported_status st (ep_ownerTag ep) (io e1))) serialize = Inr detail"
        using established_detail_text by blast
      have "s' = (committed name (ep\<lparr>ep_active := True\<rparr>) (reported_status st (ep_ownerTag ep) (io e1)) f1, io e1)
          \<and> r = Inr (name, detail)"
        using tail view d by (simp add: act_bind_def on_fx_def Let_def committed_def)
      then show thesis using accepted(1) act Inr how d by (intro established) auto
    qed
    show ?thesis
    proof (cases "ep_statusVariable ?ep")
      case (Some v)
      then show ?thesis by (intro commit [of f ?ep]) (simp_all add: ensure_view_eq)
    next
      case None
      obtain f1 p where view: "create_view ops (en_endpointsFolder entity) name ?ep f = (f1, p)" by fastforce
      show ?thesis
      proof (cases p)
        case (Inl m)
        then show ?thesis using tail None view accepted(1) act Inr own
          by (intro wrecked) (auto simp: act_bind_def ensure_view_eq)
      next
        case (Inr ep)
        then show ?thesis using None view by (intro commit [of f1 ep]) (simp_all add: ensure_view_eq)
      qed
    qed
  qed
qed

end
