(* ===== verification/FxSteps.thy ===== *)
theory FxSteps
  imports FxReplies
begin

text \<open>
  The runs of the two engines together: the services, the shutdown and the io thread. Every run
  keeps the invariant of \<open>FxInvariant\<close>; a refused request changes nothing, and a closed connection
  takes exactly its own part of the data plane with it.
\<close>

section \<open>Steps\<close>

text \<open>
  The world of the Pub/Sub engine: the FX engine, whose callbacks it runs, and the memory of the
  variables. \<open>locked\<close> says that a service holds the mutex of the FX engine while the callback tries it.
\<close>

definition fx_world :: "('a, 'p, 'c, 'v) world_ops \<Rightarrow> bool \<Rightarrow> ('p fx \<times> 'a, 'p, string, 'v) world_ops" where
  "fx_world w locked = \<lparr>w_value = \<lambda>(f, a). w_value w a, w_setValue = \<lambda>(f, a) p v. (f, w_setValue w a p v),
     w_callback = \<lambda>(f, a) name. case markSubscriberOperational locked name f of (f', handled) \<Rightarrow> ((f', a), handled)\<rparr>"

text \<open>What the io thread can do while a service holds the mutex.\<close>

inductive io_moves :: "('v, 's, 'b) ua_sdk \<Rightarrow> ('a, 'p, 'c, 'v) world_ops \<Rightarrow> ('p, string) engine \<Rightarrow> ('p, string) engine \<Rightarrow> bool"
  for sdk w where
  io_none: "io_moves sdk w e e"
| io_timer: "io_moves sdk w e e1 \<Longrightarrow> g \<in> set (en_timers e1) \<Longrightarrow> (aborted \<longrightarrow> gr_stopped (group_at e1 g)) \<Longrightarrow>
    timer_handler sdk (fx_world w True) (f, a) g aborted e1 = (e2, out) \<Longrightarrow> io_moves sdk w e e2"
| io_datagram: "io_moves sdk w e e1 \<Longrightarrow> handleDatagram sdk (fx_world w True) bs (e1, (f, a)) = (e2, fa) \<Longrightarrow> io_moves sdk w e e2"

datatype 'p fx_event =
    FxStage fx_configuration
  | FxStart node_ops "string \<Rightarrow> 'p node option"
  | FxEstablish string "response result"
  | FxClose string "response result"
  | FxShutdown
  | PubSubShutdown
  | FxTimer nat
  | FxDatagram bytes bool

text \<open>
  The parameter \<open>ok\<close> says which configurations are staged. The Pub/Sub engine is shut down after
  the FX engine. A start or a service that throws is a step to the state it leaves.
\<close>

inductive fx_step :: "(fx_configuration \<Rightarrow> bool) \<Rightarrow> ('v, 's, 'b) ua_sdk \<Rightarrow> ('a, 'p, 'c, 'v) world_ops \<Rightarrow> 'p fx_system
    \<Rightarrow> 'p fx_event \<Rightarrow> 'p fx_system \<Rightarrow> bool" for ok sdk w where
  fx_stage: "ok c \<Longrightarrow> stageConfiguration_fx c f = (f', r) \<Longrightarrow> fx_step ok sdk w (f, e) (FxStage c) (f', e)"
| fx_start: "startIfStaged_fx ops nodes s = (s', r) \<Longrightarrow> fx_step ok sdk w s (FxStart ops nodes) s'"
| fx_establish: "(\<And>e. io_moves sdk w e (io e)) \<Longrightarrow> establishConnections udp ops io t s = (s', r) \<Longrightarrow>
    fx_step ok sdk w s (FxEstablish t r) s'"
| fx_close: "closeConnections t s = (s', r) \<Longrightarrow> fx_step ok sdk w s (FxClose t r) s'"
| fx_shutdown: "fx_step ok sdk w s FxShutdown (shutdown_fx s)"
| fx_pubsub_shutdown: "\<not> fs_started f \<Longrightarrow> fx_step ok sdk w (f, e) PubSubShutdown (f, shutdown e)"
| fx_timer: "g \<in> set (en_timers e) \<Longrightarrow> (aborted \<longrightarrow> gr_stopped (group_at e g)) \<Longrightarrow>
    timer_handler sdk (fx_world w True) (f, a) g aborted e = (e', out) \<Longrightarrow> fx_step ok sdk w (f, e) (FxTimer g) (f, e')"
| fx_datagram: "handleDatagram sdk (fx_world w locked) bs (e, (f, a)) = (e', (f', a')) \<Longrightarrow>
    fx_step ok sdk w (f, e) (FxDatagram bs locked) (f', e')"

inductive_cases fx_stepE: "fx_step ok sdk w s ev s'"

section \<open>The io thread keeps the owners\<close>

lemma io_keeps:
  "io_moves sdk w e e' \<Longrightarrow> engine_inv e \<Longrightarrow> engine_inv e' \<and> group_owners e' = group_owners e
     \<and> reader_owners e' = reader_owners e \<and> en_running e' = en_running e"
proof (induction rule: io_moves.induct)
  case (io_timer e e1 g aborted f a e2 out)
  then show ?case using timer_owners [OF io_timer.hyps(4)] timer_handler_inv [OF _ io_timer.hyps(2) _ io_timer.hyps(4)]
    by (auto simp: reader_owners_def)
next
  case (io_datagram e e1 bs f a e2 fa)
  then show ?case using datagram_owners [of e1 sdk "fx_world w True" bs "(f, a)" e2 fa] by simp
qed simp

lemma callback_frame: "\<exists>vs. fst (markSubscriberOperational locked name f) = f\<lparr>fs_variables := vs\<rparr>"
  using set_status_frame [of _ EndpointOperational f]
  by (auto simp: markSubscriberOperational_def split: option.split intro: exI [of _ "fs_variables f"])

lemma variables_twice: "\<exists>vs. f' = f\<lparr>fs_variables := vs\<rparr> \<Longrightarrow> \<exists>vs. f'' = f'\<lparr>fs_variables := vs\<rparr> \<Longrightarrow> \<exists>vs. f'' = f\<lparr>fs_variables := vs\<rparr>"
  by auto

lemma store_fields_fx: "fst (store_fields sdk (fx_world w locked) vs ps fa) = fst fa"
proof (induction vs arbitrary: ps fa)
  case (Cons v vs)
  show ?case
  proof (cases ps)
    case (Cons p ps')
    then show ?thesis using Cons.IH by (cases fa) (simp add: fx_world_def split: option.split)
  qed simp
qed simp

lemma signal_fx:
  "\<exists>vs. fst (snd (signal_first_data (fx_world w locked) r fa)) = (fst fa)\<lparr>fs_variables := vs\<rparr>"
proof (cases "rr_firstDataSignalled r \<or> rr_onFirstData r = None")
  case True
  then show ?thesis by (auto simp: signal_first_data_def intro: exI [of _ "fs_variables (fst fa)"])
next
  case False
  then obtain c where "rr_onFirstData r = Some c" "\<not> rr_firstDataSignalled r" by auto
  then show ?thesis using callback_frame [of locked c "fst fa"]
    by (cases fa) (auto simp: signal_first_data_def fx_world_def split: prod.split)
qed

lemma receive_fx:
  assumes "receive_message sdk (fx_world w locked) p g m (e, fa) = (e', fa')"
  shows "\<exists>vs. fst fa' = (fst fa)\<lparr>fs_variables := vs\<rparr>"
proof (cases "dsm_keepAlive m \<or> map_of (en_readers e) (p, g, dsm_dataSetWriterId m) = None")
  case True
  then show ?thesis using assms
    by (auto simp: receive_message_def Let_def split: if_splits intro: exI [of _ "fs_variables (fst fa)"])
next
  case False
  then obtain r where r: "\<not> dsm_keepAlive m" "map_of (en_readers e) (p, g, dsm_dataSetWriterId m) = Some r" by auto
  let ?fa1 = "store_fields sdk (fx_world w locked) (dsm_fields m) (rr_targets r) fa"
  show ?thesis
  proof (cases "0 < min (length (dsm_fields m)) (length (rr_targets r))")
    case True
    have "fa' = snd (signal_first_data (fx_world w locked) (r\<lparr>rr_dataSeen := True\<rparr>) ?fa1)"
      using assms r True by (auto simp: receive_message_def Let_def split: prod.splits)
    then show ?thesis using signal_fx [of w locked "r\<lparr>rr_dataSeen := True\<rparr>" ?fa1] by (simp add: store_fields_fx)
  next
    case False
    then have "fa' = ?fa1" using assms r by (auto simp: receive_message_def Let_def)
    then show ?thesis by (auto simp: store_fields_fx intro: exI [of _ "fs_variables (fst fa)"])
  qed
qed

lemma datagram_fx:
  assumes "handleDatagram sdk (fx_world w locked) bs (e, fa) = (e', fa')"
  shows "\<exists>vs. fst fa' = (fst fa)\<lparr>fs_variables := vs\<rparr>"
proof (rule datagram_keeps [OF assms, where P = "\<lambda>_ b. \<exists>vs. fst b = (fst fa)\<lparr>fs_variables := vs\<rparr>"])
  show "\<exists>vs. fst fa = (fst fa)\<lparr>fs_variables := vs\<rparr>" by (rule exI [of _ "fs_variables (fst fa)"]) simp
qed (metis receive_fx variables_twice)

section \<open>The invariant is kept\<close>

lemma fx_inv_cong:
  assumes "fx_inv (f, e)" and "registry_ok f'" and "engine_inv e'" and "fs_endpoints f' = fs_endpoints f"
    and "group_owners e' = group_owners e" and "reader_owners e' = reader_owners e"
    and "fs_started f' \<Longrightarrow> en_running e'"
  shows "fx_inv (f', e')"
  using assms plane_cong [OF assms(4-6)] by (auto simp: fx_inv_def)

lemma stage_keeps:
  assumes "fx_inv (f, e)" and "plain_configuration c" and "stageConfiguration_fx c f = (f', r)"
  shows "fx_inv (f', e)"
proof -
  have reg: "registry_ok f" using assms(1) by (simp add: fx_inv_def)
  have "f' = f \<or> f' = f\<lparr>fs_staged := Some c\<rparr>" using assms(3) by (auto simp: stageConfiguration_fx_def split: if_splits)
  moreover have "registry_ok (f\<lparr>fs_staged := Some c\<rparr>)"
    by (rule registry_change [OF reg]) (use reg assms(2) in \<open>auto simp: registry_ok_def entity_names_def\<close>)
  ultimately show ?thesis
    using fx_inv_cong [OF assms(1), of "f\<lparr>fs_staged := Some c\<rparr>" e] assms(1) by (auto simp: fx_inv_def)
qed

text \<open>A start passes through states that differ from the first in the entities and the model only.\<close>

definition starting :: "fx_configuration \<Rightarrow> 'p fx_system \<Rightarrow> bool" where
  "starting c s \<longleftrightarrow> fx_inv s \<and> \<not> fs_started (fst s) \<and> fs_configuration (fst s) = c"

lemma starting_grows: "starting c (f, e) \<Longrightarrow> grows f f' \<Longrightarrow> starting c (f', e)"
  using fx_inv_cong [of f e f' e] grows_registry [of f f'] by (auto simp: starting_def fx_inv_def grows_def)

lemma start_runtimes:
  assumes "starting c (f, e)" and "plain_configuration c" and "buildRuntimes_fx nodes f = (f', r)"
  shows "starting c (f', e)"
proof -
  have reg: "registry_ok f" "fs_configuration f = c" "\<not> fs_started f" using assms(1) by (auto simp: starting_def fx_inv_def)
  obtain es where f': "f' = f\<lparr>fs_entities := fs_entities f @ es\<rparr>"
    "set (map en_name es) \<subseteq> set (map fe_name (fx_entities c))"
    using buildRuntimes_entities [OF assms(3)] reg(2) by blast
  have "\<forall>e \<in> set (map fe_name (fx_entities c)). plain e"
    using assms(2) by (auto simp: plain_configuration_def list_all_iff)
  with f'(2) have names: "\<forall>e \<in> set (map en_name es). plain e" by blast
  have "registry_ok f'"
    by (rule registry_change [OF reg(1)]) (use reg names in \<open>auto simp: f'(1) entity_names_def registry_ok_def\<close>)
  then show ?thesis using assms(1) fx_inv_cong [of f e f' e] by (auto simp: starting_def fx_inv_def f'(1))
qed

lemma start_keeps:
  assumes inv: "fx_inv (f, e)" and start: "startIfStaged_fx ops nodes (f, e) = (s', r)"
  shows "fx_inv s'"
proof (cases "fs_staged f")
  case None
  then show ?thesis using assms by (simp add: startIfStaged_fx_def)
next
  case (Some c)
  show ?thesis
  proof (cases "fs_started f")
    case True
    then show ?thesis using assms Some by (simp add: startIfStaged_fx_def)
  next
    case False
    let ?f0 = "f\<lparr>fs_configuration := c, fs_staged := None\<rparr>"
    have reg: "registry_ok f" and plainc: "plain_configuration c" using inv Some by (auto simp: fx_inv_def registry_ok_def)
    have "registry_ok ?f0"
      by (rule registry_change [OF reg]) (use False plainc reg in \<open>auto simp: entity_names_def registry_ok_def\<close>)
    then have s0: "starting c (?f0, e)"
      using inv False fx_inv_cong [OF inv, of ?f0 e] by (auto simp: starting_def fx_inv_def)
    from start Some False have chain: "act_bind (on_fx (buildRuntimes_fx nodes)) (\<lambda>_.
        act_bind (on_fx (buildModel ops)) (\<lambda>_. act_bind (on_engine ensureStarted) (\<lambda>_.
          on_fx (act_modify (\<lambda>f. f\<lparr>fs_started := True\<rparr>))))) (?f0, e) = (s', r)"
      by (simp add: startIfStaged_fx_def act_bind_def on_fx_def)
    obtain f1 r1 where b1: "buildRuntimes_fx nodes ?f0 = (f1, r1)" by fastforce
    have s1: "starting c (f1, e)" by (rule start_runtimes [OF s0 plainc b1])
    obtain f2 r2 where b2: "buildModel ops f1 = (f2, r2)" by fastforce
    have s2: "starting c (f2, e)" by (rule starting_grows [OF s1 act_movesD [OF buildModel_grows b2]])
    obtain e3 r3 where b3: "ensureStarted e = (e3, r3)" by fastforce
    have e3: "engine_inv e3" "group_owners e3 = group_owners e" "reader_owners e3 = reader_owners e"
      "r3 = Inr () \<Longrightarrow> en_running e3"
      using ensureStarted_inv [OF _ b3] ensure_owners [OF b3] inv by (auto simp: fx_inv_def)
    have inv2: "fx_inv (f2, e)" "\<not> fs_started f2" using s2 by (auto simp: starting_def)
    then have s3: "fx_inv (f2, e3)" using fx_inv_cong [OF inv2(1), of f2 e3] e3 by (auto simp: fx_inv_def)
    have "registry_ok (f2\<lparr>fs_started := True\<rparr>)"
      by (rule registry_change [of f2]) (use inv2 in \<open>auto simp: entity_names_def registry_ok_def fx_inv_def\<close>)
    then have s4: "r3 = Inr () \<Longrightarrow> fx_inv (f2\<lparr>fs_started := True\<rparr>, e3)"
      using fx_inv_cong [OF s3, of "f2\<lparr>fs_started := True\<rparr>" e3] e3 by auto
    show ?thesis using chain s1 inv2(1) s3 s4
      by (cases r1; cases r2; cases r3) (auto simp: act_bind_def on_fx_def on_engine_def b1 b2 b3 starting_def)
  qed
qed

section \<open>Establishing\<close>

lemma given_name:
  "(case m of JsonString s \<Rightarrow> res_bind (asString m) (\<lambda>name. res_bind (validateConnectionName name) (\<lambda>_. Inr name))
     | _ \<Rightarrow> Inl e) = Inr name \<Longrightarrow> name \<noteq> []"
  by (cases m) (auto simp: res_bind_Inr_iff validateConnectionName_def)

lemma accepted_facts:
  assumes "registry_ok f" and acc: "accepted f t rq entity name host port"
  shows "name \<noteq> []" and "name \<notin> set (fs_poisonedNames f)" and "rq_entity rq \<in> entity_names f" and "plain (rq_entity rq)"
    and "rq_role rq = ''publisher'' \<or> rq_role rq = ''subscriber''" and "fs_started f"
    and "\<And>old. map_of (fs_endpoints f) name = Some old \<Longrightarrow> \<not> ep_active old \<and> ep_entity old = rq_entity rq"
    and "map_of (fs_endpoints f) name = None \<Longrightarrow> endpointCountOf (rq_entity rq) f < kMaxEndpointsPerEntity"
    and "\<And>n ep. (n, ep) \<in> set (fs_endpoints f) \<Longrightarrow> ep_active ep \<Longrightarrow>
      \<not> (ep_entity ep = rq_entity rq \<and> ep_role ep = rq_role rq \<and> ep_dataset ep = rq_dataset rq)"
proof -
  have ent: "request_entity f rq = Inr entity" and nam: "connection_name f rq = Inr name"
    and chk: "check_name f (rq_entity rq) name = Inr ()" and fre: "check_free f rq = Inr ()" and st: "fs_started f"
    using acc by (auto simp: accepted_def)
  note keys = assms(1) [unfolded registry_ok_def]
  show "fs_started f" by (rule st)
  from ent obtain x where x: "findEntity (rq_entity rq) f = Some x"
    and role: "rq_role rq = ''publisher'' \<or> rq_role rq = ''subscriber''"
    by (auto simp: request_entity_def split: option.splits if_splits)
  show "rq_role rq = ''publisher'' \<or> rq_role rq = ''subscriber''" by (rule role)
  show names: "rq_entity rq \<in> entity_names f"
    using find_first [OF x [unfolded findEntity_def]] by (force simp: entity_names_def)
  then show "plain (rq_entity rq)" using keys by blast
  show "name \<noteq> []"
  proof (cases "hasMember (rq_json rq) ''connectionName'' = Inr True")
    case True
    then show ?thesis using nam by (auto simp: connection_name_def res_bind_Inr_iff dest: given_name)
  next
    case False
    then have "firstFreeAutoName (rq_entity rq) f = Inr name"
      using nam by (auto simp: connection_name_def res_bind_Inr_iff split: if_splits)
    then show ?thesis
    proof (cases rule: firstFreeAutoName_cases)
      case (reused n ep)
      then show ?thesis using keys by (auto simp: endpoint_ok_def)
    qed simp_all
  qed
  show "name \<notin> set (fs_poisonedNames f)" using chk by (auto simp: check_name_def split: if_splits)
  show "\<not> ep_active old \<and> ep_entity old = rq_entity rq" if "map_of (fs_endpoints f) name = Some old" for old
    using chk that by (auto simp: check_name_def split: if_splits)
  show "endpointCountOf (rq_entity rq) f < kMaxEndpointsPerEntity" if "map_of (fs_endpoints f) name = None"
    using chk that by (auto simp: check_name_def split: if_splits)
  show "\<not> (ep_entity ep = rq_entity rq \<and> ep_role ep = rq_role rq \<and> ep_dataset ep = rq_dataset rq)"
    if m: "(n, ep) \<in> set (fs_endpoints f)" and a: "ep_active ep" for n ep
  proof
    assume same: "ep_entity ep = rq_entity rq \<and> ep_role ep = rq_role rq \<and> ep_dataset ep = rq_dataset rq"
    let ?P = "\<lambda>(n, ep). ep_active ep \<and> ep_entity ep = rq_entity rq \<and> ep_role ep = rq_role rq \<and> ep_dataset ep = rq_dataset rq"
    obtain n' ep' where f: "find ?P (fs_endpoints f) = Some (n', ep')"
      using m a same by (cases "find ?P (fs_endpoints f)") (auto simp: find_None_iff)
    have "n' \<noteq> []" using find_first [OF f] keys by (auto simp: endpoint_ok_def)
    then show False using fre f by (auto simp: check_free_def activeConnectionNameFor_def Let_def)
  qed
qed

lemma activate_owners:
  assumes "engine_inv e" and "activate udp f entity rq name host port e = (e1, Inr st)"
  defines "tag \<equiv> owner_tag (fs_configuration f) (rq_entity rq) name"
  shows "engine_inv e1" and "en_running e1"
    and "group_owners e1 = (if rq_role rq = ''publisher'' then {#tag#} else {#}) + group_owners e"
    and "reader_owners e1 = (if rq_role rq = ''publisher'' then {#} else {#(tag, Some name)#}) + reader_owners e"
    and "st = (if rq_role rq = ''publisher'' then EndpointOperational else EndpointPreOperational)"
proof -
  have "engine_inv e1 \<and> en_running e1
    \<and> group_owners e1 = (if rq_role rq = ''publisher'' then {#tag#} else {#}) + group_owners e
    \<and> reader_owners e1 = (if rq_role rq = ''publisher'' then {#} else {#(tag, Some name)#}) + reader_owners e
    \<and> st = (if rq_role rq = ''publisher'' then EndpointOperational else EndpointPreOperational)"
    using assms(2)
  proof (cases rule: activate_cases)
    case (publisher grp)
    then show ?thesis
      using add_group_owners [OF assms(1) publisher(4)] addDynamicWriterGroup_inv [OF assms(1) publisher(4)]
      by (simp add: tag_def)
  next
    case (subscriber reader)
    then show ?thesis
      using add_reader_owners [OF subscriber(5)] addDynamicReader_inv [OF assms(1) subscriber(5)] by (simp add: tag_def)
  qed simp_all
  then show "engine_inv e1" and "en_running e1"
    and "group_owners e1 = (if rq_role rq = ''publisher'' then {#tag#} else {#}) + group_owners e"
    and "reader_owners e1 = (if rq_role rq = ''publisher'' then {#} else {#(tag, Some name)#}) + reader_owners e"
    and "st = (if rq_role rq = ''publisher'' then EndpointOperational else EndpointPreOperational)"
    by blast+
qed

lemma committed_frame: "\<exists>vs. committed name ep status f
    = f\<lparr>fs_endpoints := insert_member name ep (fs_endpoints f), fs_variables := vs\<rparr>"
proof -
  let ?g = "f\<lparr>fs_endpoints := insert_member name ep (fs_endpoints f)\<rparr>"
  obtain vs where vs: "refreshEndpointView ep ?g = ?g\<lparr>fs_variables := vs\<rparr>" using refresh_frame by metis
  obtain us where "setEndpointStatus ep status (?g\<lparr>fs_variables := vs\<rparr>) = ?g\<lparr>fs_variables := vs\<rparr>\<lparr>fs_variables := us\<rparr>"
    using set_status_frame by metis
  then show ?thesis by (auto simp: committed_def commit_endpoint_def vs)
qed

text \<open>The tag of a connection that is about to be made belongs to nothing in the data plane.\<close>

lemma fresh_tag:
  assumes inv: "fx_inv (f, e)" and acc: "accepted f t rq entity name host port"
  shows "owner_tag (fs_configuration f) (rq_entity rq) name \<notin># group_owners e"
    and "(owner_tag (fs_configuration f) (rq_entity rq) name, c) \<notin># reader_owners e"
proof -
  let ?tag = "owner_tag (fs_configuration f) (rq_entity rq) name"
  have reg: "registry_ok f" and plane: "plane_ok (f, e)" using inv by (simp_all add: fx_inv_def)
  note facts = accepted_facts [OF reg acc]
  have other: "ep_ownerTag ep \<noteq> ?tag" if "(n, ep) \<in> set (connected role f)" for n ep role
  proof
    assume tag: "ep_ownerTag ep = ?tag"
    have m: "(n, ep) \<in> set (fs_endpoints f)" "ep_active ep" using that by (auto simp: connected_def)
    then have "n = name" using connected_tag [OF reg m facts(4)] tag by blast
    then show False using facts(7) [of ep] m reg by (auto simp: registry_ok_def in_order_mem)
  qed
  show "?tag \<notin># group_owners e"
  proof
    assume "?tag \<in># group_owners e"
    then have "?tag \<in># filter_mset (\<lambda>t. t \<noteq> []) (group_owners e)" by simp
    then have "?tag \<in> set (map (\<lambda>e. ep_ownerTag (snd e)) (connected ''publisher'' f))"
      using plane by (simp only: plane_ok_def prod.case set_mset_mset)
    then show False using other by force
  qed
  show "(?tag, c) \<notin># reader_owners e"
  proof
    assume "(?tag, c) \<in># reader_owners e"
    then have "(?tag, c) \<in># filter_mset (\<lambda>tc. fst tc \<noteq> []) (reader_owners e)" by simp
    then have "(?tag, c) \<in> set (map (\<lambda>e. (ep_ownerTag (snd e), Some (fst e))) (connected ''subscriber'' f))"
      using plane by (simp only: plane_ok_def prod.case set_mset_mset)
    then show False using other by force
  qed
qed

text \<open>Every stored endpoint has its view, so one without a view is new.\<close>

lemma viewless_new:
  assumes "registry_ok f" and "ep_statusVariable (prepared_endpoint f rq name) = None"
  shows "map_of (fs_endpoints f) name = None"
proof (rule ccontr)
  assume "map_of (fs_endpoints f) name \<noteq> None"
  then obtain old where old: "map_of (fs_endpoints f) name = Some old" by auto
  then have "ep_statusVariable old \<noteq> None" using assms(1) by (auto simp: registry_ok_def endpoint_ok_def dest: map_of_SomeD)
  then show False using assms(2) old by (simp add: prepared_endpoint_def)
qed

lemma registry_poison:
  assumes "registry_ok f" and "\<And>n ep. (n, ep) \<in> set (fs_endpoints f) \<Longrightarrow> n \<noteq> name"
  shows "registry_ok (f\<lparr>fs_poisonedNames := List.insert name (fs_poisonedNames f)\<rparr>)" (is "registry_ok ?f")
proof -
  have "endpoint_ok ?f n ep = endpoint_ok f n ep" if "(n, ep) \<in> set (fs_endpoints f)" for n ep
    using assms(2) [OF that] by (simp add: endpoint_ok_def entity_names_def)
  then show ?thesis using assms(1) by (auto simp: registry_ok_def endpointCountOf_def entity_names_def)
qed

lemma wrecked_owners:
  assumes inv: "fx_inv (f, e)" and acc: "accepted f t rq entity name host port"
    and act: "activate udp f entity rq name host port e = (e1, Inr st)" and io: "io_moves sdk w e1 e2"
  defines "e3 \<equiv> removeDynamic (owner_tag (fs_configuration f) (rq_entity rq) name) e2"
  shows "engine_inv e3" and "en_running e3" and "group_owners e3 = group_owners e"
    and "reader_owners e3 = reader_owners e"
proof -
  let ?tag = "owner_tag (fs_configuration f) (rq_entity rq) name"
  have e: "engine_inv e" using inv by (simp add: fx_inv_def)
  note a = activate_owners [OF e act] and i = io_keeps [OF io activate_owners(1) [OF e act]]
  have r: "group_owners e3 = filter_mset (\<lambda>t. t \<noteq> ?tag) (group_owners e2)"
    "reader_owners e3 = filter_mset (\<lambda>tc. fst tc \<noteq> ?tag) (reader_owners e2)"
    using remove_owners [of e2 ?tag] i a(2) by (simp_all add: e3_def)
  have "filter_mset (\<lambda>t. t \<noteq> ?tag) (group_owners e) = group_owners e"
    using fresh_tag(1) [OF inv acc] by (auto simp: filter_mset_eq_conv)
  then show "group_owners e3 = group_owners e" using i a(3) by (simp add: r)
  have "filter_mset (\<lambda>tc. fst tc \<noteq> ?tag) (reader_owners e) = reader_owners e"
    using fresh_tag(2) [OF inv acc] by (auto simp: filter_mset_eq_conv)
  then show "reader_owners e3 = reader_owners e" using i a(4) by (simp add: r)
  show "engine_inv e3" "en_running e3" using i a(2) removeDynamic_inv [of e2] by (simp_all add: e3_def)
qed

lemma establish_keeps:
  assumes inv: "fx_inv (f, e)" and io: "\<And>e. io_moves sdk w e (io e)"
    and run: "establish udp ops io t (f, e) = (s', r)"
  shows "fx_inv s'"
  using run
proof (cases rule: establish_cases)
  case (refused m)
  then show ?thesis using inv by simp
next
  case (wrecked rq entity name host port e1 st f1 m)
  have reg: "registry_ok f" using inv by (simp add: fx_inv_def)
  note facts = accepted_facts [OF reg wrecked(1)] and own = wrecked_owners [OF inv wrecked(1,2) io]
  have g: "grows f f1" using act_movesD [OF create_view_grows wrecked(4)] .
  have new: "map_of (fs_endpoints f) name = None" by (rule viewless_new [OF reg wrecked(3)])
  have keep: "n \<noteq> name" if "(n, ep) \<in> set (fs_endpoints f)" for n ep
    using that new by (force simp: map_of_eq_None_iff)
  let ?f = "f1\<lparr>fs_poisonedNames := List.insert name (fs_poisonedNames f1)\<rparr>"
  have "registry_ok ?f"
    using registry_poison [OF grows_registry [OF g reg], of name] keep g by (auto simp: grows_def)
  then show ?thesis unfolding wrecked(5)
    using fx_inv_cong [OF inv, of ?f "removeDynamic (owner_tag (fs_configuration f) (rq_entity rq) name) (io e1)"] own g
    by (simp add: grows_def)
next
  case (established rq entity name host port e1 st f1 ep detail)
  have reg: "registry_ok f" and e: "engine_inv e" and plane: "plane_ok (f, e)" using inv by (auto simp: fx_inv_def)
  note facts = accepted_facts [OF reg established(1)]
  note a = activate_owners [OF e established(2)] and i = io_keeps [OF io activate_owners(1) [OF e established(2)]]
  have g: "grows f f1" using established(3) act_movesD [OF create_view_grows] grows_refl by auto
  have ep: "ep_entity ep = rq_entity rq \<and> ep_dataset ep = rq_dataset rq \<and> ep_role ep = rq_role rq
      \<and> ep_ownerTag ep = owner_tag (fs_configuration f) (rq_entity rq) name \<and> ep_statusVariable ep \<noteq> None"
    using established(3) by (auto simp: prepared_endpoint_def dest!: create_view_Inr)
  let ?ep = "ep\<lparr>ep_active := True\<rparr>" and ?f = "f1\<lparr>fs_endpoints := insert_member name (ep\<lparr>ep_active := True\<rparr>) (fs_endpoints f1)\<rparr>"
  have same: "fs_endpoints f1 = fs_endpoints f" "fs_configuration f1 = fs_configuration f" "fs_started f1 = fs_started f"
    "fs_poisonedNames f1 = fs_poisonedNames f" "entity_names f1 = entity_names f"
    using g by (simp_all add: grows_def entity_names_def)
  have reg1: "registry_ok f1" using grows_registry [OF g reg] .
  have reg2: "registry_ok ?f"
  proof (rule registry_insert [OF reg1, of name ?ep])
    show "endpoint_ok f1 name ?ep" using facts ep by (simp add: endpoint_ok_def same)
    show "map_of (fs_endpoints f1) name = None \<Longrightarrow> endpointCountOf (ep_entity ?ep) f1 < kMaxEndpointsPerEntity"
      using facts(8) ep by (simp add: same endpointCountOf_def)
    show "n' = name" if "(n', ep') \<in> set (fs_endpoints f1)" "ep_active ep'" "same_dataset ?ep ep'" for n' ep'
      using facts(9) [of n' ep'] that ep by (simp add: same same_dataset_def)
  qed (use facts(7) ep in \<open>auto simp: same\<close>)
  have conn: "mset (connected role ?f) = (if rq_role rq = role then {#(name, ?ep)#} else {#}) + mset (connected role f)" for role
    using connected_insert [of f name ?ep ?f role] facts(7) ep reg by (auto simp: same registry_ok_def)
  have "plane_ok (?f, io e1)"
    using plane facts(5) i a(3,4) ep unfolding plane_ok_def prod.case mset_map conn
    by (auto simp: conn)
  moreover obtain vs where "s' = (?f\<lparr>fs_variables := vs\<rparr>, io e1)"
    using committed_frame [of name ?ep _ f1] established(4) by fastforce
  ultimately show ?thesis
    using reg2 i a(2) plane_cong [of "?f\<lparr>fs_variables := vs\<rparr>" ?f "io e1" "io e1"] by (simp add: fx_inv_def)
qed

section \<open>Closing and shutting down\<close>

lemma close_cases:
  assumes "close t (f, e) = (s', r)"
  obtains (refused) m where "r = Inl m" and "s' = (f, e)"
  | (closed) name ep detail where "fs_started f" and "close_name f t = Inr name" and "name \<noteq> []"
      and "map_of (fs_endpoints f) name = Some ep" and "ep_active ep" and "s' = close_endpoint name ep (f, e)"
      and "r = Inr detail"
proof (cases "fs_started f")
  case False
  then show ?thesis using assms by (intro refused) (auto simp: close_def)
next
  case True
  with assms have "act_bind (act_lift (close_name f t)) (\<lambda>name.
       if name = [] then act_throw ''empty connectionId''
       else case map_of (fs_endpoints f) name of
           None \<Rightarrow> act_throw (''unknown connection '' @ quoted name)
         | Some ep \<Rightarrow> if \<not> ep_active ep then act_throw (''connection '' @ quoted name @ '' is not established'')
             else act_bind (act_modify (close_endpoint name ep)) (\<lambda>_.
                  act_lift (statusDetail (endpointStatusName EndpointInitial) []))) (f, e) = (s', r)"
    by (simp add: close_def)
  then show ?thesis
  proof (cases rule: act_lift_bind)
    case (throws m)
    then show ?thesis by (intro refused) simp_all
  next
    case (goes name)
    obtain detail where detail: "statusDetail (endpointStatusName EndpointInitial) [] = Inr detail"
      using statusDetail_text by blast
    show ?thesis
    proof (cases "name \<noteq> [] \<and> (\<exists>ep. map_of (fs_endpoints f) name = Some ep \<and> ep_active ep)")
      case True
      then obtain ep where ep: "name \<noteq> []" "map_of (fs_endpoints f) name = Some ep" "ep_active ep" by auto
      then have "s' = close_endpoint name ep (f, e) \<and> r = Inr detail" using goes(2) detail by simp
      then show ?thesis using closed \<open>fs_started f\<close> goes(1) ep by blast
    next
      case False
      then have "\<exists>m. r = Inl m \<and> s' = (f, e)" using goes(2) by (auto split: if_splits option.splits)
      then show ?thesis using refused by blast
    qed
  qed
qed

lemma close_keeps: "fx_inv (f, e) \<Longrightarrow> close t (f, e) = (s', r) \<Longrightarrow> fx_inv s'"
  by (cases rule: close_cases) (auto intro: close_inv)

lemma close_endpoint_frame:
  "\<exists>vs. fst (close_endpoint n ep (f, e)) = f\<lparr>fs_endpoints := insert_member n (ep\<lparr>ep_active := False\<rparr>) (fs_endpoints f), fs_variables := vs\<rparr>"
  using set_status_frame [of ep EndpointInitial "f\<lparr>fs_endpoints := insert_member n (ep\<lparr>ep_active := False\<rparr>) (fs_endpoints f)\<rparr>"]
  by (auto simp: close_endpoint_def)

lemma shutdown_loop:
  assumes "fx_inv s" and "\<forall>(n, ep) \<in> set xs. map_of (fs_endpoints (fst s)) n = Some ep" and "distinct (keys xs)"
    and "\<And>n ep. (n, ep) \<in> set (fs_endpoints (fst s)) \<Longrightarrow> ep_active ep \<Longrightarrow> n \<in> set (keys xs)"
    and "s' = fold (\<lambda>(name, ep) s. if ep_active ep then close_endpoint name ep s else s) xs s"
  shows "fx_inv s' \<and> (\<forall>(n, ep) \<in> set (fs_endpoints (fst s')). \<not> ep_active ep)
    \<and> fs_started (fst s') = fs_started (fst s)"
  using assms
proof (induction xs arbitrary: s)
  case Nil
  then show ?case by auto
next
  case (Cons x xs)
  obtain n ep where x: "x = (n, ep)" by fastforce
  obtain f e where s: "s = (f, e)" by fastforce
  have ord: "in_order (fs_endpoints f)" using Cons.prems(1) by (simp add: s fx_inv_def registry_ok_def)
  have here: "map_of (fs_endpoints f) n = Some ep" using Cons.prems(2) by (simp add: x s)
  define t where "t = (if ep_active ep then close_endpoint n ep s else s)"
  have t: "fx_inv t" using Cons.prems(1) close_inv [OF _ here] by (simp add: t_def s)
  have eps: "map_of (fs_endpoints (fst t)) k = (if k = n \<and> ep_active ep then Some (ep\<lparr>ep_active := False\<rparr>) else map_of (fs_endpoints f) k)"
    "fs_started (fst t) = fs_started f" for k
    using close_endpoint_frame [of n ep f e] by (auto simp: t_def s)
  have ord': "in_order (fs_endpoints (fst t))" using t by (auto simp: fx_inv_def registry_ok_def)
  have "fx_inv s' \<and> (\<forall>(n, ep) \<in> set (fs_endpoints (fst s')). \<not> ep_active ep) \<and> fs_started (fst s') = fs_started (fst t)"
  proof (rule Cons.IH [OF t])
    show "\<forall>(k, v) \<in> set xs. map_of (fs_endpoints (fst t)) k = Some v"
    proof (clarify)
      fix k v
      assume kv: "(k, v) \<in> set xs"
      then have "k \<noteq> n" using Cons.prems(3) by (force simp: x)
      then show "map_of (fs_endpoints (fst t)) k = Some v" using kv Cons.prems(2) by (auto simp: eps s)
    qed
    show "k \<in> set (keys xs)" if "(k, v) \<in> set (fs_endpoints (fst t))" "ep_active v" for k v
    proof -
      have m: "map_of (fs_endpoints (fst t)) k = Some v" using that(1) ord' by (simp add: in_order_mem)
      have "k \<noteq> n" using m that(2) here by (auto simp: eps split: if_splits)
      moreover from this have "(k, v) \<in> set (fs_endpoints f)" using m ord by (simp add: eps in_order_mem)
      ultimately show ?thesis using Cons.prems(4) [of k v] that(2) by (auto simp: x s)
    qed
  qed (use Cons.prems(3,5) in \<open>simp_all add: x t_def\<close>)
  then show ?case by (simp add: eps s)
qed

lemma shutdown_keeps:
  assumes "fx_inv s"
  shows "fx_inv (shutdown_fx s) \<and> \<not> fs_started (fst (shutdown_fx s))
    \<and> (\<forall>(n, ep) \<in> set (fs_endpoints (fst (shutdown_fx s))). \<not> ep_active ep)"
proof -
  obtain f e where s: "s = (f, e)" by fastforce
  have reg: "registry_ok f" using assms by (simp add: s fx_inv_def)
  show ?thesis
  proof (cases "fs_started f")
    case False
    then show ?thesis using assms reg by (auto simp: s shutdown_fx_def registry_ok_def endpoint_ok_def)
  next
    case True
    have ord: "in_order (fs_endpoints f)" using reg by (simp add: registry_ok_def)
    obtain f' e' where loop: "fold (\<lambda>(name, ep) s. if ep_active ep then close_endpoint name ep s else s) (fs_endpoints f) (f, e) = (f', e')"
      by fastforce
    have l: "fx_inv (f', e') \<and> (\<forall>(n, ep) \<in> set (fs_endpoints f'). \<not> ep_active ep)"
    proof -
      have "fx_inv (f', e') \<and> (\<forall>(n, ep) \<in> set (fs_endpoints (fst (f', e'))). \<not> ep_active ep)
          \<and> fs_started (fst (f', e')) = fs_started (fst s)"
      proof (rule shutdown_loop [OF assms])
        show "\<forall>(n, ep) \<in> set (fs_endpoints f). map_of (fs_endpoints (fst s)) n = Some ep"
          using ord by (auto simp: s in_order_mem)
        show "n \<in> set (keys (fs_endpoints f))" if "(n, ep) \<in> set (fs_endpoints (fst s))" for n ep
          using that by (force simp: s)
      qed (simp_all only: in_order_distinct [OF ord] loop s)
      then show ?thesis by simp
    qed
    have reg': "registry_ok f'" using l by (simp add: fx_inv_def)
    let ?f = "f'\<lparr>fs_started := False\<rparr>"
    have "endpoint_ok ?f n ep" if m: "(n, ep) \<in> set (fs_endpoints f')" for n ep
    proof -
      have "endpoint_ok f' n ep" using reg' m by (auto simp: registry_ok_def)
      moreover have "\<not> ep_active ep" using l m by auto
      ultimately show ?thesis by (simp add: endpoint_ok_def entity_names_def)
    qed
    then have "registry_ok ?f"
      using reg' by (auto simp: registry_ok_def endpointCountOf_def entity_names_def)
    then have "fx_inv (?f, e')" using l fx_inv_cong [of f' e' ?f e'] by (simp add: fx_inv_def)
    moreover have "shutdown_fx s = (?f, e')" using True loop by (simp add: s shutdown_fx_def)
    ultimately show ?thesis using l by simp
  qed
qed

section \<open>Every run\<close>

definition fx_start :: "'p fx_system \<Rightarrow> bool" where
  "fx_start s \<longleftrightarrow> fst s = new_fx \<and> engine_inv (snd s) \<and> (\<forall>t \<in># group_owners (snd s). t = [])
     \<and> (\<forall>tc \<in># reader_owners (snd s). fst tc = [])"

lemma fx_start_inv: "fx_start s \<Longrightarrow> fx_inv s"
proof -
  assume s: "fx_start s"
  then have "filter_mset (\<lambda>t. t \<noteq> []) (group_owners (snd s)) = {#}"
    "filter_mset (\<lambda>tc. fst tc \<noteq> []) (reader_owners (snd s)) = {#}"
    by (auto simp: fx_start_def)
  then show "fx_inv s" using s
    by (cases s) (simp add: fx_start_def fx_inv_def registry_ok_def plane_ok_def connected_def new_fx_def exclusive_def
        endpointCountOf_def entity_names_def new_configuration_def plain_configuration_def)
qed

lemma establishConnections_cases:
  assumes "establishConnections udp ops io t s = (s', q)"
  obtains (refused) m where "establish udp ops io t s = (s', Inl m)"
      and "\<exists>detail. q = Inr \<lparr>rs_good = False, rs_connectionId = [], rs_detail = detail\<rparr>"
  | (good) name detail where "establish udp ops io t s = (s', Inr (name, detail))"
      and "q = Inr \<lparr>rs_good = True, rs_connectionId = name, rs_detail = detail\<rparr>"
proof -
  obtain t' r where e: "establish udp ops io t s = (t', r)" by fastforce
  show ?thesis
  proof (cases r)
    case (Inl m)
    then show ?thesis using assms e refusal_text [of m] by (intro refused) (auto simp: establishConnections_def)
  next
    case (Inr nd)
    then show ?thesis using assms e by (cases nd) (auto simp: establishConnections_def intro: good)
  qed
qed

lemma closeConnections_cases:
  assumes "closeConnections t s = (s', q)"
  obtains (refused) m where "close t s = (s', Inl m)"
      and "\<exists>detail. q = Inr \<lparr>rs_good = False, rs_connectionId = [], rs_detail = detail\<rparr>"
  | (good) detail where "close t s = (s', Inr detail)"
      and "q = Inr \<lparr>rs_good = True, rs_connectionId = [], rs_detail = detail\<rparr>"
proof -
  obtain t' r where e: "close t s = (t', r)" by fastforce
  show ?thesis
  proof (cases r)
    case (Inl m)
    then show ?thesis using assms e refusal_text [of m] by (intro refused) (auto simp: closeConnections_def)
  next
    case (Inr d)
    then show ?thesis using assms e by (intro good) (auto simp: closeConnections_def)
  qed
qed

lemma fx_step_inv:
  assumes "fx_inv s" and "fx_step plain_configuration sdk w s ev s'"
  shows "fx_inv s'"
  using assms(2,1)
proof (induction rule: fx_step.induct)
  case (fx_stage c f f' r e)
  then show ?case by (intro stage_keeps [of f e c f' r])
next
  case (fx_start ops nodes s r s')
  then show ?case using start_keeps [of "fst s" "snd s"] by simp
next
  case (fx_establish io udp ops t s s' r)
  show ?case
    using fx_establish.hyps(2) establish_keeps [of "fst s" "snd s" sdk w io udp ops t s'] fx_establish.hyps(1) fx_establish.prems
    by (cases rule: establishConnections_cases) simp_all
next
  case (fx_close t s s' r)
  show ?case
    using fx_close.hyps close_keeps [of "fst s" "snd s" t s'] fx_close.prems
    by (cases rule: closeConnections_cases) simp_all
next
  case (fx_shutdown s)
  then show ?case using shutdown_keeps by blast
next
  case (fx_pubsub_shutdown f e)
  then have reg: "registry_ok f" "engine_inv e" by (simp_all add: fx_inv_def)
  then have "\<forall>(n, ep) \<in> set (fs_endpoints f). \<not> ep_active ep"
    using fx_pubsub_shutdown.hyps by (auto simp: registry_ok_def endpoint_ok_def)
  then have "connected role f = []" for role by (auto simp: connected_def filter_empty_conv)
  then show ?case using reg shutdown_inv(1) [of e] fx_pubsub_shutdown.hyps
    by (simp add: fx_inv_def plane_ok_def shutdown_owners)
next
  case (fx_timer g e aborted f a e' out)
  have "engine_inv e" using fx_timer.prems by (simp add: fx_inv_def)
  then show ?case
    using timer_owners [OF fx_timer.hyps(3)] timer_handler_inv [OF _ fx_timer.hyps(1) _ fx_timer.hyps(3)] fx_timer.hyps(2)
      fx_inv_cong [OF fx_timer.prems, of f e'] fx_timer.prems by (auto simp: fx_inv_def reader_owners_def)
next
  case (fx_datagram locked bs e f a e' f' a')
  have "engine_inv e" "registry_ok f" using fx_datagram.prems by (simp_all add: fx_inv_def)
  moreover obtain vs where "f' = f\<lparr>fs_variables := vs\<rparr>" using datagram_fx [OF fx_datagram.hyps] by auto
  ultimately show ?case
    using datagram_owners [OF _ fx_datagram.hyps] fx_inv_cong [OF fx_datagram.prems, of f' e'] fx_datagram.prems
    by (auto simp: fx_inv_def)
qed

interpretation fx: inductive_invariant "fx_step plain_configuration sdk w" fx_start fx_inv for sdk w
  by unfold_locales (auto intro: fx_start_inv fx_step_inv)

end
