(* ===== verification/FxProperties.thy ===== *)
theory FxProperties
  imports FxSteps
begin

text \<open>
  The properties of the FX engine and its two services, over the runs of \<open>FxSteps\<close>: the invariant
  of every state, what a refusal leaves, what a connection adds and its closing takes away, the
  replies, the signal of the first data, and the one way in which owners can be confused.
\<close>

section \<open>Refusals and connections\<close>

lemma establish_refused:
  assumes inv: "fx_inv (f, e)" and io: "\<And>e. io_moves sdk w e (io e)"
    and run: "establish udp ops io t (f, e) = ((f', e'), Inl m)"
  shows "f' = f \<and> e' = e
    \<or> (\<exists>name. name \<notin> set (keys (fs_endpoints f)) \<and> fs_poisonedNames f' = List.insert name (fs_poisonedNames f)
        \<and> fs_endpoints f' = fs_endpoints f \<and> fs_started f' = fs_started f
        \<and> group_owners e' = group_owners e \<and> reader_owners e' = reader_owners e)"
  using run
proof (cases rule: establish_cases)
  case (wrecked rq entity name host port e1 st f1 m')
  have g: "grows f f1" using act_movesD [OF create_view_grows wrecked(4)] .
  have "registry_ok f" using inv by (simp add: fx_inv_def)
  then have "map_of (fs_endpoints f) name = None" using wrecked(3) by (rule viewless_new)
  then have "name \<notin> set (keys (fs_endpoints f))" by (simp add: map_of_eq_None_iff)
  then show ?thesis using wrecked(5) g wrecked_owners [OF inv wrecked(1,2) io] by (auto simp: grows_def)
qed simp_all

lemma establish_added:
  assumes inv: "fx_inv (f, e)" and io: "\<And>e. io_moves sdk w e (io e)"
    and run: "establish udp ops io t (f, e) = ((f', e'), Inr (name, detail))"
  obtains rq ep where "read_request t = Inr rq" and "map_of (fs_endpoints f') name = Some ep" and "ep_active ep"
    and "ep_entity ep = rq_entity rq" and "ep_role ep = rq_role rq" and "ep_dataset ep = rq_dataset rq"
    and "ep_address ep = rq_address rq" and "name \<noteq> []" and "fs_started f'"
    and "\<forall>n. n \<noteq> name \<longrightarrow> map_of (fs_endpoints f') n = map_of (fs_endpoints f) n"
    and "group_owners e' = (if rq_role rq = ''publisher'' then {#ep_ownerTag ep#} else {#}) + group_owners e"
    and "reader_owners e' = (if rq_role rq = ''publisher'' then {#} else {#(ep_ownerTag ep, Some name)#}) + reader_owners e"
    and "group_owners (removeDynamic (ep_ownerTag ep) e') = group_owners e"
    and "reader_owners (removeDynamic (ep_ownerTag ep) e') = reader_owners e"
  using run
proof (cases rule: establish_cases)
  case (established rq entity n host port e1 st f1 ep detail')
  have e: "engine_inv e" and reg: "registry_ok f" using inv by (simp_all add: fx_inv_def)
  have n: "n = name" using established(6) by simp
  note acc = established(1) and act = established(2)
  have g: "grows f f1" using established(3) act_movesD [OF create_view_grows] grows_refl by auto
  have ep: "ep_entity ep = rq_entity rq \<and> ep_dataset ep = rq_dataset rq \<and> ep_role ep = rq_role rq
      \<and> ep_address ep = rq_address rq \<and> ep_ownerTag ep = owner_tag (fs_configuration f) (rq_entity rq) n"
    using established(3) by (auto simp: prepared_endpoint_def dest!: create_view_Inr)
  let ?ep = "ep\<lparr>ep_active := True\<rparr>"
  obtain vs where s': "f' = f1\<lparr>fs_endpoints := insert_member n ?ep (fs_endpoints f1), fs_variables := vs\<rparr>" "e' = io e1"
    using committed_frame [of n ?ep _ f1] established(4) by fastforce
  have own: "group_owners e' = group_owners e1" "reader_owners e' = reader_owners e1"
    using io_keeps [OF io activate_owners(1) [OF e act]] by (simp_all add: s')
  show ?thesis
  proof (rule that [of rq ?ep])
    show "read_request t = Inr rq" using acc by (simp add: accepted_def)
    show "fs_started f'" using acc g by (simp add: s' accepted_def grows_def)
    show "name \<noteq> []" using accepted_facts(1) [OF reg acc] by (simp add: n)
    show "\<forall>k. k \<noteq> name \<longrightarrow> map_of (fs_endpoints f') k = map_of (fs_endpoints f) k"
      using g by (simp add: s' n grows_def)
    show "group_owners e' = (if rq_role rq = ''publisher'' then {#ep_ownerTag ?ep#} else {#}) + group_owners e"
      "reader_owners e' = (if rq_role rq = ''publisher'' then {#} else {#(ep_ownerTag ?ep, Some name)#}) + reader_owners e"
      using activate_owners(3,4) [OF e act] ep by (simp_all add: own n)
    show "group_owners (removeDynamic (ep_ownerTag ?ep) e') = group_owners e"
      "reader_owners (removeDynamic (ep_ownerTag ?ep) e') = reader_owners e"
      using wrecked_owners(3,4) [OF inv acc act io] ep by (simp_all add: s')
  qed (use ep in \<open>simp_all add: s' n\<close>)
qed simp_all

lemma close_established:
  assumes "map_of (fs_endpoints f) name = Some ep" and "ep_active ep" and "name \<noteq> []" and "fs_started f"
  shows "\<exists>detail. closeConnections name (f, e) = (close_endpoint name ep (f, e),
    Inr \<lparr>rs_good = True, rs_connectionId = [], rs_detail = detail\<rparr>)"
proof -
  obtain detail where "statusDetail (endpointStatusName EndpointInitial) [] = Inr detail" using statusDetail_text by blast
  then have "close name (f, e) = (close_endpoint name ep (f, e), Inr detail)"
    using assms by (simp add: close_def close_name_def act_bind_def)
  then show ?thesis by (simp add: closeConnections_def)
qed

section \<open>The first data\<close>

lemma first_data_signal:
  assumes "receive_message sdk (fx_world w locked) p g m (e, (f, a)) = (e', (f', a'))"
    and "\<not> dsm_keepAlive m" and "map_of (en_readers e) (p, g, dsm_dataSetWriterId m) = Some r"
    and "rr_onFirstData r = Some name" and "\<not> rr_firstDataSignalled r" and "dsm_fields m \<noteq> []" and "rr_targets r \<noteq> []"
    and "map_of (fs_endpoints f) name = Some ep" and "ep_active ep" and "ep_role ep = ''subscriber''"
    and "ep_statusVariable ep = Some v" and "v < length (fs_variables f)"
  shows "\<exists>r'. map_of (en_readers e') (p, g, dsm_dataSetWriterId m) = Some r' \<and> rr_dataSeen r'
    \<and> rr_firstDataSignalled r' = (\<not> locked)
    \<and> (if locked then f' = f else fs_variables f' ! v = Int32View (endpoint_status_code EndpointOperational))"
proof -
  let ?key = "(p, g, dsm_dataSetWriterId m)"
  let ?fa1 = "store_fields sdk (fx_world w locked) (dsm_fields m) (rr_targets r) (f, a)"
  have pos: "0 < min (length (dsm_fields m)) (length (rr_targets r))" using assms(6,7) by simp
  obtain a1 where fa1: "?fa1 = (f, a1)" using store_fields_fx [of sdk w locked _ _ "(f, a)"] by (metis fst_conv prod.collapse)
  obtain r' a2 where sig: "signal_first_data (fx_world w locked) (r\<lparr>rr_dataSeen := True\<rparr>) (f, a1) = (r', a2)" using prod.exhaust by blast
  have "e' = e\<lparr>en_readers := AList.update ?key r' (en_readers e)\<rparr> \<and> (f', a') = a2"
    using assms(1-3) pos fa1 sig by (auto simp: receive_message_def Let_def split: if_splits)
  moreover have "rr_dataSeen r' \<and> rr_firstDataSignalled r' = (\<not> locked)
    \<and> (if locked then fst a2 = f else fs_variables (fst a2) ! v = Int32View (endpoint_status_code EndpointOperational))"
    using sig assms(4,5,8-12)
    by (cases locked) (auto simp: signal_first_data_def fx_world_def markSubscriberOperational_def setEndpointStatus_def)
  ultimately show ?thesis by (auto simp: update_conv')
qed

section \<open>A sample component\<close>

text \<open>Requests for a publisher of the dataset \<open>flow\<close> of an entity, with a name for the connection.\<close>

definition request_object :: "string \<Rightarrow> string \<Rightarrow> (string \<times> json_value) list" where
  "request_object name entity = [(''address'', JsonString ''opc.udp://224.0.0.5:4840''), (''connectionName'', JsonString name),
    (''dataset'', JsonString ''flow''), (''functionalEntity'', JsonString entity), (''role'', JsonString ''publisher'')]"

definition request_text :: "string \<Rightarrow> string \<Rightarrow> string" where
  "request_text name entity = (case serialize (JsonObject (request_object name entity)) of Inl e \<Rightarrow> e | Inr s \<Rightarrow> s)"

lemma sample_address: "parseNetworkAddress ''opc.udp://224.0.0.5:4840'' = Inr (''224.0.0.5'', 4840)"
proof -
  have "''opc.udp://224.0.0.5:4840'' = network_address ''224.0.0.5'' ''4840'' 0"
    by (simp add: network_address_def udp_scheme_def)
  then show ?thesis
    using parse_network_address [of "''224.0.0.5''" "''4840''" 0]
    by (simp add: is_digit_def decimal_value_def digit_value_def)
qed

lemma request_parsed:
  assumes "length (request_text name entity) \<le> 65536"
  shows "parseJsonObject (request_text name entity) = Inr (JsonObject (request_object name entity))"
proof (rule serialized_parses [OF _ _ _ assms])
  show "serialize (JsonObject (request_object name entity)) = Inr (request_text name entity)"
    by (simp add: request_text_def serialize_def request_object_def Let_def)
  show "json_all number_ok (JsonObject (request_object name entity))" by (simp add: request_object_def)
  show "json_depth (JsonObject (request_object name entity)) \<le> 16" by (simp add: request_object_def)
qed

lemma request_short: "length (request_text ''b/c'' ''a'') \<le> 65536" "length (request_text ''c'' ''a/b'') \<le> 65536"
  by (simp_all add: request_text_def serialize_def request_object_def Let_def appendEscaped_def escape_char_def)

definition sample_entity :: "string \<Rightarrow> 16 word \<Rightarrow> nat entity_runtime" where
  "sample_entity name i = \<lparr>en_name = name, en_outputs = [sample_dataset\<lparr>ds_writerGroupId := i\<rparr>], en_inputs = [],
     en_endpointsFolder = StringId 2 name\<rparr>"

definition sample_nodes :: node_ops where
  "sample_nodes = \<lparr>no_namespace = 2, no_badStatus = \<lambda>_ _. None, no_idText = \<lambda>_. [], no_origin = \<lambda>_. []\<rparr>"

definition sample_fx :: "nat fx" where
  "sample_fx = new_fx\<lparr>fs_configuration := sample_component, fs_started := True,
     fs_entities := [sample_entity ''a'' 7, sample_entity ''a/b'' 8]\<rparr>"

definition sample_up :: "(nat, string) engine" where
  "sample_up = new_engine\<lparr>en_running := True\<rparr>"

lemma request_read: "length (request_text name entity) \<le> 65536 \<Longrightarrow> read_request (request_text name entity) = Inr \<lparr>rq_json = JsonObject (request_object name entity),
    rq_entity = entity, rq_role = ''publisher'', rq_dataset = ''flow'', rq_address = ''opc.udp://224.0.0.5:4840''\<rparr>"
  by (simp add: read_request_def request_parsed requireOnlyMembers_def requireObject_def establish_members_def
      requiredString_def hasMember_def json_member_def asString_def request_object_def)

lemma publisher_accepted:
  assumes "length (request_text name ename) \<le> 65536" and "validateConnectionName name = Inr ()" and "fs_started f"
    and "findEntity ename f = Some entity" and "check_name f ename name = Inr ()"
    and "activeConnectionNameFor ename ''publisher'' ''flow'' f = []"
  shows "accepted f (request_text name ename) \<lparr>rq_json = JsonObject (request_object name ename),
    rq_entity = ename, rq_role = ''publisher'', rq_dataset = ''flow'', rq_address = ''opc.udp://224.0.0.5:4840''\<rparr>
    entity name ''224.0.0.5'' 4840"
  using assms by (simp add: accepted_def request_read request_entity_def connection_name_def hasMember_def json_member_def
      requireObject_def asString_def request_object_def check_free_def sample_address)

lemma sample_view:
  "\<exists>f'. create_view sample_nodes (StringId ns s) name ep f = (f', Inr (ep\<lparr>ep_statusVariable := Some (length (fs_variables f)),
      ep_addressVariable := Some (length (fs_variables f) + 1), ep_datasetVariable := Some (length (fs_variables f) + 2)\<rparr>))"
  by (simp add: create_view_def addObject_def add_node_def addVariable_def sample_nodes_def makeChildNodeId_def
      on_nodes_eq addNodeAndReferenceThrows_def act_bind_def act_return_def)

lemma accepted_establish:
  assumes acc: "accepted f t rq entity name host port"
  shows "establish udp ops io t (f, e) = establish_tail udp ops io f rq entity name host port (f, e)"
  using acc by (simp add: accepted_def establish_def establish_tail_def act_bind_def)

lemma establish_goes:
  assumes acc: "accepted f t rq entity name host port" and act: "activate udp f entity rq name host port e = (e1, Inr st)"
    and new: "map_of (fs_endpoints f) name = None" and folder: "en_endpointsFolder entity = StringId ns s"
    and st: "st = EndpointOperational"
  shows "\<exists>f' detail ep. establishConnections udp sample_nodes id t (f, e) = ((f', e1), Inr \<lparr>rs_good = True, rs_connectionId = name, rs_detail = detail\<rparr>)
     \<and> fs_endpoints f' = insert_member name ep (fs_endpoints f) \<and> ep_active ep \<and> ep_entity ep = rq_entity rq \<and> ep_role ep = rq_role rq
     \<and> ep_ownerTag ep = owner_tag (fs_configuration f) (rq_entity rq) name
     \<and> fs_configuration f' = fs_configuration f \<and> fs_started f' = fs_started f \<and> fs_poisonedNames f' = fs_poisonedNames f
     \<and> fs_entities f' = fs_entities f"
proof -
  let ?ep = "prepared_endpoint f rq name"
  obtain f1 where view: "create_view sample_nodes (StringId ns s) name ?ep f = (f1, Inr (?ep\<lparr>ep_statusVariable := Some (length (fs_variables f)),
      ep_addressVariable := Some (length (fs_variables f) + 1), ep_datasetVariable := Some (length (fs_variables f) + 2)\<rparr>))" (is "_ = (f1, Inr ?ep')")
    using sample_view by blast
  obtain vs where c: "committed name (?ep'\<lparr>ep_active := True\<rparr>) (reported_status st (ep_ownerTag ?ep') e1) f1
      = f1\<lparr>fs_endpoints := insert_member name (?ep'\<lparr>ep_active := True\<rparr>) (fs_endpoints f1), fs_variables := vs\<rparr>"
    using committed_frame by metis
  obtain detail where d: "res_bind (established_detail f entity rq (reported_status st (ep_ownerTag ?ep') e1)) serialize = Inr detail"
    using established_detail_text by blast
  have none: "ep_statusVariable ?ep = None" using new by (simp add: prepared_endpoint_def new_endpoint_def)
  have "establish udp sample_nodes id t (f, e) = ((committed name (?ep'\<lparr>ep_active := True\<rparr>) (reported_status st (ep_ownerTag ?ep') e1) f1, e1), Inr (name, detail))"
    unfolding accepted_establish [OF acc] establish_tail_def folder
    using act view none d by (simp add: act_bind_def on_engine_def on_fx_def ensure_view_eq Let_def committed_def)
  moreover have "grows f f1" using act_movesD [OF create_view_grows view] .
  moreover have "fs_entities f1 = fs_entities f" using view
    by (auto simp: create_view_def addObject_def add_node_def addVariable_def act_bind_def on_nodes_eq act_return_def split: sum.splits prod.splits)
  ultimately show ?thesis using c d by (auto simp: establishConnections_def grows_def prepared_endpoint_def)
qed

abbreviation sample_rq :: "string \<Rightarrow> string \<Rightarrow> establish_request" where
  "sample_rq name ename \<equiv> \<lparr>rq_json = JsonObject (request_object name ename), rq_entity = ename, rq_role = ''publisher'',
     rq_dataset = ''flow'', rq_address = ''opc.udp://224.0.0.5:4840''\<rparr>"

definition sample_dynamic :: "16 word \<Rightarrow> nat dynamic_writer_group" where
  "sample_dynamic i = \<lparr>dwg_id = i, dwg_dataSetWriterId = 3, dwg_publishingIntervalMs = 0x4059000000000000,
     dwg_fields = [\<lparr>dyn_address = ''a.v'', dyn_variable = 5\<rparr>], dwg_host = ''224.0.0.5'', dwg_port = 4840,
     dwg_ttl = 1, dwg_loopback = True\<rparr>"

lemma sample_activated:
  assumes "fs_configuration f = sample_component" and "en_running e"
    and "\<not> list_ex (\<lambda>g. same_coordinates PublisherIdUInt16 10 i (group_at e g)) (en_writerGroups e)"
  shows "activate sample_udp f (sample_entity ename i) (sample_rq name ename) name ''224.0.0.5'' 4840 e =
    (scheduleGroup (en_next e) (commit_group (dynamic_group (owner_tag sample_component ename name) PublisherIdUInt16 10
       (sample_dynamic i)) e), Inr EndpointOperational)"
proof -
  have "publisher_group (sample_entity ename i) (sample_rq name ename) ''224.0.0.5'' 4840 = Inr (sample_dynamic i)"
    by (simp add: publisher_group_def hasMember_def requireObject_def request_object_def findDataset_def sample_entity_def
        sample_dataset_def requested_interval_def requested_ttl_def dynamic_fields_def sample_dynamic_def)
  moreover have "addDynamicWriterGroup sample_udp (owner_tag sample_component ename name) PublisherIdUInt16 10 (sample_dynamic i) e
      = (scheduleGroup (en_next e) (commit_group (dynamic_group (owner_tag sample_component ename name) PublisherIdUInt16 10
       (sample_dynamic i)) e), Inr ())"
    using assms(2,3) sample_interval by (simp add: addDynamicWriterGroup_def sample_dynamic_def sample_udp_def)
  ultimately show ?thesis
    using assms(1) by (simp add: activate_def act_bind_def sample_component_def new_configuration_def)
qed

lemma sample_connects:
  assumes "fs_configuration f = sample_component" and "en_running e" and "fs_started f"
    and "\<not> list_ex (\<lambda>g. same_coordinates PublisherIdUInt16 10 i (group_at e g)) (en_writerGroups e)"
    and "length (request_text name ename) \<le> 65536" and "validateConnectionName name = Inr ()"
    and "findEntity ename f = Some (sample_entity ename i)" and "check_name f ename name = Inr ()"
    and "activeConnectionNameFor ename ''publisher'' ''flow'' f = []" and "map_of (fs_endpoints f) name = None"
  obtains f' detail ep where
    "establishConnections sample_udp sample_nodes id (request_text name ename) (f, e)
       = ((f', scheduleGroup (en_next e) (commit_group (dynamic_group (owner_tag sample_component ename name) PublisherIdUInt16 10
         (sample_dynamic i)) e)), Inr \<lparr>rs_good = True, rs_connectionId = name, rs_detail = detail\<rparr>)"
    and "fs_endpoints f' = insert_member name ep (fs_endpoints f)" and "ep_active ep" and "ep_entity ep = ename"
    and "ep_role ep = ''publisher''" and "ep_ownerTag ep = owner_tag sample_component ename name"
    and "fs_configuration f' = sample_component" and "fs_started f'" and "fs_poisonedNames f' = fs_poisonedNames f"
    and "fs_entities f' = fs_entities f"
proof -
  have folder: "en_endpointsFolder (sample_entity ename i) = StringId 2 ename" by (simp add: sample_entity_def)
  from establish_goes [OF publisher_accepted [OF assms(5,6,3,7,8,9)] sample_activated [OF assms(1,2,4)] assms(10) folder refl]
  show ?thesis using assms(1,3) by (auto intro: that)
qed

definition sample_plain :: "nat fx" where
  "sample_plain = sample_fx\<lparr>fs_entities := [sample_entity ''a'' 7]\<rparr>"

lemma sample_plain_inv: "fx_inv (sample_plain, sample_up)"
proof -
  have "en_running (sample_up :: (nat, string) engine)" "engine_inv (sample_up :: (nat, string) engine)"
    by (simp_all add: sample_up_def new_engine_def engine_inv_def idle_inv idle_def groups_ok_def)
  then show ?thesis
    by (simp add: fx_inv_def registry_ok_def sample_plain_def sample_fx_def new_fx_def exclusive_def endpointCountOf_def
        entity_names_def sample_entity_def plain_def plain_configuration_def sample_component_def new_configuration_def
        plane_ok_def connected_def group_owners_def reader_owners_def sample_up_def new_engine_def)
qed

lemma sample_plain_connects:
  obtains f' e' detail where "establishConnections sample_udp sample_nodes id (request_text ''b/c'' ''a'') (sample_plain, sample_up)
      = ((f', e'), Inr \<lparr>rs_good = True, rs_connectionId = ''b/c'', rs_detail = detail\<rparr>)"
proof -
  have *: "fs_configuration sample_plain = sample_component" "fs_started sample_plain" "fs_endpoints sample_plain = []"
    "fs_poisonedNames sample_plain = []" "fs_entities sample_plain = [sample_entity ''a'' 7]"
    "en_running (sample_up :: (nat, string) engine)" "en_writerGroups (sample_up :: (nat, string) engine) = []"
    by (simp_all add: sample_plain_def sample_fx_def new_fx_def sample_up_def new_engine_def)
  show ?thesis
    by (rule sample_connects [of sample_plain sample_up 7 "''b/c''" "''a''"])
       (use * request_short that in \<open>auto simp: findEntity_def sample_entity_def check_name_def endpointCountOf_def
         kMaxEndpointsPerEntity_def activeConnectionNameFor_def validateConnectionName_def is_control_def\<close>)
qed

section \<open>Properties\<close>





text \<open>
  C24: the two services always answer: no exception leaves them, whatever the request and the state,
  and a refusal names no connection.
\<close>

theorem services_answer:
  "(\<exists>s' r. establishConnections udp ops io t s = (s', Inr r) \<and> (rs_good r \<or> rs_connectionId r = []))
   \<and> (\<exists>s' r. closeConnections t s = (s', Inr r) \<and> rs_connectionId r = [])"
proof -
  obtain s1 q1 where est: "establishConnections udp ops io t s = (s1, q1)" by fastforce
  obtain s2 q2 where clo: "closeConnections t s = (s2, q2)" by fastforce
  have "\<exists>r. q1 = Inr r \<and> (rs_good r \<or> rs_connectionId r = [])"
    using est by (cases rule: establishConnections_cases) auto
  moreover have "\<exists>r. q2 = Inr r \<and> rs_connectionId r = []"
    using clo by (cases rule: closeConnections_cases) auto
  ultimately show ?thesis using est clo by auto
qed





text \<open>The two connections of entities \<open>a\<close> and \<open>a/b\<close>: the engine after one and after both.\<close>

definition confused_tag :: string where "confused_tag = owner_tag sample_component ''a'' ''b/c''"

lemma confused_tags: "owner_tag sample_component ''a/b'' ''c'' = confused_tag"
  by (simp add: confused_tag_def owner_tag_def)

definition sample_add :: "16 word \<Rightarrow> (nat, string) engine \<Rightarrow> (nat, string) engine" where
  "sample_add i e = scheduleGroup (en_next e) (commit_group (dynamic_group confused_tag PublisherIdUInt16 10 (sample_dynamic i)) e)"

lemma sample_added:
  "en_running (sample_add 7 sample_up)" "en_writerGroups (sample_add 7 sample_up) = [0]"
  "wgc_id (gr_config (group_at (sample_add 7 sample_up) 0)) = 7" "en_readers (sample_add 7 sample_up) = []"
  "en_writerGroups (sample_add 8 (sample_add 7 sample_up)) = [0, 1]" "en_readers (sample_add 8 (sample_add 7 sample_up)) = []"
  "gr_ownerTag (group_at (sample_add 8 (sample_add 7 sample_up)) 0) = confused_tag"
  "gr_ownerTag (group_at (sample_add 8 (sample_add 7 sample_up)) (Suc 0)) = confused_tag"
  "en_running (sample_add 8 (sample_add 7 sample_up))"
  by (simp_all add: sample_add_def scheduleGroup_def commit_group_def dynamic_group_def sample_dynamic_def sample_up_def new_engine_def)

lemma confused_valid: "validateConnectionName ''b/c'' = Inr ()" "validateConnectionName ''c'' = Inr ()"
  by (simp_all add: validateConnectionName_def is_control_def)

lemma first_connection:
  obtains f detail ep where
    "establishConnections sample_udp sample_nodes id (request_text ''b/c'' ''a'') (sample_fx, sample_up)
       = ((f, sample_add 7 sample_up), Inr \<lparr>rs_good = True, rs_connectionId = ''b/c'', rs_detail = detail\<rparr>)"
    and "fs_endpoints f = [(''b/c'', ep)]" and "ep_active ep" and "ep_entity ep = ''a''"
    and "fs_configuration f = sample_component" and "fs_started f" and "fs_poisonedNames f = []"
    and "fs_entities f = [sample_entity ''a'' 7, sample_entity ''a/b'' 8]"
proof -
  have s: "fs_configuration sample_fx = sample_component" "fs_started sample_fx" "fs_endpoints sample_fx = []"
    "fs_poisonedNames sample_fx = []" "fs_entities sample_fx = [sample_entity ''a'' 7, sample_entity ''a/b'' 8]"
    "en_running (sample_up :: (nat, string) engine)" "en_writerGroups (sample_up :: (nat, string) engine) = []"
    by (simp_all add: sample_fx_def new_fx_def sample_up_def new_engine_def)
  have found: "findEntity ''a'' sample_fx = Some (sample_entity ''a'' 7)" and
    fresh: "check_name sample_fx ''a'' ''b/c'' = Inr ()" "activeConnectionNameFor ''a'' ''publisher'' ''flow'' sample_fx = []"
      "map_of (fs_endpoints sample_fx) ''b/c'' = None"
    by (simp_all add: s confused_valid findEntity_def sample_entity_def check_name_def endpointCountOf_def kMaxEndpointsPerEntity_def activeConnectionNameFor_def)
  have idle: "\<not> list_ex (\<lambda>g. same_coordinates PublisherIdUInt16 10 7 (group_at sample_up g))
      (en_writerGroups (sample_up :: (nat, string) engine))"
    by (simp add: s)
  show ?thesis
    by (rule sample_connects [OF s(1,6,2) idle request_short(1) confused_valid(1) found fresh], rule that)
       (simp_all add: s sample_add_def confused_tag_def)
qed

lemma second_connection:
  assumes f: "fs_configuration f = sample_component" "fs_started f" "fs_poisonedNames f = []"
    "fs_entities f = [sample_entity ''a'' 7, sample_entity ''a/b'' 8]" "fs_endpoints f = [(''b/c'', ep)]" "ep_entity ep = ''a''"
  obtains f' detail ep' where
    "establishConnections sample_udp sample_nodes id (request_text ''c'' ''a/b'') (f, sample_add 7 sample_up)
       = ((f', sample_add 8 (sample_add 7 sample_up)), Inr \<lparr>rs_good = True, rs_connectionId = ''c'', rs_detail = detail\<rparr>)"
    and "fs_endpoints f' = insert_member ''c'' ep' [(''b/c'', ep)]" and "ep_active ep'" and "ep_ownerTag ep' = confused_tag"
    and "fs_started f'"
proof -
  have found: "findEntity ''a/b'' f = Some (sample_entity ''a/b'' 8)" and
    fresh: "check_name f ''a/b'' ''c'' = Inr ()" "activeConnectionNameFor ''a/b'' ''publisher'' ''flow'' f = []"
      "map_of (fs_endpoints f) ''c'' = None"
    by (simp_all add: f confused_valid findEntity_def sample_entity_def check_name_def endpointCountOf_def kMaxEndpointsPerEntity_def activeConnectionNameFor_def)
  have idle: "\<not> list_ex (\<lambda>g. same_coordinates PublisherIdUInt16 10 8 (group_at (sample_add 7 sample_up) g))
      (en_writerGroups (sample_add 7 sample_up))"
    by (simp add: sample_added same_coordinates_def)
  show ?thesis
    by (rule sample_connects [OF f(1) sample_added(1) f(2) idle request_short(2) confused_valid(2) found fresh], rule that)
       (simp_all add: f confused_tags sample_add_def)
qed


text \<open>
  C28: the first data message that stores a value in a reader with a callback marks the reader as
  fed, and, when the engine's lock is free, shows the connection of that name as operational; when the
  lock is taken the view stays as it is and the reader remembers that it has not signalled yet.
\<close>

theorem first_data:
  assumes "receive_message sdk (fx_world w locked) p g m (e, (f, a)) = (e', (f', a'))"
    and "\<not> dsm_keepAlive m" and "map_of (en_readers e) (p, g, dsm_dataSetWriterId m) = Some r"
    and "rr_onFirstData r = Some name" and "\<not> rr_firstDataSignalled r" and "dsm_fields m \<noteq> []" and "rr_targets r \<noteq> []"
    and "map_of (fs_endpoints f) name = Some ep" and "ep_active ep" and "ep_role ep = ''subscriber''"
    and "ep_statusVariable ep = Some v" and "v < length (fs_variables f)"
  shows "\<exists>r'. map_of (en_readers e') (p, g, dsm_dataSetWriterId m) = Some r' \<and> rr_dataSeen r'
    \<and> rr_firstDataSignalled r' = (\<not> locked)
    \<and> (if locked then f' = f else fs_variables f' ! v = Int32View (endpoint_status_code EndpointOperational))"
  by (rule first_data_signal [OF assms])

definition fed_fx :: "nat fx" where
  "fed_fx = sample_fx\<lparr>fs_endpoints := [(''in'', new_endpoint\<lparr>ep_entity := ''a'', ep_role := ''subscriber'', ep_active := True,
     ep_statusVariable := Some 0\<rparr>)], fs_variables := [Int32View (endpoint_status_code EndpointInitial)]\<rparr>"

definition fed_reader :: "(nat, string) reader_runtime" where
  "fed_reader = \<lparr>rr_config = \<lparr>drc_publisherIdType = PublisherIdUInt16, drc_publisherId = 9, drc_writerGroupId = 7,
     drc_dataSetWriterId = 3, drc_targets = []\<rparr>, rr_ownerTag = ''fx'', rr_host = ''224.0.0.5'', rr_port = 4840, rr_targets = [0],
     rr_onFirstData = Some ''in'', rr_firstDataSignalled = False, rr_dataSeen = False\<rparr>"

theorem first_data_witness:
  "\<exists>e' f' r'. receive_message sample_sdk (fx_world sample_world False) 9 7
      (new_data_set_message\<lparr>dsm_dataSetWriterId := 3, dsm_fields := [makeBoolean True]\<rparr>)
      (sample_up\<lparr>en_readers := [((9, 7, 3), fed_reader)]\<rparr>, (fed_fx, ())) = (e', (f', ()))
    \<and> map_of (en_readers e') (9, 7, 3) = Some r' \<and> rr_firstDataSignalled r'
    \<and> fs_variables f' ! 0 = Int32View (endpoint_status_code EndpointOperational)"
proof -
  let ?m = "new_data_set_message\<lparr>dsm_dataSetWriterId := 3, dsm_fields := [makeBoolean True]\<rparr>"
  let ?e = "sample_up\<lparr>en_readers := [((9, 7, 3), fed_reader)]\<rparr>"
  obtain e' f' a' where run: "receive_message sample_sdk (fx_world sample_world False) 9 7 ?m (?e, (fed_fx, ())) = (e', (f', a'))"
    by (metis prod.exhaust)
  obtain ep where ep: "map_of (fs_endpoints fed_fx) ''in'' = Some ep" "ep_active ep" "ep_role ep = ''subscriber''"
    "ep_statusVariable ep = Some 0" "0 < length (fs_variables fed_fx)"
    by (simp add: fed_fx_def)
  have m: "\<not> dsm_keepAlive ?m" "map_of (en_readers ?e) (9, 7, dsm_dataSetWriterId ?m) = Some fed_reader"
    "rr_onFirstData fed_reader = Some ''in''" "\<not> rr_firstDataSignalled fed_reader" "dsm_fields ?m \<noteq> []" "rr_targets fed_reader \<noteq> []"
    by (simp_all add: new_data_set_message_def fed_reader_def)
  show ?thesis using run first_data [OF run m ep] by (simp add: new_data_set_message_def) blast
qed

end
