(* ===== verification/PubSubUdp.thy ===== *)
theory PubSubUdp
  imports PubSubEngine Reachability
begin

text \<open>
  The sockets of the publish-subscribe engine, PubSub/src/PubSubUdp.cpp: the constructors of a
  transmitter and of a receiver, whose first refused call is the error of the whole, and the chain
  of asynchronous receives of a receiver. The library boost.asio is the parameter \<open>asio_ops\<close>: the
  answer of each call of a socket. Its asynchronous part is written out as the library documents
  it: a completion handler never runs inside the call that starts the operation, a closed socket
  ends its pending operations with \<open>operation_aborted\<close>, and a receive on a closed socket is an error.
\<close>

section \<open>Sockets\<close>

datatype 'a socket_option = MulticastHops byte | EnableLoopback bool | ReuseAddress bool | JoinGroup 'a

datatype 'a endpoint = AnyAddress "16 word" | LocalAddress 'a "16 word"

record 'a asio_ops =
  as_make_address :: "string \<Rightarrow> 'a result"
  as_to_string :: "'a \<Rightarrow> string"
  as_is_multicast :: "'a \<Rightarrow> bool"
  as_open_v4 :: "unit result"
  as_set_option :: "'a socket_option \<Rightarrow> unit result"
  as_bind :: "'a endpoint \<Rightarrow> unit result"
  as_send_to :: "bytes \<Rightarrow> 'a \<Rightarrow> 16 word \<Rightarrow> string option"

record 'a udp_transmitter =
  ut_address :: 'a
  ut_port :: "16 word"

definition new_transmitter :: "'a asio_ops \<Rightarrow> string \<Rightarrow> 16 word \<Rightarrow> byte \<Rightarrow> bool \<Rightarrow> 'a udp_transmitter result" where
  "new_transmitter asio host port ttl loopback =
     res_bind (as_make_address asio host) (\<lambda>address.
     res_bind (as_open_v4 asio) (\<lambda>_.
     res_bind (if as_is_multicast asio address
               then res_bind (as_set_option asio (MulticastHops ttl))
                      (\<lambda>_. as_set_option asio (EnableLoopback loopback))
               else Inr ()) (\<lambda>_.
     Inr \<lparr>ut_address = address, ut_port = port\<rparr>)))"

text \<open>Sending never throws; it gives the lines of the log.\<close>

definition send_udp :: "'a asio_ops \<Rightarrow> 'a udp_transmitter \<Rightarrow> bytes \<Rightarrow> string list" where
  "send_udp asio tx payload = (case as_send_to asio payload (ut_address tx) (ut_port tx) of
       None \<Rightarrow> []
     | Some message \<Rightarrow> [''PubSub: UDP send to '' @ as_to_string asio (ut_address tx) @ '':''
         @ nat_to_string (unat (ut_port tx)) @ '' failed: '' @ message])"

section \<open>A receiver\<close>

datatype receive_error = OperationAborted | ReceiveError string

text \<open>
  \<open>ur_outstanding\<close> counts the receives that the library has not completed, \<open>ur_completions\<close> has the
  results whose completion handler has not run. The datagram handler acts on the world; its flag
  tells that the owner of the receiver stopped it in the call.
\<close>

record 'w udp_receiver =
  ur_open :: bool
  ur_buffer :: bytes
  ur_outstanding :: nat
  ur_completions :: "(receive_error option \<times> nat) list"
  ur_world :: 'w
  ur_log :: "string list"

definition buffer_size :: nat where "buffer_size = 65536"

definition new_receiver :: "'a asio_ops \<Rightarrow> string \<Rightarrow> 16 word \<Rightarrow> 'w \<Rightarrow> 'w udp_receiver result" where
  "new_receiver asio host port w =
     res_bind (as_make_address asio host) (\<lambda>listenAddress.
     res_bind (as_open_v4 asio) (\<lambda>_.
     res_bind (as_set_option asio (ReuseAddress True)) (\<lambda>_.
     res_bind (if as_is_multicast asio listenAddress
               then res_bind (as_bind asio (AnyAddress port))
                      (\<lambda>_. as_set_option asio (JoinGroup listenAddress))
               else as_bind asio (LocalAddress listenAddress port)) (\<lambda>_.
     Inr \<lparr>ur_open = True, ur_buffer = replicate buffer_size 0, ur_outstanding = 0, ur_completions = [],
       ur_world = w, ur_log = []\<rparr>))))"

definition armReceive :: "'w udp_receiver \<Rightarrow> 'w udp_receiver" where
  "armReceive s = (if ur_open s then s\<lparr>ur_outstanding := ur_outstanding s + 1\<rparr>
     else s\<lparr>ur_completions := ur_completions s @ [(Some (ReceiveError ''Bad file descriptor''), 0)]\<rparr>)"

definition start_udp :: "'w udp_receiver \<Rightarrow> 'w udp_receiver" where
  "start_udp s = armReceive s"

definition stop_udp :: "'w udp_receiver \<Rightarrow> 'w udp_receiver" where
  "stop_udp s = (if ur_open s
     then s\<lparr>ur_open := False, ur_outstanding := 0,
       ur_completions := ur_completions s @ replicate (ur_outstanding s) (Some OperationAborted, 0)\<rparr>
     else s)"

definition deliver :: "(bytes \<Rightarrow> 'w \<Rightarrow> 'w \<times> bool) \<Rightarrow> nat \<Rightarrow> 'w udp_receiver \<Rightarrow> 'w udp_receiver" where
  "deliver handler n s = (case handler (take n (ur_buffer s)) (ur_world s) of (w, stopped) \<Rightarrow>
     (if stopped then stop_udp else id) (s\<lparr>ur_world := w\<rparr>))"

definition on_received :: "(bytes \<Rightarrow> 'w \<Rightarrow> 'w \<times> bool) \<Rightarrow> receive_error option \<Rightarrow> nat \<Rightarrow> 'w udp_receiver \<Rightarrow> 'w udp_receiver" where
  "on_received handler error n s =
     (if error = Some OperationAborted \<or> \<not> ur_open s then s
      else armReceive (case error of
          Some (ReceiveError message) \<Rightarrow> s\<lparr>ur_log := ur_log s @ [''PubSub: UDP receive failed: '' @ message]\<rparr>
        | Some OperationAborted \<Rightarrow> s
        | None \<Rightarrow> if 0 < n then deliver handler n s else s))"

text \<open>The engine's view of the sockets: only whether the constructors throw.\<close>

definition asio_udp :: "'a asio_ops \<Rightarrow> udp_ops" where
  "asio_udp asio = \<lparr>
     udp_transmitter_error = (\<lambda>host port ttl loopback. case new_transmitter asio host port ttl loopback of
         Inl e \<Rightarrow> Some e | Inr _ \<Rightarrow> None),
     udp_receiver_error = (\<lambda>host port. case new_receiver asio host port () of
         Inl e \<Rightarrow> Some e | Inr _ \<Rightarrow> None)\<rparr>"

section \<open>Steps\<close>

text \<open>
  A datagram arrives: the library has an outstanding receive, and writes the datagram to the shared
  buffer at once, while the completion handler runs later. A label \<open>Completed\<close> has the payloads
  that the datagram handler was given.
\<close>

datatype udp_event = Arrived bytes | ReceiveFailed string | Completed "bytes list" | StopCalled

definition store_datagram :: "bytes \<Rightarrow> bytes \<Rightarrow> bytes" where
  "store_datagram d buffer = take (length buffer) d @ drop (length d) buffer"

definition handed :: "receive_error option \<times> nat \<Rightarrow> 'w udp_receiver \<Rightarrow> bytes list" where
  "handed c s = (if ur_open s \<and> fst c = None \<and> 0 < snd c then [take (snd c) (ur_buffer s)] else [])"

inductive udp_step :: "(bytes \<Rightarrow> 'w \<Rightarrow> 'w \<times> bool) \<Rightarrow> 'w udp_receiver \<Rightarrow> udp_event \<Rightarrow> 'w udp_receiver \<Rightarrow> bool" for handler where
  udp_arrive: "\<lbrakk>ur_outstanding s = Suc k; ur_open s\<rbrakk> \<Longrightarrow> udp_step handler s (Arrived d)
     (s\<lparr>ur_outstanding := k, ur_buffer := store_datagram d (ur_buffer s),
        ur_completions := ur_completions s @ [(None, min (length d) (length (ur_buffer s)))]\<rparr>)"
| udp_fail: "\<lbrakk>ur_outstanding s = Suc k; ur_open s\<rbrakk> \<Longrightarrow> udp_step handler s (ReceiveFailed message)
     (s\<lparr>ur_outstanding := k, ur_completions := ur_completions s @ [(Some (ReceiveError message), 0)]\<rparr>)"
| udp_complete: "ur_completions s = c # cs \<Longrightarrow> udp_step handler s (Completed (handed c s))
     (on_received handler (fst c) (snd c) (s\<lparr>ur_completions := cs\<rparr>))"
| udp_stop: "udp_step handler s StopCalled (stop_udp s)"

inductive_cases udp_stepE: "udp_step handler s e t"
inductive_simps closed_step: "udp_step handler s (Completed ps) t"

fun arrived :: "udp_event list \<Rightarrow> bytes list" where
  "arrived [] = []"
| "arrived (Arrived d # es) = (if d = [] then [] else [take buffer_size d]) @ arrived es"
| "arrived (_ # es) = arrived es"

fun delivered :: "udp_event list \<Rightarrow> bytes list" where
  "delivered [] = []"
| "delivered (Completed ps # es) = ps @ delivered es"
| "delivered (_ # es) = delivered es"

lemma arrived_append [simp]: "arrived (es @ fs) = arrived es @ arrived fs"
  by (induction es rule: arrived.induct) auto

lemma delivered_append [simp]: "delivered (es @ fs) = delivered es @ delivered fs"
  by (induction es rule: delivered.induct) auto

section \<open>One receive at a time\<close>

definition udp_inv :: "'w udp_receiver \<Rightarrow> bool" where
  "udp_inv s \<longleftrightarrow> length (ur_buffer s) = buffer_size
     \<and> ur_outstanding s + length (ur_completions s) \<le> 1
     \<and> (ur_open s \<longrightarrow> ur_outstanding s + length (ur_completions s) = 1
          \<and> Some OperationAborted \<notin> fst ` set (ur_completions s))
     \<and> (\<not> ur_open s \<longrightarrow> ur_outstanding s = 0)"

text \<open>The payload in the buffer whose completion handler has not run.\<close>

definition waiting :: "'w udp_receiver \<Rightarrow> bytes list" where
  "waiting s = (case ur_completions s of [] \<Rightarrow> [] | c # _ \<Rightarrow> handed c s)"

lemma start_udp_inv: "new_receiver asio host port w = Inr s \<Longrightarrow> udp_inv (start_udp s)"
  by (auto simp: new_receiver_def res_bind_Inr_iff start_udp_def armReceive_def udp_inv_def)

lemma buffer_size_pos: "0 < buffer_size"
  by (simp add: buffer_size_def)

lemma length_store_datagram [simp]: "length (store_datagram d buffer) = length buffer"
  by (simp add: store_datagram_def)

lemma take_store_datagram [simp]:
  "take (min (length d) (length buffer)) (store_datagram d buffer) = take (length buffer) d"
  by (simp add: store_datagram_def min_def)

lemma deliver_fields:
  "ur_buffer (deliver handler n s) = ur_buffer s"
  "ur_world (deliver handler n s) = fst (handler (take n (ur_buffer s)) (ur_world s))"
  "ur_open s \<Longrightarrow> ur_open (deliver handler n s) \<longleftrightarrow> \<not> snd (handler (take n (ur_buffer s)) (ur_world s))"
  "ur_outstanding s = 0 \<Longrightarrow> ur_outstanding (deliver handler n s) = 0"
  "ur_outstanding s = 0 \<Longrightarrow> ur_completions (deliver handler n s) = ur_completions s"
  by (auto simp: deliver_def stop_udp_def split: prod.splits)

lemma arm_fields [simp]:
  "ur_buffer (armReceive s) = ur_buffer s"
  "ur_world (armReceive s) = ur_world s"
  "ur_open (armReceive s) = ur_open s"
  by (simp_all add: armReceive_def)

lemma armed_inv:
  "ur_outstanding s = 0 \<Longrightarrow> ur_completions s = [] \<Longrightarrow> length (ur_buffer s) = buffer_size \<Longrightarrow> udp_inv (armReceive s)"
  by (simp add: armReceive_def udp_inv_def)

text \<open>What the completion handler does, by the kind of its result.\<close>

lemma on_received_cases:
  assumes "udp_inv s" and "ur_completions s = c # cs"
  obtains (closed) "\<not> ur_open s" "on_received handler (fst c) (snd c) (s\<lparr>ur_completions := cs\<rparr>) = s\<lparr>ur_completions := []\<rparr>"
    | (error) log where "fst c \<noteq> None" "ur_open s"
        "on_received handler (fst c) (snd c) (s\<lparr>ur_completions := cs\<rparr>)
           = armReceive (s\<lparr>ur_completions := [], ur_log := log\<rparr>)"
    | (data) n where "c = (None, n)" "ur_open s"
        "on_received handler (fst c) (snd c) (s\<lparr>ur_completions := cs\<rparr>)
           = armReceive (if 0 < n then deliver handler n (s\<lparr>ur_completions := []\<rparr>) else s\<lparr>ur_completions := []\<rparr>)"
proof -
  from assms have cs: "cs = []" by (auto simp: udp_inv_def)
  show thesis
  proof (cases "ur_open s")
    case False
    then show thesis using closed cs by (simp add: on_received_def)
  next
    case True
    then have "fst c \<noteq> Some OperationAborted" using assms by (auto simp: udp_inv_def image_iff)
    then show thesis using True cs error data
      by (cases c; cases "fst c"; cases "the (fst c)") (auto simp: on_received_def)
  qed
qed

lemma idle: "udp_inv s \<Longrightarrow> ur_completions s = c # cs \<Longrightarrow> ur_outstanding s = 0 \<and> length (ur_buffer s) = buffer_size"
  by (auto simp: udp_inv_def)

lemma udp_step_inv: "udp_inv s \<Longrightarrow> udp_step handler s e t \<Longrightarrow> udp_inv t"
proof (erule udp_stepE)
  fix c cs
  assume inv: "udp_inv s" and cs: "ur_completions s = c # cs"
    and t: "t = on_received handler (fst c) (snd c) (s\<lparr>ur_completions := cs\<rparr>)"
  note i = idle [OF inv cs]
  show "udp_inv t" unfolding t
  proof (rule on_received_cases [OF inv cs, of handler])
    assume "\<not> ur_open s" and r: "on_received handler (fst c) (snd c) (s\<lparr>ur_completions := cs\<rparr>) = s\<lparr>ur_completions := []\<rparr>"
    with inv show "udp_inv (on_received handler (fst c) (snd c) (s\<lparr>ur_completions := cs\<rparr>))"
      by (simp add: udp_inv_def)
  qed (use i in \<open>auto simp: deliver_fields intro!: armed_inv\<close>)
qed (auto simp: udp_inv_def stop_udp_def)

text \<open>A closed receiver runs what is queued and nothing else.\<close>

fun handlers_run :: "udp_event list \<Rightarrow> nat" where
  "handlers_run [] = 0"
| "handlers_run (Completed ps # es) = Suc (handlers_run es)"
| "handlers_run (_ # es) = handlers_run es"

lemma closed_run:
  "run (udp_step handler) s es t \<Longrightarrow> udp_inv s \<Longrightarrow> \<not> ur_open s \<Longrightarrow>
     arrived es = [] \<and> delivered es = [] \<and> \<not> ur_open t \<and> ur_world t = ur_world s \<and> handlers_run es \<le> length (ur_completions s)"
proof (induction rule: run.induct)
  case (run_Cons s e t es u)
  from run_Cons.hyps(1) run_Cons.prems have "arrived [e] = [] \<and> delivered [e] = [] \<and> \<not> ur_open t
    \<and> ur_world t = ur_world s \<and> handlers_run [e] + length (ur_completions t) \<le> length (ur_completions s)"
    by (cases rule: udp_step.cases) (auto simp: on_received_def stop_udp_def handed_def)
  with run_Cons.IH [OF udp_step_inv [OF run_Cons.prems(1) run_Cons.hyps(1)]] show ?case
    by (cases e) auto
qed simp

interpretation receiving: inductive_invariant "udp_step handler"
    "\<lambda>s. \<exists>s0. new_receiver asio host port w = Inr s0 \<and> s = start_udp s0" udp_inv for handler asio host port w
  by unfold_locales (auto intro: start_udp_inv udp_step_inv)

section \<open>What the datagram handler is given\<close>

text \<open>A step of an open receiver: what waited or arrived is handed over, waits, or is dropped by the closing.\<close>

lemma open_step:
  assumes "udp_inv s" and "ur_open s" and "udp_step handler s e t"
  shows "\<exists>rest. waiting s @ arrived [e] = delivered [e] @ rest \<and> (ur_open t \<longrightarrow> rest = waiting t)"
  using assms(3)
proof (cases rule: udp_step.cases)
  case (udp_arrive k d)
  with assms show ?thesis using take_store_datagram [of d "ur_buffer s"] buffer_size_pos
    by (auto simp del: take_store_datagram simp: udp_inv_def waiting_def handed_def)
next
  case (udp_fail k m)
  with assms show ?thesis by (auto simp: udp_inv_def waiting_def handed_def)
next
  case (udp_complete c cs)
  from idle [OF assms(1) udp_complete(3)] have "ur_outstanding s = 0" by simp
  moreover from assms(1) udp_complete(3) have "cs = []" by (auto simp: udp_inv_def)
  ultimately have "ur_open t \<Longrightarrow> waiting t = []" unfolding udp_complete(2)
    by (rule_tac on_received_cases [OF assms(1) udp_complete(3), of handler])
      (auto simp: waiting_def armReceive_def deliver_fields)
  then show ?thesis using udp_complete by (auto simp: waiting_def)
next
  case udp_stop
  then show ?thesis by (auto simp: stop_udp_def assms(2))
qed

lemma step_world:
  assumes "udp_inv s" and "udp_step handler s e t"
  shows "ur_world t = fold (\<lambda>p w. fst (handler p w)) (delivered [e]) (ur_world s)"
  using assms(2)
proof (cases rule: udp_step.cases)
  case (udp_complete c cs)
  show ?thesis unfolding udp_complete(1,2)
    by (rule on_received_cases [OF assms(1) udp_complete(3), of handler])
      (auto simp: handed_def deliver_fields)
qed (auto simp: stop_udp_def)

lemma run_history:
  "run (udp_step handler) s es t \<Longrightarrow> udp_inv s \<Longrightarrow> ur_open s \<Longrightarrow>
     \<exists>rest. waiting s @ arrived es = delivered es @ rest \<and> (ur_open t \<longrightarrow> rest = waiting t)"
proof (induction rule: run.induct)
  case (run_Cons s e t es u)
  from open_step [OF run_Cons.prems run_Cons.hyps(1)] obtain r
    where r: "waiting s @ arrived [e] = delivered [e] @ r" "ur_open t \<longrightarrow> r = waiting t" by blast
  have inv: "udp_inv t" using run_Cons.prems(1) run_Cons.hyps(1) by (rule udp_step_inv)
  have split: "arrived (e # es) = arrived [e] @ arrived es" "delivered (e # es) = delivered [e] @ delivered es"
    by (cases e; simp)+
  show ?case
  proof (cases "ur_open t")
    case True
    from run_Cons.IH [OF inv True] obtain q
      where "waiting t @ arrived es = delivered es @ q" "ur_open u \<longrightarrow> q = waiting u" by blast
    then show ?thesis using r True unfolding split by (metis append.assoc)
  next
    case False
    from closed_run [OF run_Cons.hyps(2) inv False] show ?thesis using r(1) unfolding split by auto
  qed
qed simp

lemma run_world:
  "run (udp_step handler) s es t \<Longrightarrow> udp_inv s \<Longrightarrow>
     ur_world t = fold (\<lambda>p w. fst (handler p w)) (delivered es) (ur_world s)"
proof (induction rule: run.induct)
  case (run_Cons s e t es u)
  have "delivered (e # es) = delivered [e] @ delivered es" by (cases e) simp_all
  then show ?case using run_Cons.IH [OF udp_step_inv [OF run_Cons.prems run_Cons.hyps(1)]]
    by (simp add: step_world [OF run_Cons.prems run_Cons.hyps(1)])
qed simp

text \<open>
  C19: From the start of a receiver, in every order of arrivals, failures, completion handlers and
  stops, with a datagram handler that may itself stop the receiver: the payloads handed over are
  the nonempty datagrams in the order of arrival, unaltered though all share one buffer; while the
  socket is open none is lost, exactly one receive is pending, and only one that has arrived may
  still wait; the world has seen these payloads and no other.
\<close>

theorem datagrams_in_order:
  assumes "new_receiver asio host port w = Inr s0" and "run (udp_step handler) (start_udp s0) es t"
  shows "(\<exists>dropped. arrived es = delivered es @ dropped \<and> (ur_open t \<longrightarrow> dropped = waiting t))
    \<and> ur_world t = fold (\<lambda>p w. fst (handler p w)) (delivered es) w
    \<and> ur_outstanding t + length (ur_completions t) \<le> 1
    \<and> (ur_open t \<longrightarrow> ur_outstanding t + length (ur_completions t) = 1)"
proof -
  have s: "udp_inv (start_udp s0)" "ur_open (start_udp s0)" "waiting (start_udp s0) = []" "ur_world (start_udp s0) = w"
    using start_udp_inv [OF assms(1)] assms(1)
    by (auto simp: new_receiver_def res_bind_Inr_iff start_udp_def armReceive_def waiting_def)
  from receiving.run_inv [OF assms(2) s(1)] have "udp_inv t" .
  then show ?thesis using run_history [OF assms(2) s(1,2)] run_world [OF assms(2) s(1)]
    by (simp add: s udp_inv_def)
qed

definition sample_asio :: "string asio_ops" where
  "sample_asio = \<lparr>as_make_address = Inr, as_to_string = id, as_is_multicast = (\<lambda>a. take 3 a = ''224''),
     as_open_v4 = Inr (), as_set_option = (\<lambda>_. Inr ()),
     as_bind = (\<lambda>e. case e of AnyAddress _ \<Rightarrow> Inr ()
       | LocalAddress a _ \<Rightarrow> if a = ''0.0.0.0'' then Inr () else Inl ''bind: Cannot assign requested address''),
     as_send_to = (\<lambda>_ _ _. None)\<rparr>"

definition collect :: "bytes \<Rightarrow> bytes list \<Rightarrow> bytes list \<times> bool" where
  "collect d ds = (ds @ [d], False)"

definition sample_receiver :: "bytes list udp_receiver" where
  "sample_receiver = \<lparr>ur_open = True, ur_buffer = replicate buffer_size 0, ur_outstanding = 0,
     ur_completions = [], ur_world = [], ur_log = []\<rparr>"

lemma sample_receiver_new: "new_receiver sample_asio ''0.0.0.0'' 4840 [] = Inr sample_receiver"
  by (simp add: new_receiver_def sample_asio_def sample_receiver_def)

lemma sample_arrival: "\<exists>t. run (udp_step collect) (start_udp sample_receiver) [Arrived [1, 2], Completed [[1, 2]]] t"
proof -
  let ?s = "(start_udp sample_receiver)\<lparr>ur_outstanding := 0,
      ur_buffer := store_datagram [1, 2] (replicate buffer_size 0), ur_completions := [(None, 2)]\<rparr>"
  have "udp_step collect (start_udp sample_receiver) (Arrived [1, 2]) ?s"
    using udp_arrive [of "start_udp sample_receiver" 0 collect "[1, 2]"]
    by (simp add: start_udp_def armReceive_def sample_receiver_def buffer_size_def numeral_2_eq_2)
  moreover have "udp_step collect ?s (Completed [[1, 2]])
      (on_received collect None 2 (?s\<lparr>ur_completions := []\<rparr>))"
    using udp_complete [of ?s "(None, 2)" "[]" collect]
    by (simp add: handed_def start_udp_def armReceive_def sample_receiver_def store_datagram_def buffer_size_def)
  ultimately show ?thesis by (blast intro: run_Cons run_Nil)
qed

lemma datagrams_in_order_witness:
  "\<exists>t. run (udp_step collect) (start_udp sample_receiver) [Arrived [1, 2], Completed [[1, 2]]] t
     \<and> ur_world t = [[1, 2]]"
proof -
  from sample_arrival obtain t
    where t: "run (udp_step collect) (start_udp sample_receiver) [Arrived [1, 2], Completed [[1, 2]]] t" ..
  from datagrams_in_order [OF sample_receiver_new t] t show ?thesis by (auto simp: collect_def)
qed

text \<open>
  The engine starts a receiver once. With two receives pending the buffer is shared: a datagram
  that arrives before the handler of the one before has run takes its place.
\<close>

lemma two_receives_mix:
  "\<exists>t. run (udp_step collect) (start_udp (start_udp sample_receiver))
     [Arrived [1], Arrived [2], Completed [[2]], Completed [[2]]] t"
proof -
  let ?s0 = "start_udp (start_udp sample_receiver)"
  define s1 where "s1 = ?s0\<lparr>ur_outstanding := 1, ur_buffer := store_datagram [1] (replicate buffer_size 0),
    ur_completions := [(None, 1)]\<rparr>"
  define s2 where "s2 = s1\<lparr>ur_outstanding := 0, ur_buffer := store_datagram [2] (ur_buffer s1),
    ur_completions := [(None, 1), (None, 1)]\<rparr>"
  have "udp_step collect ?s0 (Arrived [1]) s1" unfolding s1_def
    using udp_arrive [of ?s0 1 collect "[1]"]
    by (simp add: start_udp_def armReceive_def sample_receiver_def buffer_size_def)
  moreover have "udp_step collect s1 (Arrived [2]) s2" unfolding s2_def
    using udp_arrive [of s1 0 collect "[2]"]
    by (simp add: s1_def start_udp_def armReceive_def sample_receiver_def buffer_size_def)
  moreover define s3 where "s3 = on_received collect None 1 (s2\<lparr>ur_completions := [(None, 1)]\<rparr>)"
  have "udp_step collect s2 (Completed [[2]]) s3" unfolding s3_def
    using udp_complete [of s2 "(None, 1)" "[(None, 1)]" collect]
    by (simp add: s2_def s1_def handed_def start_udp_def armReceive_def sample_receiver_def
        store_datagram_def buffer_size_def)
  moreover have "udp_step collect s3 (Completed [[2]]) (on_received collect None 1 (s3\<lparr>ur_completions := []\<rparr>))"
    using udp_complete [of s3 "(None, 1)" "[]" collect]
    by (simp add: s3_def s2_def s1_def handed_def start_udp_def armReceive_def sample_receiver_def
        on_received_def deliver_def collect_def store_datagram_def buffer_size_def)
  ultimately show ?thesis by (blast intro: run_Cons run_Nil)
qed

text \<open>After a stop nothing is handed over, the world stays, and one handler at most still runs.\<close>

lemma stopped_silent:
  assumes "new_receiver asio host port w = Inr s0" and "run (udp_step handler) (start_udp s0) es s"
    and "run (udp_step handler) (stop_udp s) fs t"
  shows "delivered fs = [] \<and> ur_world t = ur_world s \<and> handlers_run fs \<le> 1"
proof -
  from receiving.run_inv [OF assms(2) start_udp_inv [OF assms(1)]] have inv: "udp_inv s" .
  then have "udp_inv (stop_udp s)" by (rule udp_step_inv) (rule udp_stop)
  moreover from this have "length (ur_completions (stop_udp s)) \<le> 1" by (simp add: udp_inv_def)
  ultimately show ?thesis using closed_run [OF assms(3)] by (fastforce simp: stop_udp_def split: if_splits)
qed

section \<open>The engine on these sockets\<close>

text \<open>
  A unicast listen address is bound itself: one that is not local refuses the receiver, and the
  engine stays as it was. A multicast address is joined instead, and binds the port alone.
\<close>

lemma refused_address:
  assumes "as_make_address asio host = Inr a" and "\<not> as_is_multicast asio a"
    and "as_open_v4 asio = Inr ()" and "as_set_option asio (ReuseAddress True) = Inr ()"
    and "as_bind asio (LocalAddress a port) = Inl e" and "map_of (en_receivers s) (host, port) = None"
  shows "acquireReceiver (asio_udp asio) host port armImmediately s = (s, Inl e)"
  using assms by (simp add: acquireReceiver_def asio_udp_def new_receiver_def)

lemma receiver_error_iff:
  "udp_receiver_error (asio_udp asio) host port = None \<longleftrightarrow> (\<exists>s. new_receiver asio host port w = Inr s)"
  by (auto simp: asio_udp_def new_receiver_def res_bind_def split: sum.splits if_splits)

text \<open>So the engine holds a receiver for an address exactly when these sockets give one.\<close>

lemma acquired_receiver:
  assumes "map_of (en_receivers s) (host, port) = None"
    and "acquireReceiver (asio_udp asio) host port armImmediately s = (t, Inr u)"
  shows "\<exists>r. new_receiver asio host port w = Inr r"
  using assms receiver_error_iff [of asio host port w]
  by (simp add: acquireReceiver_def split: option.splits)

end
