(* ===== verification/FormulaText.thy ===== *)
theory FormulaText
  imports PubSubConfiguration NodeManager
begin

text \<open>
  The text side of the calculated variables (the upper part of CalculatedVariablesEngine.cpp): the
  replacement of special characters, the cutting of an object address, and the elaboration of the
  dollar expressions of a formula. A loop of the source that need not end is a partial function, whose
  value \<open>None\<close> says that the call does not return.
\<close>

section \<open>Replacing\<close>

text \<open>\<open>std::string::find\<close> from the start, and the loop of \<open>replaceAll\<close>.\<close>

fun find_string :: "string \<Rightarrow> string \<Rightarrow> nat option" where
  "find_string needle [] = (if needle = [] then Some 0 else None)"
| "find_string needle (c # cs) = (if take (length needle) (c # cs) = needle then Some 0
     else map_option Suc (find_string needle cs))"

partial_function (option) replaceAll :: "string \<Rightarrow> string \<Rightarrow> string \<Rightarrow> string option" where
  "replaceAll replica old new = (case find_string old replica of
       None \<Rightarrow> Some replica
     | Some pos \<Rightarrow> replaceAll (take pos replica @ new @ drop (pos + length old) replica) old new)"

definition backslash :: char where "backslash = CHR 0x5C"

definition DashSignVariableRepr :: string where "DashSignVariableRepr = ''__dash__''"
definition SlashSignVariableRepr :: string where "SlashSignVariableRepr = ''__slash__''"

definition escapeSpecialCharactersInFormula :: "string \<Rightarrow> string option" where
  "escapeSpecialCharactersInFormula inputFormula =
     Option.bind (replaceAll inputFormula [backslash, CHR ''-''] DashSignVariableRepr) (\<lambda>dashReplaced.
       replaceAll dashReplaced [backslash, CHR ''/''] SlashSignVariableRepr)"

definition escapeSpecialCharactersInParserVariableName :: "string \<Rightarrow> string option" where
  "escapeSpecialCharactersInParserVariableName input =
     Option.bind (replaceAll input ''-'' DashSignVariableRepr) (\<lambda>dashReplaced.
       replaceAll dashReplaced ''/'' SlashSignVariableRepr)"

section \<open>Cutting an address\<close>

text \<open>\<open>rfind\<close> with a last position, where \<open>None\<close> is \<open>npos\<close>.\<close>

definition rfind_from :: "char \<Rightarrow> string \<Rightarrow> nat option \<Rightarrow> nat option" where
  "rfind_from c s limit = (case limit of None \<Rightarrow> rfind c s | Some p \<Rightarrow> rfind c (take (Suc p) s))"

fun cut_levels :: "string \<Rightarrow> nat option \<Rightarrow> nat \<Rightarrow> nat option result" where
  "cut_levels input cutOffIndex 0 = Inr cutOffIndex"
| "cut_levels input cutOffIndex (Suc levels) = (case rfind_from (CHR ''.'') input cutOffIndex of
       None \<Rightarrow> Inl ''Not enough levels to go up!''
     | Some i \<Rightarrow> if levels = 0 then Inr (Some i)
         else if i = 0 then Inl ''Not enough levels to go up!''
         else cut_levels input (Some (i - 1)) levels)"

definition elaborateParent :: "string \<Rightarrow> nat \<Rightarrow> string result" where
  "elaborateParent input levels = res_bind (cut_levels input None levels) (\<lambda>cutOffIndex.
     Inr (case cutOffIndex of None \<Rightarrow> input | Some i \<Rightarrow> take i input))"

section \<open>Dollar expressions\<close>

text \<open>
  The regular expression of the source: a dollar, a longest run of letters, digits and underscores,
  and, when the text goes on so, an argument in parentheses.
\<close>

definition is_word_char :: "char \<Rightarrow> bool" where
  "is_word_char c \<longleftrightarrow> (let n = of_char c :: nat in 48 \<le> n \<and> n \<le> 57 \<or> 65 \<le> n \<and> n \<le> 90 \<or> 97 \<le> n \<and> n \<le> 122 \<or> n = 95)"

definition is_argument_char :: "char \<Rightarrow> bool" where
  "is_argument_char c \<longleftrightarrow> c \<notin> {CHR '' '', CHR 0x0D, CHR 0x0A, CHR 0x09, CHR ''('', CHR '')''}"

type_synonym dollar_match = "string \<times> string option \<times> nat"

definition match_argument :: "string \<Rightarrow> string option" where
  "match_argument s = (case s of [] \<Rightarrow> None | c # cs \<Rightarrow>
     let argument = takeWhile is_argument_char cs in
     if c = CHR ''('' \<and> argument \<noteq> [] \<and> take 1 (drop (length argument) cs) = '')'' then Some argument else None)"

definition match_dollar :: "string \<Rightarrow> dollar_match option" where
  "match_dollar s = (case s of [] \<Rightarrow> None | c # cs \<Rightarrow>
     let operation = takeWhile is_word_char cs in
     if c \<noteq> CHR ''$'' \<or> operation = [] then None
     else case match_argument (drop (length operation) cs) of
         None \<Rightarrow> Some (operation, None, Suc (length operation))
       | Some argument \<Rightarrow> Some (operation, Some argument, length operation + length argument + 3))"

fun search_dollar :: "string \<Rightarrow> (nat \<times> dollar_match) option" where
  "search_dollar [] = None"
| "search_dollar (c # cs) = (case match_dollar (c # cs) of
       Some m \<Rightarrow> Some (0, m)
     | None \<Rightarrow> map_option (\<lambda>(pos, m). (Suc pos, m)) (search_dollar cs))"

text \<open>\<open>std::stoi\<close> throws above the largest \<open>int\<close>.\<close>

definition numLevelsUp_prefix :: string where "numLevelsUp_prefix = ''numLevelsUp=''"

definition levels_argument :: "string \<Rightarrow> string option" where
  "levels_argument argument = (let digits = drop (length numLevelsUp_prefix) argument in
     if take (length numLevelsUp_prefix) argument = numLevelsUp_prefix \<and> digits \<noteq> [] \<and> list_all is_digit digits
     then Some digits else None)"

definition parent_address :: "string \<Rightarrow> string \<Rightarrow> string result" where
  "parent_address parentObjectAddress argument = (case levels_argument argument of
       None \<Rightarrow> Inl ''Argument did not fit the expected syntax, for example: $parentObjectAddress(numLevelsUp=2)''
     | Some digits \<Rightarrow> if 2147483647 < decimal_value digits then Inl ''stoi''
         else elaborateParent parentObjectAddress (decimal_value digits))"

type_synonym generic_formulas = "(string \<times> string) list"

definition expand_dollar :: "generic_formulas \<Rightarrow> string \<Rightarrow> string \<Rightarrow> string \<Rightarrow> string option \<Rightarrow> string result option" where
  "expand_dollar generics parentObjectAddress matched operation argument =
     (if operation = ''_'' \<or> operation = ''thisObjectAddress'' then
        (if argument \<noteq> None then Some (Inl (''$'' @ operation @ '' expression does not take arguments!''))
         else map_option Inr (escapeSpecialCharactersInParserVariableName parentObjectAddress))
      else if operation = ''applyGenericFormula'' then Some (case argument of
          None \<Rightarrow> Inl ''$applyGenericFormula expects a single argument -- formula id''
        | Some formulaId \<Rightarrow> (case map_of generics formulaId of
            None \<Rightarrow> Inl (''Generic Formula id='' @ quoted formulaId @ '' was referenced but never declared.'')
          | Some formula \<Rightarrow> Inr formula))
      else if operation = ''parentObjectAddress'' then (case argument of
          None \<Rightarrow> Some (Inl (''$'' @ operation @ '' expression requires an argument''))
        | Some a \<Rightarrow> (case parent_address parentObjectAddress a of
            Inl e \<Rightarrow> Some (Inl e)
          | Inr address \<Rightarrow> map_option Inr (escapeSpecialCharactersInParserVariableName address)))
      else Some (Inl (''Invalid dollar expression: '' @ matched)))"

partial_function (option) elaborate_loop :: "generic_formulas \<Rightarrow> string \<Rightarrow> string \<Rightarrow> string result option" where
  "elaborate_loop generics parentObjectAddress formulaInWork = (case search_dollar formulaInWork of
       None \<Rightarrow> Some (Inr formulaInWork)
     | Some (pos, operation, argument, len) \<Rightarrow>
         Option.bind (expand_dollar generics parentObjectAddress (take len (drop pos formulaInWork)) operation argument)
           (\<lambda>r. case r of
              Inl e \<Rightarrow> Some (Inl e)
            | Inr expansion \<Rightarrow> elaborate_loop generics parentObjectAddress
                (take pos formulaInWork @ expansion @ drop (pos + len) formulaInWork)))"

definition elaborateFormula :: "generic_formulas \<Rightarrow> string \<Rightarrow> string \<Rightarrow> string result option" where
  "elaborateFormula generics rawFormula parentObjectAddress =
     Option.bind (elaborate_loop generics parentObjectAddress rawFormula) (\<lambda>r. case r of
         Inl e \<Rightarrow> Some (Inl e)
       | Inr formula \<Rightarrow> map_option Inr (escapeSpecialCharactersInFormula formula))"

end
