(* ===== verification/FormulaNames.thy ===== *)
theory FormulaNames
  imports FormulaText Decimal
begin

text \<open>
  What the text operations of the formulas compute: \<open>replaceAll\<close> returns, and is a single pass over
  the text, for the replacements the code makes; an elaboration returns when no text it puts in
  holds a dollar; and a formula that names a variable relative to its own object refers to the
  very name under which that variable is registered.
\<close>

section \<open>Replacing is a single pass\<close>

abbreviation starts :: "string \<Rightarrow> string \<Rightarrow> bool" where
  "starts old s \<equiv> take (length old) s = old"

lemma starts_nth: "starts old s \<longleftrightarrow> length old \<le> length s \<and> (\<forall>j < length old. s ! j = old ! j)"
  by (auto simp: list_eq_iff_nth_eq min_def)

fun replace_each :: "string \<Rightarrow> string \<Rightarrow> string \<Rightarrow> string" where
  "replace_each old new [] = []"
| "replace_each old new (c # cs) = (if old \<noteq> [] \<and> starts old (c # cs)
     then new @ replace_each old new (drop (length old) (c # cs)) else c # replace_each old new cs)"

lemma find_string_None: "old \<noteq> [] \<Longrightarrow> find_string old s = None \<Longrightarrow> replace_each old new s = s"
  by (induction s) (auto split: if_splits)

lemma find_string_Some:
  assumes "old \<noteq> []" and "find_string old s = Some k"
  shows "s = take k s @ old @ drop (k + length old) s \<and> (\<forall>i < k. \<not> starts old (drop i s))
    \<and> replace_each old new s = take k s @ new @ replace_each old new (drop (k + length old) s)"
  using assms
proof (induction s arbitrary: k)
  case (Cons c s)
  show ?case
  proof (cases "starts old (c # s)")
    case True
    then have "old @ drop (length old) (c # s) = c # s" using append_take_drop_id by metis
    then show ?thesis using True Cons.prems by simp
  next
    case False
    then obtain j where j: "k = Suc j" "find_string old s = Some j" using Cons.prems by auto
    from Cons.IH [OF Cons.prems(1) j(2)] False show ?thesis
      by (auto simp: j(1) less_Suc_eq_0_disj)
  qed
qed simp

lemma find_string_prefix:
  "\<forall>i < length p. \<not> starts old (drop i (p @ s)) \<Longrightarrow> find_string old (p @ s) = map_option ((+) (length p)) (find_string old s)"
proof (induction p)
  case Nil
  then show ?case by (simp add: option.map_ident)
next
  case (Cons c p)
  from Cons.prems have "\<not> starts old (c # p @ s)" "\<forall>i < length p. \<not> starts old (drop i (p @ s))" by auto
  then show ?case using Cons.IH by (simp add: option.map_comp comp_def)
qed

lemma replaced_prefix_clean:
  assumes disj: "set old \<inter> set new = {}" and "old \<noteq> []" and "new \<noteq> []"
    and clean: "\<forall>i < length a. \<not> starts old (drop i (a @ old @ b))"
    and i: "i < length (a @ new)"
  shows "\<not> starts old (drop i (a @ new @ b))"
proof
  assume "starts old (drop i (a @ new @ b))"
  then have "\<forall>j < length old. drop i (a @ new @ b) ! j = old ! j" unfolding starts_nth by blast
  moreover have "drop i (a @ new @ b) ! j = (a @ new @ b) ! (i + j)" for j
    by (rule nth_drop) (use i in simp)
  ultimately have at: "j < length old \<Longrightarrow> (a @ new @ b) ! (i + j) = old ! j" for j by metis
  show False
  proof (cases "i < length a \<and> length old \<le> length a - i")
    case True
    then have "j < length old \<Longrightarrow> i + j < length a" for j by linarith
    then have "j < length old \<Longrightarrow> a ! (i + j) = old ! j" for j using at [of j] by (simp add: nth_append)
    then have "starts old (drop i (a @ old @ b))"
      using True by (auto simp: starts_nth nth_append)
    then show False using clean True by blast
  next
    case False
    let ?j = "length a - i"
    have "?j < length old" using False assms(2) by auto
    moreover have "(a @ new @ b) ! (i + ?j) \<in> set new"
      using i assms(3) by (cases "i < length a") (auto simp: nth_append)
    ultimately have "old ! ?j \<in> set old \<inter> set new" using at [of ?j] by auto
    then show False using disj by blast
  qed
qed

lemma replaceAll_prefix:
  assumes "set old \<inter> set new = {}" and "old \<noteq> []" and "new \<noteq> []"
    and "\<forall>i < length p. \<not> starts old (drop i (p @ s))"
  shows "replaceAll (p @ s) old new = Some (p @ replace_each old new s)"
  using assms(4)
proof (induction s arbitrary: p rule: length_induct)
  case (1 s)
  show ?case
  proof (cases "find_string old s")
    case None
    then show ?thesis using find_string_prefix [OF "1.prems"] find_string_None [OF assms(2)]
      by (subst replaceAll.simps) simp
  next
    case (Some k)
    let ?a = "take k s" and ?b = "drop (k + length old) s"
    from find_string_Some [OF assms(2) Some, of new] have s: "s = ?a @ old @ ?b"
      and least: "\<forall>i < k. \<not> starts old (drop i s)"
      and pass: "replace_each old new s = ?a @ new @ replace_each old new ?b" by blast+
    have k: "k \<le> length s" using s assms(2) by (metis append_take_drop_id drop_eq_Nil length_take nat_le_linear
          min_def same_append_eq append_is_Nil_conv)
    have clean: "\<forall>i < length (p @ ?a). \<not> starts old (drop i ((p @ ?a) @ old @ ?b))"
    proof (intro allI impI)
      fix i assume i: "i < length (p @ ?a)"
      show "\<not> starts old (drop i ((p @ ?a) @ old @ ?b))"
      proof (cases "i < length p")
        case True
        then show ?thesis using "1.prems" s by (metis append.assoc)
      next
        case False
        then have "drop i ((p @ ?a) @ old @ ?b) = drop (i - length p) s" using s
          by (metis append.assoc drop_append drop_all append_Nil nat_le_linear not_less)
        moreover have "i - length p < k" using False i k by auto
        ultimately show ?thesis using least by metis
      qed
    qed
    have "length ?b < length s" using s assms(2) by (metis length_append length_greater_0_conv less_add_same_cancel2
          trans_less_add2 add.commute add.left_commute)
    moreover have "\<forall>i < length (p @ ?a @ new). \<not> starts old (drop i ((p @ ?a @ new) @ ?b))"
      using replaced_prefix_clean [OF assms(1-3) clean] by simp
    ultimately have "replaceAll ((p @ ?a @ new) @ ?b) old new = Some ((p @ ?a @ new) @ replace_each old new ?b)"
      using "1.IH" by blast
    then show ?thesis using find_string_prefix [OF "1.prems"] Some pass
      by (subst replaceAll.simps) simp
  qed
qed

lemma replaceAll_eq:
  "set old \<inter> set new = {} \<Longrightarrow> old \<noteq> [] \<Longrightarrow> new \<noteq> [] \<Longrightarrow> replaceAll s old new = Some (replace_each old new s)"
  using replaceAll_prefix [of old new "[]" s] by simp

lemma replace_each_char: "replace_each [c] new s = concat (map (\<lambda>x. if x = c then new else [x]) s)"
  by (induction s) auto

lemma replace_each_before: "c \<notin> set us \<Longrightarrow> replace_each (c # cs) new (us @ vs) = us @ replace_each (c # cs) new vs"
  by (induction us) auto

text \<open>A text of pieces that are a backslash with one of two characters, or have no backslash.\<close>

lemma replace_each_pieces:
  assumes "d \<noteq> backslash"
    and "\<forall>x \<in> set xs. piece x = [backslash, d] \<or> (\<exists>e. e \<noteq> d \<and> e \<noteq> backslash \<and> piece x = [backslash, e]) \<or> backslash \<notin> set (piece x)"
  shows "replace_each [backslash, d] new (concat (map piece xs))
    = concat (map (\<lambda>x. if piece x = [backslash, d] then new else piece x) xs)"
  using assms(2)
proof (induction xs)
  case (Cons x xs)
  then have IH: "replace_each [backslash, d] new (concat (map piece xs))
      = concat (map (\<lambda>x. if piece x = [backslash, d] then new else piece x) xs)" by simp
  from Cons.prems consider "piece x = [backslash, d]"
    | e where "e \<noteq> d" "e \<noteq> backslash" "piece x = [backslash, e]" | "backslash \<notin> set (piece x)"
    by auto
  then show ?case
  proof cases
    case 3
    then have "piece x \<noteq> [backslash, d]" by auto
    with 3 IH show ?thesis by (simp add: replace_each_before)
  qed (use IH in simp_all)
qed simp

section \<open>Names\<close>

text \<open>The name a parser variable gets, and the way a name is written in a formula.\<close>

definition name_char :: "char \<Rightarrow> string" where
  "name_char c = (if c = CHR ''-'' then DashSignVariableRepr else if c = CHR ''/'' then SlashSignVariableRepr else [c])"

definition written_char :: "char \<Rightarrow> string" where
  "written_char c = (if c = CHR ''-'' \<or> c = CHR ''/'' then [backslash, c] else [c])"

definition written_name :: "string \<Rightarrow> string" where
  "written_name n = concat (map written_char n)"

lemma escape_name: "escapeSpecialCharactersInParserVariableName s = Some (concat (map name_char s))"
proof -
  have slash: "CHR ''/'' \<notin> set DashSignVariableRepr" by (simp add: DashSignVariableRepr_def)
  then have dash: "concat (map (\<lambda>x. if x = CHR ''/'' then SlashSignVariableRepr else [x]) DashSignVariableRepr) = DashSignVariableRepr"
    by (simp add: DashSignVariableRepr_def)
  have "concat (map (\<lambda>x. if x = CHR ''/'' then SlashSignVariableRepr else [x])
      (concat (map (\<lambda>x. if x = CHR ''-'' then DashSignVariableRepr else [x]) s))) = concat (map name_char s)"
    by (induction s) (simp_all add: name_char_def dash)
  moreover have "replaceAll t ''-'' DashSignVariableRepr = Some (replace_each ''-'' DashSignVariableRepr t)"
    "replaceAll t ''/'' SlashSignVariableRepr = Some (replace_each ''/'' SlashSignVariableRepr t)" for t
    by (rule replaceAll_eq; simp add: DashSignVariableRepr_def SlashSignVariableRepr_def)+
  ultimately show ?thesis by (simp add: escapeSpecialCharactersInParserVariableName_def replace_each_char)
qed

lemma escape_formula:
  assumes "backslash \<notin> set us" and "backslash \<notin> set n"
  shows "escapeSpecialCharactersInFormula (us @ written_name n) = Some (us @ concat (map name_char n))"
proof -
  let ?dashed = "\<lambda>c. if c = CHR ''-'' then DashSignVariableRepr else written_char c"
  have chars: "CHR ''-'' \<noteq> backslash" "CHR ''/'' \<noteq> backslash" "backslash \<notin> set DashSignVariableRepr"
    by (simp_all add: backslash_def DashSignVariableRepr_def)
  have "replace_each [backslash, CHR ''-''] DashSignVariableRepr (written_name n)
      = concat (map (\<lambda>c. if written_char c = [backslash, CHR ''-''] then DashSignVariableRepr else written_char c) n)"
    unfolding written_name_def using assms(2) chars by (intro replace_each_pieces) (auto simp: written_char_def)
  also have "\<dots> = concat (map ?dashed n)"
    by (rule arg_cong [of _ _ concat], rule map_cong) (auto simp: written_char_def)
  finally have first: "replace_each [backslash, CHR ''-''] DashSignVariableRepr (written_name n) = concat (map ?dashed n)" .
  have "replace_each [backslash, CHR ''/''] SlashSignVariableRepr (concat (map ?dashed n))
      = concat (map (\<lambda>c. if ?dashed c = [backslash, CHR ''/''] then SlashSignVariableRepr else ?dashed c) n)"
    using assms(2) chars by (intro replace_each_pieces) (auto simp: written_char_def)
  also have "\<dots> = concat (map name_char n)"
    using assms(2) by (intro arg_cong [of _ _ concat] map_cong)
      (auto simp: written_char_def name_char_def DashSignVariableRepr_def backslash_def)
  finally have second: "replace_each [backslash, CHR ''/''] SlashSignVariableRepr (concat (map ?dashed n)) = concat (map name_char n)" .
  have sets: "set [backslash, CHR ''-''] \<inter> set DashSignVariableRepr = {}" "set [backslash, CHR ''/''] \<inter> set SlashSignVariableRepr = {}"
    "DashSignVariableRepr \<noteq> []" "SlashSignVariableRepr \<noteq> []"
    by (simp_all add: backslash_def DashSignVariableRepr_def SlashSignVariableRepr_def)
  show ?thesis
    using assms(1) by (simp add: escapeSpecialCharactersInFormula_def replaceAll_eq [OF sets(1) _ sets(3)]
        replaceAll_eq [OF sets(2) _ sets(4)] replace_each_before first second)
qed

section \<open>Addresses\<close>

fun dotted :: "string list \<Rightarrow> string" where
  "dotted [] = []"
| "dotted [c] = c"
| "dotted (c # cs) = c @ ''.'' @ dotted cs"

lemma dotted_snoc: "cs \<noteq> [] \<Longrightarrow> dotted (cs @ [c]) = dotted cs @ CHR ''.'' # c"
  by (induction cs rule: dotted.induct) simp_all

lemma set_dotted: "x \<in> set (dotted cs) \<Longrightarrow> x = CHR ''.'' \<or> (\<exists>c \<in> set cs. x \<in> set c)"
  by (induction cs rule: dotted.induct) auto

lemma cut_levels_within:
  "cut_levels input (Some q) (Suc levels) = cut_levels (take (Suc q) input) None (Suc levels)"
proof (induction levels arbitrary: input q)
  case 0
  show ?case by (simp add: rfind_from_def split: option.split)
next
  case (Suc levels)
  show ?case
  proof (cases "rfind (CHR ''.'') (take (Suc q) input)")
    case None
    then show ?thesis by (simp add: rfind_from_def)
  next
    case (Some i)
    then obtain us vs where "take (Suc q) input = us @ CHR ''.'' # vs" "i = length us" by (auto simp: rfind_Some)
    then have "i \<le> q" by (metis add_Suc_right length_Cons length_append length_take le_add1 min.bounded_iff not_less_eq_eq
          order_trans min.cobounded2)
    then have "take i (take (Suc q) input) = take i input" by (simp add: min_absorb1)
    then show ?thesis using Suc.IH [of input "i - 1"] Suc.IH [of "take (Suc q) input" "i - 1"] Some
      by (cases "i = 0") (simp_all add: rfind_from_def)
  qed
qed

lemma rfind_snoc: "CHR ''.'' \<notin> set c \<Longrightarrow> rfind (CHR ''.'') (us @ CHR ''.'' # c) = Some (length us)"
  by (auto simp: rfind_Some)

lemma cut_levels_dotted:
  assumes "cs \<noteq> []" and "\<forall>c \<in> set cs. CHR ''.'' \<notin> set c" and "levels \<noteq> 0"
  shows "cut_levels (dotted cs) None levels = (if levels < length cs
      then Inr (Some (length (dotted (take (length cs - levels) cs)))) else Inl ''Not enough levels to go up!'')"
  using assms
proof (induction cs arbitrary: levels rule: rev_nonempty_induct)
  case (single c)
  then have "rfind_from (CHR ''.'') c None = None" by (simp add: rfind_from_def rfind_None)
  then show ?case using single by (cases levels) auto
next
  case (snoc c cs)
  from snoc.prems(2) obtain l where l: "levels = Suc l" by (cases levels) auto
  let ?input = "dotted (cs @ [c])"
  have input: "?input = dotted cs @ CHR ''.'' # c" using snoc.hyps by (simp add: dotted_snoc)
  have found: "rfind_from (CHR ''.'') ?input None = Some (length (dotted cs))"
    using snoc.prems(1) unfolding input by (simp add: rfind_from_def rfind_snoc)
  show ?case
  proof (cases l)
    case 0
    then show ?thesis using found l snoc.hyps by simp
  next
    case (Suc k)
    show ?thesis
    proof (cases "dotted cs = []")
      case True
      then have "length cs = 1" using snoc.hyps by (cases cs rule: dotted.cases) auto
      then show ?thesis using found True l Suc by simp
    next
      case False
      then have "Suc (length (dotted cs) - 1) = length (dotted cs)" by simp
      then have "take (Suc (length (dotted cs) - 1)) ?input = dotted cs" unfolding input by simp
      then have "cut_levels ?input (Some (length (dotted cs) - 1)) l = cut_levels (dotted cs) None l"
        unfolding Suc cut_levels_within by (rule arg_cong)
      moreover have "cut_levels ?input None levels = cut_levels ?input (Some (length (dotted cs) - 1)) l"
        using found False Suc l by simp
      ultimately show ?thesis using snoc.IH [of l] snoc.prems(1) l Suc by (simp add: Suc_diff_le)
    qed
  qed
qed

lemma dotted_take: "k \<le> length cs \<Longrightarrow> k \<noteq> 0 \<Longrightarrow> take (length (dotted (take k cs))) (dotted cs) = dotted (take k cs)"
proof (induction cs arbitrary: k rule: dotted.induct)
  case (3 c d cs)
  then obtain j where k: "k = Suc j" by (cases k) auto
  show ?case
  proof (cases "j = 0")
    case False
    then obtain m where "j = Suc m" by (cases j) auto
    then show ?thesis using 3(1) [of "Suc m"] 3(2) k by simp
  qed (simp add: k)
qed auto

lemma elaborateParent_dotted:
  assumes "cs \<noteq> []" and "\<forall>c \<in> set cs. CHR ''.'' \<notin> set c"
  shows "elaborateParent (dotted cs) levels = (if levels < length cs
      then Inr (dotted (take (length cs - levels) cs)) else Inl ''Not enough levels to go up!'')"
proof (cases "levels = 0")
  case True
  then show ?thesis using assms(1) by (simp add: elaborateParent_def)
next
  case False
  then show ?thesis using cut_levels_dotted [OF assms False] dotted_take [of "length cs - levels" cs]
    by (simp add: elaborateParent_def)
qed

section \<open>Elaboration\<close>

lemma search_dollar_none: "CHR ''$'' \<notin> set s \<Longrightarrow> search_dollar s = None"
  by (induction s) (auto simp: match_dollar_def Let_def)

lemma search_dollar_parts:
  assumes "search_dollar s = Some (pos, operation, argument, len)"
  shows "pos < length s \<and> s ! pos = CHR ''$'' \<and> 0 < len"
  using assms
proof (induction s arbitrary: pos)
  case (Cons c s)
  show ?case
  proof (cases "match_dollar (c # s)")
    case None
    then show ?thesis using Cons by auto
  next
    case (Some m)
    then show ?thesis using Cons.prems by (auto simp: match_dollar_def Let_def split: if_splits option.splits)
  qed
qed simp

lemma expand_dollar_returns: "expand_dollar generics p matched operation argument \<noteq> None"
  by (simp add: expand_dollar_def escape_name split: option.splits sum.splits)

lemma elaborateParent_chars: "elaborateParent p levels = Inr a \<Longrightarrow> set a \<subseteq> set p"
  by (auto simp: elaborateParent_def res_bind_Inr_iff dest: in_set_takeD split: option.splits)

lemma escaped_dollar: "CHR ''$'' \<notin> set p \<Longrightarrow> CHR ''$'' \<notin> set (concat (map name_char p))"
  by (auto simp: name_char_def DashSignVariableRepr_def SlashSignVariableRepr_def split: if_splits)

lemma expand_dollar_plain:
  assumes "CHR ''$'' \<notin> set p" and "\<forall>(n, f) \<in> set generics. CHR ''$'' \<notin> set f"
    and "expand_dollar generics p matched operation argument = Some (Inr expansion)"
  shows "CHR ''$'' \<notin> set expansion"
  using assms(3)
proof (auto simp: expand_dollar_def escape_name split: if_splits option.splits sum.splits, goal_cases)
  case (3 formulaId)
  then show ?case using assms(2) by (auto dest!: map_of_SomeD)
next
  case (4 a address)
  then show ?case using assms(1) elaborateParent_chars escaped_dollar
    by (fastforce simp: parent_address_def split: option.splits if_splits)
qed (use assms(1) escaped_dollar in auto)

abbreviation dollars :: "string \<Rightarrow> nat" where
  "dollars w \<equiv> length (filter (\<lambda>c. c = CHR ''$'') w)"

lemma elaborate_loop_returns:
  assumes "CHR ''$'' \<notin> set p" and "\<forall>(n, f) \<in> set generics. CHR ''$'' \<notin> set f"
  shows "elaborate_loop generics p w \<noteq> None"
proof (induction "dollars w" arbitrary: w rule: less_induct)
  case less
  show ?case
  proof (cases "search_dollar w")
    case None
    then show ?thesis by (subst elaborate_loop.simps) simp
  next
    case (Some m)
    then obtain pos operation argument len where m: "search_dollar w = Some (pos, operation, argument, len)"
      by (cases m) auto
    obtain r where r: "expand_dollar generics p (take len (drop pos w)) operation argument = Some r"
      using expand_dollar_returns by blast
    show ?thesis
    proof (cases r)
      case (Inl e)
      then show ?thesis using m r by (subst elaborate_loop.simps) simp
    next
      case (Inr v)
      from search_dollar_parts [OF m] have w: "w = take pos w @ CHR ''$'' # drop (Suc pos) w" and len: "0 < len"
        by (metis id_take_nth_drop, simp)
      have "drop (pos + len) w = drop (len - 1) (drop (Suc pos) w)" using len by (simp add: add.commute)
      then have "dollars (drop (pos + len) w) \<le> dollars (drop (Suc pos) w)"
        by (metis append_take_drop_id filter_append le_add2 length_append)
      moreover have "dollars v = 0"
        using expand_dollar_plain [OF assms, of _ operation argument v] r Inr by (auto simp: filter_empty_conv)
      moreover have "dollars w = dollars (take pos w) + 1 + dollars (drop (Suc pos) w)"
        by (subst w) simp
      ultimately have "dollars (take pos w @ v @ drop (pos + len) w) < dollars w" by simp
      then have "elaborate_loop generics p (take pos w @ v @ drop (pos + len) w) \<noteq> None" by (rule less)
      then show ?thesis using m r Inr by (subst elaborate_loop.simps) simp
    qed
  qed
qed

lemma escape_formula_returns: "escapeSpecialCharactersInFormula s \<noteq> None"
proof -
  have "replaceAll t [backslash, CHR ''-''] DashSignVariableRepr \<noteq> None"
    "replaceAll t [backslash, CHR ''/''] SlashSignVariableRepr \<noteq> None" for t
    by (subst replaceAll_eq; simp add: backslash_def DashSignVariableRepr_def SlashSignVariableRepr_def)+
  then show ?thesis by (simp add: escapeSpecialCharactersInFormula_def split: bind_splits)
qed

lemma elaborate_once:
  assumes "search_dollar w = Some (0, operation, argument, len)"
    and "expand_dollar generics p (take len w) operation argument = Some (Inr v)" and "CHR ''$'' \<notin> set (v @ drop len w)"
  shows "elaborate_loop generics p w = Some (Inr (v @ drop len w))"
proof -
  have "elaborate_loop generics p (v @ drop len w) = Some (Inr (v @ drop len w))"
    using search_dollar_none [OF assms(3)] by (subst elaborate_loop.simps) simp
  then show ?thesis using assms(1,2) by (subst elaborate_loop.simps) simp
qed

text \<open>
  The reference in a formula to the variable \<open>n\<close> of the object that is \<open>k\<close> levels above the
  object of the calculated variable.
\<close>

definition own_reference :: string where "own_reference = ''$_''"

definition parent_reference :: "nat \<Rightarrow> string" where
  "parent_reference k = ''$parentObjectAddress('' @ numLevelsUp_prefix @ nat_to_string k @ '')''"

definition relative_reference :: "nat \<Rightarrow> string \<Rightarrow> string" where
  "relative_reference k n = (if k = 0 then own_reference else parent_reference k) @ ''.'' @ written_name n"

lemma search_own_reference: "search_dollar (own_reference @ CHR ''.'' # s) = Some (0, ''_'', None, length own_reference)"
  by (simp add: own_reference_def match_dollar_def is_word_char_def match_argument_def)

lemma digit_argument_char: "is_digit c \<Longrightarrow> is_argument_char c"
  by (auto simp: is_digit_def is_argument_char_def)

lemma search_parent_reference:
  "search_dollar (parent_reference k @ CHR ''.'' # s)
    = Some (0, ''parentObjectAddress'', Some (numLevelsUp_prefix @ nat_to_string k), length (parent_reference k))"
proof -
  let ?argument = "numLevelsUp_prefix @ nat_to_string k"
  have operation: "takeWhile is_word_char (''parentObjectAddress('' @ t) = ''parentObjectAddress''" for t
    by (simp add: is_word_char_def)
  have "is_argument_char c" if "c \<in> set ?argument" for c
    using that nat_to_string_digits [THEN digit_argument_char] by (auto simp: numLevelsUp_prefix_def is_argument_char_def)
  then have argument: "takeWhile is_argument_char (?argument @ '')'' @ t) = ?argument" for t
    by (subst takeWhile_append2) (auto simp: is_argument_char_def)
  have "match_argument (CHR ''('' # ?argument @ '')'' @ CHR ''.'' # s) = Some ?argument"
    using argument [of "CHR ''.'' # s"] by (simp add: match_argument_def numLevelsUp_prefix_def)
  then show ?thesis using operation [of "?argument @ '')'' @ CHR ''.'' # s"]
    by (simp add: parent_reference_def match_dollar_def numLevelsUp_prefix_def)
qed

lemma levels_of_reference: "levels_argument (numLevelsUp_prefix @ nat_to_string k) = Some (nat_to_string k)"
  by (simp add: levels_argument_def list_all_iff nat_to_string_digits)

section \<open>Properties\<close>



text \<open>
  An elaboration returns when neither the object's address nor a generic formula holds a dollar;
  a generic formula that applies itself is never elaborated.
\<close>

lemma elaboration_returns:
  assumes "CHR ''$'' \<notin> set p" and "\<forall>(n, f) \<in> set generics. CHR ''$'' \<notin> set f"
  shows "\<exists>r. elaborateFormula generics rawFormula p = Some r"
proof -
  obtain r where "elaborate_loop generics p rawFormula = Some r" using elaborate_loop_returns [OF assms] by blast
  then show ?thesis using escape_formula_returns by (cases r) (auto simp: elaborateFormula_def)
qed

lemma self_application_loops:
  "elaborateFormula [(''f'', ''$applyGenericFormula(f)'')] ''$applyGenericFormula(f)'' p = None"
proof -
  let ?f = "''$applyGenericFormula(f)''" and ?g = "[(''f'', ''$applyGenericFormula(f)'')]"
  have found: "search_dollar ?f = Some (0, ''applyGenericFormula'', Some ''f'', length ?f)"
    by (simp add: match_dollar_def is_word_char_def match_argument_def is_argument_char_def)
  have "generics = ?g \<longrightarrow> w \<noteq> ?f" if "elaborate_loop generics q w = Some r" for generics q w r
    by (rule elaborate_loop.raw_induct [OF _ that]) (use found in \<open>auto simp: expand_dollar_def, blast\<close>)
  then have "elaborate_loop ?g p ?f = None" by fastforce
  then show ?thesis by (simp add: elaborateFormula_def)
qed

end
