(* ===== verification/CalcVariables.thy ===== *)
theory CalcVariables
  imports FormulaText
begin

text \<open>
  The calculated variables (CalculatedVariables/src and ChangeNotifyingVariable.cpp): variables that
  tell their change listeners of every value, the parser variables that keep a value for the
  formulas, and the variables computed by a formula. The formula parser is muparser, a parameter:
  the names of a formula it asks for, in its order, or an exception, and the value of a formula.
  Variables and parser variables are numbered in the order of their creation; a parser variable
  keeps its number when it is taken off the list of the engine.
\<close>

section \<open>Parser variables, calculated variables\<close>

datatype parser_variable_state = WaitingInitialData | Good | Bad

record parser_variable =
  pv_notifyingVariable :: nat
  pv_name :: string
  pv_value :: f64
  pv_state :: parser_variable_state
  pv_notifiedVariables :: "nat list"
  pv_synchronizer :: "nat option"
  pv_isConstant :: bool

definition new_parser_variable :: "nat \<Rightarrow> string \<Rightarrow> parser_variable" where
  "new_parser_variable variable name = \<lparr>pv_notifyingVariable = variable, pv_name = name, pv_value = 0,
     pv_state = WaitingInitialData, pv_notifiedVariables = [], pv_synchronizer = None, pv_isConstant = False\<rparr>"

record bound_parser =
  bp_formula :: string
  bp_constants :: "(string \<times> f64) list"
  bp_variables :: "(string \<times> nat) list"

record calculated_variable =
  cv_valueParser :: bound_parser
  cv_valueVariables :: "nat list"
  cv_isBoolean :: bool
  cv_hasStatusFormula :: bool
  cv_statusParser :: bound_parser
  cv_statusVariables :: "nat list"
  cv_notifiedVariable :: "nat option"
  cv_autoUpdateEnabled :: bool

record 'v data_value =
  dv_value :: "'v option"
  dv_statusCode :: "32 word"

text \<open>A change listener of this module holds a parser variable; others are of the device logic.\<close>

datatype change_listener = ChangeListener nat | OtherListener

record 'v notifying_variable =
  nv_nodeId :: node_id
  nv_value :: "'v data_value"
  nv_changeListeners :: "change_listener list"
  nv_calculated :: "calculated_variable option"

record 'v calculation =
  ca_variables :: "nat \<Rightarrow> 'v notifying_variable"
  ca_numVariables :: nat
  ca_pvs :: "nat \<Rightarrow> parser_variable"
  ca_numPvs :: nat
  ca_parserVariables :: "nat list"
  ca_parserConstants :: "(string \<times> f64) list"
  ca_genericFormulas :: generic_formulas
  ca_numSynchronizers :: nat
  ca_numCalculatedVariables :: nat
  ca_nodes :: "added_node list"

record mu_ops =
  mu_names :: "string \<Rightarrow> string list option"
  mu_eval :: "string \<Rightarrow> (string \<Rightarrow> f64) \<Rightarrow> f64"

definition OpcUa_Good :: "32 word" where "OpcUa_Good = 0"
definition OpcUa_Bad :: "32 word" where "OpcUa_Bad = 0x80000000"
definition OpcUa_BadWaitingForInitialData :: "32 word" where "OpcUa_BadWaitingForInitialData = 0x80320000"

text \<open>Updates of a field of a parser variable, a variable, a calculated variable.\<close>

definition with_pv :: "nat \<Rightarrow> (parser_variable \<Rightarrow> parser_variable) \<Rightarrow> 'v calculation \<Rightarrow> 'v calculation" where
  "with_pv p g s = s\<lparr>ca_pvs := (ca_pvs s)(p := g (ca_pvs s p))\<rparr>"

definition with_variable :: "nat \<Rightarrow> ('v notifying_variable \<Rightarrow> 'v notifying_variable) \<Rightarrow> 'v calculation \<Rightarrow> 'v calculation" where
  "with_variable v g s = s\<lparr>ca_variables := (ca_variables s)(v := g (ca_variables s v))\<rparr>"

definition with_calculated :: "nat \<Rightarrow> (calculated_variable \<Rightarrow> calculated_variable) \<Rightarrow> 'v calculation \<Rightarrow> 'v calculation" where
  "with_calculated c g = with_variable c (\<lambda>v. v\<lparr>nv_calculated := map_option g (nv_calculated v)\<rparr>)"

section \<open>The flow of a value\<close>

text \<open>\<open>ChangeListener::operator()\<close>: the value and the state that a parser variable takes from a data value.\<close>

definition listener_reading :: "('v, 's, 'b) ua_sdk \<Rightarrow> 'v data_value \<Rightarrow> f64 \<times> parser_variable_state" where
  "listener_reading sdk newValue =
     (if dv_statusCode newValue = OpcUa_BadWaitingForInitialData then (0, WaitingInitialData)
      else if dv_statusCode newValue AND 0x80000000 \<noteq> 0 then (0, Bad)
      else case dv_value newValue of
          None \<Rightarrow> (0, Bad)
        | Some variant \<Rightarrow> if ua_type_of sdk variant = OpcUaType_Null then (0, Bad)
            else (case ua_get (ua_double sdk) variant of Some value \<Rightarrow> (value, Good) | None \<Rightarrow> (0, Bad)))"

definition parser_value :: "'v calculation \<Rightarrow> bound_parser \<Rightarrow> string \<Rightarrow> f64" where
  "parser_value s parser name = (case map_of (bp_constants parser) name of
       Some value \<Rightarrow> value
     | None \<Rightarrow> (case map_of (bp_variables parser) name of Some p \<Rightarrow> pv_value (ca_pvs s p) | None \<Rightarrow> 0))"

definition eval_parser :: "mu_ops \<Rightarrow> 'v calculation \<Rightarrow> bound_parser \<Rightarrow> f64" where
  "eval_parser mu s parser = mu_eval mu (bp_formula parser) (parser_value s parser)"

definition unready_status :: "parser_variable_state \<Rightarrow> 32 word" where
  "unready_status state = (if state = WaitingInitialData then OpcUa_BadWaitingForInitialData else OpcUa_Bad)"

text \<open>The data value that \<open>calculate\<close> stores.\<close>

definition calculated_value :: "('v, 's, 'b) ua_sdk \<Rightarrow> mu_ops \<Rightarrow> calculated_variable \<Rightarrow> 'v calculation \<Rightarrow> 'v data_value" where
  "calculated_value sdk mu cv s =
     (case find (\<lambda>p. pv_state (ca_pvs s p) \<noteq> Good) (cv_valueVariables cv) of
        Some p \<Rightarrow> \<lparr>dv_value = Some (ua_empty_variant sdk), dv_statusCode = unready_status (pv_state (ca_pvs s p))\<rparr>
      | None \<Rightarrow>
          let finalStatus = (if cv_hasStatusFormula cv \<and> f64_eq (eval_parser mu s (cv_statusParser cv)) 0 then OpcUa_Bad else OpcUa_Good);
              updatedValue = eval_parser mu s (cv_valueParser cv);
              variant = (if cv_isBoolean cv
                then ua_set (ua_bool sdk) (ua_empty_variant sdk) (if f64_eq updatedValue 0 then 0 else 1)
                else ua_set (ua_double sdk) (ua_empty_variant sdk) updatedValue)
          in \<lparr>dv_value = Some variant, dv_statusCode = finalStatus\<rparr>)"

definition store_reading :: "nat \<Rightarrow> f64 \<times> parser_variable_state \<Rightarrow> 'v calculation \<Rightarrow> 'v calculation" where
  "store_reading p reading = with_pv p (\<lambda>pv. pv\<lparr>pv_value := fst reading, pv_state := snd reading\<rparr>)"

text \<open>
  \<open>ChangeNotifyingVariable::setValue\<close> with what it calls: each change listener stores its reading
  in a parser variable, which updates the variables calculated from it, whose calculation sets their
  value. \<open>good\<close> says whether the toolkit accepts the value; \<open>None\<close> is a call that never returns.
\<close>

partial_function (option) setValue :: "('v, 's, 'b) ua_sdk \<Rightarrow> mu_ops \<Rightarrow> (nat \<Rightarrow> 'v data_value \<Rightarrow> bool) \<Rightarrow> nat
    \<Rightarrow> 'v data_value \<Rightarrow> 'v calculation \<Rightarrow> 'v calculation option" where
  "setValue sdk mu good v dataValue s =
     (if \<not> good v dataValue then Some s
      else fold_opt (\<lambda>listener s. case listener of
            OtherListener \<Rightarrow> Some s
          | ChangeListener p \<Rightarrow>
              fold_opt (\<lambda>c s. case nv_calculated (ca_variables s c) of
                  None \<Rightarrow> Some s
                | Some cv \<Rightarrow> if \<not> cv_autoUpdateEnabled cv then Some s
                    else setValue sdk mu good c (calculated_value sdk mu cv s) s)
                (pv_notifiedVariables (ca_pvs s p)) (store_reading p (listener_reading sdk dataValue) s))
        (nv_changeListeners (ca_variables s v)) (with_variable v (\<lambda>nv. nv\<lparr>nv_value := dataValue\<rparr>) s))"

definition calculate :: "('v, 's, 'b) ua_sdk \<Rightarrow> mu_ops \<Rightarrow> (nat \<Rightarrow> 'v data_value \<Rightarrow> bool) \<Rightarrow> nat \<Rightarrow> 'v calculation \<Rightarrow> 'v calculation option" where
  "calculate sdk mu good c s = (case nv_calculated (ca_variables s c) of
       None \<Rightarrow> Some s
     | Some cv \<Rightarrow> setValue sdk mu good c (calculated_value sdk mu cv s) s)"

definition update_variable :: "('v, 's, 'b) ua_sdk \<Rightarrow> mu_ops \<Rightarrow> (nat \<Rightarrow> 'v data_value \<Rightarrow> bool) \<Rightarrow> nat \<Rightarrow> 'v calculation \<Rightarrow> 'v calculation option" where
  "update_variable sdk mu good c s = (case nv_calculated (ca_variables s c) of
       None \<Rightarrow> Some s
     | Some cv \<Rightarrow> if \<not> cv_autoUpdateEnabled cv then Some s else calculate sdk mu good c s)"

definition parser_setValue :: "('v, 's, 'b) ua_sdk \<Rightarrow> mu_ops \<Rightarrow> (nat \<Rightarrow> 'v data_value \<Rightarrow> bool) \<Rightarrow> nat
    \<Rightarrow> f64 \<times> parser_variable_state \<Rightarrow> 'v calculation \<Rightarrow> 'v calculation option" where
  "parser_setValue sdk mu good p reading s =
     fold_opt (update_variable sdk mu good) (pv_notifiedVariables (ca_pvs s p)) (store_reading p reading s)"

definition notify :: "('v, 's, 'b) ua_sdk \<Rightarrow> mu_ops \<Rightarrow> (nat \<Rightarrow> 'v data_value \<Rightarrow> bool) \<Rightarrow> 'v data_value
    \<Rightarrow> change_listener \<Rightarrow> 'v calculation \<Rightarrow> 'v calculation option" where
  "notify sdk mu good dataValue listener s = (case listener of
       OtherListener \<Rightarrow> Some s
     | ChangeListener p \<Rightarrow> parser_setValue sdk mu good p (listener_reading sdk dataValue) s)"

definition triggerRecalculation :: "('v, 's, 'b) ua_sdk \<Rightarrow> mu_ops \<Rightarrow> (nat \<Rightarrow> 'v data_value \<Rightarrow> bool) \<Rightarrow> nat
    \<Rightarrow> 'v calculation \<Rightarrow> 'v calculation option" where
  "triggerRecalculation sdk mu good c s = calculate sdk mu good c s"

definition setAutoUpdate :: "nat \<Rightarrow> bool \<Rightarrow> 'v calculation \<Rightarrow> 'v calculation" where
  "setAutoUpdate c enabled = with_calculated c (\<lambda>cv. cv\<lparr>cv_autoUpdateEnabled := enabled\<rparr>)"

lemma setValue_unfold:
  "setValue sdk mu good v dataValue s = (if \<not> good v dataValue then Some s
     else fold_opt (notify sdk mu good dataValue) (nv_changeListeners (ca_variables s v))
       (with_variable v (\<lambda>nv. nv\<lparr>nv_value := dataValue\<rparr>) s))"
proof -
  have step: "(\<lambda>c s. case nv_calculated (ca_variables s c) of None \<Rightarrow> Some s
        | Some cv \<Rightarrow> if \<not> cv_autoUpdateEnabled cv then Some s else setValue sdk mu good c (calculated_value sdk mu cv s) s)
      = update_variable sdk mu good"
    by (intro ext) (simp add: update_variable_def calculate_def split: option.split)
  have all: "(\<lambda>listener s. case listener of OtherListener \<Rightarrow> Some s
        | ChangeListener p \<Rightarrow> fold_opt (update_variable sdk mu good) (pv_notifiedVariables (ca_pvs s p))
            (store_reading p (listener_reading sdk dataValue) s)) = notify sdk mu good dataValue"
    by (intro ext) (simp add: notify_def parser_setValue_def split: change_listener.split)
  show ?thesis by (subst setValue.simps) (simp only: step all)
qed

section \<open>Instantiation\<close>

text \<open>Operations that may throw, or not return.\<close>

type_synonym ('s, 'r) motion = "'s \<Rightarrow> ('s \<times> 'r result) option"

definition mo_bind :: "('s, 'a) motion \<Rightarrow> ('a \<Rightarrow> ('s, 'b) motion) \<Rightarrow> ('s, 'b) motion" where
  "mo_bind m f = (\<lambda>s. case m s of None \<Rightarrow> None | Some (s', Inl e) \<Rightarrow> Some (s', Inl e) | Some (s', Inr x) \<Rightarrow> f x s')"

definition mo_action :: "('s, 'r) action \<Rightarrow> ('s, 'r) motion" where
  "mo_action m = (\<lambda>s. Some (m s))"

definition mo_value :: "'r result option \<Rightarrow> ('s, 'r) motion" where
  "mo_value r = (\<lambda>s. map_option (\<lambda>r. (s, r)) r)"

definition mo_state :: "('s \<Rightarrow> 's option) \<Rightarrow> ('s, unit) motion" where
  "mo_state f = (\<lambda>s. map_option (\<lambda>s'. (s', Inr ())) (f s))"

definition new_variable :: "node_id \<Rightarrow> 'v data_value \<Rightarrow> calculated_variable option \<Rightarrow> 'v calculation \<Rightarrow> 'v calculation \<times> nat" where
  "new_variable nodeId dataValue calculated s = (let v = ca_numVariables s in
     (s\<lparr>ca_variables := (ca_variables s)(v := \<lparr>nv_nodeId = nodeId, nv_value = dataValue, nv_changeListeners = [],
          nv_calculated = calculated\<rparr>), ca_numVariables := Suc v\<rparr>, v))"

definition addChangeListener :: "nat \<Rightarrow> change_listener \<Rightarrow> 'v calculation \<Rightarrow> 'v calculation" where
  "addChangeListener v listener = with_variable v (\<lambda>nv. nv\<lparr>nv_changeListeners := nv_changeListeners nv @ [listener]\<rparr>)"

definition registerVariableForCalculatedVariables :: "(node_id \<Rightarrow> string) \<Rightarrow> nat \<Rightarrow> ('v calculation, nat) motion" where
  "registerVariableForCalculatedVariables idText v s =
     map_option (\<lambda>name. let p = ca_numPvs s in
         (addChangeListener v (ChangeListener p)
            (s\<lparr>ca_pvs := (ca_pvs s)(p := new_parser_variable v name), ca_numPvs := Suc p,
               ca_parserVariables := ca_parserVariables s @ [p]\<rparr>), Inr p))
       (escapeSpecialCharactersInParserVariableName (idText (nv_nodeId (ca_variables s v))))"

text \<open>\<open>std::map::emplace\<close> keeps the value of a name that is already there.\<close>

definition registerConstantForCalculatedVariables :: "string \<Rightarrow> f64 \<Rightarrow> 'v calculation \<Rightarrow> 'v calculation" where
  "registerConstantForCalculatedVariables name value s =
     (if map_of (ca_parserConstants s) name = None
      then s\<lparr>ca_parserConstants := ca_parserConstants s @ [(name, value)]\<rparr> else s)"

definition isConstantDefined :: "string \<Rightarrow> 'v calculation \<Rightarrow> bool" where
  "isConstantDefined name s \<longleftrightarrow> map_of (ca_parserConstants s) name \<noteq> None"

fun loadGenericFormulas :: "(nat \<Rightarrow> string) \<Rightarrow> (string \<times> string) list \<Rightarrow> ('v calculation, unit) action" where
  "loadGenericFormulas origin [] s = (s, Inr ())"
| "loadGenericFormulas origin ((name, formula) # config) s =
     (if map_of (ca_genericFormulas s) name \<noteq> None
      then (s, Inl (''At '' @ origin 255 @ '' CalculatedVariables generic formulas error -- exact error was logged in the CalcVars LogIt''))
      else loadGenericFormulas origin config (s\<lparr>ca_genericFormulas := ca_genericFormulas s @ [(name, formula)]\<rparr>))"

datatype formula_type = ValueFormula | StatusFormula

definition push_unique :: "nat \<Rightarrow> nat list \<Rightarrow> nat list" where
  "push_unique p ps = (if p \<in> set ps then ps else ps @ [p])"

definition addDependentVariableForValue :: "nat \<Rightarrow> calculated_variable \<Rightarrow> calculated_variable" where
  "addDependentVariableForValue p cv = cv\<lparr>cv_valueVariables := push_unique p (cv_valueVariables cv)\<rparr>"

definition addDependentVariableForStatus :: "nat \<Rightarrow> calculated_variable \<Rightarrow> calculated_variable" where
  "addDependentVariableForStatus p cv = cv\<lparr>cv_statusVariables := push_unique p (cv_statusVariables cv)\<rparr>"

definition addNotifiedVariable :: "nat \<Rightarrow> nat \<Rightarrow> 'v calculation \<Rightarrow> 'v calculation" where
  "addNotifiedVariable p c = with_pv p (\<lambda>pv. pv\<lparr>pv_notifiedVariables := pv_notifiedVariables pv @ [c]\<rparr>)"

text \<open>The handler gives the parser a pointer to the value, which the parser binds to the name.\<close>

definition bind_name :: "formula_type \<Rightarrow> string \<Rightarrow> nat \<Rightarrow> calculated_variable \<Rightarrow> calculated_variable" where
  "bind_name t name p cv = (case t of
       ValueFormula \<Rightarrow> cv\<lparr>cv_valueParser := (cv_valueParser cv)\<lparr>bp_variables := bp_variables (cv_valueParser cv) @ [(name, p)]\<rparr>\<rparr>
     | StatusFormula \<Rightarrow> cv\<lparr>cv_statusParser := (cv_statusParser cv)\<lparr>bp_variables := bp_variables (cv_statusParser cv) @ [(name, p)]\<rparr>\<rparr>)"

definition add_dependent :: "formula_type \<Rightarrow> nat \<Rightarrow> calculated_variable \<Rightarrow> calculated_variable" where
  "add_dependent t p = (case t of ValueFormula \<Rightarrow> addDependentVariableForValue p | StatusFormula \<Rightarrow> addDependentVariableForStatus p)"

definition parserVariableRequestHandler :: "formula_type \<Rightarrow> nat \<Rightarrow> string \<Rightarrow> ('v calculation, nat) action" where
  "parserVariableRequestHandler t requestor name s = (case find (\<lambda>p. pv_name (ca_pvs s p) = name) (ca_parserVariables s) of
       None \<Rightarrow> (s, Inl ''Couldnt find formula variable. The exact error has been logged.'')
     | Some p \<Rightarrow> (addNotifiedVariable p requestor (with_calculated requestor (add_dependent t p) s), Inr p))"

text \<open>
  \<open>initializeParser\<close>: the names of the formula that are constants of the engine are defined as
  constants, and the first evaluation asks the handler for the others.
\<close>

definition request_name :: "formula_type \<Rightarrow> nat \<Rightarrow> string \<Rightarrow> ('v calculation, unit) action" where
  "request_name t c name = act_bind (parserVariableRequestHandler t c name)
     (\<lambda>p. act_modify (with_calculated c (bind_name t name p)))"

definition set_formula :: "formula_type \<Rightarrow> string \<Rightarrow> (string \<times> f64) list \<Rightarrow> calculated_variable \<Rightarrow> calculated_variable" where
  "set_formula t formula constants cv = (let parser = \<lparr>bp_formula = formula, bp_constants = constants, bp_variables = []\<rparr> in
     case t of ValueFormula \<Rightarrow> cv\<lparr>cv_valueParser := parser\<rparr> | StatusFormula \<Rightarrow> cv\<lparr>cv_statusParser := parser\<rparr>)"

definition initializeParser :: "mu_ops \<Rightarrow> formula_type \<Rightarrow> string \<Rightarrow> nat \<Rightarrow> ('v calculation, unit) action" where
  "initializeParser mu t formula c = act_bind act_get (\<lambda>s.
     case mu_names mu formula of
       None \<Rightarrow> act_throw ''Calculated item instantiation failed. Problem has been logged.''
     | Some names \<Rightarrow>
         act_bind (act_modify (with_calculated c (set_formula t formula
             (filter (\<lambda>(name, value). name \<in> set names) (ca_parserConstants s))))) (\<lambda>_.
           act_for (request_name t c) (filter (\<lambda>name. \<not> isConstantDefined name s) names)))"

definition no_parser :: bound_parser where
  "no_parser = \<lparr>bp_formula = [], bp_constants = [], bp_variables = []\<rparr>"

definition new_calculated :: "bool \<Rightarrow> bool \<Rightarrow> calculated_variable" where
  "new_calculated isBoolean hasStatusFormula = \<lparr>cv_valueParser = no_parser, cv_valueVariables = [], cv_isBoolean = isBoolean,
     cv_hasStatusFormula = hasStatusFormula, cv_statusParser = no_parser, cv_statusVariables = [], cv_notifiedVariable = None,
     cv_autoUpdateEnabled = True\<rparr>"

definition waiting_value :: "('v, 's, 'b) ua_sdk \<Rightarrow> 'v data_value" where
  "waiting_value sdk = \<lparr>dv_value = Some (ua_empty_variant sdk), dv_statusCode = OpcUa_BadWaitingForInitialData\<rparr>"

definition construct_calculated :: "('v, 's, 'b) ua_sdk \<Rightarrow> mu_ops \<Rightarrow> (nat \<Rightarrow> 'v data_value \<Rightarrow> bool) \<Rightarrow> node_id \<Rightarrow> string \<Rightarrow> bool
    \<Rightarrow> string option \<Rightarrow> ('v calculation, nat) motion" where
  "construct_calculated sdk mu good nodeId formula isBoolean statusFormula =
     mo_bind (mo_action (\<lambda>s. case new_variable nodeId \<lparr>dv_value = Some (ua_empty_variant sdk), dv_statusCode = OpcUa_Good\<rparr>
         (Some (new_calculated isBoolean (statusFormula \<noteq> None))) s of (s', v) \<Rightarrow> (s', Inr v))) (\<lambda>c.
     mo_bind (mo_action (initializeParser mu ValueFormula formula c)) (\<lambda>_.
     mo_bind (mo_action (case statusFormula of None \<Rightarrow> act_return () | Some f \<Rightarrow> initializeParser mu StatusFormula f c)) (\<lambda>_.
     mo_bind (mo_state (setValue sdk mu good c (waiting_value sdk))) (\<lambda>_.
     mo_action (act_return c)))))"

definition isConstant_cv :: "calculated_variable \<Rightarrow> bool" where
  "isConstant_cv cv \<longleftrightarrow> length (cv_valueVariables cv) + length (cv_statusVariables cv) = 0"

definition setNotifiedVariable :: "nat \<Rightarrow> nat option \<Rightarrow> 'v calculation \<Rightarrow> 'v calculation" where
  "setNotifiedVariable c p = with_calculated c (\<lambda>cv. cv\<lparr>cv_notifiedVariable := p\<rparr>)"

definition setIsConstant :: "nat \<Rightarrow> bool \<Rightarrow> 'v calculation \<Rightarrow> 'v calculation" where
  "setIsConstant p b = with_pv p (\<lambda>pv. pv\<lparr>pv_isConstant := b\<rparr>)"

record calculated_config =
  cf_name :: string
  cf_value :: string
  cf_initialValue :: "f64 option"
  cf_isBoolean :: bool
  cf_status :: "string option"

definition elaborated_status :: "(node_id \<Rightarrow> string) \<Rightarrow> node_id \<Rightarrow> calculated_config \<Rightarrow> ('v calculation, string option) motion" where
  "elaborated_status idText parent config = (\<lambda>s. case cf_status config of
       None \<Rightarrow> Some (s, Inr None)
     | Some status \<Rightarrow> mo_bind (mo_value (elaborateFormula (ca_genericFormulas s) status (idText parent)))
         (\<lambda>f. mo_action (act_return (Some f))) s)"

definition add_calculated_node :: "node_ops \<Rightarrow> node_id \<Rightarrow> node_id \<Rightarrow> ('v calculation, unit) action" where
  "add_calculated_node ops parent nodeId s =
     (let n = \<lparr>an_parent = parent, an_id = nodeId, an_kind = VariableNode, an_reference = Organizes\<rparr> in
      case no_badStatus ops (ca_nodes s) n of
        Some status \<Rightarrow> (s, Inl (''At '' @ no_origin ops 296 @ '' While adding Calculated Variable to address space:'' @ status))
      | None \<Rightarrow> (s\<lparr>ca_nodes := ca_nodes s @ [n]\<rparr>, Inr ()))"

definition instantiateCalculatedVariable :: "('v, 's, 'b) ua_sdk \<Rightarrow> mu_ops \<Rightarrow> (nat \<Rightarrow> 'v data_value \<Rightarrow> bool) \<Rightarrow> node_ops
    \<Rightarrow> node_id \<Rightarrow> calculated_config \<Rightarrow> ('v calculation, unit) motion" where
  "instantiateCalculatedVariable sdk mu good ops parent config =
     mo_bind (\<lambda>s. mo_value (elaborateFormula (ca_genericFormulas s) (cf_value config) (no_idText ops parent)) s) (\<lambda>valueFormula.
     mo_bind (elaborated_status (no_idText ops) parent config) (\<lambda>statusFormula.
     mo_bind (mo_value (Some (makeChildNodeId (no_namespace ops) parent (cf_name config)))) (\<lambda>nodeId.
     mo_bind (construct_calculated sdk mu good nodeId valueFormula (cf_isBoolean config) statusFormula) (\<lambda>c.
     mo_bind (mo_action (add_calculated_node ops parent nodeId)) (\<lambda>_.
     mo_bind (registerVariableForCalculatedVariables (no_idText ops) c) (\<lambda>p.
     mo_bind (mo_action (\<lambda>s. (setIsConstant p (case nv_calculated (ca_variables s c) of
         None \<Rightarrow> True | Some cv \<Rightarrow> isConstant_cv cv) s, Inr ()))) (\<lambda>_.
     mo_bind (mo_action (act_modify (setNotifiedVariable c (Some p)))) (\<lambda>_.
     mo_bind (mo_state (case cf_initialValue config of
         None \<Rightarrow> update_variable sdk mu good c
       | Some x \<Rightarrow> setValue sdk mu good c \<lparr>dv_value = Some (ua_set (ua_double sdk) (ua_empty_variant sdk) x), dv_statusCode = OpcUa_Good\<rparr>)) (\<lambda>_.
     mo_action (act_modify (\<lambda>s. s\<lparr>ca_numCalculatedVariables := Suc (ca_numCalculatedVariables s)\<rparr>)))))))))))"

section \<open>Optimization and synchronization\<close>

text \<open>\<open>optimize\<close>: the parser variables of no formula go, unless others listen to their variable.\<close>

definition optimized_out :: "'v calculation \<Rightarrow> nat \<Rightarrow> bool" where
  "optimized_out s p \<longleftrightarrow> pv_notifiedVariables (ca_pvs s p) = []
     \<and> length (nv_changeListeners (ca_variables s (pv_notifyingVariable (ca_pvs s p)))) \<le> 1"

definition optimize_one :: "nat \<Rightarrow> 'v calculation \<Rightarrow> 'v calculation" where
  "optimize_one p s = (let v = pv_notifyingVariable (ca_pvs s p) in
     (setNotifiedVariable v None (with_variable v (\<lambda>nv. nv\<lparr>nv_changeListeners := []\<rparr>) s))
       \<lparr>ca_parserVariables := remove1 p (ca_parserVariables s)\<rparr>)"

definition optimize :: "'v calculation \<Rightarrow> 'v calculation" where
  "optimize s = fold (\<lambda>p s. if optimized_out s p then optimize_one p s else s) (ca_parserVariables s) s"

definition set_synchronizer :: "nat \<Rightarrow> nat \<Rightarrow> 'v calculation \<Rightarrow> 'v calculation" where
  "set_synchronizer p k = with_pv p (\<lambda>pv. pv\<lparr>pv_synchronizer := Some k\<rparr>)"

text \<open>The parser variables that the search visits from one, in the order of its three loops.\<close>

definition ancestors_of :: "'v calculation \<Rightarrow> nat \<Rightarrow> nat list" where
  "ancestors_of s p = (case nv_calculated (ca_variables s (pv_notifyingVariable (ca_pvs s p))) of
       None \<Rightarrow> []
     | Some cv \<Rightarrow> cv_valueVariables cv @ cv_statusVariables cv)"

definition descendants_of :: "'v calculation \<Rightarrow> nat \<Rightarrow> nat list" where
  "descendants_of s p = List.map_filter (\<lambda>c. Option.bind (nv_calculated (ca_variables s c)) cv_notifiedVariable)
     (pv_notifiedVariables (ca_pvs s p))"

definition unsynchronized :: "'v calculation \<Rightarrow> nat \<Rightarrow> bool" where
  "unsynchronized s p \<longleftrightarrow> pv_synchronizer (ca_pvs s p) = None \<and> \<not> pv_isConstant (ca_pvs s p)"

partial_function (option) dfsAndSetSynchronizer :: "nat \<Rightarrow> nat \<Rightarrow> 'v calculation \<Rightarrow> 'v calculation option" where
  "dfsAndSetSynchronizer synchronizer p s =
     fold_opt (\<lambda>q s. if unsynchronized s q then dfsAndSetSynchronizer synchronizer q s else Some s)
       (ancestors_of s p @ descendants_of s p) (set_synchronizer p synchronizer s)"

definition setup_one :: "nat \<Rightarrow> 'v calculation \<Rightarrow> 'v calculation option" where
  "setup_one p s =
     (if pv_notifiedVariables (ca_pvs s p) = [] \<or> pv_synchronizer (ca_pvs s p) \<noteq> None \<or> pv_isConstant (ca_pvs s p) then Some s
      else let k = ca_numSynchronizers s in
        dfsAndSetSynchronizer k p (set_synchronizer p k (s\<lparr>ca_numSynchronizers := Suc k\<rparr>)))"

definition setupSynchronization :: "'v calculation \<Rightarrow> 'v calculation option" where
  "setupSynchronization s = fold_opt setup_one (rev (ca_parserVariables s)) s"

end
