(* ===== verification/CalcUpdates.thy ===== *)
theory CalcUpdates
  imports CalcVariables
begin

text \<open>
  The flow of a value through the calculated variables. A formula only reads variables that were
  there before its own, so a write returns; it leaves every calculated variable that depends on the
  written one with the value of its formula, and no variable that agreed with its formula stops
  doing so.
\<close>

section \<open>Well-formed calculations\<close>

abbreviation inputs :: "calculated_variable \<Rightarrow> nat set" where
  "inputs cv \<equiv> set (cv_valueVariables cv) \<union> set (cv_statusVariables cv)"

abbreviation formula_of :: "'v calculation \<Rightarrow> nat \<Rightarrow> calculated_variable option" where
  "formula_of s c \<equiv> nv_calculated (ca_variables s c)"

abbreviation variable_of :: "'v calculation \<Rightarrow> nat \<Rightarrow> nat" where
  "variable_of s p \<equiv> pv_notifyingVariable (ca_pvs s p)"

text \<open>The parsers of a formula are bound to its inputs, which are on the list and older than it.\<close>

definition formula_ok :: "'v calculation \<Rightarrow> nat \<Rightarrow> calculated_variable \<Rightarrow> bool" where
  "formula_ok s c cv \<longleftrightarrow> snd ` set (bp_variables (cv_valueParser cv)) \<subseteq> set (cv_valueVariables cv)
     \<and> snd ` set (bp_variables (cv_statusParser cv)) \<subseteq> set (cv_statusVariables cv)
     \<and> (\<forall>p \<in> inputs cv. p \<in> set (ca_parserVariables s) \<and> variable_of s p < c)"

definition graph_ok :: "'v calculation \<Rightarrow> bool" where
  "graph_ok s \<longleftrightarrow> distinct (ca_parserVariables s) \<and> (\<forall>p \<in> set (ca_parserVariables s). p < ca_numPvs s)
     \<and> (\<forall>p < ca_numPvs s. variable_of s p < ca_numVariables s)
     \<and> (\<forall>c < ca_numVariables s. \<forall>cv. formula_of s c = Some cv \<longrightarrow> formula_ok s c cv)
     \<and> (\<forall>p < ca_numPvs s. \<forall>c. c \<in> set (pv_notifiedVariables (ca_pvs s p)) \<longleftrightarrow>
          c < ca_numVariables s \<and> (\<exists>cv. formula_of s c = Some cv \<and> p \<in> inputs cv))
     \<and> (\<forall>v < ca_numVariables s. \<forall>p. ChangeListener p \<in> set (nv_changeListeners (ca_variables s v)) \<longrightarrow>
          p < ca_numPvs s \<and> variable_of s p = v)
     \<and> (\<forall>p \<in> set (ca_parserVariables s). ChangeListener p \<in> set (nv_changeListeners (ca_variables s (variable_of s p))))"

lemma graph_okD:
  assumes "graph_ok s"
  shows "distinct (ca_parserVariables s)"
    and "p \<in> set (ca_parserVariables s) \<Longrightarrow> p < ca_numPvs s"
    and "p < ca_numPvs s \<Longrightarrow> variable_of s p < ca_numVariables s"
    and "c < ca_numVariables s \<Longrightarrow> formula_of s c = Some cv \<Longrightarrow> formula_ok s c cv"
    and "p < ca_numPvs s \<Longrightarrow> c \<in> set (pv_notifiedVariables (ca_pvs s p)) \<longleftrightarrow>
          c < ca_numVariables s \<and> (\<exists>cv. formula_of s c = Some cv \<and> p \<in> inputs cv)"
    and "c < ca_numVariables s \<Longrightarrow> ChangeListener p \<in> set (nv_changeListeners (ca_variables s c)) \<Longrightarrow> p < ca_numPvs s \<and> variable_of s p = c"
    and "p \<in> set (ca_parserVariables s) \<Longrightarrow> ChangeListener p \<in> set (nv_changeListeners (ca_variables s (variable_of s p)))"
  using assms unfolding graph_ok_def by simp_all

text \<open>Everything but the values, which is all that a write changes.\<close>

definition shape :: "'v calculation \<Rightarrow> 'v calculation" where
  "shape s = s\<lparr>ca_variables := \<lambda>v. (ca_variables s v)\<lparr>nv_value := \<lparr>dv_value = None, dv_statusCode = 0\<rparr>\<rparr>,
     ca_pvs := \<lambda>p. (ca_pvs s p)\<lparr>pv_value := 0, pv_state := WaitingInitialData\<rparr>\<rparr>"

lemma shape_eq:
  assumes "shape s = shape t"
  shows "formula_of s c = formula_of t c" "variable_of s p = variable_of t p"
    "nv_changeListeners (ca_variables s c) = nv_changeListeners (ca_variables t c)"
    "pv_notifiedVariables (ca_pvs s p) = pv_notifiedVariables (ca_pvs t p)"
    "ca_numVariables s = ca_numVariables t" "ca_numPvs s = ca_numPvs t" "ca_parserVariables s = ca_parserVariables t"
proof -
  have v: "(ca_variables s c)\<lparr>nv_value := \<lparr>dv_value = None, dv_statusCode = 0\<rparr>\<rparr> = (ca_variables t c)\<lparr>nv_value := \<lparr>dv_value = None, dv_statusCode = 0\<rparr>\<rparr>"
    and p: "(ca_pvs s p)\<lparr>pv_value := 0, pv_state := WaitingInitialData\<rparr> = (ca_pvs t p)\<lparr>pv_value := 0, pv_state := WaitingInitialData\<rparr>"
    using assms [THEN arg_cong [of _ _ "\<lambda>s. ca_variables s c"]] assms [THEN arg_cong [of _ _ "\<lambda>s. ca_pvs s p"]]
    by (simp_all add: shape_def)
  show "formula_of s c = formula_of t c" "nv_changeListeners (ca_variables s c) = nv_changeListeners (ca_variables t c)"
    using v [THEN arg_cong [of _ _ nv_calculated]] v [THEN arg_cong [of _ _ nv_changeListeners]] by simp_all
  show "variable_of s p = variable_of t p" "pv_notifiedVariables (ca_pvs s p) = pv_notifiedVariables (ca_pvs t p)"
    using p [THEN arg_cong [of _ _ pv_notifyingVariable]] p [THEN arg_cong [of _ _ pv_notifiedVariables]] by simp_all
  show "ca_numVariables s = ca_numVariables t" "ca_numPvs s = ca_numPvs t" "ca_parserVariables s = ca_parserVariables t"
    using assms [THEN arg_cong [of _ _ ca_numVariables]] assms [THEN arg_cong [of _ _ ca_numPvs]]
      assms [THEN arg_cong [of _ _ ca_parserVariables]] by (simp_all add: shape_def)
qed

lemma graph_ok_shape: "shape s = shape t \<Longrightarrow> graph_ok s = graph_ok t"
  using shape_eq [of s t] by (simp add: graph_ok_def formula_ok_def)

lemma shape_store [simp]: "shape (store_reading p r s) = shape s"
  by (rule calculation.equality) (auto simp: shape_def store_reading_def with_pv_def)

lemma shape_value [simp]: "shape (with_variable v (\<lambda>nv. nv\<lparr>nv_value := x\<rparr>) s) = shape s"
  by (rule calculation.equality) (auto simp: shape_def with_variable_def)

section \<open>Settled variables\<close>

text \<open>A calculated variable that follows its formula holds the value of the formula.\<close>

definition settled :: "('v, 's, 'b) ua_sdk \<Rightarrow> mu_ops \<Rightarrow> 'v calculation \<Rightarrow> nat \<Rightarrow> bool" where
  "settled sdk mu s c \<longleftrightarrow> (\<forall>cv. c < ca_numVariables s \<longrightarrow> formula_of s c = Some cv \<longrightarrow> cv_autoUpdateEnabled cv \<longrightarrow>
     nv_value (ca_variables s c) = calculated_value sdk mu cv s)"

definition reading_of :: "'v calculation \<Rightarrow> nat \<Rightarrow> f64 \<times> parser_variable_state" where
  "reading_of s p = (pv_value (ca_pvs s p), pv_state (ca_pvs s p))"

text \<open>Only variables from \<open>v\<close> on change, and parser variables of variables from \<open>u\<close> on.\<close>

definition frame :: "nat \<Rightarrow> nat \<Rightarrow> 'v calculation \<Rightarrow> 'v calculation \<Rightarrow> bool" where
  "frame v u s t \<longleftrightarrow> shape t = shape s \<and> (\<forall>w < v. ca_variables t w = ca_variables s w)
     \<and> (\<forall>p. variable_of s p < u \<longrightarrow> ca_pvs t p = ca_pvs s p)"

lemma frame_refl [simp]: "frame v u s s"
  by (simp add: frame_def)

lemma frame_trans: "frame v u s t \<Longrightarrow> frame v u t r \<Longrightarrow> frame v u s r"
  using shape_eq(2) [of t s] by (simp add: frame_def)

lemma frame_mono: "frame v u s t \<Longrightarrow> v' \<le> v \<Longrightarrow> u' \<le> u \<Longrightarrow> frame v' u' s t"
  by (simp add: frame_def)

lemma find_cong: "(\<And>x. x \<in> set xs \<Longrightarrow> P x = Q x) \<Longrightarrow> find P xs = find Q xs"
  by (induction xs) auto

lemma parser_value_cong:
  assumes "snd ` set (bp_variables parser) \<subseteq> ps" and "\<And>p. p \<in> ps \<Longrightarrow> ca_pvs t p = ca_pvs s p"
  shows "parser_value t parser = parser_value s parser"
proof
  fix name
  have "ca_pvs t p = ca_pvs s p" if "map_of (bp_variables parser) name = Some p" for p
    using that assms by (force dest: map_of_SomeD)
  then show "parser_value t parser name = parser_value s parser name"
    by (simp add: parser_value_def split: option.split)
qed

lemma calculated_value_cong:
  assumes "formula_ok s c cv" and "\<And>p. p \<in> inputs cv \<Longrightarrow> ca_pvs t p = ca_pvs s p"
  shows "calculated_value sdk mu cv t = calculated_value sdk mu cv s"
proof -
  have "parser_value t (cv_valueParser cv) = parser_value s (cv_valueParser cv)"
    "parser_value t (cv_statusParser cv) = parser_value s (cv_statusParser cv)"
    using assms by (auto simp: formula_ok_def intro: parser_value_cong [of _ "set (cv_valueVariables cv)"]
        parser_value_cong [of _ "set (cv_statusVariables cv)"])
  moreover have "find (\<lambda>p. pv_state (ca_pvs t p) \<noteq> Good) (cv_valueVariables cv) = find (\<lambda>p. pv_state (ca_pvs s p) \<noteq> Good) (cv_valueVariables cv)"
    by (rule find_cong) (simp add: assms(2))
  moreover have "ca_pvs t p = ca_pvs s p" if "find (\<lambda>p. pv_state (ca_pvs s p) \<noteq> Good) (cv_valueVariables cv) = Some p" for p
    using that assms(2) by (auto simp: find_Some_iff)
  ultimately show ?thesis by (simp add: calculated_value_def eval_parser_def split: option.split)
qed

lemma settled_cong:
  assumes "graph_ok s" and "shape t = shape s" and "nv_value (ca_variables t c) = nv_value (ca_variables s c)"
    and "\<And>cv p. c < ca_numVariables s \<Longrightarrow> formula_of s c = Some cv \<Longrightarrow> p \<in> inputs cv \<Longrightarrow> ca_pvs t p = ca_pvs s p"
    and "settled sdk mu s c"
  shows "settled sdk mu t c"
  unfolding settled_def
proof (intro allI impI)
  fix cv assume c: "c < ca_numVariables t" "formula_of t c = Some cv" "cv_autoUpdateEnabled cv"
  then have c': "c < ca_numVariables s" "formula_of s c = Some cv" using shape_eq(1,5) [OF assms(2)] by simp_all
  then have "formula_ok s c cv" using assms(1) by (simp add: graph_ok_def)
  then have "calculated_value sdk mu cv t = calculated_value sdk mu cv s" using assms(4) [OF c'] by (rule calculated_value_cong)
  then show "nv_value (ca_variables t c) = calculated_value sdk mu cv t"
    using assms(3,5) c' c(3) by (simp add: settled_def)
qed

section \<open>A write\<close>

text \<open>A toolkit that accepts every value, which is what a write relies on.\<close>

locale accepting_toolkit =
  fixes sdk :: "('v, 's, 'b) ua_sdk" and mu :: mu_ops and good :: "nat \<Rightarrow> 'v data_value \<Rightarrow> bool" and n :: nat
  assumes accepted: "\<And>v dv. good v dv"
begin

text \<open>A write to \<open>v\<close> returns, changes nothing older than \<open>v\<close>, and keeps the other variables settled.\<close>

definition set_settles :: "nat \<Rightarrow> bool" where
  "set_settles v \<longleftrightarrow> (\<forall>s dv. graph_ok s \<longrightarrow> ca_numVariables s = n \<longrightarrow> v < n \<longrightarrow>
     (\<exists>t. setValue sdk mu good v dv s = Some t \<and> frame v v s t \<and> nv_value (ca_variables t v) = dv
        \<and> (\<forall>d. d \<noteq> v \<longrightarrow> settled sdk mu s d \<longrightarrow> settled sdk mu t d)))"

lemma update_settles:
  assumes "set_settles c" and "graph_ok s" and "ca_numVariables s = n" and "c < n"
  shows "\<exists>t. update_variable sdk mu good c s = Some t \<and> frame c c s t \<and> settled sdk mu t c
    \<and> (\<forall>d. settled sdk mu s d \<longrightarrow> settled sdk mu t d)"
proof (cases "\<exists>cv. formula_of s c = Some cv \<and> cv_autoUpdateEnabled cv")
  case True
  then obtain cv where cv: "formula_of s c = Some cv" "cv_autoUpdateEnabled cv" by blast
  obtain t where t: "setValue sdk mu good c (calculated_value sdk mu cv s) s = Some t" "frame c c s t"
    "nv_value (ca_variables t c) = calculated_value sdk mu cv s" "\<forall>d. d \<noteq> c \<longrightarrow> settled sdk mu s d \<longrightarrow> settled sdk mu t d"
    using assms unfolding set_settles_def by blast
  have "formula_ok s c cv" using assms(2-4) cv by (simp add: graph_ok_def)
  then have "ca_pvs t p = ca_pvs s p" if "p \<in> inputs cv" for p using that t(2) by (simp add: frame_def formula_ok_def)
  with \<open>formula_ok s c cv\<close> have "calculated_value sdk mu cv t = calculated_value sdk mu cv s" by (rule calculated_value_cong)
  moreover have "formula_of t c = formula_of s c" using t(2) shape_eq(1) [of t s] by (simp add: frame_def)
  ultimately have "settled sdk mu t c" using t(3) cv by (simp add: settled_def)
  then show ?thesis using t cv by (auto simp: update_variable_def calculate_def)
next
  case False
  then have "update_variable sdk mu good c s = Some s" by (auto simp: update_variable_def split: option.split)
  then show ?thesis using False by (auto simp: settled_def)
qed

lemma frame_parts:
  assumes "frame v u s t" and "graph_ok s" and "ca_numVariables s = n"
  shows "graph_ok t" "ca_numVariables t = n"
  using assms graph_ok_shape shape_eq(5) [of t s] by (auto simp: frame_def)

lemma updates_settle:
  assumes "\<And>c. c \<in> set cs \<Longrightarrow> v < c \<and> c < n \<and> set_settles c" and "graph_ok s" and "ca_numVariables s = n"
  shows "\<exists>t. fold_opt (update_variable sdk mu good) cs s = Some t \<and> frame (Suc v) (Suc v) s t
    \<and> (\<forall>d. settled sdk mu s d \<or> d \<in> set cs \<longrightarrow> settled sdk mu t d)"
  using assms
proof (induction cs arbitrary: s)
  case (Cons c cs)
  then obtain t where t: "update_variable sdk mu good c s = Some t" "frame c c s t" "settled sdk mu t c"
    "\<forall>d. settled sdk mu s d \<longrightarrow> settled sdk mu t d"
    using update_settles [of c s] by fastforce
  from Cons.prems(1) [of c] have "frame (Suc v) (Suc v) s t" using frame_mono [OF t(2)] by simp
  moreover obtain r where "fold_opt (update_variable sdk mu good) cs t = Some r" "frame (Suc v) (Suc v) t r"
    "\<forall>d. settled sdk mu t d \<or> d \<in> set cs \<longrightarrow> settled sdk mu r d"
    using Cons.IH [OF Cons.prems(1) frame_parts [OF t(2) Cons.prems(2,3)]] by auto
  ultimately show ?case using t frame_trans by auto
qed simp

text \<open>The parser variables of the written variable, one after the other.\<close>

lemma reading_settles:
  assumes "\<And>c. v < c \<Longrightarrow> set_settles c" and "graph_ok s" and "ca_numVariables s = n" and "p < ca_numPvs s" and "variable_of s p = v"
  shows "\<exists>t. parser_setValue sdk mu good p r s = Some t \<and> frame (Suc v) v s t \<and> reading_of t p = r
    \<and> (\<forall>q. variable_of s q = v \<longrightarrow> q \<noteq> p \<longrightarrow> ca_pvs t q = ca_pvs s q)
    \<and> (\<forall>d. settled sdk mu s d \<or> d \<in> set (pv_notifiedVariables (ca_pvs s p)) \<longrightarrow> settled sdk mu t d)"
proof -
  let ?s = "store_reading p r s" and ?cs = "pv_notifiedVariables (ca_pvs s p)"
  have other: "ca_pvs ?s q = ca_pvs s q" if "q \<noteq> p" for q using that by (simp add: store_reading_def with_pv_def)
  have ok: "graph_ok ?s" "ca_numVariables ?s = n" using assms(2,3) graph_ok_shape [of ?s s] shape_eq(5) [of ?s s] by simp_all
  have notified: "c \<in> set ?cs \<longleftrightarrow> c < n \<and> (\<exists>cv. formula_of s c = Some cv \<and> p \<in> inputs cv)" for c
    using assms(2-4) by (auto simp: graph_ok_def)
  have younger: "v < c" if "c \<in> set ?cs" for c
    using that assms(2,3,5) unfolding notified graph_ok_def formula_ok_def by auto
  then obtain t where t: "fold_opt (update_variable sdk mu good) ?cs ?s = Some t" "frame (Suc v) (Suc v) ?s t"
    "\<forall>d. settled sdk mu ?s d \<or> d \<in> set ?cs \<longrightarrow> settled sdk mu t d"
    using updates_settle [of ?cs v, OF _ ok] assms(1) notified by blast
  have kept: "settled sdk mu ?s d" if "settled sdk mu s d" "d \<notin> set ?cs" for d
  proof (rule settled_cong [OF assms(2) shape_store _ _ that(1)])
    show "nv_value (ca_variables ?s d) = nv_value (ca_variables s d)" by (simp add: store_reading_def with_pv_def)
    show "ca_pvs ?s q = ca_pvs s q" if "d < ca_numVariables s" "formula_of s d = Some cv" "q \<in> inputs cv" for cv q
    proof (rule other)
      show "q \<noteq> p" using that \<open>d \<notin> set ?cs\<close> assms(3) unfolding notified by blast
    qed
  qed
  have vars: "variable_of ?s q = variable_of s q" for q using shape_eq(2) [of ?s s] by simp
  have "ca_variables ?s = ca_variables s" by (simp add: store_reading_def with_pv_def)
  then have "frame (Suc v) v s ?s" using other assms(5) unfolding frame_def by (metis shape_store less_irrefl)
  then have fr: "frame (Suc v) v s t" using frame_trans frame_mono [OF t(2), of "Suc v" v] by auto
  have at_v: "ca_pvs t q = ca_pvs ?s q" if "variable_of s q = v" for q using that t(2) by (simp add: frame_def vars)
  have "ca_pvs t q = ca_pvs s q" if "variable_of s q = v" "q \<noteq> p" for q using that at_v other by simp
  moreover have "reading_of t p = r" using at_v assms(5) by (simp add: reading_of_def store_reading_def with_pv_def)
  ultimately show ?thesis using t(1,3) fr kept unfolding parser_setValue_def by blast
qed

lemma listeners_settle:
  assumes "\<And>c. v < c \<Longrightarrow> set_settles c" and "graph_ok s" and "ca_numVariables s = n"
    and "\<And>p. ChangeListener p \<in> set ls \<Longrightarrow> p < ca_numPvs s \<and> variable_of s p = v"
  shows "\<exists>t. fold_opt (notify sdk mu good dv) ls s = Some t \<and> frame (Suc v) v s t
    \<and> (\<forall>p. ChangeListener p \<in> set ls \<or> variable_of s p = v \<and> reading_of s p = listener_reading sdk dv
          \<longrightarrow> reading_of t p = listener_reading sdk dv)
    \<and> (\<forall>d. settled sdk mu s d \<or> (\<exists>p. ChangeListener p \<in> set ls \<and> d \<in> set (pv_notifiedVariables (ca_pvs s p))) \<longrightarrow> settled sdk mu t d)"
  using assms(2-4)
proof (induction ls arbitrary: s)
  case (Cons l ls)
  let ?r = "listener_reading sdk dv"
  show ?case
  proof (cases l)
    case OtherListener
    then show ?thesis using Cons.IH [OF Cons.prems(1,2)] Cons.prems(3) by (auto simp: notify_def)
  next
    case (ChangeListener p)
    then have p: "p < ca_numPvs s" "variable_of s p = v" using Cons.prems(3) by simp_all
    obtain t where t: "parser_setValue sdk mu good p ?r s = Some t" "frame (Suc v) v s t" "reading_of t p = ?r"
      "\<forall>q. variable_of s q = v \<longrightarrow> q \<noteq> p \<longrightarrow> ca_pvs t q = ca_pvs s q"
      "\<forall>d. settled sdk mu s d \<or> d \<in> set (pv_notifiedVariables (ca_pvs s p)) \<longrightarrow> settled sdk mu t d"
      using reading_settles [OF assms(1) Cons.prems(1,2) p] by blast
    have sh: "shape t = shape s" using t(2) by (simp add: frame_def)
    have "p' < ca_numPvs t \<and> variable_of t p' = v" if "ChangeListener p' \<in> set ls" for p'
      using that Cons.prems(3) shape_eq(2,6) [OF sh] by simp
    from Cons.IH [OF frame_parts [OF t(2) Cons.prems(1,2)] this] obtain r where
      r: "fold_opt (notify sdk mu good dv) ls t = Some r" "frame (Suc v) v t r"
        "\<forall>p. ChangeListener p \<in> set ls \<or> variable_of t p = v \<and> reading_of t p = ?r \<longrightarrow> reading_of r p = ?r"
        "\<forall>d. settled sdk mu t d \<or> (\<exists>p. ChangeListener p \<in> set ls \<and> d \<in> set (pv_notifiedVariables (ca_pvs t p))) \<longrightarrow> settled sdk mu r d"
      by blast
    have "reading_of r q = ?r" if "variable_of s q = v" "reading_of s q = ?r \<or> q = p" for q
      using that r(3) t(3,4) shape_eq(2) [OF sh, of q] by (cases "q = p") (auto simp: reading_of_def)
    moreover have "frame (Suc v) v s r" using frame_trans t(2) r(2) by blast
    moreover have "fold_opt (notify sdk mu good dv) (l # ls) s = Some r"
    proof -
      have "notify sdk mu good dv l s = Some t" by (simp add: notify_def t(1) ChangeListener)
      then show ?thesis using r(1) by simp
    qed
    ultimately show ?thesis using t(5) r(3,4) p shape_eq(4) [OF sh] unfolding ChangeListener by auto
  qed
qed simp

lemma write_settles_below:
  assumes "\<And>c. v < c \<Longrightarrow> set_settles c" and ok: "graph_ok s" and n: "ca_numVariables s = n" and v: "v < n"
  shows "\<exists>t. setValue sdk mu good v dv s = Some t \<and> frame v v s t \<and> nv_value (ca_variables t v) = dv
    \<and> (\<forall>p. ChangeListener p \<in> set (nv_changeListeners (ca_variables s v)) \<longrightarrow> reading_of t p = listener_reading sdk dv)
    \<and> (\<forall>d. d \<noteq> v \<and> settled sdk mu s d \<or> (\<exists>p. ChangeListener p \<in> set (nv_changeListeners (ca_variables s v))
          \<and> d \<in> set (pv_notifiedVariables (ca_pvs s p))) \<longrightarrow> settled sdk mu t d)"
proof -
  let ?s = "with_variable v (\<lambda>nv. nv\<lparr>nv_value := dv\<rparr>) s" and ?ls = "nv_changeListeners (ca_variables s v)"
  have pvs: "ca_pvs ?s = ca_pvs s" "ca_numPvs ?s = ca_numPvs s" by (simp_all add: with_variable_def)
  have ok': "graph_ok ?s" "ca_numVariables ?s = n"
    by (rule iffD2 [OF graph_ok_shape [OF shape_value] ok], simp add: n with_variable_def)
  have "p < ca_numPvs ?s \<and> variable_of ?s p = v" if "ChangeListener p \<in> set ?ls" for p
    using that ok n v by (simp add: pvs graph_ok_def)
  from listeners_settle [OF assms(1) ok' this, where dv = dv] obtain t where
    t: "fold_opt (notify sdk mu good dv) ?ls ?s = Some t" "frame (Suc v) v ?s t"
      "\<forall>p. ChangeListener p \<in> set ?ls \<longrightarrow> reading_of t p = listener_reading sdk dv"
      "\<forall>d. settled sdk mu ?s d \<or> (\<exists>p. ChangeListener p \<in> set ?ls \<and> d \<in> set (pv_notifiedVariables (ca_pvs s p))) \<longrightarrow> settled sdk mu t d"
    unfolding pvs by blast
  have "settled sdk mu ?s d" if "settled sdk mu s d" "d \<noteq> v" for d
    by (rule settled_cong [OF ok shape_value _ _ that(1)]) (use that(2) in \<open>simp_all add: with_variable_def\<close>)
  moreover have "frame v v s t"
  proof (rule frame_trans [of _ _ _ ?s])
    have "\<forall>w < v. ca_variables ?s w = ca_variables s w" by (simp add: with_variable_def)
    then show "frame v v s ?s" unfolding frame_def pvs by simp
  qed (rule frame_mono [OF t(2)], simp_all)
  moreover have "nv_value (ca_variables t v) = dv" using t(2) by (simp add: frame_def with_variable_def)
  moreover have "setValue sdk mu good v dv s = Some t" using t(1) accepted by (simp add: setValue_unfold)
  ultimately show ?thesis using t(3,4) by blast
qed

lemma all_set_settles: "set_settles v"
proof (induction "n - v" arbitrary: v rule: less_induct)
  case less
  show ?case
  proof (cases "v < n")
    case True
    have "set_settles c" if "v < c" for c by (rule less) (use that True in simp)
    from write_settles_below [OF this] True show ?thesis unfolding set_settles_def by blast
  qed (simp add: set_settles_def)
qed

lemmas write_settles = write_settles_below [OF all_set_settles]
lemmas update_settled = update_settles [OF all_set_settles]

end

abbreviation accepts_all :: "nat \<Rightarrow> 'v data_value \<Rightarrow> bool" where
  "accepts_all \<equiv> \<lambda>_ _. True"

interpretation toolkit: accepting_toolkit sdk mu accepts_all n for sdk :: "('v, 's, 'b) ua_sdk" and mu n
  by unfold_locales simp

end
