(* ===== verification/CalcSync.thy ===== *)
theory CalcSync
  imports CalcUpdates
begin

text \<open>
  The synchronization domains. The search from a parser variable returns, and gives its synchronizer
  to the variables that are reached through unsynchronized ones; the loop over all parser variables
  then gives two of them the same synchronizer exactly when they are connected by formulas.
\<close>

section \<open>Painting\<close>

abbreviation sync_of :: "'v calculation \<Rightarrow> nat \<Rightarrow> nat option" where
  "sync_of s p \<equiv> pv_synchronizer (ca_pvs s p)"

abbreviation constant_pv :: "'v calculation \<Rightarrow> nat \<Rightarrow> bool" where
  "constant_pv s p \<equiv> pv_isConstant (ca_pvs s p)"

abbreviation feeding :: "'v calculation \<Rightarrow> nat \<Rightarrow> bool" where
  "feeding s p \<equiv> pv_notifiedVariables (ca_pvs s p) \<noteq> []"

definition neighbours :: "'v calculation \<Rightarrow> nat \<Rightarrow> nat list" where
  "neighbours s p = ancestors_of s p @ descendants_of s p"

definition paint :: "nat set \<Rightarrow> nat \<Rightarrow> 'v calculation \<Rightarrow> 'v calculation" where
  "paint R k s = s\<lparr>ca_pvs := \<lambda>p. if p \<in> R then (ca_pvs s p)\<lparr>pv_synchronizer := Some k\<rparr> else ca_pvs s p\<rparr>"

lemma set_synchronizer_paint: "set_synchronizer p k s = paint {p} k s"
  by (rule calculation.equality) (auto simp: set_synchronizer_def with_pv_def paint_def)

lemma paint_paint: "paint R k (paint Q k s) = paint (Q \<union> R) k s"
  by (rule calculation.equality) (auto simp: paint_def)

lemma paint_empty [simp]: "paint {} k s = s"
  by (rule calculation.equality) (auto simp: paint_def)

lemma paint_simps [simp]:
  "ca_variables (paint R k s) = ca_variables s" "variable_of (paint R k s) p = variable_of s p"
  "constant_pv (paint R k s) p = constant_pv s p" "pv_notifiedVariables (ca_pvs (paint R k s) p) = pv_notifiedVariables (ca_pvs s p)"
  "sync_of (paint R k s) p = (if p \<in> R then Some k else sync_of s p)" "ca_numSynchronizers (paint R k s) = ca_numSynchronizers s"
  "ca_parserVariables (paint R k s) = ca_parserVariables s"
  by (simp_all add: paint_def)

lemma paint_neighbours [simp]: "neighbours (paint R k s) p = neighbours s p"
  by (simp add: neighbours_def ancestors_of_def descendants_of_def)

lemma unsynchronized_paint [simp]: "unsynchronized (paint R k s) q \<longleftrightarrow> unsynchronized s q \<and> q \<notin> R"
  by (auto simp: unsynchronized_def)

section \<open>The search\<close>

definition steps :: "'v calculation \<Rightarrow> (nat \<times> nat) set" where
  "steps s = {(p, q). q \<in> set (neighbours s p) \<and> \<not> constant_pv s q}"

lemma steps_paint [simp]: "steps (paint R k s) = steps s"
  by (simp add: steps_def)

text \<open>What a search from \<open>p\<close> has painted: \<open>R\<close>, in the set \<open>L\<close> of the listed variables.\<close>

definition searched :: "nat set \<Rightarrow> 'v calculation \<Rightarrow> nat set \<Rightarrow> bool" where
  "searched L s R \<longleftrightarrow> R \<subseteq> L \<and> (\<forall>r \<in> R. \<forall>q \<in> set (neighbours s r). unsynchronized s q \<longrightarrow> q \<in> R)"

definition search_ok :: "nat set \<Rightarrow> nat \<Rightarrow> nat \<Rightarrow> 'v calculation \<Rightarrow> bool" where
  "search_ok L k p s \<longleftrightarrow> (\<exists>R. dfsAndSetSynchronizer k p s = Some (paint R k s) \<and> searched L s R \<and> p \<in> R
     \<and> (\<forall>r \<in> R. (r = p \<or> unsynchronized s r) \<and> (p, r) \<in> (steps s)\<^sup>*))"

definition visit :: "nat \<Rightarrow> nat \<Rightarrow> 'v calculation \<Rightarrow> 'v calculation option" where
  "visit k q s = (if unsynchronized s q then dfsAndSetSynchronizer k q s else Some s)"

lemma dfs_unfold: "dfsAndSetSynchronizer k p s = fold_opt (visit k) (neighbours s p) (set_synchronizer p k s)"
  by (subst dfsAndSetSynchronizer.simps) (simp add: visit_def [abs_def] neighbours_def)

lemma visits_ok:
  assumes fin: "finite L"
    and IH: "\<And>(s :: 'v calculation) q. \<forall>p \<in> L. set (neighbours s p) \<subseteq> L \<Longrightarrow> q \<in> L \<Longrightarrow> card ({r \<in> L. unsynchronized s r} - {q}) < m \<Longrightarrow> search_ok L k q s"
    and "\<forall>p \<in> L. set (neighbours (s :: 'v calculation) p) \<subseteq> L" and "card {r \<in> L. unsynchronized s r} \<le> m" and "set qs \<subseteq> L"
  shows "\<exists>R. fold_opt (visit k) qs s = Some (paint R k s) \<and> searched L s R \<and> {q \<in> set qs. unsynchronized s q} \<subseteq> R
    \<and> (\<forall>r \<in> R. unsynchronized s r \<and> (\<exists>q \<in> set qs. \<not> constant_pv s q \<and> (q, r) \<in> (steps s)\<^sup>*))"
  using assms(3-5)
proof (induction qs arbitrary: s)
  case Nil
  then show ?case by (intro exI [of _ "{}"]) (simp add: searched_def)
next
  case (Cons q qs)
  show ?case
  proof (cases "unsynchronized s q")
    case False
    then show ?thesis using Cons.IH [OF Cons.prems(1,2)] Cons.prems(3) by (auto simp: visit_def)
  next
    case True
    let ?F = "\<lambda>s. {r \<in> L. unsynchronized s r}"
    have "q \<in> ?F s" using True Cons.prems(3) by simp
    then have "card (?F s - {q}) < card (?F s)" using fin by (intro psubset_card_mono) auto
    then have "search_ok L k q s" by (intro IH [OF Cons.prems(1)]) (use Cons.prems(2,3) in simp_all)
    then obtain R where R: "dfsAndSetSynchronizer k q s = Some (paint R k s)" "searched L s R" "q \<in> R"
      "\<forall>r \<in> R. (r = q \<or> unsynchronized s r) \<and> (q, r) \<in> (steps s)\<^sup>*"
      unfolding search_ok_def by blast
    have "card (?F (paint R k s)) \<le> m"
      by (rule le_trans [OF card_mono Cons.prems(2)]) (use fin in auto)
    then obtain Q where Q: "fold_opt (visit k) qs (paint R k s) = Some (paint Q k (paint R k s))" "searched L (paint R k s) Q"
      "{q \<in> set qs. unsynchronized (paint R k s) q} \<subseteq> Q"
      "\<forall>r \<in> Q. unsynchronized (paint R k s) r \<and> (\<exists>q \<in> set qs. \<not> constant_pv s q \<and> (q, r) \<in> (steps s)\<^sup>*)"
      using Cons.IH [of "paint R k s"] Cons.prems(1,3) by auto
    have "fold_opt (visit k) (q # qs) s = Some (paint (R \<union> Q) k s)"
      using R(1) Q(1) True by (simp add: visit_def [of k q] paint_paint)
    moreover have "searched L s (R \<union> Q)" using R(2) Q(2) by (auto simp: searched_def)
    moreover have "\<not> constant_pv s q" using True by (simp add: unsynchronized_def)
    ultimately show ?thesis using R(3,4) Q(3,4) True by (intro exI [of _ "R \<union> Q"]) auto
  qed
qed

lemma dfs_ok:
  assumes "finite L" and "\<forall>p \<in> L. set (neighbours s p) \<subseteq> L" and "p \<in> L"
  shows "search_ok L k p s"
  using assms(2,3)
proof (induction "card ({r \<in> L. unsynchronized s r} - {p})" arbitrary: s p rule: less_induct)
  case less
  let ?s = "paint {p} k s"
  have F: "{r \<in> L. unsynchronized ?s r} = {r \<in> L. unsynchronized s r} - {p}" by auto
  have "\<exists>R. fold_opt (visit k) (neighbours s p) ?s = Some (paint R k ?s) \<and> searched L ?s R
      \<and> {q \<in> set (neighbours s p). unsynchronized ?s q} \<subseteq> R
      \<and> (\<forall>r \<in> R. unsynchronized ?s r \<and> (\<exists>q \<in> set (neighbours s p). \<not> constant_pv ?s q \<and> (q, r) \<in> (steps ?s)\<^sup>*))"
    by (rule visits_ok [OF assms(1) less(1), of "card ({r \<in> L. unsynchronized s r} - {p})"])
       (use less.prems in \<open>simp_all add: F [simplified]\<close>)
  then obtain R where R: "fold_opt (visit k) (neighbours s p) ?s = Some (paint R k ?s)" "searched L ?s R"
    "{q \<in> set (neighbours s p). unsynchronized ?s q} \<subseteq> R"
    "\<forall>r \<in> R. unsynchronized ?s r \<and> (\<exists>q \<in> set (neighbours s p). \<not> constant_pv s q \<and> (q, r) \<in> (steps s)\<^sup>*)"
    by auto
  have "(p, r) \<in> (steps s)\<^sup>*" if "r \<in> R" for r
  proof -
    from R(4) that obtain q where "q \<in> set (neighbours s p)" "\<not> constant_pv s q" "(q, r) \<in> (steps s)\<^sup>*" by blast
    then show ?thesis by (intro converse_rtrancl_into_rtrancl [of p q]) (auto simp: steps_def)
  qed
  moreover have "dfsAndSetSynchronizer k p s = Some (paint ({p} \<union> R) k s)"
    using R(1) by (simp add: dfs_unfold set_synchronizer_paint paint_paint)
  moreover have "searched L s ({p} \<union> R)" using R(2,3) less.prems by (auto simp: searched_def)
  ultimately show ?case using R(4) unfolding search_ok_def by (intro exI [of _ "{p} \<union> R"]) auto
qed

section \<open>Connected parser variables\<close>

text \<open>
  \<open>p\<close> feeds \<open>r\<close>: the listed \<open>r\<close> stands for a calculated variable that reads \<open>p\<close>. Two variables
  that are not constant are linked when one feeds the other.
\<close>

definition feeds :: "'v calculation \<Rightarrow> nat \<Rightarrow> nat \<Rightarrow> bool" where
  "feeds s p r \<longleftrightarrow> r \<in> set (ca_parserVariables s) \<and> (\<exists>cv. formula_of s (variable_of s r) = Some cv \<and> p \<in> inputs cv)"

definition linked :: "'v calculation \<Rightarrow> (nat \<times> nat) set" where
  "linked s = {(p, q). (feeds s p q \<or> feeds s q p) \<and> \<not> constant_pv s p \<and> \<not> constant_pv s q}"

text \<open>A calculated variable knows its own parser variable while that is on the list.\<close>

definition own_ok :: "'v calculation \<Rightarrow> bool" where
  "own_ok s \<longleftrightarrow> (\<forall>c < ca_numVariables s. \<forall>cv p. formula_of s c = Some cv \<longrightarrow> cv_notifiedVariable cv = Some p \<longrightarrow>
       p \<in> set (ca_parserVariables s) \<and> variable_of s p = c)
     \<and> (\<forall>p \<in> set (ca_parserVariables s). \<forall>cv. formula_of s (variable_of s p) = Some cv \<longrightarrow> cv_notifiedVariable cv = Some p)"

lemma linked_sym: "(p, q) \<in> linked s \<Longrightarrow> (q, p) \<in> linked s"
  by (auto simp: linked_def)

lemma linked_star_sym: "(p, q) \<in> (linked s)\<^sup>* \<Longrightarrow> (q, p) \<in> (linked s)\<^sup>*"
  by (induction rule: rtrancl_induct) (auto intro: linked_sym converse_rtrancl_into_rtrancl)

lemma feeds_listed:
  assumes "graph_ok s" and "feeds s p r"
  shows "p \<in> set (ca_parserVariables s) \<and> r \<in> set (ca_parserVariables s)"
proof -
  obtain cv where r: "r \<in> set (ca_parserVariables s)" "formula_of s (variable_of s r) = Some cv" "p \<in> inputs cv"
    using assms(2) unfolding feeds_def by blast
  have "formula_ok s (variable_of s r) cv"
    by (rule graph_okD(4) [OF assms(1) graph_okD(3) [OF assms(1) graph_okD(2) [OF assms(1) r(1)]] r(2)])
  then show ?thesis using r(1,3) unfolding formula_ok_def by (metis (no_types))
qed

lemma in_map_filter: "y \<in> set (List.map_filter f xs) \<longleftrightarrow> (\<exists>x \<in> set xs. f x = Some y)"
  by (induction xs) (auto split: option.splits)

lemma own_okD:
  assumes "own_ok s"
  shows "c < ca_numVariables s \<Longrightarrow> formula_of s c = Some cv \<Longrightarrow> cv_notifiedVariable cv = Some p
      \<Longrightarrow> p \<in> set (ca_parserVariables s) \<and> variable_of s p = c"
    and "p \<in> set (ca_parserVariables s) \<Longrightarrow> formula_of s (variable_of s p) = Some cv \<Longrightarrow> cv_notifiedVariable cv = Some p"
  using assms unfolding own_ok_def by blast+

lemma descendants_feeds:
  assumes ok: "graph_ok s" "own_ok s" and p: "p \<in> set (ca_parserVariables s)"
  shows "q \<in> set (descendants_of s p) \<longleftrightarrow> feeds s p q"
proof -
  note notified = graph_okD(5) [OF ok(1) graph_okD(2) [OF ok(1) p]]
  have "q \<in> set (descendants_of s p) \<longleftrightarrow> (\<exists>c \<in> set (pv_notifiedVariables (ca_pvs s p)). \<exists>cv. formula_of s c = Some cv
      \<and> cv_notifiedVariable cv = Some q)"
    unfolding descendants_of_def in_map_filter by (auto simp: bind_eq_Some_conv)
  also have "\<dots> \<longleftrightarrow> feeds s p q"
  proof
    assume "\<exists>c \<in> set (pv_notifiedVariables (ca_pvs s p)). \<exists>cv. formula_of s c = Some cv \<and> cv_notifiedVariable cv = Some q"
    then obtain c cv where c: "c < ca_numVariables s" "formula_of s c = Some cv" "p \<in> inputs cv" "cv_notifiedVariable cv = Some q"
      using notified by auto
    then have "q \<in> set (ca_parserVariables s)" "variable_of s q = c" using own_okD(1) [OF ok(2)] by auto
    then show "feeds s p q" using c(2,3) unfolding feeds_def by blast
  next
    assume "feeds s p q"
    then obtain cv where q: "q \<in> set (ca_parserVariables s)" "formula_of s (variable_of s q) = Some cv" "p \<in> inputs cv"
      unfolding feeds_def by blast
    have "variable_of s q < ca_numVariables s" using graph_okD(2,3) [OF ok(1)] q(1) by simp
    then have "variable_of s q \<in> set (pv_notifiedVariables (ca_pvs s p))" using notified q(2,3) by blast
    then show "\<exists>c \<in> set (pv_notifiedVariables (ca_pvs s p)). \<exists>cv. formula_of s c = Some cv \<and> cv_notifiedVariable cv = Some q"
      using q(2) own_okD(2) [OF ok(2) q(1,2)] by blast
  qed
  finally show ?thesis .
qed

lemma neighbours_feeds:
  assumes ok: "graph_ok s" "own_ok s" and p: "p \<in> set (ca_parserVariables s)"
  shows "q \<in> set (neighbours s p) \<longleftrightarrow> feeds s q p \<or> feeds s p q"
proof -
  have "q \<in> set (ancestors_of s p) \<longleftrightarrow> feeds s q p"
    using p by (cases "formula_of s (variable_of s p)") (simp_all add: ancestors_of_def feeds_def)
  then show ?thesis using descendants_feeds [OF assms] by (simp add: neighbours_def)
qed

section \<open>The loop over all parser variables\<close>

text \<open>The synchronizers of \<open>s\<close>, on the graph of \<open>s0\<close>, are those of whole connected parts.\<close>

definition domains_ok :: "'v calculation \<Rightarrow> 'v calculation \<Rightarrow> bool" where
  "domains_ok s0 s \<longleftrightarrow> (\<exists>sync n. s = s0\<lparr>ca_pvs := \<lambda>p. (ca_pvs s0 p)\<lparr>pv_synchronizer := sync p\<rparr>, ca_numSynchronizers := n\<rparr>)
     \<and> (\<forall>p \<in> set (ca_parserVariables s0). sync_of s p \<noteq> None \<longrightarrow> \<not> constant_pv s0 p
          \<and> (\<forall>q. (p, q) \<in> linked s0 \<longrightarrow> sync_of s q = sync_of s p)
          \<and> (\<exists>q \<in> set (ca_parserVariables s0). feeding s0 q \<and> (q, p) \<in> (linked s0)\<^sup>*)
          \<and> the (sync_of s p) < ca_numSynchronizers s)
     \<and> (\<forall>p \<in> set (ca_parserVariables s0). \<forall>q \<in> set (ca_parserVariables s0). sync_of s p \<noteq> None \<longrightarrow> sync_of s p = sync_of s q \<longrightarrow>
          (p, q) \<in> (linked s0)\<^sup>*)"

lemma domains_okD:
  assumes "domains_ok s0 s" and "p \<in> set (ca_parserVariables s0)" and "sync_of s p \<noteq> None"
  shows "\<not> constant_pv s0 p" and "(p, q) \<in> linked s0 \<Longrightarrow> sync_of s q = sync_of s p"
    and "\<exists>q \<in> set (ca_parserVariables s0). feeding s0 q \<and> (q, p) \<in> (linked s0)\<^sup>*"
    and "the (sync_of s p) < ca_numSynchronizers s"
    and "q \<in> set (ca_parserVariables s0) \<Longrightarrow> sync_of s p = sync_of s q \<Longrightarrow> (p, q) \<in> (linked s0)\<^sup>*"
  using assms unfolding domains_ok_def by blast+

lemma domains_same:
  assumes "domains_ok s0 s"
  shows "neighbours s p = neighbours s0 p" "constant_pv s p = constant_pv s0 p"
    "pv_notifiedVariables (ca_pvs s p) = pv_notifiedVariables (ca_pvs s0 p)"
proof -
  obtain f n where s: "s = s0\<lparr>ca_pvs := \<lambda>p. (ca_pvs s0 p)\<lparr>pv_synchronizer := f p\<rparr>, ca_numSynchronizers := n\<rparr>"
    using assms unfolding domains_ok_def by blast
  show "neighbours s p = neighbours s0 p" "constant_pv s p = constant_pv s0 p"
    "pv_notifiedVariables (ca_pvs s p) = pv_notifiedVariables (ca_pvs s0 p)"
    by (simp_all add: s neighbours_def ancestors_of_def descendants_of_def)
qed

text \<open>A fresh domain: \<open>R\<close> is the part of the unsynchronized \<open>p\<close>.\<close>

definition fresh_domain :: "'v calculation \<Rightarrow> 'v calculation \<Rightarrow> nat \<Rightarrow> nat set \<Rightarrow> bool" where
  "fresh_domain s0 s p R \<longleftrightarrow> p \<in> R \<and> R \<subseteq> set (ca_parserVariables s0)
     \<and> (\<forall>r \<in> R. sync_of s r = None \<and> \<not> constant_pv s0 r \<and> (p, r) \<in> (linked s0)\<^sup>*)
     \<and> (\<forall>r \<in> R. \<forall>q. (r, q) \<in> linked s0 \<longrightarrow> sync_of s q = None \<longrightarrow> q \<in> R)"

definition with_domain :: "nat set \<Rightarrow> 'v calculation \<Rightarrow> 'v calculation" where
  "with_domain R s = paint R (ca_numSynchronizers s) (s\<lparr>ca_numSynchronizers := Suc (ca_numSynchronizers s)\<rparr>)"

lemma with_domain_simps [simp]:
  "sync_of (with_domain R s) q = (if q \<in> R then Some (ca_numSynchronizers s) else sync_of s q)"
  "ca_numSynchronizers (with_domain R s) = Suc (ca_numSynchronizers s)"
  by (simp_all add: with_domain_def paint_def)

lemma setup_searches:
  assumes ok: "graph_ok s0" "own_ok s0" and dom: "domains_ok s0 s" and p: "p \<in> set (ca_parserVariables s0)"
    and free: "feeding s0 p" "sync_of s p = None" "\<not> constant_pv s0 p"
  obtains R where "setup_one p s = Some (with_domain R s)" and "fresh_domain s0 s p R"
proof -
  define L where "L = set (ca_parserVariables s0)"
  define k where "k = ca_numSynchronizers s"
  let ?s = "paint {p} k (s\<lparr>ca_numSynchronizers := Suc k\<rparr>)"
  have near: "neighbours ?s q = neighbours s0 q" "constant_pv ?s q = constant_pv s0 q" for q
  proof -
    have "neighbours (s\<lparr>ca_numSynchronizers := Suc k\<rparr>) q = neighbours s q" by (simp add: neighbours_def ancestors_of_def descendants_of_def)
    then show "neighbours ?s q = neighbours s0 q" "constant_pv ?s q = constant_pv s0 q"
      using domains_same(1,2) [OF dom, of q] by simp_all
  qed
  have free1: "unsynchronized ?s q \<longleftrightarrow> q \<noteq> p \<and> sync_of s q = None \<and> \<not> constant_pv s0 q" for q
    using near(2) [of q] by (simp add: unsynchronized_def)
  note neigh = neighbours_feeds [OF ok]
  have closed: "\<forall>q \<in> L. set (neighbours ?s q) \<subseteq> L"
    unfolding near L_def using neigh feeds_listed [OF ok(1)] by blast
  have "search_ok L k p ?s" using dfs_ok [OF _ closed, of p k] p by (simp add: L_def)
  then obtain R where R: "dfsAndSetSynchronizer k p ?s = Some (paint R k ?s)" "R \<subseteq> L" "p \<in> R"
    "\<And>r q. r \<in> R \<Longrightarrow> q \<in> set (neighbours s0 r) \<Longrightarrow> unsynchronized ?s q \<Longrightarrow> q \<in> R"
    "\<And>r. r \<in> R \<Longrightarrow> r = p \<or> unsynchronized ?s r" "\<And>r. r \<in> R \<Longrightarrow> (p, r) \<in> (steps ?s)\<^sup>*"
    unfolding search_ok_def searched_def near by blast
  have plain: "sync_of s r = None \<and> \<not> constant_pv s0 r" if "r \<in> R" for r
    using R(5) [OF that] free free1 by blast
  have reach: "(p, r) \<in> (linked s0)\<^sup>*" if "r \<in> R" for r
  proof -
    have "(p, r) \<in> (linked s0)\<^sup>* \<and> r \<in> L \<and> \<not> constant_pv s0 r" using R(6) [OF that]
    proof (induction rule: rtrancl_induct)
      case base
      then show ?case using p free(3) by (simp add: L_def)
    next
      case (step a b)
      then have b: "b \<in> set (neighbours s0 a)" "\<not> constant_pv s0 b" unfolding steps_def near by simp_all
      then have "(a, b) \<in> linked s0" using step.IH neigh [of a b] unfolding linked_def L_def by blast
      moreover have "b \<in> L" using closed step.IH b(1) unfolding near by blast
      ultimately show ?case using step.IH b(2) by (blast intro: rtrancl_into_rtrancl)
    qed
    then show ?thesis by blast
  qed
  have spread: "q \<in> R" if "r \<in> R" "(r, q) \<in> linked s0" "sync_of s q = None" for r q
  proof (cases "q = p")
    case False
    have "r \<in> L" using R(2) that(1) by blast
    then have "q \<in> set (neighbours s0 r)" "\<not> constant_pv s0 q" using that(2) neigh [of r q] unfolding linked_def L_def by blast+
    then show ?thesis using R(4) [OF that(1)] False that(3) free1 by blast
  qed (use R(3) in simp)
  show ?thesis
  proof (rule that)
    have "paint R k ?s = with_domain R s" using R(3) by (simp add: with_domain_def paint_paint k_def insert_absorb)
    moreover have "set_synchronizer p k (s\<lparr>ca_numSynchronizers := Suc k\<rparr>) = ?s" by (rule set_synchronizer_paint)
    ultimately show "setup_one p s = Some (with_domain R s)"
      using R(1) free domains_same [OF dom, of p] by (simp add: setup_one_def Let_def k_def)
    have "\<forall>r \<in> R. sync_of s r = None \<and> \<not> constant_pv s0 r \<and> (p, r) \<in> (linked s0)\<^sup>*"
      using plain reach by simp
    moreover have "\<forall>r \<in> R. \<forall>q. (r, q) \<in> linked s0 \<longrightarrow> sync_of s q = None \<longrightarrow> q \<in> R"
      by (intro ballI allI impI) (rule spread)
    ultimately show "fresh_domain s0 s p R" unfolding fresh_domain_def L_def [symmetric] by (intro conjI R(2,3))
  qed
qed

lemma with_domain_ok:
  assumes ok: "graph_ok s0" and dom: "domains_ok s0 s" and R: "fresh_domain s0 s p R" and p: "feeding s0 p"
  shows "domains_ok s0 (with_domain R s)"
proof -
  define L where "L = set (ca_parserVariables s0)"
  define k where "k = ca_numSynchronizers s"
  let ?t = "with_domain R s"
  have plain: "p \<in> R" "R \<subseteq> L" "\<And>r. r \<in> R \<Longrightarrow> sync_of s r = None" "\<And>r. r \<in> R \<Longrightarrow> \<not> constant_pv s0 r"
    "\<And>r. r \<in> R \<Longrightarrow> (p, r) \<in> (linked s0)\<^sup>*" "\<And>r q. r \<in> R \<Longrightarrow> (r, q) \<in> linked s0 \<Longrightarrow> sync_of s q = None \<Longrightarrow> q \<in> R"
    using R unfolding fresh_domain_def L_def by blast+
  have old: "\<not> constant_pv s0 q" "\<And>r. (q, r) \<in> linked s0 \<Longrightarrow> sync_of s r = sync_of s q"
      "\<exists>r \<in> L. feeding s0 r \<and> (r, q) \<in> (linked s0)\<^sup>*" "the (sync_of s q) < k"
    if "q \<in> L" "sync_of s q \<noteq> None" for q
    using dom that unfolding domains_ok_def L_def k_def by blast+
  have sync: "sync_of ?t q = (if q \<in> R then Some k else sync_of s q)" for q by (simp add: k_def)
  have spread: "r \<in> R" if "q \<in> R" "(q, r) \<in> linked s0" for q r
  proof (rule ccontr)
    assume "r \<notin> R"
    then have s: "sync_of s r \<noteq> None" using plain(6) that by blast
    have "r \<in> L" using feeds_listed [OF ok] that(2) unfolding linked_def L_def by blast
    from old(2) [OF this s linked_sym [OF that(2)]] s plain(3) [OF that(1)] show False by simp
  qed
  obtain f n where s: "s = s0\<lparr>ca_pvs := \<lambda>q. (ca_pvs s0 q)\<lparr>pv_synchronizer := f q\<rparr>, ca_numSynchronizers := n\<rparr>"
    using dom unfolding domains_ok_def by blast
  have "?t = s0\<lparr>ca_pvs := \<lambda>q. (ca_pvs s0 q)\<lparr>pv_synchronizer := if q \<in> R then Some n else f q\<rparr>, ca_numSynchronizers := Suc n\<rparr>"
    by (rule calculation.equality) (simp_all add: s with_domain_def paint_def fun_eq_iff)
  then have "\<exists>sync n. ?t = s0\<lparr>ca_pvs := \<lambda>q. (ca_pvs s0 q)\<lparr>pv_synchronizer := sync q\<rparr>, ca_numSynchronizers := n\<rparr>" by (intro exI)
  moreover have "\<not> constant_pv s0 q \<and> (\<forall>r. (q, r) \<in> linked s0 \<longrightarrow> sync_of ?t r = sync_of ?t q)
      \<and> (\<exists>r \<in> L. feeding s0 r \<and> (r, q) \<in> (linked s0)\<^sup>*) \<and> the (sync_of ?t q) < ca_numSynchronizers ?t"
    if q: "q \<in> L" "sync_of ?t q \<noteq> None" for q
  proof (cases "q \<in> R")
    case True
    have "\<exists>r \<in> L. feeding s0 r \<and> (r, q) \<in> (linked s0)\<^sup>*" using plain(1,2,5) True p by blast
    moreover have "sync_of ?t r = sync_of ?t q" if "(q, r) \<in> linked s0" for r using spread [OF True that] True unfolding sync by simp
    ultimately show ?thesis using True plain(4) by (simp add: k_def)
  next
    case False
    then have s: "sync_of s q \<noteq> None" using q(2) sync by simp
    have "sync_of ?t r = sync_of ?t q" if "(q, r) \<in> linked s0" for r
      using old(2) [OF q(1) s that] s plain(3) [of r] False unfolding sync by (cases "r \<in> R") simp_all
    then show ?thesis using old(1,3,4) [OF q(1) s] False unfolding sync by (simp add: k_def)
  qed
  moreover have "(q, r) \<in> (linked s0)\<^sup>*"
    if q: "q \<in> L" "r \<in> L" "sync_of ?t q \<noteq> None" "sync_of ?t q = sync_of ?t r" for q r
  proof (cases "q \<in> R"; cases "r \<in> R")
    assume "q \<in> R" "r \<in> R"
    then show ?thesis using plain(5) linked_star_sym by (blast intro: rtrancl_trans)
  next
    assume "q \<in> R" "r \<notin> R"
    then have "sync_of s r = Some k" using q(4) unfolding sync by simp
    then show ?thesis using old(4) [OF q(2)] by simp
  next
    assume "q \<notin> R" "r \<in> R"
    then have "sync_of s q = Some k" using q(4) unfolding sync by simp
    then show ?thesis using old(4) [OF q(1)] by simp
  next
    assume "q \<notin> R" "r \<notin> R"
    then have "sync_of s q \<noteq> None" "sync_of s q = sync_of s r" using q(3,4) unfolding sync by simp_all
    then show ?thesis using dom q(1,2) unfolding domains_ok_def L_def by blast
  qed
  ultimately show ?thesis unfolding domains_ok_def L_def by blast
qed

lemma setup_one_ok:
  assumes ok: "graph_ok s0" "own_ok s0" and dom: "domains_ok s0 s" and p: "p \<in> set (ca_parserVariables s0)"
  shows "\<exists>t. setup_one p s = Some t \<and> domains_ok s0 t \<and> (\<forall>q. sync_of s q \<noteq> None \<longrightarrow> sync_of t q \<noteq> None)
    \<and> (feeding s0 p \<and> \<not> constant_pv s0 p \<longrightarrow> sync_of t p \<noteq> None)"
proof (cases "feeding s0 p \<and> sync_of s p = None \<and> \<not> constant_pv s0 p")
  case True
  then obtain R where R: "setup_one p s = Some (with_domain R s)" "fresh_domain s0 s p R"
    using setup_searches [OF ok dom p] by blast
  then have "p \<in> R" unfolding fresh_domain_def by blast
  then show ?thesis using R(1) with_domain_ok [OF ok(1) dom R(2)] True by simp
next
  case False
  then have "setup_one p s = Some s" using domains_same [OF dom, of p] by (auto simp: setup_one_def)
  then show ?thesis using dom False by blast
qed

lemma setup_all_ok:
  assumes ok: "graph_ok s0" "own_ok s0" and dom: "domains_ok s0 s" and ps: "set ps \<subseteq> set (ca_parserVariables s0)"
  shows "\<exists>t. fold_opt setup_one ps s = Some t \<and> domains_ok s0 t \<and> (\<forall>q. sync_of s q \<noteq> None \<longrightarrow> sync_of t q \<noteq> None)
    \<and> (\<forall>p \<in> set ps. feeding s0 p \<and> \<not> constant_pv s0 p \<longrightarrow> sync_of t p \<noteq> None)"
  using dom ps
proof (induction ps arbitrary: s)
  case (Cons p ps)
  obtain t where t: "setup_one p s = Some t" "domains_ok s0 t" "\<forall>q. sync_of s q \<noteq> None \<longrightarrow> sync_of t q \<noteq> None"
    "feeding s0 p \<and> \<not> constant_pv s0 p \<longrightarrow> sync_of t p \<noteq> None"
    using setup_one_ok [OF ok Cons.prems(1), of p] Cons.prems(2) by auto
  obtain r where "fold_opt setup_one ps t = Some r" "domains_ok s0 r" "\<forall>q. sync_of t q \<noteq> None \<longrightarrow> sync_of r q \<noteq> None"
    "\<forall>p \<in> set ps. feeding s0 p \<and> \<not> constant_pv s0 p \<longrightarrow> sync_of r p \<noteq> None"
    using Cons.IH [OF t(2)] Cons.prems(2) by auto
  then show ?case using t by auto
qed auto

text \<open>
  From a state without synchronizers: the variables that have one afterwards are those connected to a
  variable that feeds a formula, and two of them share it exactly when they are connected.
\<close>

lemma setup_domains:
  assumes ok: "graph_ok s" "own_ok s" and none: "\<And>p. p \<in> set (ca_parserVariables s) \<Longrightarrow> sync_of s p = None"
  shows "\<exists>t. setupSynchronization s = Some t \<and> domains_ok s t
    \<and> (\<forall>p \<in> set (ca_parserVariables s). \<forall>q \<in> set (ca_parserVariables s). sync_of t p \<noteq> None \<longrightarrow>
         (sync_of t p = sync_of t q \<longleftrightarrow> (p, q) \<in> (linked s)\<^sup>*))
    \<and> (\<forall>p \<in> set (ca_parserVariables s). sync_of t p \<noteq> None \<longleftrightarrow> \<not> constant_pv s p
         \<and> (\<exists>q \<in> set (ca_parserVariables s). feeding s q \<and> (q, p) \<in> (linked s)\<^sup>* \<and> \<not> constant_pv s q))"
proof -
  let ?L = "set (ca_parserVariables s)"
  have "domains_ok s s" unfolding domains_ok_def
  proof (intro conjI)
    show "\<exists>sync n. s = s\<lparr>ca_pvs := \<lambda>p. (ca_pvs s p)\<lparr>pv_synchronizer := sync p\<rparr>, ca_numSynchronizers := n\<rparr>"
      by (rule exI [of _ "sync_of s"], rule exI [of _ "ca_numSynchronizers s"], rule calculation.equality) simp_all
  qed (simp_all add: none)
  from setup_all_ok [OF ok this, of "rev (ca_parserVariables s)"] obtain t where
    all: "fold_opt setup_one (rev (ca_parserVariables s)) s = Some t" "domains_ok s t"
      "\<forall>p \<in> ?L. feeding s p \<and> \<not> constant_pv s p \<longrightarrow> sync_of t p \<noteq> None"
    by (simp only: set_rev) blast
  then have t: "setupSynchronization s = Some t" "domains_ok s t"
    "\<And>p. p \<in> ?L \<Longrightarrow> feeding s p \<Longrightarrow> \<not> constant_pv s p \<Longrightarrow> sync_of t p \<noteq> None"
    unfolding setupSynchronization_def by blast+
  have along: "sync_of t q = sync_of t p \<and> q \<in> ?L" if "(p, q) \<in> (linked s)\<^sup>*" "p \<in> ?L" "sync_of t p \<noteq> None" for p q
    using that
  proof (induction rule: rtrancl_induct)
    case (step a b)
    have "b \<in> ?L" using feeds_listed [OF ok(1)] step.hyps(2) unfolding linked_def by blast
    moreover have "sync_of t b = sync_of t a" using domains_okD(2) [OF t(2) _ _ step.hyps(2)] step.IH step.prems by simp
    ultimately show ?case using step.IH step.prems by simp
  qed simp
  have origin: "\<not> constant_pv s q" if "(q, p) \<in> (linked s)\<^sup>*" "\<not> constant_pv s p" for p q
    using that by (induction rule: converse_rtrancl_induct) (simp_all add: linked_def)
  have "\<forall>p \<in> ?L. sync_of t p \<noteq> None \<longleftrightarrow> \<not> constant_pv s p
      \<and> (\<exists>q \<in> ?L. feeding s q \<and> (q, p) \<in> (linked s)\<^sup>* \<and> \<not> constant_pv s q)"
  proof (intro ballI iffI)
    fix p assume p: "p \<in> ?L" "sync_of t p \<noteq> None"
    then show "\<not> constant_pv s p \<and> (\<exists>q \<in> ?L. feeding s q \<and> (q, p) \<in> (linked s)\<^sup>* \<and> \<not> constant_pv s q)"
      using domains_okD(1,3) [OF t(2) p] origin by blast
  next
    fix p assume "p \<in> ?L" "\<not> constant_pv s p \<and> (\<exists>q \<in> ?L. feeding s q \<and> (q, p) \<in> (linked s)\<^sup>* \<and> \<not> constant_pv s q)"
    then obtain q where q: "q \<in> ?L" "feeding s q" "(q, p) \<in> (linked s)\<^sup>*" "\<not> constant_pv s q" by blast
    show "sync_of t p \<noteq> None" using along [OF q(3,1) t(3) [OF q(1,2,4)]] t(3) [OF q(1,2,4)] by simp
  qed
  moreover have "\<forall>p \<in> ?L. \<forall>q \<in> ?L. sync_of t p \<noteq> None \<longrightarrow> (sync_of t p = sync_of t q \<longleftrightarrow> (p, q) \<in> (linked s)\<^sup>*)"
  proof (intro ballI impI iffI)
    fix p q assume p: "p \<in> ?L" "q \<in> ?L" "sync_of t p \<noteq> None"
    show "(p, q) \<in> (linked s)\<^sup>*" if "sync_of t p = sync_of t q" by (rule domains_okD(5) [OF t(2) p(1,3,2) that])
    show "sync_of t p = sync_of t q" if "(p, q) \<in> (linked s)\<^sup>*" using along [OF that p(1,3)] by simp
  qed
  ultimately show ?thesis using t(1,2) by blast
qed

end
