(* ===== verification/CalcInvariant.thy ===== *)
theory CalcInvariant
  imports CalcSync
begin

text \<open>
  Every operation of the engine keeps the graph of the calculated variables well-formed: the lists
  of notified variables and of inputs agree, formulas read older variables only, and a calculated
  variable knows its own parser variable as long as that is on the list.
\<close>

section \<open>Operations with an outcome\<close>

text \<open>From \<open>P\<close> the operation, if it returns, ends in \<open>Q\<close> with its result, or throws in \<open>E\<close>.\<close>

definition runs_to :: "('s \<Rightarrow> bool) \<Rightarrow> ('s, 'r) motion \<Rightarrow> ('r \<Rightarrow> 's \<Rightarrow> bool) \<Rightarrow> ('s \<Rightarrow> bool) \<Rightarrow> bool" where
  "runs_to P m Q E \<longleftrightarrow> (\<forall>s s' r. P s \<longrightarrow> m s = Some (s', r) \<longrightarrow> (case r of Inl e \<Rightarrow> E s' | Inr x \<Rightarrow> Q x s'))"

lemma runs_to_bind:
  assumes "runs_to P m Q E" and "\<And>x. runs_to (Q x) (f x) R E"
  shows "runs_to P (mo_bind m f) R E"
  unfolding runs_to_def
proof (intro allI impI)
  fix s s' r assume s: "P s" "mo_bind m f s = Some (s', r)"
  then obtain t q where t: "m s = Some (t, q)" by (auto simp: mo_bind_def split: option.splits)
  then have "case q of Inl e \<Rightarrow> E t | Inr x \<Rightarrow> Q x t" using assms(1) s(1) unfolding runs_to_def by blast
  then show "case r of Inl e \<Rightarrow> E s' | Inr x \<Rightarrow> R x s'"
    using s(2) t assms(2) unfolding runs_to_def by (cases q) (fastforce simp: mo_bind_def)+
qed

lemma runs_toI: "(\<And>s s' r. P s \<Longrightarrow> m s = Some (s', r) \<Longrightarrow> case r of Inl e \<Rightarrow> E s' | Inr x \<Rightarrow> Q x s') \<Longrightarrow> runs_to P m Q E"
  by (simp add: runs_to_def)

lemma runs_toD: "runs_to P m Q E \<Longrightarrow> P s \<Longrightarrow> m s = Some (s', r) \<Longrightarrow> (\<And>x. Q x s' \<Longrightarrow> I s') \<Longrightarrow> (E s' \<Longrightarrow> I s') \<Longrightarrow> I s'"
  by (cases r) (fastforce simp: runs_to_def)+

lemma runs_to_value: "(\<And>s. P s \<Longrightarrow> E s) \<Longrightarrow> runs_to P (mo_value r) (\<lambda>_. P) E"
  by (auto simp: runs_to_def mo_value_def split: sum.split)

lemma runs_to_state: "(\<And>s t. P s \<Longrightarrow> f s = Some t \<Longrightarrow> Q t) \<Longrightarrow> runs_to P (mo_state f) (\<lambda>_. Q) E"
  by (auto simp: runs_to_def mo_state_def)

lemma runs_to_modify: "(\<And>s. P s \<Longrightarrow> Q (f s)) \<Longrightarrow> runs_to P (mo_action (act_modify f)) (\<lambda>_. Q) E"
  by (auto simp: runs_to_def mo_action_def)

lemma runs_to_keeps:
  assumes keeps: "\<And>s t r. P s \<Longrightarrow> m s = (t, r) \<Longrightarrow> P t" and "\<And>s. P s \<Longrightarrow> E s"
  shows "runs_to P (mo_action m) (\<lambda>_. P) E"
proof (rule runs_toI)
  fix s t r assume "P s" "mo_action m s = Some (t, r)"
  then have "P t" using keeps by (simp add: mo_action_def)
  then show "case r of Inl e \<Rightarrow> E t | Inr x \<Rightarrow> P t" using assms(2) by (simp split: sum.split)
qed

lemma runs_to_return: "(\<And>s. P s \<Longrightarrow> Q x s) \<Longrightarrow> runs_to P (mo_action (act_return x)) Q E"
  by (auto simp: runs_to_def mo_action_def)

section \<open>The invariant\<close>

definition calc_ok :: "'v calculation \<Rightarrow> bool" where
  "calc_ok s \<longleftrightarrow> graph_ok s \<and> own_ok s"

text \<open>The parts of a calculation that the invariant reads.\<close>

definition same_graph :: "'v calculation \<Rightarrow> 'v calculation \<Rightarrow> bool" where
  "same_graph s t \<longleftrightarrow> ca_numVariables s = ca_numVariables t \<and> ca_numPvs s = ca_numPvs t
     \<and> ca_parserVariables s = ca_parserVariables t
     \<and> (\<forall>v. formula_of s v = formula_of t v \<and> nv_changeListeners (ca_variables s v) = nv_changeListeners (ca_variables t v))
     \<and> (\<forall>p. variable_of s p = variable_of t p \<and> pv_notifiedVariables (ca_pvs s p) = pv_notifiedVariables (ca_pvs t p))"

lemma same_graph_ok: "same_graph s t \<Longrightarrow> calc_ok s \<longleftrightarrow> calc_ok t"
  by (simp add: same_graph_def calc_ok_def graph_ok_def own_ok_def formula_ok_def)

lemma shape_same_graph: "shape s = shape t \<Longrightarrow> same_graph s t"
  using shape_eq [of s t] by (simp add: same_graph_def)

lemma write_same_graph:
  assumes "\<And>v dv. good v dv" and "calc_ok s" and "v < ca_numVariables s" and "setValue sdk mu good v dv s = Some t"
  shows "same_graph t s"
proof -
  have "graph_ok s" using assms(2) by (simp add: calc_ok_def)
  from accepting_toolkit.write_settles [OF accepting_toolkit.intro [of good, OF assms(1)] this refl assms(3), of sdk mu dv]
  show ?thesis using assms(4) shape_same_graph unfolding frame_def by auto
qed

lemma update_same_graph:
  assumes "\<And>v dv. good v dv" and "calc_ok s" and "v < ca_numVariables s" and "update_variable sdk mu good v s = Some t"
  shows "same_graph t s"
proof -
  have "graph_ok s" using assms(2) by (simp add: calc_ok_def)
  from accepting_toolkit.update_settled [OF accepting_toolkit.intro [of good, OF assms(1)] this refl assms(3), of sdk mu]
  show ?thesis using assms(4) shape_same_graph unfolding frame_def by auto
qed

section \<open>Plain variables and their registration\<close>

lemma graph_okI:
  assumes "distinct (ca_parserVariables s)"
    and "\<And>p. p \<in> set (ca_parserVariables s) \<Longrightarrow> p < ca_numPvs s
          \<and> ChangeListener p \<in> set (nv_changeListeners (ca_variables s (variable_of s p)))"
    and "\<And>p. p < ca_numPvs s \<Longrightarrow> variable_of s p < ca_numVariables s"
    and "\<And>c cv. c < ca_numVariables s \<Longrightarrow> formula_of s c = Some cv \<Longrightarrow> formula_ok s c cv"
    and "\<And>p c. p < ca_numPvs s \<Longrightarrow> c \<in> set (pv_notifiedVariables (ca_pvs s p)) \<longleftrightarrow>
          c < ca_numVariables s \<and> (\<exists>cv. formula_of s c = Some cv \<and> p \<in> inputs cv)"
    and "\<And>v p. v < ca_numVariables s \<Longrightarrow> ChangeListener p \<in> set (nv_changeListeners (ca_variables s v)) \<Longrightarrow>
          p < ca_numPvs s \<and> variable_of s p = v"
  shows "graph_ok s"
  unfolding graph_ok_def using assms by (intro conjI) blast+

text \<open>A new variable with a formula that has no inputs yet, or without a formula.\<close>

lemma new_variable_ok:
  assumes ok: "calc_ok s" and "new_variable nodeId dv formula s = (t, v)"
    and f: "\<And>cv. formula = Some cv \<Longrightarrow> inputs cv = {} \<and> bp_variables (cv_valueParser cv) = [] \<and> bp_variables (cv_statusParser cv) = []
       \<and> cv_notifiedVariable cv = None"
  shows "calc_ok t \<and> v = ca_numVariables s \<and> ca_numVariables t = Suc v \<and> formula_of t v = formula
    \<and> nv_changeListeners (ca_variables t v) = [] \<and> (\<forall>p < ca_numPvs t. variable_of t p < v)"
proof -
  have g: "graph_ok s" "own_ok s" using ok by (simp_all add: calc_ok_def)
  have v: "v = ca_numVariables s" and t: "ca_numVariables t = Suc v" "ca_numPvs t = ca_numPvs s" "ca_pvs t = ca_pvs s"
    "ca_parserVariables t = ca_parserVariables s" "\<And>w. w \<noteq> v \<Longrightarrow> ca_variables t w = ca_variables s w"
    "formula_of t v = formula" "nv_changeListeners (ca_variables t v) = []"
    using assms(2) by (auto simp: new_variable_def Let_def)
  have older: "variable_of s p < v" if "p < ca_numPvs s" for p using graph_okD(3) [OF g(1) that] v by simp
  have "graph_ok t"
  proof (rule graph_okI, goal_cases)
    case 1
    show ?case using graph_okD(1) [OF g(1)] by (simp add: t)
  next
    case (2 p)
    then have p: "p < ca_numPvs s" "ChangeListener p \<in> set (nv_changeListeners (ca_variables s (variable_of s p)))"
      using graph_okD(2,7) [OF g(1), of p] by (simp_all add: t)
    moreover have "variable_of s p \<noteq> v" using older [OF p(1)] by simp
    ultimately show ?case by (simp add: t)
  next
    case (3 p)
    then show ?case using older by (simp add: t less_Suc_eq)
  next
    case (4 c cv)
    show ?case
    proof (cases "c = v")
      case True
      then show ?thesis using f [of cv] 4(2) by (simp add: t formula_ok_def)
    next
      case False
      then have "formula_ok s c cv" using 4 graph_okD(4) [OF g(1), of c cv] v by (simp add: t less_Suc_eq)
      then show ?thesis by (simp add: formula_ok_def t)
    qed
  next
    case (5 p c)
    then have "c \<in> set (pv_notifiedVariables (ca_pvs s p)) \<longleftrightarrow> c < v \<and> (\<exists>cv. formula_of s c = Some cv \<and> p \<in> inputs cv)"
      using graph_okD(5) [OF g(1), of p c] v by (simp add: t)
    then show ?case using f by (cases "c = v") (auto simp: t less_Suc_eq)
  next
    case (6 w p)
    then have "w \<noteq> v" using t(7) by auto
    then show ?case using 6 graph_okD(6) [OF g(1), of w p] v by (simp add: t less_Suc_eq)
  qed
  moreover have "own_ok t"
    unfolding own_ok_def
  proof (intro conjI allI ballI impI, goal_cases)
    case (1 c cv p)
    then have "c \<noteq> v" using f t(6) by auto
    then show ?case using 1 own_okD(1) [OF g(2), of c cv p] v by (simp add: t less_Suc_eq)
  next
    case (2 c cv p)
    then have "c \<noteq> v" using f t(6) by auto
    then show ?case using 2 own_okD(1) [OF g(2), of c cv p] v by (simp add: t less_Suc_eq)
  next
    case (3 p cv)
    then have "variable_of s p \<noteq> v" using older graph_okD(2) [OF g(1), of p] by (auto simp: t)
    then show ?case using 3 own_okD(2) [OF g(2), of p cv] by (simp add: t)
  qed
  ultimately show ?thesis using v t older by (simp add: calc_ok_def)
qed

text \<open>All that \<open>own_ok\<close> says but for one parser variable.\<close>

definition own_but :: "'v calculation \<Rightarrow> nat set \<Rightarrow> bool" where
  "own_but s X \<longleftrightarrow> (\<forall>c < ca_numVariables s. \<forall>cv p. formula_of s c = Some cv \<longrightarrow> cv_notifiedVariable cv = Some p \<longrightarrow>
       p \<in> set (ca_parserVariables s) \<and> variable_of s p = c)
     \<and> (\<forall>p \<in> set (ca_parserVariables s) - X. \<forall>cv. formula_of s (variable_of s p) = Some cv \<longrightarrow> cv_notifiedVariable cv = Some p)"

lemma own_but_empty: "own_ok s = own_but s {}"
  by (simp add: own_ok_def own_but_def)

lemma own_butD:
  assumes "own_but s X"
  shows "c < ca_numVariables s \<Longrightarrow> formula_of s c = Some cv \<Longrightarrow> cv_notifiedVariable cv = Some p
      \<Longrightarrow> p \<in> set (ca_parserVariables s) \<and> variable_of s p = c"
    and "p \<in> set (ca_parserVariables s) \<Longrightarrow> p \<notin> X \<Longrightarrow> formula_of s (variable_of s p) = Some cv \<Longrightarrow> cv_notifiedVariable cv = Some p"
  using assms unfolding own_but_def by blast+

lemma own_butI:
  assumes "\<And>c cv p. c < ca_numVariables s \<Longrightarrow> formula_of s c = Some cv \<Longrightarrow> cv_notifiedVariable cv = Some p
      \<Longrightarrow> p \<in> set (ca_parserVariables s) \<and> variable_of s p = c"
    and "\<And>p cv. p \<in> set (ca_parserVariables s) \<Longrightarrow> p \<notin> X \<Longrightarrow> formula_of s (variable_of s p) = Some cv \<Longrightarrow> cv_notifiedVariable cv = Some p"
  shows "own_but s X"
  unfolding own_but_def using assms by (intro conjI) blast+

lemma register_ok:
  assumes ok: "calc_ok s" and v: "v < ca_numVariables s" and "registerVariableForCalculatedVariables idText v s = Some (t, r)"
  shows "\<exists>p. r = Inr p \<and> graph_ok t \<and> own_but t {p} \<and> p \<in> set (ca_parserVariables t) \<and> variable_of t p = v
    \<and> ca_numVariables t = ca_numVariables s \<and> (\<forall>c. formula_of t c = formula_of s c)
    \<and> (\<forall>q \<in> set (ca_parserVariables t). q \<noteq> p \<longrightarrow> q < ca_numPvs s \<and> variable_of t q = variable_of s q)"
proof -
  have g: "graph_ok s" "own_ok s" using ok by (simp_all add: calc_ok_def)
  define p where "p = ca_numPvs s"
  obtain name where t: "t = with_variable v (\<lambda>nv. nv\<lparr>nv_changeListeners := nv_changeListeners nv @ [ChangeListener p]\<rparr>)
      (s\<lparr>ca_pvs := (ca_pvs s)(p := new_parser_variable v name), ca_numPvs := Suc p, ca_parserVariables := ca_parserVariables s @ [p]\<rparr>)"
    and r: "r = Inr p"
    using assms(3) by (auto simp: registerVariableForCalculatedVariables_def addChangeListener_def Let_def p_def)
  have sel: "ca_numVariables t = ca_numVariables s" "ca_numPvs t = Suc p" "ca_parserVariables t = ca_parserVariables s @ [p]"
    "\<And>c. formula_of t c = formula_of s c" "\<And>q. q \<noteq> p \<Longrightarrow> ca_pvs t q = ca_pvs s q"
    "variable_of t p = v" "pv_notifiedVariables (ca_pvs t p) = []"
    "\<And>w. nv_changeListeners (ca_variables t w) = nv_changeListeners (ca_variables s w) @ (if w = v then [ChangeListener p] else [])"
    by (simp_all add: t with_variable_def new_parser_variable_def)
  have fresh: "q \<noteq> p" if "q \<in> set (ca_parserVariables s)" for q using graph_okD(2) [OF g(1) that] by (simp add: p_def)
  have same: "formula_ok s c cv \<Longrightarrow> formula_ok t c cv" for c cv
    using fresh unfolding formula_ok_def sel by (auto simp: sel)
  have unread: "p \<notin> inputs cv" if "c < ca_numVariables s" "formula_of s c = Some cv" for c cv
  proof
    assume "p \<in> inputs cv"
    then have "p \<in> set (ca_parserVariables s)" using graph_okD(4) [OF g(1) that] unfolding formula_ok_def by blast
    then show False using fresh by blast
  qed
  have "graph_ok t"
  proof (rule graph_okI, goal_cases)
    case 1
    show ?case using graph_okD(1) [OF g(1)] fresh by (auto simp: sel)
  next
    case (2 q)
    then show ?case using graph_okD(2,7) [OF g(1), of q] by (cases "q = p") (simp_all add: sel p_def [symmetric])
  next
    case (3 q)
    then show ?case using graph_okD(3) [OF g(1), of q] v by (cases "q = p") (simp_all add: sel p_def [symmetric])
  next
    case (4 c cv)
    then show ?case using graph_okD(4) [OF g(1), of c cv] same by (simp add: sel)
  next
    case (5 q c)
    show ?case
    proof (cases "q = p")
      case True
      then show ?thesis using unread by (auto simp: sel)
    next
      case False
      then show ?thesis using 5 graph_okD(5) [OF g(1), of q c] by (simp add: sel p_def [symmetric])
    qed
  next
    case (6 w q)
    show ?case
    proof (cases "ChangeListener q \<in> set (nv_changeListeners (ca_variables s w))")
      case True
      then have "q < p \<and> variable_of s q = w" using graph_okD(6) [OF g(1), of w q] 6(1) by (simp add: sel p_def [symmetric])
      then show ?thesis by (simp add: sel)
    next
      case False
      then show ?thesis using 6(2) by (auto simp: sel split: if_splits)
    qed
  qed
  moreover have "own_but t {p}"
  proof (rule own_butI)
    fix c cv q assume c: "c < ca_numVariables t" "formula_of t c = Some cv" "cv_notifiedVariable cv = Some q"
    then have "q \<in> set (ca_parserVariables s) \<and> variable_of s q = c" using own_okD(1) [OF g(2), of c cv q] by (simp add: sel)
    then show "q \<in> set (ca_parserVariables t) \<and> variable_of t q = c" using fresh [of q] by (simp add: sel)
  next
    fix q cv assume q: "q \<in> set (ca_parserVariables t)" "q \<notin> {p}" "formula_of t (variable_of t q) = Some cv"
    then show "cv_notifiedVariable cv = Some q" using own_okD(2) [OF g(2), of q cv] by (simp add: sel)
  qed
  moreover have "\<forall>q \<in> set (ca_parserVariables t). q \<noteq> p \<longrightarrow> q < ca_numPvs s \<and> variable_of t q = variable_of s q"
    using graph_okD(2) [OF g(1)] by (auto simp: sel)
  ultimately show ?thesis using r by (intro exI [of _ p]) (simp add: sel(1,3,4,6))
qed

lemma register_plain_ok:
  assumes "calc_ok s" and "v < ca_numVariables s" and "formula_of s v = None"
    and "registerVariableForCalculatedVariables idText v s = Some (t, r)"
  shows "calc_ok t"
proof -
  obtain p where p: "graph_ok t" "own_but t {p}" "variable_of t p = v" "\<forall>c. formula_of t c = formula_of s c"
    using register_ok [OF assms(1,2,4)] by blast
  have "own_but t {}"
  proof (rule own_butI)
    fix q cv assume q: "q \<in> set (ca_parserVariables t)" "formula_of t (variable_of t q) = Some cv"
    then have "q \<noteq> p" using p(3,4) assms(3) by auto
    then show "cv_notifiedVariable cv = Some q" using own_butD(2) [OF p(2) q(1) _ q(2)] by simp
  qed (rule own_butD(1) [OF p(2)])
  then show ?thesis using p(1) by (simp add: calc_ok_def own_but_empty)
qed

section \<open>The construction of a calculated variable\<close>

text \<open>\<open>c\<close> is the newest variable, without a parser variable of its own.\<close>

definition building :: "nat \<Rightarrow> 'v calculation \<Rightarrow> bool" where
  "building c s \<longleftrightarrow> calc_ok s \<and> ca_numVariables s = Suc c \<and> (\<forall>p < ca_numPvs s. variable_of s p < c)
     \<and> (\<exists>cv. formula_of s c = Some cv \<and> cv_notifiedVariable cv = None)"

lemma building_ok: "building c s \<Longrightarrow> calc_ok s"
  by (simp add: building_def)

lemma building_same: "same_graph t s \<Longrightarrow> building c s \<Longrightarrow> building c t"
  using same_graph_ok [of t s] by (simp add: building_def same_graph_def)

text \<open>A change of the formula of the variable under construction.\<close>

lemma with_calculated_sel:
  "formula_of (with_calculated c g s) w = (if w = c then map_option g (formula_of s c) else formula_of s w)"
  "nv_changeListeners (ca_variables (with_calculated c g s) w) = nv_changeListeners (ca_variables s w)"
  "ca_pvs (with_calculated c g s) = ca_pvs s" "ca_numPvs (with_calculated c g s) = ca_numPvs s"
  "ca_numVariables (with_calculated c g s) = ca_numVariables s" "ca_parserVariables (with_calculated c g s) = ca_parserVariables s"
  by (simp_all add: with_calculated_def with_variable_def)

lemma with_calculated_graph:
  assumes ok: "graph_ok s" and g: "\<And>cv. c < ca_numVariables s \<Longrightarrow> formula_of s c = Some cv \<Longrightarrow> formula_ok s c cv
      \<Longrightarrow> formula_ok s c (g cv) \<and> inputs (g cv) = inputs cv"
  shows "graph_ok (with_calculated c g s)"
proof (rule graph_okI, goal_cases)
  case 1
  show ?case using graph_okD(1) [OF ok] by (simp add: with_calculated_sel)
next
  case (2 p)
  then show ?case using graph_okD(2,7) [OF ok, of p] by (simp add: with_calculated_sel)
next
  case (3 p)
  then show ?case using graph_okD(3) [OF ok, of p] by (simp add: with_calculated_sel)
next
  case (4 w cv)
  then obtain cv0 where cv0: "formula_of s w = Some cv0" "cv = (if w = c then g cv0 else cv0)"
    by (auto simp: with_calculated_sel split: if_splits)
  have "formula_ok s w cv0" using 4(1) cv0(1) graph_okD(4) [OF ok] by (simp add: with_calculated_sel)
  then have "formula_ok s w cv" using g [of cv0] 4(1) cv0 by (simp add: with_calculated_sel split: if_splits)
  then show ?case by (simp add: formula_ok_def with_calculated_sel)
next
  case (5 p w)
  have "(\<exists>cv. formula_of (with_calculated c g s) w = Some cv \<and> p \<in> inputs cv) \<longleftrightarrow> (\<exists>cv. formula_of s w = Some cv \<and> p \<in> inputs cv)"
    if "w < ca_numVariables s"
  proof (cases "w = c")
    case True
    then show ?thesis using g that graph_okD(4) [OF ok that] by (cases "formula_of s c") (auto simp: with_calculated_sel)
  qed (simp add: with_calculated_sel)
  then show ?case using 5 graph_okD(5) [OF ok, of p w] by (auto simp: with_calculated_sel)
next
  case (6 w p)
  then show ?case using graph_okD(6) [OF ok, of w p] by (simp add: with_calculated_sel)
qed

lemma with_calculated_own:
  assumes "own_but s X" and c: "c < ca_numVariables s"
    and g: "\<And>cv. formula_of s c = Some cv \<Longrightarrow> cv_notifiedVariable (g cv) = cv_notifiedVariable cv"
  shows "own_but (with_calculated c g s) X"
proof (rule own_butI)
  fix w cv p assume w: "w < ca_numVariables (with_calculated c g s)" "formula_of (with_calculated c g s) w = Some cv" "cv_notifiedVariable cv = Some p"
  then obtain cv0 where "formula_of s w = Some cv0" "cv_notifiedVariable cv0 = Some p"
    using g by (auto simp: with_calculated_sel split: if_splits)
  then show "p \<in> set (ca_parserVariables (with_calculated c g s)) \<and> variable_of (with_calculated c g s) p = w"
    using own_butD(1) [OF assms(1)] w(1) by (simp add: with_calculated_sel)
next
  fix p cv assume p: "p \<in> set (ca_parserVariables (with_calculated c g s))" "p \<notin> X"
    "formula_of (with_calculated c g s) (variable_of (with_calculated c g s) p) = Some cv"
  then obtain cv0 where "formula_of s (variable_of s p) = Some cv0" "cv_notifiedVariable cv = cv_notifiedVariable cv0"
    using g by (auto simp: with_calculated_sel split: if_splits)
  then show "cv_notifiedVariable cv = Some p" using own_butD(2) [OF assms(1)] p(1,2) by (simp add: with_calculated_sel)
qed

lemma with_calculated_building:
  assumes "building c s"
    and "\<And>cv. formula_of s c = Some cv \<Longrightarrow> formula_ok s c cv \<Longrightarrow> formula_ok s c (g cv) \<and> inputs (g cv) = inputs cv"
    and "\<And>cv. cv_notifiedVariable (g cv) = cv_notifiedVariable cv"
  shows "building c (with_calculated c g s)"
proof -
  have b: "graph_ok s" "own_but s {}" "c < ca_numVariables s" "ca_numVariables s = Suc c" "\<forall>p < ca_numPvs s. variable_of s p < c"
    "\<exists>cv. formula_of s c = Some cv \<and> cv_notifiedVariable cv = None"
    using assms(1) by (simp_all add: building_def calc_ok_def own_but_empty)
  have "calc_ok (with_calculated c g s)"
    using with_calculated_graph [OF b(1)] with_calculated_own [OF b(2,3)] assms(2,3) by (simp add: calc_ok_def own_but_empty)
  then show ?thesis using b(4-6) assms(3) by (auto simp: building_def with_calculated_sel)
qed

definition dependents :: "formula_type \<Rightarrow> calculated_variable \<Rightarrow> nat set" where
  "dependents ft cv = (case ft of ValueFormula \<Rightarrow> set (cv_valueVariables cv) | StatusFormula \<Rightarrow> set (cv_statusVariables cv))"

lemma push_unique_set [simp]: "set (push_unique p ps) = insert p (set ps)"
  by (auto simp: push_unique_def)

lemma add_dependent_sel:
  "inputs (add_dependent ft p cv) = insert p (inputs cv)" "p \<in> dependents ft (add_dependent ft p cv)"
  "cv_valueParser (add_dependent ft p cv) = cv_valueParser cv" "cv_statusParser (add_dependent ft p cv) = cv_statusParser cv"
  "cv_notifiedVariable (add_dependent ft p cv) = cv_notifiedVariable cv"
  "set (cv_valueVariables cv) \<subseteq> set (cv_valueVariables (add_dependent ft p cv))"
  "set (cv_statusVariables cv) \<subseteq> set (cv_statusVariables (add_dependent ft p cv))"
  by (cases ft; auto simp: add_dependent_def addDependentVariableForValue_def addDependentVariableForStatus_def dependents_def)+

lemma add_dependent_mem:
  "q \<in> set (cv_valueVariables (add_dependent ft p cv)) \<or> q \<in> set (cv_statusVariables (add_dependent ft p cv))
    \<longleftrightarrow> q = p \<or> q \<in> set (cv_valueVariables cv) \<or> q \<in> set (cv_statusVariables cv)"
  using add_dependent_sel(1) [of ft p cv] by blast

lemma handler_building:
  assumes b: "building c s" and "parserVariableRequestHandler ft c name s = (t, r)"
  shows "building c t \<and> (\<forall>p. r = Inr p \<longrightarrow> (\<forall>cv. formula_of t c = Some cv \<longrightarrow> p \<in> dependents ft cv))"
proof (cases "find (\<lambda>p. pv_name (ca_pvs s p) = name) (ca_parserVariables s)")
  case None
  then show ?thesis using assms by (auto simp: parserVariableRequestHandler_def)
next
  case (Some p)
  obtain cv where cv: "formula_of s c = Some cv" "cv_notifiedVariable cv = None" and n: "ca_numVariables s = Suc c"
    and g: "graph_ok s" "own_but s {}" and old: "\<forall>p < ca_numPvs s. variable_of s p < c"
    using b by (auto simp: building_def calc_ok_def own_but_empty)
  have p: "p \<in> set (ca_parserVariables s)" using Some by (auto simp: find_Some_iff)
  have pn: "p < ca_numPvs s" "variable_of s p < c" using graph_okD(2) [OF g(1) p] old by simp_all
  have r: "r = Inr p" and t: "t = addNotifiedVariable p c (with_calculated c (add_dependent ft p) s)"
    using assms(2) Some by (auto simp: parserVariableRequestHandler_def)
  have sel: "formula_of t w = (if w = c then Some (add_dependent ft p cv) else formula_of s w)"
    "nv_changeListeners (ca_variables t w) = nv_changeListeners (ca_variables s w)"
    "variable_of t q = variable_of s q" "ca_numPvs t = ca_numPvs s" "ca_numVariables t = ca_numVariables s"
    "ca_parserVariables t = ca_parserVariables s"
    "pv_notifiedVariables (ca_pvs t q) = pv_notifiedVariables (ca_pvs s q) @ (if q = p then [c] else [])" for w q
    using cv by (simp_all add: t addNotifiedVariable_def with_pv_def with_calculated_def with_variable_def)
  have fok: "formula_ok s c cv" using graph_okD(4) [OF g(1) _ cv(1)] n by simp
  have "graph_ok t"
  proof (rule graph_okI, goal_cases)
    case 1
    show ?case using graph_okD(1) [OF g(1)] by (simp add: sel)
  next
    case (2 q)
    then show ?case using graph_okD(2,7) [OF g(1), of q] by (simp add: sel)
  next
    case (3 q)
    then show ?case using graph_okD(3) [OF g(1), of q] by (simp add: sel)
  next
    case (4 w cw)
    show ?case
    proof (cases "w = c")
      case True
      then have cw: "cw = add_dependent ft p cv" using 4 by (simp add: sel)
      show ?thesis using fok p pn(2) add_dependent_sel(6,7) [of cv ft p] unfolding formula_ok_def cw add_dependent_sel True sel by blast
    next
      case False
      then have "formula_ok s w cw" using 4 graph_okD(4) [OF g(1), of w cw] by (simp add: sel)
      then show ?thesis by (simp add: formula_ok_def sel)
    qed
  next
    case (5 q w)
    have "w \<in> set (pv_notifiedVariables (ca_pvs s q)) \<longleftrightarrow> w < ca_numVariables s \<and> (\<exists>cv. formula_of s w = Some cv \<and> q \<in> inputs cv)"
      using 5 graph_okD(5) [OF g(1), of q w] by (simp add: sel)
    then show ?case using n cv(1) by (cases "w = c") (auto simp add: sel add_dependent_mem)
  next
    case (6 w q)
    then show ?case using graph_okD(6) [OF g(1), of w q] by (simp add: sel)
  qed
  moreover have "own_but t {}"
  proof (rule own_butI)
    fix w cw q assume w: "w < ca_numVariables t" "formula_of t w = Some cw" "cv_notifiedVariable cw = Some q"
    then have "w \<noteq> c" using cv(2) by (auto simp: sel add_dependent_sel)
    then show "q \<in> set (ca_parserVariables t) \<and> variable_of t q = w" using w own_butD(1) [OF g(2), of w cw q] by (simp add: sel)
  next
    fix q cw assume q: "q \<in> set (ca_parserVariables t)" "formula_of t (variable_of t q) = Some cw"
    have "variable_of s q \<noteq> c" using old graph_okD(2) [OF g(1), of q] q(1) by (auto simp: sel)
    then show "cv_notifiedVariable cw = Some q" using q own_butD(2) [OF g(2), of q cw] by (simp add: sel)
  qed
  ultimately have "building c t" using n old cv(2) by (simp add: building_def calc_ok_def own_but_empty sel add_dependent_sel)
  then show ?thesis using add_dependent_sel(2) by (simp add: r sel)
qed

lemma act_for_keeps:
  assumes "\<And>x s t r. x \<in> set xs \<Longrightarrow> I s \<Longrightarrow> body x s = (t, r) \<Longrightarrow> I t" and "I s" and "act_for body xs s = (t, r)"
  shows "I t"
  using assms
proof (induction xs arbitrary: s)
  case (Cons x xs)
  obtain u q where u: "body x s = (u, q)" by fastforce
  then have "I u" using Cons.prems(1) [of x s u q] Cons.prems(2) by simp
  then show ?case using Cons.IH [of u] Cons.prems(1,3) u by (cases q) (auto simp: act_bind_def)
qed simp

lemma bind_name_sel:
  "inputs (bind_name ft name p cv) = inputs cv" "cv_notifiedVariable (bind_name ft name p cv) = cv_notifiedVariable cv"
  by (cases ft; simp add: bind_name_def)+

lemma request_name_building:
  assumes "building c s" and "request_name ft c name s = (t, r)"
  shows "building c t"
proof -
  obtain u q where u: "parserVariableRequestHandler ft c name s = (u, q)" by fastforce
  note b = handler_building [OF assms(1) u]
  show ?thesis
  proof (cases q)
    case (Inl e)
    then show ?thesis using b assms(2) u by (simp add: request_name_def act_bind_def)
  next
    case (Inr p)
    have "building c (with_calculated c (bind_name ft name p) u)"
    proof (rule with_calculated_building)
      fix cv assume "formula_of u c = Some cv" "formula_ok u c cv"
      then show "formula_ok u c (bind_name ft name p cv) \<and> inputs (bind_name ft name p cv) = inputs cv"
        using b Inr by (cases ft) (auto simp: formula_ok_def bind_name_def dependents_def)
    qed (use b bind_name_sel in auto)
    then show ?thesis using assms(2) u Inr by (simp add: request_name_def act_bind_def)
  qed
qed

lemma initializeParser_building:
  assumes "building c s" and "initializeParser mu ft formula c s = (t, r)"
  shows "building c t"
proof (cases "mu_names mu formula")
  case None
  then show ?thesis using assms by (simp add: initializeParser_def)
next
  case (Some names)
  let ?u = "with_calculated c (set_formula ft formula (filter (\<lambda>(name, value). name \<in> set names) (ca_parserConstants s))) s"
  have "building c ?u"
    by (rule with_calculated_building [OF assms(1)]) (cases ft; auto simp: set_formula_def formula_ok_def)+
  moreover have "act_for (request_name ft c) (filter (\<lambda>name. \<not> isConstantDefined name s) names) ?u = (t, r)"
    using assms(2) Some by (simp add: initializeParser_def)
  ultimately show ?thesis by (rule act_for_keeps [rotated]) (rule request_name_building)
qed

end
