(* ===== verification/CalcOperations.thy ===== *)
theory CalcOperations
  imports CalcInvariant Reachability
begin

text \<open>
  The operations of the engine as steps: the instantiation of calculated variables, the writes, the
  optimization and the synchronization, and the invariant that every run of them keeps.
\<close>

section \<open>Instantiation\<close>

definition registered :: "nat \<Rightarrow> nat \<Rightarrow> 'v calculation \<Rightarrow> bool" where
  "registered c p s \<longleftrightarrow> graph_ok s \<and> own_but s {p} \<and> p \<in> set (ca_parserVariables s) \<and> variable_of s p = c
     \<and> c < ca_numVariables s \<and> (\<forall>q \<in> set (ca_parserVariables s). q \<noteq> p \<longrightarrow> variable_of s q \<noteq> c)"

definition complete :: "nat \<Rightarrow> 'v calculation \<Rightarrow> bool" where
  "complete c s \<longleftrightarrow> calc_ok s \<and> c < ca_numVariables s"

lemma complete_same: "same_graph t s \<Longrightarrow> complete c s \<Longrightarrow> complete c t"
  using same_graph_ok [of t s] by (simp add: complete_def same_graph_def)

lemma same_graph_parts: "same_graph s t \<Longrightarrow> graph_ok s = graph_ok t" "same_graph s t \<Longrightarrow> own_but s X = own_but t X"
  by (simp_all add: same_graph_def graph_ok_def own_but_def formula_ok_def)

lemma registered_constant:
  assumes "registered c p s"
  shows "registered c p (setIsConstant p b s)"
proof -
  let ?t = "setIsConstant p b s"
  have "same_graph ?t s" by (simp add: same_graph_def setIsConstant_def with_pv_def)
  note same = same_graph_parts [OF this]
  have "ca_parserVariables ?t = ca_parserVariables s" "ca_numVariables ?t = ca_numVariables s"
    "\<And>q. variable_of ?t q = variable_of s q"
    by (simp_all add: setIsConstant_def with_pv_def)
  then show ?thesis using assms unfolding registered_def same by metis
qed

lemma registered_complete:
  assumes "registered c p s"
  shows "complete c (setNotifiedVariable c (Some p) s)"
proof -
  let ?t = "setNotifiedVariable c (Some p) s"
  have r: "graph_ok s" "own_but s {p}" "p \<in> set (ca_parserVariables s)" "variable_of s p = c" "c < ca_numVariables s"
    "\<forall>q \<in> set (ca_parserVariables s). q \<noteq> p \<longrightarrow> variable_of s q \<noteq> c"
    using assms by (simp_all add: registered_def)
  have "graph_ok ?t" unfolding setNotifiedVariable_def by (rule with_calculated_graph [OF r(1)]) (simp add: formula_ok_def)
  moreover have "own_but ?t {}"
  proof (rule own_butI)
    fix w cv q assume w: "w < ca_numVariables ?t" "formula_of ?t w = Some cv" "cv_notifiedVariable cv = Some q"
    show "q \<in> set (ca_parserVariables ?t) \<and> variable_of ?t q = w"
    proof (cases "w = c")
      case True
      then have "q = p" using w by (auto simp: setNotifiedVariable_def with_calculated_sel)
      then show ?thesis using r True by (simp add: setNotifiedVariable_def with_calculated_sel)
    next
      case False
      then show ?thesis using w own_butD(1) [OF r(2), of w cv q] by (simp add: setNotifiedVariable_def with_calculated_sel)
    qed
  next
    fix q cv assume q: "q \<in> set (ca_parserVariables ?t)" "formula_of ?t (variable_of ?t q) = Some cv"
    then have q': "q \<in> set (ca_parserVariables s)" by (simp add: setNotifiedVariable_def with_calculated_sel)
    show "cv_notifiedVariable cv = Some q"
    proof (cases "variable_of s q = c")
      case True
      then show ?thesis using q(2) r(6) q' by (auto simp: setNotifiedVariable_def with_calculated_sel)
    next
      case False
      then show ?thesis using q q' own_butD(2) [OF r(2) q', of cv] r(4) by (auto simp: setNotifiedVariable_def with_calculated_sel)
    qed
  qed
  ultimately show ?thesis using r(5) by (simp add: complete_def calc_ok_def own_but_empty setNotifiedVariable_def with_calculated_sel)
qed

lemma building_registered:
  assumes "building c s" and "registerVariableForCalculatedVariables idText c s = Some (t, r)"
  shows "\<exists>p. r = Inr p \<and> registered c p t"
proof -
  have b: "calc_ok s" "c < ca_numVariables s" "\<forall>p < ca_numPvs s. variable_of s p < c" using assms(1) by (simp_all add: building_def)
  from register_ok [OF b(1,2) assms(2)] obtain p where p: "r = Inr p" "graph_ok t" "own_but t {p}" "p \<in> set (ca_parserVariables t)"
    "variable_of t p = c" "ca_numVariables t = ca_numVariables s"
    "\<forall>q \<in> set (ca_parserVariables t). q \<noteq> p \<longrightarrow> q < ca_numPvs s \<and> variable_of t q = variable_of s q" by blast
  have "variable_of t q \<noteq> c" if "q \<in> set (ca_parserVariables t)" "q \<noteq> p" for q using p(7) b(3) that by fastforce
  then show ?thesis using p b(2) by (simp add: registered_def)
qed

lemma construct_runs:
  assumes good: "\<And>v dv. good v dv"
  shows "runs_to calc_ok (construct_calculated sdk mu good nodeId formula isBoolean statusFormula) building calc_ok"
  unfolding construct_calculated_def
proof (rule runs_to_bind [where Q = building])
  show "runs_to calc_ok (mo_action (\<lambda>s. case new_variable nodeId \<lparr>dv_value = Some (ua_empty_variant sdk), dv_statusCode = OpcUa_Good\<rparr>
      (Some (new_calculated isBoolean (statusFormula \<noteq> None))) s of (s', v) \<Rightarrow> (s', Inr v))) building calc_ok"
  proof (rule runs_toI)
    fix s s' :: "'a calculation" and r :: "nat result"
    assume ok: "calc_ok s" and run: "mo_action (\<lambda>s. case new_variable nodeId \<lparr>dv_value = Some (ua_empty_variant sdk), dv_statusCode = OpcUa_Good\<rparr>
      (Some (new_calculated isBoolean (statusFormula \<noteq> None))) s of (s', v) \<Rightarrow> (s', Inr v)) s = Some (s', r)"
    then obtain v where v: "new_variable nodeId \<lparr>dv_value = Some (ua_empty_variant sdk), dv_statusCode = OpcUa_Good\<rparr>
        (Some (new_calculated isBoolean (statusFormula \<noteq> None))) s = (s', v)" "r = Inr v"
      by (auto simp: mo_action_def split: prod.splits)
    have "calc_ok s' \<and> v = ca_numVariables s \<and> ca_numVariables s' = Suc v
        \<and> formula_of s' v = Some (new_calculated isBoolean (statusFormula \<noteq> None))
        \<and> nv_changeListeners (ca_variables s' v) = [] \<and> (\<forall>p < ca_numPvs s'. variable_of s' p < v)"
      by (rule new_variable_ok [OF ok v(1)]) (auto simp: new_calculated_def no_parser_def)
    then have "building v s'" unfolding building_def by (elim conjE, intro conjI) (simp_all add: new_calculated_def)
    then show "case r of Inl e \<Rightarrow> calc_ok s' | Inr x \<Rightarrow> building x s'" using v(2) by simp
  qed
next
  fix c
  have parse: "runs_to (building c) (mo_action (initializeParser mu ft f c)) (\<lambda>_. building c) calc_ok" for ft f
    by (rule runs_to_keeps [OF initializeParser_building building_ok])
  show "runs_to (building c) (mo_bind (mo_action (initializeParser mu ValueFormula formula c)) (\<lambda>_.
      mo_bind (mo_action (case statusFormula of None \<Rightarrow> act_return () | Some f \<Rightarrow> initializeParser mu StatusFormula f c)) (\<lambda>_.
      mo_bind (mo_state (setValue sdk mu good c (waiting_value sdk))) (\<lambda>_. mo_action (act_return c))))) building calc_ok"
  proof (rule runs_to_bind [OF parse], rule runs_to_bind [where Q = "\<lambda>_. building c"])
    show "runs_to (building c) (mo_action (case statusFormula of None \<Rightarrow> act_return () | Some f \<Rightarrow> initializeParser mu StatusFormula f c))
        (\<lambda>_. building c) calc_ok"
      using parse runs_to_return [of "building c" "\<lambda>_. building c"] by (cases statusFormula) simp_all
    show "runs_to (building c) (mo_bind (mo_state (setValue sdk mu good c (waiting_value sdk))) (\<lambda>_. mo_action (act_return c))) building calc_ok"
    proof (rule runs_to_bind [OF runs_to_state], rule building_same)
      fix s t assume "building c s" "setValue sdk mu good c (waiting_value sdk) s = Some t"
      then show "same_graph t s" by (intro write_same_graph [OF good]) (auto simp: building_def)
    qed (assumption | rule runs_to_return)+
  qed
qed

lemma add_node_building:
  assumes "building c s" and "add_calculated_node ops parent nodeId s = (t, r)"
  shows "building c t"
proof -
  have "same_graph t s" using assms(2) by (auto simp: add_calculated_node_def Let_def same_graph_def split: option.splits)
  then show ?thesis using assms(1) by (rule building_same)
qed

lemma first_value_runs:
  assumes good: "\<And>v dv. good v dv"
  shows "runs_to (registered c p) (mo_bind (mo_action (act_modify (setNotifiedVariable c (Some p)))) (\<lambda>_.
     mo_bind (mo_state (case initial of None \<Rightarrow> update_variable sdk mu good c | Some x \<Rightarrow> setValue sdk mu good c (dv x))) (\<lambda>_.
     mo_action (act_modify (\<lambda>s. s\<lparr>ca_numCalculatedVariables := Suc (ca_numCalculatedVariables s)\<rparr>))))) (\<lambda>_. calc_ok) calc_ok"
proof (rule runs_to_bind [where Q = "\<lambda>_. complete c"], goal_cases)
  case 1
  show ?case by (rule runs_to_modify) (rule registered_complete)
next
  case 2
  show ?case
  proof (rule runs_to_bind [where Q = "\<lambda>_. complete c"], goal_cases)
    case 1
    show ?case
    proof (rule runs_to_state)
      fix s t assume s: "complete c s" and t: "(case initial of None \<Rightarrow> update_variable sdk mu good c | Some x \<Rightarrow> setValue sdk mu good c (dv x)) s = Some t"
      have "same_graph t s"
      proof (cases initial)
        case None
        then show ?thesis using update_same_graph [where good = good, OF good] s t unfolding complete_def by fastforce
      next
        case (Some x)
        then show ?thesis using write_same_graph [where good = good, OF good] s t unfolding complete_def by fastforce
      qed
      then show "complete c t" using s by (rule complete_same)
    qed
  next
    case 2
    have "same_graph (s\<lparr>ca_numCalculatedVariables := n\<rparr>) s" for s :: "'a calculation" and n by (simp add: same_graph_def)
    then show ?case by (intro runs_to_modify) (metis complete_def same_graph_ok)
  qed
qed

lemma instantiate_runs:
  assumes good: "\<And>v dv. good v dv"
  shows "runs_to calc_ok (instantiateCalculatedVariable sdk mu good ops parent config) (\<lambda>_. calc_ok) calc_ok"
  unfolding instantiateCalculatedVariable_def
proof (rule runs_to_bind [where Q = "\<lambda>_. calc_ok"], goal_cases)
  case 1
  show ?case by (rule runs_toI) (auto simp: mo_value_def split: sum.split)
next
  case (2 formula)
  show ?case
  proof (rule runs_to_bind [where Q = "\<lambda>_. calc_ok"], goal_cases)
    case 1
    show ?case by (rule runs_toI)
      (auto simp: elaborated_status_def mo_bind_def mo_value_def mo_action_def act_return_def split: option.splits sum.splits)
  next
    case (2 status)
    show ?case
    proof (rule runs_to_bind [OF runs_to_value runs_to_bind [OF construct_runs [OF good]]], simp, goal_cases)
      case (1 nodeId c)
      show ?case
      proof (rule runs_to_bind [where Q = "\<lambda>_. building c"], goal_cases)
        case 1
        show ?case by (rule runs_to_keeps [OF add_node_building building_ok])
      next
        case 2
        show ?case
        proof (rule runs_to_bind [where Q = "registered c"], goal_cases)
          case 1
          show ?case using building_registered by (intro runs_toI) fastforce
        next
          case (2 p)
          show ?case
          proof (rule runs_to_bind [where Q = "\<lambda>_. registered c p"], goal_cases)
            case 1
            show ?case using registered_constant by (intro runs_toI) (auto simp: mo_action_def)
          next
            case 2
            show ?case by (rule first_value_runs [OF good])
          qed
        qed
      qed
    qed
  qed
qed

section \<open>Optimization\<close>

text \<open>A listed parser variable that is optimized out is its variable's only listener, and no formula reads it.\<close>

lemma optimized_alone:
  assumes ok: "graph_ok s" and p: "p \<in> set (ca_parserVariables s)" and out: "optimized_out s p"
  shows "q \<in> set (ca_parserVariables s) \<Longrightarrow> variable_of s q = variable_of s p \<Longrightarrow> q = p"
    and "c < ca_numVariables s \<Longrightarrow> formula_of s c = Some cv \<Longrightarrow> p \<notin> inputs cv"
proof -
  let ?ls = "nv_changeListeners (ca_variables s (variable_of s p))"
  assume q: "q \<in> set (ca_parserVariables s)" "variable_of s q = variable_of s p"
  have "ChangeListener p \<in> set ?ls" "ChangeListener q \<in> set ?ls"
    using graph_okD(7) [OF ok p] graph_okD(7) [OF ok q(1)] q(2) by simp_all
  moreover have "length ?ls \<le> 1" using out by (simp add: optimized_out_def)
  ultimately show "q = p" by (cases ?ls) auto
next
  assume c: "c < ca_numVariables s" "formula_of s c = Some cv"
  show "p \<notin> inputs cv"
  proof
    assume "p \<in> inputs cv"
    then have "c \<in> set (pv_notifiedVariables (ca_pvs s p))"
      using graph_okD(5) [OF ok graph_okD(2) [OF ok p], of c] c by blast
    then show False using out by (simp add: optimized_out_def)
  qed
qed

lemma optimize_one_sel:
  "ca_parserVariables (optimize_one p s) = remove1 p (ca_parserVariables s)"
  "ca_numVariables (optimize_one p s) = ca_numVariables s" "ca_numPvs (optimize_one p s) = ca_numPvs s"
  "ca_pvs (optimize_one p s) = ca_pvs s"
  "formula_of (optimize_one p s) w = (if w = variable_of s p
     then map_option (\<lambda>cv. cv\<lparr>cv_notifiedVariable := None\<rparr>) (formula_of s w) else formula_of s w)"
  "nv_changeListeners (ca_variables (optimize_one p s) w) = (if w = variable_of s p then [] else nv_changeListeners (ca_variables s w))"
  by (simp_all add: optimize_one_def Let_def setNotifiedVariable_def with_calculated_def with_variable_def)

lemma optimize_one_ok:
  assumes ok: "calc_ok s" and p: "p \<in> set (ca_parserVariables s)" and out: "optimized_out s p"
  shows "calc_ok (optimize_one p s)"
proof -
  let ?t = "optimize_one p s" and ?v = "variable_of s p"
  have g: "graph_ok s" "own_ok s" using ok by (simp_all add: calc_ok_def)
  note alone = optimized_alone [OF g(1) p out]
  have listed: "set (ca_parserVariables ?t) = set (ca_parserVariables s) - {p}"
    using graph_okD(1) [OF g(1)] by (simp add: optimize_one_sel(1))
  have formula: "\<exists>cv0. formula_of s w = Some cv0 \<and> cv = (if w = ?v then cv0\<lparr>cv_notifiedVariable := None\<rparr> else cv0)"
    if "formula_of ?t w = Some cv" for w cv
    using that by (auto simp: optimize_one_sel(5) split: if_splits)
  have "graph_ok ?t"
  proof (rule graph_okI, goal_cases)
    case 1
    show ?case using graph_okD(1) [OF g(1)] by (simp add: optimize_one_sel(1))
  next
    case (2 q)
    then have q: "q \<in> set (ca_parserVariables s)" "q \<noteq> p" by (simp_all add: listed)
    then have "variable_of s q \<noteq> ?v" using alone(1) by blast
    then show ?case using graph_okD(2,7) [OF g(1) q(1)] by (simp add: optimize_one_sel(3,4,6))
  next
    case (3 q)
    then show ?case using graph_okD(3) [OF g(1), of q] by (simp add: optimize_one_sel(2,3,4))
  next
    case (4 c cv)
    then obtain cv0 where cv0: "formula_of s c = Some cv0" "cv = (if c = ?v then cv0\<lparr>cv_notifiedVariable := None\<rparr> else cv0)"
      using formula by blast
    have c: "c < ca_numVariables s" using 4(1) by (simp add: optimize_one_sel(2))
    have "formula_ok s c cv0" "p \<notin> inputs cv0" using graph_okD(4) [OF g(1) c cv0(1)] alone(2) [OF c cv0(1)] by simp_all
    then show ?case unfolding formula_ok_def listed cv0(2) optimize_one_sel(4) by (cases "c = ?v") auto
  next
    case (5 q c)
    have "(\<exists>cv. formula_of ?t c = Some cv \<and> q \<in> inputs cv) \<longleftrightarrow> (\<exists>cv. formula_of s c = Some cv \<and> q \<in> inputs cv)"
      by (cases "c = ?v"; cases "formula_of s c") (simp_all add: optimize_one_sel(5))
    then show ?case using 5 graph_okD(5) [OF g(1), of q c] by (simp add: optimize_one_sel(2,3,4))
  next
    case (6 w q)
    then show ?case using graph_okD(6) [OF g(1), of w q] by (cases "w = ?v") (simp_all add: optimize_one_sel(2,3,4,6))
  qed
  moreover have "own_but ?t {}"
  proof (rule own_butI)
    fix c cv q assume c: "c < ca_numVariables ?t" "formula_of ?t c = Some cv" "cv_notifiedVariable cv = Some q"
    obtain cv0 where cv0: "formula_of s c = Some cv0" "cv = (if c = ?v then cv0\<lparr>cv_notifiedVariable := None\<rparr> else cv0)"
      using formula [OF c(2)] by blast
    have s: "c \<noteq> ?v" "formula_of s c = Some cv" using cv0 c(3) by (auto split: if_splits)
    have "c < ca_numVariables s" using c(1) by (simp add: optimize_one_sel(2))
    from own_okD(1) [OF g(2) this s(2) c(3)] have q: "q \<in> set (ca_parserVariables s)" "variable_of s q = c" by simp_all
    then have "q \<noteq> p" using s(1) by blast
    then show "q \<in> set (ca_parserVariables ?t) \<and> variable_of ?t q = c" using q by (simp add: listed optimize_one_sel(4))
  next
    fix q cv assume q: "q \<in> set (ca_parserVariables ?t)" "formula_of ?t (variable_of ?t q) = Some cv"
    then have q': "q \<in> set (ca_parserVariables s)" "q \<noteq> p" by (simp_all add: listed)
    then have "variable_of s q \<noteq> ?v" using alone(1) by blast
    then have "formula_of s (variable_of s q) = Some cv" using q(2) by (simp add: optimize_one_sel(4,5))
    then show "cv_notifiedVariable cv = Some q" by (rule own_okD(2) [OF g(2) q'(1)])
  qed
  ultimately show ?thesis by (simp add: calc_ok_def own_but_empty)
qed

lemma calc_ok_distinct: "calc_ok s \<Longrightarrow> distinct (ca_parserVariables s)"
  unfolding calc_ok_def by (blast intro: graph_okD(1))

lemma optimize_ok:
  assumes "calc_ok s"
  shows "calc_ok (optimize s)"
proof -
  let ?f = "\<lambda>p s. if optimized_out s p then optimize_one p s else s"
  have "calc_ok (fold ?f ps t)" if "calc_ok t" "set ps \<subseteq> set (ca_parserVariables t)" "distinct ps"
    for ps :: "nat list" and t :: "'a calculation"
    using that
  proof (induction ps arbitrary: t)
    case (Cons p ps)
    show ?case
    proof (cases "optimized_out t p")
      case True
      have "distinct (ca_parserVariables t)" by (rule calc_ok_distinct [OF Cons.prems(1)])
      then have "set ps \<subseteq> set (ca_parserVariables (optimize_one p t))"
        using Cons.prems(2,3) by (auto simp: optimize_one_sel(1))
      moreover have "calc_ok (optimize_one p t)" using optimize_one_ok [OF Cons.prems(1) _ True] Cons.prems(2) by simp
      ultimately show ?thesis using Cons.IH Cons.prems(3) True by simp
    next
      case False
      then show ?thesis using Cons.IH [of t] Cons.prems by simp
    qed
  qed simp
  from this [OF assms subset_refl calc_ok_distinct [OF assms]] show ?thesis by (simp add: optimize_def)
qed

section \<open>Synchronization\<close>

lemma domains_same_graph:
  assumes "domains_ok s t"
  shows "same_graph t s"
proof -
  obtain f n where t: "t = s\<lparr>ca_pvs := \<lambda>p. (ca_pvs s p)\<lparr>pv_synchronizer := f p\<rparr>, ca_numSynchronizers := n\<rparr>"
    using assms unfolding domains_ok_def by blast
  show ?thesis by (simp add: t same_graph_def)
qed

lemma same_graph_trans: "same_graph r t \<Longrightarrow> same_graph t s \<Longrightarrow> same_graph r s"
  by (simp add: same_graph_def)

lemma setup_one_same:
  assumes ok: "calc_ok s" and p: "p \<in> set (ca_parserVariables s)"
  shows "\<exists>t. setup_one p s = Some t \<and> same_graph t s"
proof -
  let ?L = "set (ca_parserVariables s)" and ?k = "ca_numSynchronizers s"
  let ?s = "s\<lparr>ca_numSynchronizers := Suc ?k\<rparr>"
  have g: "graph_ok s" "own_ok s" using ok by (simp_all add: calc_ok_def)
  have near: "neighbours (paint {p} ?k ?s) q = neighbours s q" for q by (simp add: neighbours_def ancestors_of_def descendants_of_def)
  have closed: "\<forall>q \<in> ?L. set (neighbours (paint {p} ?k ?s) q) \<subseteq> ?L"
    unfolding near using neighbours_feeds [OF g] feeds_listed [OF g(1)] by blast
  then obtain R where R: "dfsAndSetSynchronizer ?k p (paint {p} ?k ?s) = Some (paint R ?k (paint {p} ?k ?s))"
    using dfs_ok [OF finite_set closed p, of ?k] unfolding search_ok_def by blast
  have same: "same_graph (paint R ?k (paint {p} ?k ?s)) s" "same_graph s s" by (simp_all add: same_graph_def paint_def)
  have "setup_one p s \<in> {Some s, Some (paint R ?k (paint {p} ?k ?s))}"
    using R by (simp add: setup_one_def Let_def set_synchronizer_paint)
  then show ?thesis using same by blast
qed

lemma setup_same:
  assumes "calc_ok s"
  shows "\<exists>t. setupSynchronization s = Some t \<and> same_graph t s"
proof -
  have "\<exists>t. fold_opt setup_one ps s = Some t \<and> same_graph t s" if "calc_ok s" "set ps \<subseteq> set (ca_parserVariables s)"
    for ps and s :: "'a calculation"
    using that
  proof (induction ps arbitrary: s)
    case Nil
    show ?case by (simp add: same_graph_def)
  next
    case (Cons p ps)
    obtain t where t: "setup_one p s = Some t" "same_graph t s" using setup_one_same [OF Cons.prems(1), of p] Cons.prems(2) by auto
    have "calc_ok t" "set ps \<subseteq> set (ca_parserVariables t)"
      using same_graph_ok [OF t(2)] Cons.prems t(2) by (simp_all add: same_graph_def)
    from Cons.IH [OF this] obtain r where "fold_opt setup_one ps t = Some r" "same_graph r t" by blast
    then show ?case using t same_graph_trans by auto
  qed
  from this [OF assms, of "rev (ca_parserVariables s)"] show ?thesis by (simp add: setupSynchronization_def)
qed

section \<open>Runs\<close>

definition new_calculation :: "'v notifying_variable \<Rightarrow> 'v calculation" where
  "new_calculation nv = \<lparr>ca_variables = \<lambda>_. nv, ca_numVariables = 0, ca_pvs = \<lambda>_. new_parser_variable 0 [], ca_numPvs = 0,
     ca_parserVariables = [], ca_parserConstants = [], ca_genericFormulas = [], ca_numSynchronizers = 0,
     ca_numCalculatedVariables = 0, ca_nodes = []\<rparr>"

text \<open>
  What a server does with the engine: it creates variables and puts them on the list, defines
  constants and generic formulas, instantiates calculated variables, optimizes, synchronizes, and
  writes. The toolkit accepts every value.
\<close>

datatype 'v calc_event =
    VariableCreated node_id "'v data_value"
  | ListenerAdded nat
  | VariableRegistered nat
  | ConstantRegistered string f64
  | FormulasLoaded "(string \<times> string) list"
  | Instantiated node_id calculated_config
  | Optimized
  | Synchronized
  | Written nat "'v data_value"
  | AutoUpdateSet nat bool
  | Recalculated nat

inductive calc_step :: "('v, 's, 'b) ua_sdk \<Rightarrow> mu_ops \<Rightarrow> node_ops \<Rightarrow> 'v calculation \<Rightarrow> 'v calc_event \<Rightarrow> 'v calculation \<Rightarrow> bool"
  for sdk mu ops where
  created: "new_variable nodeId dv None s = (t, v) \<Longrightarrow> calc_step sdk mu ops s (VariableCreated nodeId dv) t"
| listened: "calc_step sdk mu ops s (ListenerAdded v) (addChangeListener v OtherListener s)"
| variable: "v < ca_numVariables s \<Longrightarrow> nv_calculated (ca_variables s v) = None \<Longrightarrow>
    registerVariableForCalculatedVariables (no_idText ops) v s = Some (t, r) \<Longrightarrow> calc_step sdk mu ops s (VariableRegistered v) t"
| constant_registered: "calc_step sdk mu ops s (ConstantRegistered name x) (registerConstantForCalculatedVariables name x s)"
| formulas: "loadGenericFormulas (no_origin ops) config s = (t, r) \<Longrightarrow> calc_step sdk mu ops s (FormulasLoaded config) t"
| instantiated: "instantiateCalculatedVariable sdk mu accepts_all ops parent config s = Some (t, r) \<Longrightarrow>
    calc_step sdk mu ops s (Instantiated parent config) t"
| optimized: "calc_step sdk mu ops s Optimized (optimize s)"
| synchronized: "setupSynchronization s = Some t \<Longrightarrow> calc_step sdk mu ops s Synchronized t"
| written: "v < ca_numVariables s \<Longrightarrow> setValue sdk mu accepts_all v dv s = Some t \<Longrightarrow> calc_step sdk mu ops s (Written v dv) t"
| auto_update: "calc_step sdk mu ops s (AutoUpdateSet c b) (setAutoUpdate c b s)"
| recalculated: "c < ca_numVariables s \<Longrightarrow> triggerRecalculation sdk mu accepts_all c s = Some t \<Longrightarrow> calc_step sdk mu ops s (Recalculated c) t"

lemma new_calculation_ok: "calc_ok (new_calculation nv)"
  by (simp add: calc_ok_def graph_ok_def own_ok_def new_calculation_def)

text \<open>The steps that leave the graph alone.\<close>

lemma constant_same: "same_graph (registerConstantForCalculatedVariables name x s) s"
  by (simp add: registerConstantForCalculatedVariables_def same_graph_def)

lemma formulas_same: "loadGenericFormulas origin config s = (t, r) \<Longrightarrow> same_graph t s"
  by (induction origin config s arbitrary: t r rule: loadGenericFormulas.induct) (auto simp: same_graph_def split: if_splits)

lemma recalculated_same:
  assumes "calc_ok s" and "c < ca_numVariables s" and "triggerRecalculation sdk mu accepts_all c s = Some t"
  shows "same_graph t s"
proof (cases "formula_of s c")
  case None
  then show ?thesis using assms(3) by (simp add: triggerRecalculation_def calculate_def same_graph_def)
next
  case (Some cv)
  then have "setValue sdk mu accepts_all c (calculated_value sdk mu cv s) s = Some t"
    using assms(3) by (simp add: triggerRecalculation_def calculate_def)
  then show ?thesis by (rule write_same_graph [OF TrueI assms(1,2)])
qed

lemma auto_update_ok:
  assumes "calc_ok s"
  shows "calc_ok (setAutoUpdate c b s)"
proof (cases "c < ca_numVariables s")
  case True
  have g: "graph_ok s" "own_but s {}" using assms by (simp_all add: calc_ok_def own_but_empty)
  have "graph_ok (setAutoUpdate c b s)" unfolding setAutoUpdate_def by (rule with_calculated_graph [OF g(1)]) (simp add: formula_ok_def)
  moreover have "own_but (setAutoUpdate c b s) {}" unfolding setAutoUpdate_def by (rule with_calculated_own [OF g(2) True]) simp
  ultimately show ?thesis by (simp add: calc_ok_def own_but_empty)
next
  case False
  have g: "graph_ok s" "own_ok s" using assms by (simp_all add: calc_ok_def)
  have formula: "formula_of (setAutoUpdate c b s) w = formula_of s w" if "w < ca_numVariables s" for w
    using that False by (auto simp: setAutoUpdate_def with_calculated_sel)
  show ?thesis
    unfolding calc_ok_def
  proof (rule conjI)
    show "graph_ok (setAutoUpdate c b s)" unfolding setAutoUpdate_def
      by (rule with_calculated_graph [OF g(1)]) (use False in simp)
    show "own_ok (setAutoUpdate c b s)" unfolding own_but_empty
    proof (rule own_butI)
      fix w cv p assume w: "w < ca_numVariables (setAutoUpdate c b s)" "formula_of (setAutoUpdate c b s) w = Some cv" "cv_notifiedVariable cv = Some p"
      have "w < ca_numVariables s" using w(1) by (simp add: setAutoUpdate_def with_calculated_sel)
      then show "p \<in> set (ca_parserVariables (setAutoUpdate c b s)) \<and> variable_of (setAutoUpdate c b s) p = w"
        using own_okD(1) [OF g(2), of w cv p] w(2,3) formula by (simp add: setAutoUpdate_def with_calculated_sel(3-6))
    next
      fix p cv assume p: "p \<in> set (ca_parserVariables (setAutoUpdate c b s))" "formula_of (setAutoUpdate c b s) (variable_of (setAutoUpdate c b s) p) = Some cv"
      have p': "p \<in> set (ca_parserVariables s)" "variable_of (setAutoUpdate c b s) p = variable_of s p"
        using p(1) by (simp_all add: setAutoUpdate_def with_calculated_sel)
      have "variable_of s p < ca_numVariables s" using graph_okD(2,3) [OF g(1)] p'(1) by blast
      then show "cv_notifiedVariable cv = Some p" using own_okD(2) [OF g(2) p'(1)] p(2) p'(2) formula by simp
    qed
  qed
qed

lemma listener_ok:
  assumes "calc_ok s"
  shows "calc_ok (addChangeListener v OtherListener s)"
proof -
  let ?t = "addChangeListener v OtherListener s"
  have sel: "ca_parserVariables ?t = ca_parserVariables s" "ca_numPvs ?t = ca_numPvs s" "ca_numVariables ?t = ca_numVariables s"
    "ca_pvs ?t = ca_pvs s" "formula_of ?t w = formula_of s w"
    "ChangeListener p \<in> set (nv_changeListeners (ca_variables ?t w)) \<longleftrightarrow> ChangeListener p \<in> set (nv_changeListeners (ca_variables s w))" for w p
    by (simp_all add: addChangeListener_def with_variable_def)
  show ?thesis using assms unfolding calc_ok_def graph_ok_def own_ok_def formula_ok_def sel .
qed

lemma calc_step_ok: "calc_ok s \<Longrightarrow> calc_step sdk mu ops s e t \<Longrightarrow> calc_ok t"
proof (erule calc_step.cases, goal_cases)
  case (1 nodeId dv s' t' v)
  then show ?case using new_variable_ok [of s nodeId dv None t v] by blast
next
  case (2 s' v)
  then show ?case using listener_ok by blast
next
  case (3 v s' t' r)
  then show ?case using register_plain_ok by blast
next
  case (4 s' name x)
  then show ?case using same_graph_ok [OF constant_same] by blast
next
  case (5 config s' t' r)
  then show ?case using same_graph_ok [OF formulas_same] by blast
next
  case (6 parent config s' t' r)
  then show ?case
    using runs_toD [OF instantiate_runs [where good = accepts_all and sdk = sdk and mu = mu and ops = ops and parent = parent and config = config],
        of s t r calc_ok] by blast
next
  case (7 s')
  then show ?case using optimize_ok by blast
next
  case (8 s' t')
  then show ?case using setup_same [of s] same_graph_ok by fastforce
next
  case (9 v s' dv t')
  then show ?case using write_same_graph [of accepts_all s v sdk mu dv t] same_graph_ok by blast
next
  case (10 s' c b)
  then show ?case using auto_update_ok by blast
next
  case (11 c s' t')
  then show ?case using recalculated_same same_graph_ok by blast
qed

interpretation calc: inductive_invariant "calc_step sdk mu ops" "\<lambda>s. s = new_calculation nv" calc_ok for sdk mu ops nv
  by unfold_locales (auto simp: new_calculation_ok intro: calc_step_ok)

end
