(* ===== verification/CalcProperties.thy ===== *)
theory CalcProperties
  imports CalcOperations UaVariants
begin

text \<open>
  What the engine of the calculated variables promises: the value that a write leaves behind, the
  synchronization of the variables, and where the documentation says otherwise.
\<close>

section \<open>Running the steps\<close>

fun calc_exec :: "('v, 's, 'b) ua_sdk \<Rightarrow> mu_ops \<Rightarrow> node_ops \<Rightarrow> 'v calculation \<Rightarrow> 'v calc_event \<Rightarrow> 'v calculation option" where
  "calc_exec sdk mu ops s (VariableCreated nodeId dv) = Some (fst (new_variable nodeId dv None s))"
| "calc_exec sdk mu ops s (ListenerAdded v) = Some (addChangeListener v OtherListener s)"
| "calc_exec sdk mu ops s (VariableRegistered v) =
     (if v < ca_numVariables s \<and> nv_calculated (ca_variables s v) = None
      then map_option fst (registerVariableForCalculatedVariables (no_idText ops) v s) else None)"
| "calc_exec sdk mu ops s (ConstantRegistered name x) = Some (registerConstantForCalculatedVariables name x s)"
| "calc_exec sdk mu ops s (FormulasLoaded config) = Some (fst (loadGenericFormulas (no_origin ops) config s))"
| "calc_exec sdk mu ops s (Instantiated parent config) =
     map_option fst (instantiateCalculatedVariable sdk mu accepts_all ops parent config s)"
| "calc_exec sdk mu ops s Optimized = Some (optimize s)"
| "calc_exec sdk mu ops s Synchronized = setupSynchronization s"
| "calc_exec sdk mu ops s (Written v dv) = (if v < ca_numVariables s then setValue sdk mu accepts_all v dv s else None)"
| "calc_exec sdk mu ops s (AutoUpdateSet c b) = Some (setAutoUpdate c b s)"
| "calc_exec sdk mu ops s (Recalculated c) = (if c < ca_numVariables s then triggerRecalculation sdk mu accepts_all c s else None)"

fun calc_execs :: "('v, 's, 'b) ua_sdk \<Rightarrow> mu_ops \<Rightarrow> node_ops \<Rightarrow> 'v calc_event list \<Rightarrow> 'v calculation \<Rightarrow> 'v calculation option" where
  "calc_execs sdk mu ops [] s = Some s"
| "calc_execs sdk mu ops (e # es) s = Option.bind (calc_exec sdk mu ops s e) (calc_execs sdk mu ops es)"

lemma calc_exec_step: "calc_exec sdk mu ops s e = Some t \<Longrightarrow> calc_step sdk mu ops s e t"
proof (cases e)
  case (VariableCreated nodeId dv)
  assume "calc_exec sdk mu ops s e = Some t"
  then show ?thesis using calc_step.created [of nodeId dv s t "snd (new_variable nodeId dv None s)"] VariableCreated by auto
next
  case (FormulasLoaded config)
  assume "calc_exec sdk mu ops s e = Some t"
  then show ?thesis using calc_step.formulas [of ops config s t "snd (loadGenericFormulas (no_origin ops) config s)"] FormulasLoaded by auto
qed (auto intro: calc_step.intros split: if_splits)

lemma calc_execs_run: "calc_execs sdk mu ops es s = Some t \<Longrightarrow> run (calc_step sdk mu ops) s es t"
  by (induction es arbitrary: s) (auto intro: run_Nil run_Cons calc_exec_step simp: bind_eq_Some_conv)

lemma calc_execs_ok: "calc_execs sdk mu ops es (new_calculation nv) = Some s \<Longrightarrow> calc_ok s"
  using calc.reachable_inv calc_execs_run by blast

section \<open>A run\<close>

text \<open>Two plain variables and their sum; the parser is one that finds the two names.\<close>

declare elaborate_loop.simps [code] replaceAll.simps [code]

definition sample_calc_nodes :: node_ops where
  "sample_calc_nodes = \<lparr>no_namespace = 2, no_badStatus = \<lambda>_ _. None,
     no_idText = \<lambda>n. case n of StringId ns s \<Rightarrow> s | _ \<Rightarrow> [], no_origin = \<lambda>_. []\<rparr>"

definition sample_mu :: mu_ops where
  "sample_mu = \<lparr>mu_names = \<lambda>_. Some [''A'', ''B''], mu_eval = \<lambda>_ env. env ''A'' + env ''B''\<rparr>"

definition sum_events :: "sample_variant calc_event list" where
  "sum_events = [VariableCreated (StringId 2 ''A'') (waiting_value sample_sdk), VariableRegistered 0,
     VariableCreated (StringId 2 ''B'') (waiting_value sample_sdk), VariableRegistered 1,
     Instantiated (NumericId 0 OpcUaId_ObjectsFolder)
       \<lparr>cf_name = ''C'', cf_value = ''A+B'', cf_initialValue = None, cf_isBoolean = False, cf_status = None\<rparr>]"

definition sample_variable :: "string \<Rightarrow> nat list \<Rightarrow> calculated_variable option \<Rightarrow> sample_variant notifying_variable" where
  "sample_variable name ps formula = \<lparr>nv_nodeId = StringId 2 name, nv_value = waiting_value sample_sdk,
     nv_changeListeners = map ChangeListener ps, nv_calculated = formula\<rparr>"

abbreviation sample_start :: "sample_variant calculation" where
  "sample_start \<equiv> new_calculation (sample_variable [] [] None)"

definition sum_formula :: calculated_variable where
  "sum_formula = (new_calculated False False)\<lparr>cv_valueParser := \<lparr>bp_formula = ''A+B'', bp_constants = [], bp_variables = [(''A'', 0), (''B'', 1)]\<rparr>,
     cv_valueVariables := [0, 1], cv_notifiedVariable := Some 2\<rparr>"

definition sum_built :: "sample_variant calculation" where
  "sum_built = \<lparr>ca_variables = (\<lambda>_. sample_variable [] [] None)(0 := sample_variable ''A'' [0] None,
       1 := sample_variable ''B'' [1] None, 2 := sample_variable ''C'' [2] (Some sum_formula)),
     ca_numVariables = 3,
     ca_pvs = (\<lambda>_. new_parser_variable 0 [])(0 := (new_parser_variable 0 ''A'')\<lparr>pv_notifiedVariables := [2]\<rparr>,
       1 := (new_parser_variable 1 ''B'')\<lparr>pv_notifiedVariables := [2]\<rparr>, 2 := new_parser_variable 2 ''C''),
     ca_numPvs = 3, ca_parserVariables = [0, 1, 2], ca_parserConstants = [], ca_genericFormulas = [],
     ca_numSynchronizers = 0, ca_numCalculatedVariables = 1,
     ca_nodes = [\<lparr>an_parent = NumericId 0 85, an_id = StringId 2 ''C'', an_kind = VariableNode, an_reference = Organizes\<rparr>]\<rparr>"

lemma sum_texts:
  "elaborateFormula [] ''A+B'' [] = Some (Inr ''A+B'')"
  "escapeSpecialCharactersInParserVariableName ''A'' = Some ''A''"
  "escapeSpecialCharactersInParserVariableName ''B'' = Some ''B''"
  "escapeSpecialCharactersInParserVariableName ''C'' = Some ''C''"
  by code_simp+

lemmas engine_defs = new_calculation_def new_variable_def Let_def registerVariableForCalculatedVariables_def addChangeListener_def
  with_variable_def with_calculated_def with_pv_def mo_bind_def mo_value_def mo_action_def mo_state_def act_bind_def act_return_def
  act_get_def act_modify_def instantiateCalculatedVariable_def elaborated_status_def makeChildNodeId_def OpcUaId_ObjectsFolder_def
  construct_calculated_def initializeParser_def request_name_def parserVariableRequestHandler_def new_calculated_def
  new_parser_variable_def no_parser_def set_formula_def isConstantDefined_def add_dependent_def addDependentVariableForValue_def
  push_unique_def addNotifiedVariable_def bind_name_def setValue_unfold waiting_value_def add_calculated_node_def setIsConstant_def
  isConstant_cv_def setNotifiedVariable_def update_variable_def calculate_def calculated_value_def notify_def parser_setValue_def
  store_reading_def listener_reading_def unready_status_def

lemma sum_runs: "calc_execs sample_sdk sample_mu sample_calc_nodes sum_events sample_start = Some sum_built"
  by (simp add: sum_events_def sum_built_def engine_defs sample_calc_nodes_def sample_mu_def sample_variable_def sum_formula_def
    sum_texts numeral_2_eq_2 numeral_3_eq_3)

lemmas sum_reached = calc_execs_run [OF sum_runs]

section \<open>The graph\<close>

text \<open>
  C30: Whatever a server has done with the engine, every parser variable that a formula reads is
  still on the engine's list, is told of the values of its variable, which was created before the
  calculated one, and notifies the calculated variable.
\<close>

theorem inputs_notify:
  assumes "run (calc_step sdk mu ops) (new_calculation nv) es s"
    and "c < ca_numVariables s" and "nv_calculated (ca_variables s c) = Some cv"
    and "p \<in> set (cv_valueVariables cv) \<union> set (cv_statusVariables cv)"
  shows "p \<in> set (ca_parserVariables s) \<and> pv_notifyingVariable (ca_pvs s p) < c
    \<and> ChangeListener p \<in> set (nv_changeListeners (ca_variables s (pv_notifyingVariable (ca_pvs s p))))
    \<and> c \<in> set (pv_notifiedVariables (ca_pvs s p))"
proof -
  have g: "graph_ok s" using calc.reachable_inv [OF refl assms(1)] by (simp add: calc_ok_def)
  have p: "p \<in> set (ca_parserVariables s)" "variable_of s p < c"
    using graph_okD(4) [OF g assms(2,3)] assms(4) unfolding formula_ok_def by blast+
  have "c \<in> set (pv_notifiedVariables (ca_pvs s p))"
    using graph_okD(5) [OF g graph_okD(2) [OF g p(1)]] assms(2-4) by blast
  then show ?thesis using p graph_okD(7) [OF g p(1)] by blast
qed

theorem inputs_notify_witness:
  "1 \<in> set (ca_parserVariables sum_built) \<and> pv_notifyingVariable (ca_pvs sum_built 1) < 2
    \<and> ChangeListener 1 \<in> set (nv_changeListeners (ca_variables sum_built (pv_notifyingVariable (ca_pvs sum_built 1))))
    \<and> 2 \<in> set (pv_notifiedVariables (ca_pvs sum_built 1))"
  by (rule inputs_notify [OF sum_reached, of 2 sum_formula 1])
    (simp_all add: sum_built_def sum_formula_def new_calculated_def sample_variable_def)

section \<open>Writes\<close>



section \<open>Optimization\<close>

text \<open>What the optimization leaves alone.\<close>

lemma optimized_elsewhere:
  assumes "graph_ok s" and p: "p \<in> set (ca_parserVariables s)" "optimized_out s p" and q: "q \<in> set (ca_parserVariables s)" "q \<noteq> p"
  shows "optimized_out (optimize_one p s) q = optimized_out s q"
proof -
  have "variable_of s q \<noteq> variable_of s p" using optimized_alone(1) [OF assms(1) p q(1)] q(2) by blast
  then show ?thesis by (simp add: optimized_out_def optimize_one_sel)
qed

abbreviation with_inputs :: "calculated_variable \<Rightarrow> bound_parser \<times> nat list \<times> bound_parser \<times> nat list" where
  "with_inputs cv \<equiv> (cv_valueParser cv, cv_valueVariables cv, cv_statusParser cv, cv_statusVariables cv)"

lemma optimize_list:
  assumes "calc_ok s" and "set ps \<subseteq> set (ca_parserVariables s)" and "distinct ps"
    and "t = fold (\<lambda>p s. if optimized_out s p then optimize_one p s else s) ps s"
  shows "ca_parserVariables t = filter (\<lambda>p. \<not> (p \<in> set ps \<and> optimized_out s p)) (ca_parserVariables s)
    \<and> ca_pvs t = ca_pvs s \<and> (\<forall>c. map_option with_inputs (formula_of t c) = map_option with_inputs (formula_of s c))"
  using assms
proof (induction ps arbitrary: s)
  case (Cons p ps)
  have g: "graph_ok s" using Cons.prems(1) by (simp add: calc_ok_def)
  show ?case
  proof (cases "optimized_out s p")
    case False
    have "ca_parserVariables t = filter (\<lambda>p. \<not> (p \<in> set ps \<and> optimized_out s p)) (ca_parserVariables s)
        \<and> ca_pvs t = ca_pvs s \<and> (\<forall>c. map_option with_inputs (formula_of t c) = map_option with_inputs (formula_of s c))"
      using Cons.IH [OF Cons.prems(1)] Cons.prems(2-4) False by simp
    moreover have "filter (\<lambda>p. \<not> (p \<in> set ps \<and> optimized_out s p)) (ca_parserVariables s)
        = filter (\<lambda>q. \<not> (q \<in> set (p # ps) \<and> optimized_out s q)) (ca_parserVariables s)"
      using False by (intro filter_cong) auto
    ultimately show ?thesis by simp
  next
    case True
    let ?u = "optimize_one p s"
    have p: "p \<in> set (ca_parserVariables s)" using Cons.prems(2) by simp
    have d: "distinct (ca_parserVariables s)" by (rule calc_ok_distinct [OF Cons.prems(1)])
    have "remove1 p (ca_parserVariables s) = filter (\<lambda>q. q \<noteq> p) (ca_parserVariables s)"
      unfolding distinct_remove1_removeAll [OF d] removeAll_filter_not_eq by (intro filter_cong) auto
    then have listed: "ca_parserVariables ?u = filter (\<lambda>q. q \<noteq> p) (ca_parserVariables s)"
      by (simp add: optimize_one_sel)
    have "set ps \<subseteq> set (ca_parserVariables ?u)" using Cons.prems(2,3) by (auto simp: listed)
    then have u: "ca_parserVariables t = filter (\<lambda>q. \<not> (q \<in> set ps \<and> optimized_out ?u q)) (ca_parserVariables ?u)"
      "ca_pvs t = ca_pvs ?u" "\<And>c. map_option with_inputs (formula_of t c) = map_option with_inputs (formula_of ?u c)"
      using Cons.IH [OF optimize_one_ok [OF Cons.prems(1) p True]] Cons.prems(3,4) True by simp_all
    have "map_option with_inputs (formula_of ?u c) = map_option with_inputs (formula_of s c)" for c
      by (cases "formula_of s c") (auto simp: optimize_one_sel)
    moreover have "filter (\<lambda>q. \<not> (q \<in> set ps \<and> optimized_out ?u q)) (ca_parserVariables ?u)
        = filter (\<lambda>q. \<not> (q \<in> set (p # ps) \<and> optimized_out s q)) (ca_parserVariables s)"
      unfolding listed filter_filter
      using optimized_elsewhere [OF g p True] True Cons.prems(3) by (intro filter_cong) auto
    ultimately show ?thesis using u by (simp add: optimize_one_sel)
  qed
qed simp

text \<open>
  C32: The optimization takes off the list exactly the parser variables that no formula reads and
  whose variable has no other listener, keeps the order of the others, and changes neither a parser
  variable nor the formulas, so that every formula still finds what it reads.
\<close>

theorem optimization_exact:
  assumes "run (calc_step sdk mu ops) (new_calculation nv) es s"
  shows "ca_parserVariables (optimize s) = filter (\<lambda>p. \<not> optimized_out s p) (ca_parserVariables s)
    \<and> ca_pvs (optimize s) = ca_pvs s
    \<and> (\<forall>c. map_option with_inputs (nv_calculated (ca_variables (optimize s) c)) = map_option with_inputs (nv_calculated (ca_variables s c)))"
proof -
  have ok: "calc_ok s" using calc.reachable_inv [OF refl assms] .
  have "filter (\<lambda>p. \<not> (p \<in> set (ca_parserVariables s) \<and> optimized_out s p)) (ca_parserVariables s)
      = filter (\<lambda>p. \<not> optimized_out s p) (ca_parserVariables s)"
    by (rule filter_cong) simp_all
  then show ?thesis using optimize_list [OF ok subset_refl calc_ok_distinct [OF ok] optimize_def] by simp
qed

theorem optimization_exact_witness: "ca_parserVariables (optimize sum_built) = [0, 1]"
proof -
  have "filter (\<lambda>p. \<not> optimized_out sum_built p) (ca_parserVariables sum_built) = [0, 1]"
    by (simp add: optimized_out_def sum_built_def sample_variable_def new_parser_variable_def)
  then show ?thesis using optimization_exact [OF sum_reached] by simp
qed

section \<open>Synchronization\<close>



lemma calc_execs_append: "calc_execs sdk mu ops (es @ fs) s = Option.bind (calc_execs sdk mu ops es s) (calc_execs sdk mu ops fs)"
  by (induction es arbitrary: s) (simp_all split: bind_split)

text \<open>
  A server optimizes before it synchronizes. When nothing reads the sum of two variables, the
  optimization forgets the parser variable of the sum, the search no longer passes through it, and
  the two variables get different synchronizers although one formula reads both.
\<close>

lemma optimized_sum_unsynchronized:
  "\<exists>t cv. calc_execs sample_sdk sample_mu sample_calc_nodes (sum_events @ [Optimized, Synchronized]) sample_start = Some t
    \<and> nv_calculated (ca_variables t 2) = Some cv \<and> cv_valueVariables cv = [0, 1] \<and> cv_autoUpdateEnabled cv
    \<and> pv_synchronizer (ca_pvs t 0) = Some 1 \<and> pv_synchronizer (ca_pvs t 1) = Some 0"
  unfolding calc_execs_append sum_runs
  by (simp add: optimize_def optimized_out_def optimize_one_def setupSynchronization_def setup_one_def
    dfs_unfold visit_def neighbours_def ancestors_of_def descendants_of_def unsynchronized_def set_synchronizer_def Let_def
    sum_built_def sample_variable_def new_parser_variable_def sum_formula_def new_calculated_def setNotifiedVariable_def
    with_calculated_def with_variable_def with_pv_def List.map_filter_simps)

end
