(* ===== verification/QuasarThreadPool.thy ===== *)
theory QuasarThreadPool
  imports Effects Reachability "HOL-Library.Multiset"
begin

text \<open>
  The thread pool, Common/src/QuasarThreadPool.cpp: a list of jobs, workers that take the first job
  whose mutex is free, and the counters of accepted and finished jobs. What a job executes is its
  owner's; an exception of it is logged and changes nothing here. The lists are only touched under
  the access lock, so one section under that lock is one step; the counters and the destruction of a
  \<open>Duty\<close> are outside of it and are steps of their own.
\<close>

section \<open>Mutexes\<close>

text \<open>
  A \<open>std::mutex\<close> with the thread that holds it. To unlock a mutex that the thread does not hold is
  undefined: the step is recorded, and the mutex is free afterwards, as on the platforms in use.
\<close>

datatype thread = Worker nat | OtherThread nat

type_synonym mutexes = "nat \<Rightarrow> thread option"

text \<open>\<open>jb_work\<close> numbers the function object that the job executes.\<close>

record pool_job =
  jb_description :: string
  jb_mutex :: "nat option"
  jb_work :: nat

record duty =
  du_job :: pool_job
  du_lock :: "nat option"

text \<open>\<open>Finishing\<close>: the worker has counted down to the end of its loop, where the \<open>Duty\<close> is destroyed.\<close>

datatype worker = Idle | Executing duty | Finishing duty | Ended

record thread_pool =
  tp_quit :: bool
  tp_workers :: "worker list"
  tp_pending :: "pool_job list"
  tp_maxJobs :: "32 word"
  tp_accepted :: "64 word"
  tp_finished :: "64 word"
  tp_counting :: nat
  tp_unfinished :: "pool_job list"
  tp_mutexes :: mutexes
  tp_undefined :: bool

definition new_pool :: "bool \<Rightarrow> 32 word \<Rightarrow> 32 word \<Rightarrow> thread_pool result" where
  "new_pool logReady maxThreads maxJobs =
     (if \<not> logReady
      then Inl (''ThreadPool initialized before ThreadPool LogIt handle is initialized -- most common cause: ''
        @ ''QuasarServer::initializeLogIt() override does not delegate to BaseQuasarServer::initializeLogIt(), ''
        @ ''which registers the ThreadPool logging component'')
      else Inr \<lparr>tp_quit = False, tp_workers = replicate (unat maxThreads) Idle, tp_pending = [], tp_maxJobs = maxJobs,
        tp_accepted = 0, tp_finished = 0, tp_counting = 0, tp_unfinished = [], tp_mutexes = \<lambda>_. None, tp_undefined = False\<rparr>)"

definition unlock :: "thread \<Rightarrow> nat \<Rightarrow> thread_pool \<Rightarrow> thread_pool" where
  "unlock thread m s = s\<lparr>tp_mutexes := (tp_mutexes s)(m := None),
     tp_undefined := tp_undefined s \<or> tp_mutexes s m \<noteq> Some thread\<rparr>"

section \<open>Adding jobs\<close>

definition OpcUa_BadResourceUnavailable :: "32 word" where "OpcUa_BadResourceUnavailable = 0x80040000"

definition addJob :: "pool_job \<Rightarrow> thread_pool \<Rightarrow> thread_pool \<times> 32 word" where
  "addJob job s =
     (if unat (tp_maxJobs s) \<le> length (tp_pending s) then (s, OpcUa_BadResourceUnavailable)
      else (s\<lparr>tp_pending := tp_pending s @ [job], tp_counting := Suc (tp_counting s)\<rparr>, 0))"

definition addJob_functor :: "nat \<Rightarrow> string \<Rightarrow> nat option \<Rightarrow> thread_pool \<Rightarrow> thread_pool \<times> 32 word" where
  "addJob_functor work description mutex = addJob \<lparr>jb_description = description, jb_mutex = mutex, jb_work = work\<rparr>"

text \<open>The accepted job is counted after the access lock is released.\<close>

definition count_accepted :: "thread_pool \<Rightarrow> thread_pool" where
  "count_accepted s = s\<lparr>tp_counting := tp_counting s - 1, tp_accepted := tp_accepted s + 1\<rparr>"

definition getNumPendingJobs :: "thread_pool \<Rightarrow> nat" where
  "getNumPendingJobs s = length (tp_pending s)"

section \<open>Working\<close>

fun findSomeDuty :: "nat \<Rightarrow> mutexes \<Rightarrow> pool_job list \<Rightarrow> duty option \<times> mutexes \<times> pool_job list" where
  "findSomeDuty i mx [] = (None, mx, [])"
| "findSomeDuty i mx (job # jobs) = (case jb_mutex job of
       None \<Rightarrow> (Some \<lparr>du_job = job, du_lock = None\<rparr>, mx, jobs)
     | Some m \<Rightarrow>
         if mx m \<noteq> None
         then (case findSomeDuty i mx jobs of (duty, mx', rest) \<Rightarrow> (duty, mx', job # rest))
         else (Some \<lparr>du_job = job, du_lock = Some m\<rparr>, mx(m \<mapsto> Worker i), jobs))"

text \<open>The section of \<open>work\<close> under the access lock: the end, a wait, or a duty.\<close>

definition work_take :: "nat \<Rightarrow> thread_pool \<Rightarrow> thread_pool" where
  "work_take i s =
     (if tp_quit s then s\<lparr>tp_workers := (tp_workers s)[i := Ended]\<rparr>
      else case findSomeDuty i (tp_mutexes s) (tp_pending s) of
          (None, mx, jobs) \<Rightarrow> s
        | (Some duty, mx, jobs) \<Rightarrow>
            s\<lparr>tp_workers := (tp_workers s)[i := Executing duty], tp_mutexes := mx, tp_pending := jobs\<rparr>)"

text \<open>After the job: the mutex of the job is unlocked.\<close>

definition work_release :: "nat \<Rightarrow> duty \<Rightarrow> thread_pool \<Rightarrow> thread_pool" where
  "work_release i duty s =
     (let s = s\<lparr>tp_workers := (tp_workers s)[i := Finishing duty]\<rparr> in
      case jb_mutex (du_job duty) of None \<Rightarrow> s | Some m \<Rightarrow> unlock (Worker i) m s)"

text \<open>The end of the loop body: the job is counted, and the lock in the \<open>Duty\<close> unlocks what it owns.\<close>

definition work_finish :: "nat \<Rightarrow> duty \<Rightarrow> thread_pool \<Rightarrow> thread_pool" where
  "work_finish i duty s =
     (let s = s\<lparr>tp_workers := (tp_workers s)[i := Idle], tp_finished := tp_finished s + 1\<rparr> in
      case du_lock duty of None \<Rightarrow> s | Some m \<Rightarrow> unlock (Worker i) m s)"

definition stop_workers :: "thread_pool \<Rightarrow> thread_pool" where
  "stop_workers s = s\<lparr>tp_quit := True\<rparr>"

definition remove_unfinished :: "thread_pool \<Rightarrow> thread_pool" where
  "remove_unfinished s = s\<lparr>tp_pending := [], tp_unfinished := tp_unfinished s @ tp_pending s\<rparr>"

section \<open>Steps\<close>

text \<open>
  Any number of threads add jobs, at any time before the destructor has joined the workers; the
  mutexes of jobs are also locked and unlocked by the device logic, which unlocks what it holds.
\<close>

datatype pool_event =
    JobAdded pool_job "32 word" | JobCounted | WorkerLooked nat | JobDone nat pool_job | DutyDestroyed nat
  | OtherLocked nat nat | OtherUnlocked nat nat | Quit | Joined

inductive pool_step :: "thread_pool \<Rightarrow> pool_event \<Rightarrow> thread_pool \<Rightarrow> bool" where
  added: "addJob job s = (t, status) \<Longrightarrow> pool_step s (JobAdded job status) t"
| counted: "0 < tp_counting s \<Longrightarrow> pool_step s JobCounted (count_accepted s)"
| looked: "i < length (tp_workers s) \<Longrightarrow> tp_workers s ! i = Idle \<Longrightarrow> pool_step s (WorkerLooked i) (work_take i s)"
| executed: "i < length (tp_workers s) \<Longrightarrow> tp_workers s ! i = Executing duty \<Longrightarrow> pool_step s (JobDone i (du_job duty)) (work_release i duty s)"
| destroyed: "i < length (tp_workers s) \<Longrightarrow> tp_workers s ! i = Finishing duty \<Longrightarrow> pool_step s (DutyDestroyed i) (work_finish i duty s)"
| other_locked: "tp_mutexes s m = None \<Longrightarrow> pool_step s (OtherLocked k m) (s\<lparr>tp_mutexes := (tp_mutexes s)(m \<mapsto> OtherThread k)\<rparr>)"
| other_unlocked: "tp_mutexes s m = Some (OtherThread k) \<Longrightarrow> pool_step s (OtherUnlocked k m) (unlock (OtherThread k) m s)"
| quit: "pool_step s Quit (stop_workers s)"
| joined: "tp_quit s \<Longrightarrow> list_all (\<lambda>w. w = Ended) (tp_workers s) \<Longrightarrow> pool_step s Joined (remove_unfinished s)"

inductive_cases pool_stepE [elim!]: "pool_step s e t"

section \<open>Which job is taken\<close>

definition eligible :: "mutexes \<Rightarrow> pool_job \<Rightarrow> bool" where
  "eligible mx job \<longleftrightarrow> (case jb_mutex job of None \<Rightarrow> True | Some m \<Rightarrow> mx m = None)"

definition lock_for :: "nat \<Rightarrow> pool_job \<Rightarrow> mutexes \<Rightarrow> mutexes" where
  "lock_for i job mx = (case jb_mutex job of None \<Rightarrow> mx | Some m \<Rightarrow> mx(m \<mapsto> Worker i))"

lemma findSomeDuty_Cons:
  "findSomeDuty i mx (job # jobs) =
     (if eligible mx job then (Some \<lparr>du_job = job, du_lock = jb_mutex job\<rparr>, lock_for i job mx, jobs)
      else case findSomeDuty i mx jobs of (duty, mx', rest) \<Rightarrow> (duty, mx', job # rest))"
  by (simp add: eligible_def lock_for_def split: option.split)

text \<open>
  A worker takes the first job of the list that has no mutex or a free one, holds exactly that mutex
  for it, and leaves the other jobs in their order; it takes none only when the mutex of every job
  is held.
\<close>

lemma findSomeDuty_eq:
  "findSomeDuty i mx jobs = (case dropWhile (\<lambda>job. \<not> eligible mx job) jobs of
       [] \<Rightarrow> (None, mx, jobs)
     | job # rest \<Rightarrow> (Some \<lparr>du_job = job, du_lock = jb_mutex job\<rparr>, lock_for i job mx,
         takeWhile (\<lambda>job. \<not> eligible mx job) jobs @ rest))"
proof (induction jobs)
  case (Cons job jobs)
  show ?case
  proof (cases "eligible mx job")
    case True
    then show ?thesis by (simp add: findSomeDuty_Cons del: findSomeDuty.simps)
  next
    case False
    then show ?thesis using Cons.IH
      by (cases "dropWhile (\<lambda>job. \<not> eligible mx job) jobs") (simp_all add: findSomeDuty_Cons del: findSomeDuty.simps dropWhile_eq_Nil_conv)
  qed
qed simp

lemma duty_found:
  assumes "findSomeDuty i mx jobs = (Some duty, mx', rest)"
  shows "mset jobs = add_mset (du_job duty) (mset rest)" and "du_lock duty = jb_mutex (du_job duty)"
    and "eligible mx (du_job duty)" and "mx' = lock_for i (du_job duty) mx"
proof -
  obtain job tail where job: "dropWhile (\<lambda>job. \<not> eligible mx job) jobs = job # tail"
    using assms by (auto simp: findSomeDuty_eq split: list.splits)
  then have "duty = \<lparr>du_job = job, du_lock = jb_mutex job\<rparr>" "mx' = lock_for i job mx"
    and rest: "rest = takeWhile (\<lambda>job. \<not> eligible mx job) jobs @ tail"
    using assms by (simp_all add: findSomeDuty_eq)
  moreover have "jobs = takeWhile (\<lambda>job. \<not> eligible mx job) jobs @ job # tail"
    using takeWhile_dropWhile_id [of "\<lambda>job. \<not> eligible mx job" jobs] job by simp
  then have "mset jobs = add_mset job (mset rest)" unfolding rest by (metis mset_append mset.simps(2) union_mset_add_mset_right)
  moreover have "eligible mx job" using job by (auto simp: dropWhile_eq_Cons_conv)
  ultimately show "mset jobs = add_mset (du_job duty) (mset rest)" "du_lock duty = jb_mutex (du_job duty)"
    "eligible mx (du_job duty)" "mx' = lock_for i (du_job duty) mx" by simp_all
qed

section \<open>The jobs are conserved\<close>

definition worker_jobs :: "worker \<Rightarrow> pool_job multiset" where
  "worker_jobs w = (case w of Executing duty \<Rightarrow> {# du_job duty #} | _ \<Rightarrow> {#})"

definition executing :: "worker list \<Rightarrow> pool_job multiset" where
  "executing ws = \<Sum>\<^sub># (mset (map worker_jobs ws))"

lemma executing_update:
  "i < length ws \<Longrightarrow> executing (ws[i := w]) + worker_jobs (ws ! i) = executing ws + worker_jobs w"
proof (induction ws arbitrary: i)
  case (Cons v ws)
  then show ?case by (cases i) (auto simp: executing_def add.assoc add.commute add.left_commute)
qed simp

definition held_jobs :: "thread_pool \<Rightarrow> pool_job multiset" where
  "held_jobs s = mset (tp_pending s) + executing (tp_workers s) + mset (tp_unfinished s)"

definition accepted_of :: "pool_event \<Rightarrow> pool_job multiset" where
  "accepted_of e = (case e of JobAdded job status \<Rightarrow> if status = 0 then {# job #} else {#} | _ \<Rightarrow> {#})"

definition executed_of :: "pool_event \<Rightarrow> pool_job multiset" where
  "executed_of e = (case e of JobDone i job \<Rightarrow> {# job #} | _ \<Rightarrow> {#})"

lemma work_take_conserves:
  assumes "i < length (tp_workers s)" and "tp_workers s ! i = Idle"
  shows "held_jobs (work_take i s) = held_jobs s"
proof (cases "tp_quit s")
  case True
  then show ?thesis using executing_update [OF assms(1), of Ended] assms(2) by (simp add: work_take_def held_jobs_def worker_jobs_def)
next
  case False
  obtain d mx jobs where d: "findSomeDuty i (tp_mutexes s) (tp_pending s) = (d, mx, jobs)" by (metis prod_cases3)
  show ?thesis
  proof (cases d)
    case None
    then show ?thesis using False d by (simp add: work_take_def)
  next
    case (Some duty)
    then have "mset (tp_pending s) = add_mset (du_job duty) (mset jobs)" using duty_found(1) d by blast
    moreover have "executing ((tp_workers s)[i := Executing duty]) = executing (tp_workers s) + {# du_job duty #}"
      using executing_update [OF assms(1), of "Executing duty"] assms(2) by (simp add: worker_jobs_def)
    ultimately show ?thesis using False d Some by (simp add: work_take_def held_jobs_def)
  qed
qed

lemma pool_step_conserves: "pool_step s e t \<Longrightarrow> held_jobs s + accepted_of e = held_jobs t + executed_of e"
proof (erule pool_step.cases, goal_cases)
  case (1 job s' t' status)
  then show ?case
    by (auto simp: addJob_def held_jobs_def accepted_of_def executed_of_def OpcUa_BadResourceUnavailable_def split: if_splits)
next
  case (3 i s')
  then show ?case using work_take_conserves [of i s] by (simp add: accepted_of_def executed_of_def)
next
  case (4 i s' duty)
  then have "executing ((tp_workers s)[i := Finishing duty]) + {# du_job duty #} = executing (tp_workers s)"
    using executing_update [of i "tp_workers s" "Finishing duty"] by (simp add: worker_jobs_def)
  then show ?case using 4
    by (auto simp: work_release_def unlock_def held_jobs_def accepted_of_def executed_of_def Let_def split: option.split)
next
  case (5 i s' duty)
  then have "executing ((tp_workers s)[i := Idle]) = executing (tp_workers s)"
    using executing_update [of i "tp_workers s" Idle] by (simp add: worker_jobs_def)
  then show ?case using 5
    by (auto simp: work_finish_def unlock_def held_jobs_def accepted_of_def executed_of_def Let_def split: option.split)
qed (simp_all add: count_accepted_def unlock_def stop_workers_def remove_unfinished_def held_jobs_def accepted_of_def executed_of_def)

lemma run_conserves:
  "run pool_step s es t \<Longrightarrow> held_jobs s + \<Sum>\<^sub># (mset (map accepted_of es)) = held_jobs t + \<Sum>\<^sub># (mset (map executed_of es))"
proof (induction rule: run.induct)
  case (run_Cons s e t es u)
  then show ?case using pool_step_conserves [OF run_Cons.hyps(1)] by (simp add: add.assoc [symmetric])
qed simp

section \<open>The invariant\<close>

text \<open>
  The list is never longer than its limit. The only workers that hold a mutex are executing a job of
  it, and as long as nothing undefined has happened a worker that executes a job holds its mutex.
\<close>

definition pool_inv :: "thread_pool \<Rightarrow> bool" where
  "pool_inv s \<longleftrightarrow> length (tp_pending s) \<le> unat (tp_maxJobs s)
     \<and> (\<forall>i duty. i < length (tp_workers s) \<longrightarrow> tp_workers s ! i = Executing duty \<or> tp_workers s ! i = Finishing duty \<longrightarrow>
          du_lock duty = jb_mutex (du_job duty))
     \<and> (\<forall>i m. tp_mutexes s m = Some (Worker i) \<longrightarrow> i < length (tp_workers s)
          \<and> (\<exists>duty. tp_workers s ! i = Executing duty \<and> du_lock duty = Some m))
     \<and> (\<not> tp_undefined s \<longrightarrow> (\<forall>i duty m. i < length (tp_workers s) \<longrightarrow> tp_workers s ! i = Executing duty \<longrightarrow>
          du_lock duty = Some m \<longrightarrow> tp_mutexes s m = Some (Worker i)))"

lemma pool_invD:
  assumes "pool_inv s"
  shows "length (tp_pending s) \<le> unat (tp_maxJobs s)"
    and "i < length (tp_workers s) \<Longrightarrow> tp_workers s ! i = Executing duty \<or> tp_workers s ! i = Finishing duty \<Longrightarrow>
      du_lock duty = jb_mutex (du_job duty)"
    and "tp_mutexes s m = Some (Worker i) \<Longrightarrow> i < length (tp_workers s)
      \<and> (\<exists>duty. tp_workers s ! i = Executing duty \<and> du_lock duty = Some m)"
    and "\<not> tp_undefined s \<Longrightarrow> i < length (tp_workers s) \<Longrightarrow> tp_workers s ! i = Executing duty \<Longrightarrow>
      du_lock duty = Some m \<Longrightarrow> tp_mutexes s m = Some (Worker i)"
  using assms unfolding pool_inv_def by blast+

lemma pool_invI:
  assumes "length (tp_pending s) \<le> unat (tp_maxJobs s)"
    and "\<And>i duty. i < length (tp_workers s) \<Longrightarrow> tp_workers s ! i = Executing duty \<or> tp_workers s ! i = Finishing duty \<Longrightarrow>
      du_lock duty = jb_mutex (du_job duty)"
    and "\<And>m i. tp_mutexes s m = Some (Worker i) \<Longrightarrow> i < length (tp_workers s)
      \<and> (\<exists>duty. tp_workers s ! i = Executing duty \<and> du_lock duty = Some m)"
    and "\<And>i duty m. \<not> tp_undefined s \<Longrightarrow> i < length (tp_workers s) \<Longrightarrow> tp_workers s ! i = Executing duty \<Longrightarrow>
      du_lock duty = Some m \<Longrightarrow> tp_mutexes s m = Some (Worker i)"
  shows "pool_inv s"
  unfolding pool_inv_def using assms by (intro conjI) blast+

lemma unlock_sel [simp]:
  "tp_pending (unlock h m s) = tp_pending s" "tp_maxJobs (unlock h m s) = tp_maxJobs s" "tp_workers (unlock h m s) = tp_workers s"
  "tp_mutexes (unlock h m s) = (tp_mutexes s)(m := None)"
  "tp_undefined (unlock h m s) \<longleftrightarrow> tp_undefined s \<or> tp_mutexes s m \<noteq> Some h"
  by (simp_all add: unlock_def)

text \<open>A worker that is not executing a job changes to a state that is not executing one either.\<close>

lemma pool_inv_idle:
  assumes ok: "pool_inv s" and i: "i < length (tp_workers s)" and "\<And>duty. tp_workers s ! i \<noteq> Executing duty"
    and w: "w = Idle \<or> w = Ended"
    and t: "tp_workers t = (tp_workers s)[i := w]" "tp_mutexes t = tp_mutexes s" "tp_pending t = tp_pending s" "tp_maxJobs t = tp_maxJobs s"
      "tp_undefined t = tp_undefined s"
  shows "pool_inv t"
proof (rule pool_invI)
  show "length (tp_pending t) \<le> unat (tp_maxJobs t)" using pool_invD(1) [OF ok] by (simp add: t)
  have at: "tp_workers t ! j = (if j = i then w else tp_workers s ! j)" "length (tp_workers t) = length (tp_workers s)" for j
    using i by (simp_all add: t(1) nth_list_update)
  fix j duty assume j: "j < length (tp_workers t)" "tp_workers t ! j = Executing duty \<or> tp_workers t ! j = Finishing duty"
  then have "j \<noteq> i" using w by (auto simp: at)
  then show "du_lock duty = jb_mutex (du_job duty)" using pool_invD(2) [OF ok, of j duty] j by (simp add: at)
next
  have at: "tp_workers t ! j = (if j = i then w else tp_workers s ! j)" "length (tp_workers t) = length (tp_workers s)" for j
    using i by (simp_all add: t(1) nth_list_update)
  fix m j assume "tp_mutexes t m = Some (Worker j)"
  then obtain duty where "j < length (tp_workers s)" "tp_workers s ! j = Executing duty" "du_lock duty = Some m"
    using pool_invD(3) [OF ok, of m j] by (auto simp: t)
  moreover then have "j \<noteq> i" using assms(3) by blast
  ultimately show "j < length (tp_workers t) \<and> (\<exists>duty. tp_workers t ! j = Executing duty \<and> du_lock duty = Some m)" by (simp add: at)
next
  have at: "tp_workers t ! j = (if j = i then w else tp_workers s ! j)" "length (tp_workers t) = length (tp_workers s)" for j
    using i by (simp_all add: t(1) nth_list_update)
  fix j duty m assume j: "\<not> tp_undefined t" "j < length (tp_workers t)" "tp_workers t ! j = Executing duty" "du_lock duty = Some m"
  then have "j \<noteq> i" using w by (auto simp: at)
  then show "tp_mutexes t m = Some (Worker j)" using pool_invD(4) [OF ok, of j duty m] j by (simp add: at t)
qed

lemma work_take_inv:
  assumes ok: "pool_inv s" and i: "i < length (tp_workers s)" "tp_workers s ! i = Idle"
  shows "pool_inv (work_take i s)"
proof (cases "tp_quit s")
  case True
  show ?thesis by (rule pool_inv_idle [OF ok i(1), where w = Ended]) (use i True in \<open>simp_all add: work_take_def\<close>)
next
  case False
  obtain d mx jobs where d: "findSomeDuty i (tp_mutexes s) (tp_pending s) = (d, mx, jobs)" by (metis prod_cases3)
  show ?thesis
  proof (cases d)
    case None
    then show ?thesis using False d ok by (simp add: work_take_def)
  next
    case (Some duty)
    let ?t = "work_take i s"
    note found = duty_found [OF d [unfolded Some]]
    have t: "tp_pending ?t = jobs" "tp_maxJobs ?t = tp_maxJobs s" "tp_mutexes ?t = mx" "tp_undefined ?t = tp_undefined s"
      and at: "length (tp_workers ?t) = length (tp_workers s)" "\<And>j. tp_workers ?t ! j = (if j = i then Executing duty else tp_workers s ! j)"
      using False d Some i(1) by (simp_all add: work_take_def nth_list_update)
    have free: "\<And>m. du_lock duty = Some m \<Longrightarrow> tp_mutexes s m = None"
      and mx: "mx = (case du_lock duty of None \<Rightarrow> tp_mutexes s | Some m \<Rightarrow> (tp_mutexes s)(m \<mapsto> Worker i))"
      using found(2-4) by (simp_all add: eligible_def lock_for_def)
    show ?thesis
    proof (rule pool_invI)
      have "length (tp_pending s) = Suc (length jobs)" using found(1) by (metis size_mset size_add_mset)
      then show "length (tp_pending ?t) \<le> unat (tp_maxJobs ?t)" using pool_invD(1) [OF ok] by (simp add: t)
      fix j e assume "j < length (tp_workers ?t)" "tp_workers ?t ! j = Executing e \<or> tp_workers ?t ! j = Finishing e"
      then show "du_lock e = jb_mutex (du_job e)" using pool_invD(2) [OF ok, of j e] found(2) by (auto simp: at split: if_splits)
    next
      fix m j assume m: "tp_mutexes ?t m = Some (Worker j)"
      show "j < length (tp_workers ?t) \<and> (\<exists>e. tp_workers ?t ! j = Executing e \<and> du_lock e = Some m)"
      proof (cases "du_lock duty = Some m")
        case True
        then have "j = i" using m by (simp add: t mx)
        then show ?thesis using i True by (simp add: at)
      next
        case False
        then have "tp_mutexes s m = Some (Worker j)" using m by (auto simp: t mx split: option.splits if_splits)
        then obtain e where e: "j < length (tp_workers s)" "tp_workers s ! j = Executing e" "du_lock e = Some m"
          using pool_invD(3) [OF ok] by blast
        then have "j \<noteq> i" using i by auto
        then show ?thesis using e by (simp add: at)
      qed
    next
      fix j e m assume j: "\<not> tp_undefined ?t" "j < length (tp_workers ?t)" "tp_workers ?t ! j = Executing e" "du_lock e = Some m"
      show "tp_mutexes ?t m = Some (Worker j)"
      proof (cases "j = i")
        case True
        then show ?thesis using j by (simp add: at t mx)
      next
        case False
        then have held: "tp_mutexes s m = Some (Worker j)" using pool_invD(4) [OF ok, of j e m] j by (simp add: at t)
        then have "du_lock duty \<noteq> Some m" using free by auto
        then show ?thesis using held by (auto simp: t mx split: option.split)
      qed
    qed
  qed
qed

lemma release_finish_sel:
  assumes "i < length (tp_workers s)"
  shows "tp_pending (work_release i duty s) = tp_pending s" "tp_maxJobs (work_release i duty s) = tp_maxJobs s"
    and "length (tp_workers (work_release i duty s)) = length (tp_workers s)"
    and "tp_workers (work_release i duty s) ! j = (if j = i then Finishing duty else tp_workers s ! j)"
    and "tp_mutexes (work_release i duty s) m = (if jb_mutex (du_job duty) = Some m then None else tp_mutexes s m)"
    and "tp_undefined (work_release i duty s) \<longleftrightarrow>
      tp_undefined s \<or> (\<exists>m. jb_mutex (du_job duty) = Some m \<and> tp_mutexes s m \<noteq> Some (Worker i))"
    and "tp_pending (work_finish i duty s) = tp_pending s" "tp_maxJobs (work_finish i duty s) = tp_maxJobs s"
    and "length (tp_workers (work_finish i duty s)) = length (tp_workers s)"
    and "tp_workers (work_finish i duty s) ! j = (if j = i then Idle else tp_workers s ! j)"
    and "tp_mutexes (work_finish i duty s) m = (if du_lock duty = Some m then None else tp_mutexes s m)"
    and "tp_undefined (work_finish i duty s) \<longleftrightarrow> tp_undefined s \<or> (\<exists>m. du_lock duty = Some m \<and> tp_mutexes s m \<noteq> Some (Worker i))"
  using assms by (auto simp: work_release_def work_finish_def Let_def nth_list_update split: option.split)

lemma work_release_inv:
  assumes ok: "pool_inv s" and i: "i < length (tp_workers s)" "tp_workers s ! i = Executing duty"
  shows "pool_inv (work_release i duty s)"
proof (rule pool_invI)
  note sel = release_finish_sel(1-6) [OF i(1), of duty]
  have lock: "du_lock duty = jb_mutex (du_job duty)" using pool_invD(2) [OF ok i(1)] i(2) by blast
  show "length (tp_pending (work_release i duty s)) \<le> unat (tp_maxJobs (work_release i duty s))"
    using pool_invD(1) [OF ok] by (simp add: sel)
  fix j e assume "j < length (tp_workers (work_release i duty s))"
    "tp_workers (work_release i duty s) ! j = Executing e \<or> tp_workers (work_release i duty s) ! j = Finishing e"
  then show "du_lock e = jb_mutex (du_job e)" using pool_invD(2) [OF ok, of j e] lock by (auto simp: sel split: if_splits)
next
  note sel = release_finish_sel(1-6) [OF i(1), of duty]
  have lock: "du_lock duty = jb_mutex (du_job duty)" using pool_invD(2) [OF ok i(1)] i(2) by blast
  fix m j assume m: "tp_mutexes (work_release i duty s) m = Some (Worker j)"
  then have other: "jb_mutex (du_job duty) \<noteq> Some m" "tp_mutexes s m = Some (Worker j)" by (simp_all add: sel split: if_splits)
  then obtain e where e: "j < length (tp_workers s)" "tp_workers s ! j = Executing e" "du_lock e = Some m"
    using pool_invD(3) [OF ok] by blast
  then have "j \<noteq> i" using i(2) other(1) lock by auto
  then show "j < length (tp_workers (work_release i duty s)) \<and> (\<exists>e. tp_workers (work_release i duty s) ! j = Executing e \<and> du_lock e = Some m)"
    using e by (simp add: sel)
next
  note sel = release_finish_sel(1-6) [OF i(1), of duty]
  fix j e m assume j: "\<not> tp_undefined (work_release i duty s)" "j < length (tp_workers (work_release i duty s))"
    "tp_workers (work_release i duty s) ! j = Executing e" "du_lock e = Some m"
  then have "j \<noteq> i" by (auto simp: sel)
  then have "tp_mutexes s m = Some (Worker j)" using pool_invD(4) [OF ok, of j e m] j by (simp add: sel)
  then show "tp_mutexes (work_release i duty s) m = Some (Worker j)" using j(1) \<open>j \<noteq> i\<close> by (auto simp: sel)
qed

lemma finishing_holds_nothing: "pool_inv s \<Longrightarrow> tp_workers s ! i = Finishing duty \<Longrightarrow> tp_mutexes s m \<noteq> Some (Worker i)"
  using pool_invD(3) [of s m i] by auto

lemma work_finish_inv:
  assumes ok: "pool_inv s" and i: "i < length (tp_workers s)" "tp_workers s ! i = Finishing duty"
  shows "pool_inv (work_finish i duty s)"
proof (cases "du_lock duty")
  case None
  show ?thesis by (rule pool_inv_idle [OF ok i(1), where w = Idle]) (use i(2) None in \<open>simp_all add: work_finish_def Let_def\<close>)
next
  case (Some k)
  note sel = release_finish_sel(7-12) [OF i(1), of duty]
  have undefined: "tp_undefined (work_finish i duty s)" using finishing_holds_nothing [OF ok i(2)] Some by (simp add: sel)
  show ?thesis
  proof (rule pool_invI)
    show "length (tp_pending (work_finish i duty s)) \<le> unat (tp_maxJobs (work_finish i duty s))"
      using pool_invD(1) [OF ok] by (simp add: sel)
    fix j e assume "j < length (tp_workers (work_finish i duty s))"
      "tp_workers (work_finish i duty s) ! j = Executing e \<or> tp_workers (work_finish i duty s) ! j = Finishing e"
    then show "du_lock e = jb_mutex (du_job e)" using pool_invD(2) [OF ok, of j e] by (auto simp: sel split: if_splits)
  next
    fix m j assume "tp_mutexes (work_finish i duty s) m = Some (Worker j)"
    then have "tp_mutexes s m = Some (Worker j)" by (simp add: sel split: if_splits)
    then obtain e where e: "j < length (tp_workers s)" "tp_workers s ! j = Executing e" "du_lock e = Some m"
      using pool_invD(3) [OF ok] by blast
    then have "j \<noteq> i" using i(2) by auto
    then show "j < length (tp_workers (work_finish i duty s)) \<and> (\<exists>e. tp_workers (work_finish i duty s) ! j = Executing e \<and> du_lock e = Some m)"
      using e by (simp add: sel)
  qed (use undefined in blast)
qed

text \<open>A thread of the device logic locks a free mutex, or unlocks one that it holds.\<close>

lemma other_thread_inv:
  assumes ok: "pool_inv s" and "\<And>j. tp_mutexes s m \<noteq> Some (Worker j)" and "\<And>j. h \<noteq> Some (Worker j)"
    and t: "tp_workers t = tp_workers s" "tp_mutexes t = (tp_mutexes s)(m := h)" "tp_pending t = tp_pending s"
      "tp_maxJobs t = tp_maxJobs s" "tp_undefined s \<longrightarrow> tp_undefined t"
  shows "pool_inv t"
proof (rule pool_invI)
  show "length (tp_pending t) \<le> unat (tp_maxJobs t)" using pool_invD(1) [OF ok] by (simp add: t)
  fix j e assume "j < length (tp_workers t)" "tp_workers t ! j = Executing e \<or> tp_workers t ! j = Finishing e"
  then show "du_lock e = jb_mutex (du_job e)" using pool_invD(2) [OF ok, of j e] by (simp add: t)
next
  fix k j assume "tp_mutexes t k = Some (Worker j)"
  then have "tp_mutexes s k = Some (Worker j)" using assms(3) by (auto simp: t split: if_splits)
  then show "j < length (tp_workers t) \<and> (\<exists>e. tp_workers t ! j = Executing e \<and> du_lock e = Some k)"
    using pool_invD(3) [OF ok] by (simp add: t)
next
  fix j e k assume "\<not> tp_undefined t" "j < length (tp_workers t)" "tp_workers t ! j = Executing e" "du_lock e = Some k"
  then have "tp_mutexes s k = Some (Worker j)" using pool_invD(4) [OF ok, of j e k] t(5) by (auto simp: t(1))
  then show "tp_mutexes t k = Some (Worker j)" using assms(2) by (auto simp: t)
qed

lemma pool_inv_same:
  assumes "pool_inv s" and "tp_workers t = tp_workers s" "tp_mutexes t = tp_mutexes s" "tp_maxJobs t = tp_maxJobs s"
    "tp_undefined t = tp_undefined s" "length (tp_pending t) \<le> unat (tp_maxJobs s)"
  shows "pool_inv t"
  using assms(1) unfolding pool_inv_def assms(2-5) using assms(6) by blast

lemma new_pool_inv: "new_pool ready maxThreads maxJobs = Inr s \<Longrightarrow> pool_inv s"
  by (auto simp: new_pool_def pool_inv_def split: if_splits)

lemma pool_step_inv: "pool_inv s \<Longrightarrow> pool_step s e t \<Longrightarrow> pool_inv t"
proof (erule pool_step.cases, goal_cases)
  case (1 job s' t' status)
  then show ?case by (intro pool_inv_same [OF 1(1)]) (auto simp: addJob_def pool_invD(1) split: if_splits)
next
  case (2 s')
  then show ?case by (intro pool_inv_same [OF 2(1)]) (simp_all add: count_accepted_def pool_invD(1))
next
  case (3 i s')
  then show ?case using work_take_inv by blast
next
  case (4 i s' duty)
  then show ?case using work_release_inv by blast
next
  case (5 i s' duty)
  then show ?case using work_finish_inv by blast
next
  case (6 s' m k)
  then show ?case by (intro other_thread_inv [OF 6(1), of m "Some (OtherThread k)"]) simp_all
next
  case (7 s' m k)
  then show ?case by (intro other_thread_inv [OF 7(1), of m None]) simp_all
next
  case (8 s')
  then show ?case by (intro pool_inv_same [OF 8(1)]) (simp_all add: stop_workers_def pool_invD(1))
next
  case (9 s')
  then show ?case by (intro pool_inv_same [OF 9(1)]) (simp_all add: remove_unfinished_def)
qed

interpretation pool: inductive_invariant pool_step "\<lambda>s. new_pool ready maxThreads maxJobs = Inr s" pool_inv for ready maxThreads maxJobs
  by unfold_locales (erule new_pool_inv, erule (1) pool_step_inv)

lemma jobs_conserved_start: "new_pool ready maxThreads maxJobs = Inr s \<Longrightarrow> held_jobs s = {#}"
proof -
  have "executing (replicate n Idle) = {#}" for n
    by (induction n) (simp_all add: executing_def worker_jobs_def)
  then show "new_pool ready maxThreads maxJobs = Inr s \<Longrightarrow> held_jobs s = {#}"
    by (auto simp: new_pool_def held_jobs_def split: if_splits)
qed

section \<open>Properties\<close>

text \<open>
  C34: In every run of a new pool the list stays within its limit, and the accepted jobs are exactly
  those pending, those that a worker executes, those executed and those that the destructor removed:
  no job is lost and none is executed twice.
\<close>

theorem jobs_conserved:
  assumes "new_pool ready maxThreads maxJobs = Inr s" and "run pool_step s es t"
  shows "length (tp_pending t) \<le> unat (tp_maxJobs t)
    \<and> \<Sum>\<^sub># (mset (map accepted_of es))
      = mset (tp_pending t) + executing (tp_workers t) + \<Sum>\<^sub># (mset (map executed_of es)) + mset (tp_unfinished t)"
proof -
  have "held_jobs s = {#}" by (rule jobs_conserved_start [OF assms(1)])
  then show ?thesis using run_conserves [OF assms(2)] pool_invD(1) [OF pool.reachable_inv [OF assms]]
    by (simp add: held_jobs_def ac_simps)
qed

definition sample_job :: pool_job where "sample_job = \<lparr>jb_description = ''job'', jb_mutex = Some 7, jb_work = 0\<rparr>"

definition sample_pool :: thread_pool where
  "sample_pool = \<lparr>tp_quit = False, tp_workers = [Idle, Idle], tp_pending = [], tp_maxJobs = 10, tp_accepted = 0,
     tp_finished = 0, tp_counting = 0, tp_unfinished = [], tp_mutexes = \<lambda>_. None, tp_undefined = False\<rparr>"

lemma sample_pool: "new_pool True 2 10 = Inr sample_pool"
proof -
  have "replicate 2 Idle = [Idle, Idle]" by (simp add: numeral_2_eq_2)
  then show ?thesis by (simp add: new_pool_def sample_pool_def)
qed

lemma adds_run:
  assumes "length jobs \<le> 10"
  shows "run pool_step sample_pool (map (\<lambda>job. JobAdded job 0) jobs)
    (sample_pool\<lparr>tp_pending := jobs, tp_counting := length jobs\<rparr>)"
  using assms
proof (induction jobs rule: rev_induct)
  case Nil
  have "sample_pool\<lparr>tp_pending := [], tp_counting := 0\<rparr> = sample_pool" by (simp add: sample_pool_def)
  then show ?case by (auto intro: run_Nil)
next
  case (snoc job jobs)
  let ?s = "sample_pool\<lparr>tp_pending := jobs, tp_counting := length jobs\<rparr>"
  have "addJob job ?s = (sample_pool\<lparr>tp_pending := jobs @ [job], tp_counting := Suc (length jobs)\<rparr>, 0)"
    using snoc.prems by (simp add: addJob_def sample_pool_def)
  from run_step [OF snoc.IH pool_step.added [OF this]] show ?case using snoc.prems by simp
qed

theorem jobs_conserved_witness:
  "\<exists>t. run pool_step sample_pool [JobAdded sample_job 0] t
    \<and> {# sample_job #} = mset (tp_pending t) + executing (tp_workers t) + mset (tp_unfinished t)"
proof -
  have run: "run pool_step sample_pool [JobAdded sample_job 0] (sample_pool\<lparr>tp_pending := [sample_job], tp_counting := 1\<rparr>)"
    using adds_run [of "[sample_job]"] by simp
  then show ?thesis using jobs_conserved [OF sample_pool run] by (auto simp: accepted_of_def executed_of_def)
qed

text \<open>
  C35: Of the jobs of one mutex at most one is executed at a time as long as no thread has unlocked a
  mutex that it does not hold; but every worker that finishes a job with a mutex does so.
\<close>

theorem exclusion_until_finished:
  assumes "new_pool ready maxThreads maxJobs = Inr s" and "run pool_step s es t"
    and "i < length (tp_workers t)" and "tp_workers t ! i = Executing duty" and "jb_mutex (du_job duty) = Some m"
  shows "(\<forall>j other. \<not> tp_undefined t \<longrightarrow> j < length (tp_workers t) \<longrightarrow> tp_workers t ! j = Executing other
      \<longrightarrow> jb_mutex (du_job other) = Some m \<longrightarrow> j = i)
    \<and> tp_undefined (work_finish i duty (work_release i duty t))"
proof -
  have ok: "pool_inv t" by (rule pool.reachable_inv [OF assms(1,2)])
  have lock: "du_lock duty = Some m" using pool_invD(2) [OF ok assms(3)] assms(4,5) by simp
  have "j = i" if "\<not> tp_undefined t" "j < length (tp_workers t)" "tp_workers t ! j = Executing other" "jb_mutex (du_job other) = Some m"
    for j other
  proof -
    have "du_lock other = Some m" using pool_invD(2) [OF ok that(2)] that(3,4) by simp
    then have "tp_mutexes t m = Some (Worker j)" using pool_invD(4) [OF ok that(1-3)] by blast
    moreover have "tp_mutexes t m = Some (Worker i)" using pool_invD(4) [OF ok that(1) assms(3,4) lock] .
    ultimately show ?thesis by simp
  qed
  moreover have "tp_undefined (work_finish i duty (work_release i duty t))"
    using assms(3,5) lock release_finish_sel(3,5,6) [OF assms(3), of duty] by (simp add: release_finish_sel(12))
  ultimately show ?thesis by blast
qed

definition looked_state :: thread_pool where
  "looked_state = sample_pool\<lparr>tp_counting := 1, tp_workers := [Executing \<lparr>du_job = sample_job, du_lock = Some 7\<rparr>, Idle],
     tp_mutexes := (\<lambda>_. None)(7 \<mapsto> Worker 0)\<rparr>"

lemma looked_run: "run pool_step sample_pool [JobAdded sample_job 0, WorkerLooked 0] looked_state"
proof -
  let ?s = "sample_pool\<lparr>tp_pending := [sample_job], tp_counting := 1\<rparr>"
  have "work_take 0 ?s = looked_state" by (simp add: work_take_def sample_pool_def sample_job_def looked_state_def)
  then have "pool_step ?s (WorkerLooked 0) looked_state" using pool_step.looked [of 0 ?s] by (simp add: sample_pool_def)
  then show ?thesis using run_step [OF adds_run [of "[sample_job]"]] by simp
qed

theorem exclusion_until_finished_witness:
  "tp_undefined (work_finish 0 \<lparr>du_job = sample_job, du_lock = Some 7\<rparr> (work_release 0 \<lparr>du_job = sample_job, du_lock = Some 7\<rparr> looked_state))"
  using exclusion_until_finished [OF sample_pool looked_run, of 0 "\<lparr>du_job = sample_job, du_lock = Some 7\<rparr>" 7]
  by (simp add: looked_state_def sample_job_def)

text \<open>The states of the run below: the workers, the pending jobs, the holder of the mutex of the job.\<close>

definition sample_state :: "worker list \<Rightarrow> nat \<Rightarrow> thread option \<Rightarrow> bool \<Rightarrow> 64 word \<Rightarrow> thread_pool" where
  "sample_state ws n h ub finished = sample_pool\<lparr>tp_counting := 3, tp_workers := ws, tp_pending := replicate n sample_job,
     tp_mutexes := (\<lambda>_. None)(7 := h), tp_undefined := ub, tp_finished := finished\<rparr>"

abbreviation sample_duty :: duty where "sample_duty \<equiv> \<lparr>du_job = sample_job, du_lock = Some 7\<rparr>"

lemma sample_state_sel:
  "tp_workers (sample_state ws n h ub finished) = ws" "tp_pending (sample_state ws n h ub finished) = replicate n sample_job"
  "tp_mutexes (sample_state ws n h ub finished) = (\<lambda>_. None)(7 := h)"
  "\<not> tp_quit (sample_state ws n h ub finished)" "jb_mutex sample_job = Some 7"
  by (simp_all add: sample_state_def sample_pool_def sample_job_def)

lemma sample_steps:
  "i < length ws \<Longrightarrow> work_take i (sample_state ws (Suc n) None u f) = sample_state (ws[i := Executing sample_duty]) n (Some (Worker i)) u f"
  "work_release i sample_duty (sample_state ws n h u f) = sample_state (ws[i := Finishing sample_duty]) n None (u \<or> h \<noteq> Some (Worker i)) f"
  "work_finish i sample_duty (sample_state ws n h u f) = sample_state (ws[i := Idle]) n None (u \<or> h \<noteq> Some (Worker i)) (f + 1)"
  by (simp_all add: work_take_def work_release_def work_finish_def sample_state_sel unlock_def Let_def)
    (simp_all add: sample_state_def)

definition sample_reached :: "thread_pool \<Rightarrow> bool" where
  "sample_reached t \<longleftrightarrow> (\<exists>es. run pool_step sample_pool es t)"

lemma sample_reachedI: "sample_reached s \<Longrightarrow> pool_step s e t \<Longrightarrow> sample_reached t"
  using run_step [of pool_step sample_pool _ s e t] by (auto simp: sample_reached_def)

text \<open>
  So a worker that destroys its \<open>Duty\<close> frees the mutex of a job that another worker executes,
  and two workers execute jobs of one mutex at the same time.
\<close>

lemma exclusion_broken:
  "new_pool True 2 10 = Inr sample_pool \<and> (\<exists>es t d e. run pool_step sample_pool es t \<and> length (tp_workers t) = 2
    \<and> tp_workers t ! 0 = Executing d \<and> tp_workers t ! 1 = Executing e
    \<and> jb_mutex (du_job d) = Some 7 \<and> jb_mutex (du_job e) = Some 7)"
proof -
  let ?d = sample_duty
  have "sample_pool\<lparr>tp_pending := replicate 3 sample_job, tp_counting := 3\<rparr> = sample_state [Idle, Idle] 3 None False 0"
    by (simp add: sample_state_def sample_pool_def)
  then have "sample_reached (sample_state [Idle, Idle] 3 None False 0)"
    using adds_run [of "replicate 3 sample_job"] by (auto simp: sample_reached_def)
  from sample_reachedI [OF this pool_step.looked [of 0]]
  have "sample_reached (sample_state [Executing ?d, Idle] 2 (Some (Worker 0)) False 0)"
    using sample_steps(1) [of 0 "[Idle, Idle]" 2] by (simp add: sample_state_sel)
  from sample_reachedI [OF this pool_step.executed [of 0 _ ?d]]
  have "sample_reached (sample_state [Finishing ?d, Idle] 2 None False 0)" by (simp add: sample_state_sel sample_steps)
  from sample_reachedI [OF this pool_step.looked [of 1]]
  have "sample_reached (sample_state [Finishing ?d, Executing ?d] 1 (Some (Worker 1)) False 0)"
    using sample_steps(1) [of 1 "[Finishing ?d, Idle]" 1] by (simp add: sample_state_sel numeral_2_eq_2)
  from sample_reachedI [OF this pool_step.destroyed [of 0 _ ?d]]
  have "sample_reached (sample_state [Idle, Executing ?d] 1 None True 1)" by (simp add: sample_state_sel sample_steps)
  from sample_reachedI [OF this pool_step.looked [of 0]]
  have "sample_reached (sample_state [Executing ?d, Executing ?d] 0 (Some (Worker 0)) True 1)"
    using sample_steps(1) [of 0 "[Idle, Executing ?d]" 0] by (simp add: sample_state_sel)
  then obtain es where "run pool_step sample_pool es (sample_state [Executing ?d, Executing ?d] 0 (Some (Worker 0)) True 1)"
    by (auto simp: sample_reached_def)
  then have "\<exists>es t d e. run pool_step sample_pool es t \<and> length (tp_workers t) = 2
    \<and> tp_workers t ! 0 = Executing d \<and> tp_workers t ! 1 = Executing e
    \<and> jb_mutex (du_job d) = Some 7 \<and> jb_mutex (du_job e) = Some 7"
    by (intro exI [of _ es] exI [of _ "sample_state [Executing ?d, Executing ?d] 0 (Some (Worker 0)) True 1"] exI [of _ ?d])
      (simp add: sample_state_sel)
  then show ?thesis using sample_pool by blast
qed

end
