(* ===== verification/FreeVariables.thy ===== *)
theory FreeVariables
  imports CalcOperations Decimal
begin

text \<open>
  The free variables, AddressSpace/src/FreeVariablesEngine.cpp: variables declared in the
  configuration file with a type, a literal for the first value and an access level. The integer
  literals are read with \<open>std::stol\<close> and \<open>std::stoul\<close>, with \<open>long\<close> of 64 bits; the conversions of
  the floating-point literals are parameters, as they are of the code's function.
\<close>

section \<open>Integer literals\<close>

text \<open>\<open>strtol\<close> and \<open>strtoul\<close>, base 10: the sign, the magnitude, and how much of the text they take.\<close>

definition is_space :: "char \<Rightarrow> bool" where
  "is_space c \<longleftrightarrow> (let n = of_char c :: nat in n = 32 \<or> 9 \<le> n \<and> n \<le> 13)"

definition integer_prefix :: "string \<Rightarrow> (bool \<times> nat \<times> nat) option" where
  "integer_prefix str =
     (let rest = dropWhile is_space str;
          negative = (rest \<noteq> [] \<and> hd rest = CHR ''-'');
          unsigned = (if rest \<noteq> [] \<and> (hd rest = CHR ''-'' \<or> hd rest = CHR ''+'') then tl rest else rest);
          digits = takeWhile is_digit unsigned
      in if digits = [] then None
         else Some (negative, decimal_value digits, length str - length (dropWhile is_digit unsigned)))"

definition stoul :: "string \<Rightarrow> (64 word \<times> nat) result" where
  "stoul str = (case integer_prefix str of
       None \<Rightarrow> Inl ''stoul''
     | Some (negative, n, pos) \<Rightarrow>
         if 2 ^ 64 \<le> n then Inl ''stoul''
         else Inr (if negative then - word_of_nat n else word_of_nat n, pos))"

definition stol :: "string \<Rightarrow> (64 word \<times> nat) result" where
  "stol str = (case integer_prefix str of
       None \<Rightarrow> Inl ''stol''
     | Some (negative, n, pos) \<Rightarrow>
         let v = (if negative then - int n else int n) in
         if v < - (2 ^ 63) \<or> 2 ^ 63 \<le> v then Inl ''stol'' else Inr (word_of_int v, pos))"

section \<open>Conversions\<close>

text \<open>
  \<open>veryIntelligentWrapperOfConversionFunctionWithRangeCheck\<close>, for the unsigned types and for the
  signed types, and the version without a range check.
\<close>

definition garbage :: "(nat \<Rightarrow> string) \<Rightarrow> nat \<Rightarrow> string \<Rightarrow> string" where
  "garbage origin line str = ''At '' @ origin line @ '' didn't manage to convert full literal '' @ quoted str
     @ '' into a number of chosen type, garbage somewhere?''"

definition out_of_range :: "(nat \<Rightarrow> string) \<Rightarrow> string \<Rightarrow> int \<Rightarrow> int \<Rightarrow> string" where
  "out_of_range origin str lo hi = ''At '' @ origin 94 @ '' value '' @ quoted str @ '' out of allowed range ''
     @ quoted (int_to_string lo @ '','' @ int_to_string hi)"

definition range_checked_unsigned :: "(nat \<Rightarrow> string) \<Rightarrow> string \<Rightarrow> 'w::len word result" where
  "range_checked_unsigned origin str = res_bind (stoul str) (\<lambda>(v, pos).
     let hi = 2 ^ LENGTH('w) - 1 in
     if pos \<noteq> length str then Inl (garbage origin 92 str)
     else if hi < int (unat v) then Inl (out_of_range origin str 0 hi)
     else Inr (ucast v))"

definition range_checked_signed :: "(nat \<Rightarrow> string) \<Rightarrow> string \<Rightarrow> 'w::len word result" where
  "range_checked_signed origin str = res_bind (stol str) (\<lambda>(v, pos).
     let lo = - (2 ^ (LENGTH('w) - 1)); hi = 2 ^ (LENGTH('w) - 1) - 1 in
     if pos \<noteq> length str then Inl (garbage origin 92 str)
     else if sint v < lo \<or> hi < sint v then Inl (out_of_range origin str lo hi)
     else Inr (scast v))"

definition fully_converted :: "(nat \<Rightarrow> string) \<Rightarrow> (string \<Rightarrow> ('f \<times> nat) result) \<Rightarrow> string \<Rightarrow> 'f result" where
  "fully_converted origin conv str = res_bind (conv str) (\<lambda>(v, pos).
     if pos \<noteq> length str then Inl (garbage origin 68 str) else Inr v)"

definition initialize_numeric :: "(string \<Rightarrow> 'n result) \<Rightarrow> 'n \<Rightarrow> ('n \<Rightarrow> 'v) \<Rightarrow> string option \<Rightarrow> 'v result" where
  "initialize_numeric conv zero setter initialValue = (case initialValue of
       None \<Rightarrow> Inr (setter zero)
     | Some str \<Rightarrow> res_bind (conv str) (\<lambda>v. Inr (setter v)))"

section \<open>Instantiation\<close>

datatype access_level = AccessRead | AccessReadWrite | AccessWrite

record free_config =
  ff_name :: string
  ff_type :: string
  ff_initialValue :: "string option"
  ff_accessLevel :: access_level

text \<open>The members that only this component uses: a signed byte of the toolkit and the two conversions.\<close>

record 'v free_ops =
  fr_setSByte :: "'v \<Rightarrow> byte \<Rightarrow> 'v"
  fr_stod :: "string \<Rightarrow> (f64 \<times> nat) result"
  fr_stof :: "string \<Rightarrow> (f32 \<times> nat) result"

definition g_freeVariableTypeToBuiltInType :: "(string \<times> ua_type) list" where
  "g_freeVariableTypeToBuiltInType =
     [(''Boolean'', OpcUaType_Boolean), (''Byte'', OpcUaType_Byte), (''SByte'', OpcUaType_SByte), (''UInt16'', OpcUaType_UInt16),
      (''Int16'', OpcUaType_Int16), (''UInt32'', OpcUaType_UInt32), (''Int32'', OpcUaType_Int32), (''UInt64'', OpcUaType_UInt64),
      (''Int64'', OpcUaType_Int64), (''Double'', OpcUaType_Double), (''Float'', OpcUaType_Float), (''String'', OpcUaType_String)]"

definition freeVariableTypeToBuiltInType :: "(nat \<Rightarrow> string) \<Rightarrow> string \<Rightarrow> ua_type result" where
  "freeVariableTypeToBuiltInType origin type = (case map_of g_freeVariableTypeToBuiltInType type of
       Some t \<Rightarrow> Inr t
     | None \<Rightarrow> Inl (''At '' @ origin 58 @ '' FreeVariable requested type is not supported: '' @ quoted type))"

definition boolean_value :: "('v, 's, 'b) ua_sdk \<Rightarrow> node_ops \<Rightarrow> node_id \<Rightarrow> free_config \<Rightarrow> 'v result" where
  "boolean_value sdk ops parent config = (let set = ua_set (ua_bool sdk) (ua_empty_variant sdk) in
     case ff_initialValue config of
       None \<Rightarrow> Inr (set 0)
     | Some str \<Rightarrow>
         if str \<noteq> ''true'' \<and> str \<noteq> ''false''
         then Inl (''At '' @ no_origin ops 155 @ '' While instantiating FreeVariable '' @ quoted (ff_name config) @ '' under ''
           @ [CHR 0x27] @ no_idText ops parent @ '' boolean literal is wrong '' @ quoted str
           @ ''. Allowed values are 'true' or 'false'.'')
         else Inr (set (if str = ''true'' then 1 else 0)))"

text \<open>The value of a type, from its literal or the default; the order of the types is the code's.\<close>

definition free_value :: "('v, 's, 'b) ua_sdk \<Rightarrow> 'v free_ops \<Rightarrow> node_ops \<Rightarrow> node_id \<Rightarrow> free_config \<Rightarrow> 'v result" where
  "free_value sdk fr ops parent config =
     (let type = ff_type config; literal = ff_initialValue config; origin = no_origin ops; empty = ua_empty_variant sdk in
      if type = ''Boolean'' then boolean_value sdk ops parent config
      else if type = ''Byte'' then initialize_numeric (range_checked_unsigned origin) 0 (ua_set (ua_byte sdk) empty) literal
      else if type = ''SByte'' then initialize_numeric (range_checked_signed origin) 0 (fr_setSByte fr empty) literal
      else if type = ''UInt16'' then initialize_numeric (range_checked_unsigned origin) 0 (ua_set (ua_uint16 sdk) empty) literal
      else if type = ''Int16'' then initialize_numeric (range_checked_signed origin) 0 (ua_set (ua_int16 sdk) empty) literal
      else if type = ''UInt32'' then initialize_numeric (range_checked_unsigned origin) 0 (ua_set (ua_uint32 sdk) empty) literal
      else if type = ''Int32'' then initialize_numeric (range_checked_signed origin) 0 (ua_set (ua_int32 sdk) empty) literal
      else if type = ''UInt64'' then initialize_numeric (range_checked_unsigned origin) 0 (ua_set (ua_uint64 sdk) empty) literal
      else if type = ''Int64'' then initialize_numeric (range_checked_signed origin) 0 (ua_set (ua_int64 sdk) empty) literal
      else if type = ''Double'' then initialize_numeric (fully_converted origin (fr_stod fr)) 0 (ua_set (ua_double sdk) empty) literal
      else if type = ''Float'' then initialize_numeric (fully_converted origin (fr_stof fr)) 0 (ua_set (ua_float sdk) empty) literal
      else if type = ''String''
        then Inr (ua_set_string sdk empty (ua_string_of sdk (case literal of Some str \<Rightarrow> c_str str | None \<Rightarrow> [])))
      else Inl (''At '' @ origin 189 @ '' Free variable: given type seems invalid: '' @ quoted type))"

definition feeds_formulas :: "string \<Rightarrow> bool" where
  "feeds_formulas type \<longleftrightarrow> type \<in> {''Byte'', ''SByte'', ''UInt16'', ''Int16'', ''UInt32'', ''Int32'', ''UInt64'', ''Int64'', ''Float'', ''Double''}"

record free_variable =
  fv_variable :: nat
  fv_dataType :: ua_type
  fv_accessLevel :: access_level

definition add_free_node :: "node_ops \<Rightarrow> node_id \<Rightarrow> node_id \<Rightarrow> string \<Rightarrow> ('v calculation, unit) action" where
  "add_free_node ops parent nodeId name s =
     (let n = \<lparr>an_parent = parent, an_id = nodeId, an_kind = VariableNode, an_reference = Organizes\<rparr> in
      case no_badStatus ops (ca_nodes s) n of
        Some status \<Rightarrow> (s, Inl (''At '' @ no_origin ops 210 @ '' When adding the free variable '' @ quoted name
          @ '' to the address space: '' @ status))
      | None \<Rightarrow> (s\<lparr>ca_nodes := ca_nodes s @ [n]\<rparr>, Inr ()))"

definition register_free :: "node_ops \<Rightarrow> string \<Rightarrow> nat \<Rightarrow> ('v calculation, unit) motion" where
  "register_free ops type v =
     (if feeds_formulas type
      then mo_bind (registerVariableForCalculatedVariables (no_idText ops) v) (\<lambda>_. mo_action (act_return ()))
      else mo_action (act_return ()))"

definition instantiateFreeVariable :: "('v, 's, 'b) ua_sdk \<Rightarrow> 'v free_ops \<Rightarrow> mu_ops \<Rightarrow> (nat \<Rightarrow> 'v data_value \<Rightarrow> bool) \<Rightarrow> node_ops
    \<Rightarrow> node_id \<Rightarrow> free_config \<Rightarrow> ('v calculation, free_variable) motion" where
  "instantiateFreeVariable sdk fr mu good ops parent config =
     mo_bind (mo_value (Some (makeChildNodeId (no_namespace ops) parent (ff_name config)))) (\<lambda>nodeId.
     mo_bind (mo_action (\<lambda>s. case new_variable nodeId \<lparr>dv_value = Some (ua_empty_variant sdk), dv_statusCode = OpcUa_Good\<rparr> None s of
         (s', v) \<Rightarrow> (s', Inr v))) (\<lambda>v.
     mo_bind (mo_value (Some (freeVariableTypeToBuiltInType (no_origin ops) (ff_type config)))) (\<lambda>dataType.
     mo_bind (mo_value (Some (free_value sdk fr ops parent config))) (\<lambda>initialValue.
     mo_bind (register_free ops (ff_type config) v) (\<lambda>_.
     mo_bind (mo_state (setValue sdk mu good v \<lparr>dv_value = Some initialValue, dv_statusCode = OpcUa_Good\<rparr>)) (\<lambda>_.
     mo_bind (mo_action (add_free_node ops parent nodeId (ff_name config))) (\<lambda>_.
     mo_action (act_return \<lparr>fv_variable = v, fv_dataType = dataType, fv_accessLevel = ff_accessLevel config\<rparr>))))))))"

section \<open>What the literals mean\<close>

lemma digits_not_space: "is_digit c \<Longrightarrow> \<not> is_space c \<and> c \<noteq> CHR ''-'' \<and> c \<noteq> CHR ''+''"
  by (auto simp: is_digit_def is_space_def)

lemma all_digits: "takeWhile is_digit (nat_to_string n) = nat_to_string n" "dropWhile is_digit (nat_to_string n) = []"
  using nat_to_string_digits by (simp_all add: takeWhile_eq_all_conv dropWhile_eq_Nil_conv)

lemma integer_prefix_int: "integer_prefix (int_to_string i) = Some (i < 0, nat \<bar>i\<bar>, length (int_to_string i))"
proof -
  obtain c cs where c: "nat_to_string (nat \<bar>i\<bar>) = c # cs" using nat_to_string_not_Nil by (cases "nat_to_string (nat \<bar>i\<bar>)") auto
  then have "is_digit c" using nat_to_string_digits [of c "nat \<bar>i\<bar>"] by simp
  note c' = digits_not_space [OF this]
  have space: "\<not> is_space (CHR ''-'')" by (simp add: is_space_def)
  show ?thesis
  proof (cases "i < 0")
    case True
    then have "int_to_string i = CHR ''-'' # nat_to_string (nat \<bar>i\<bar>)" by (simp add: int_to_string_def)
    then show ?thesis using True space by (simp add: integer_prefix_def Let_def all_digits)
  next
    case False
    then have "int_to_string i = nat_to_string (nat \<bar>i\<bar>)" by (simp add: int_to_string_def)
    moreover have "dropWhile is_space (nat_to_string (nat \<bar>i\<bar>)) = nat_to_string (nat \<bar>i\<bar>)" using c c' by simp
    moreover have "hd (nat_to_string (nat \<bar>i\<bar>)) \<noteq> CHR ''-''" "hd (nat_to_string (nat \<bar>i\<bar>)) \<noteq> CHR ''+''" using c c' by simp_all
    ultimately show ?thesis using False by (simp add: integer_prefix_def Let_def all_digits)
  qed
qed

lemma stol_int:
  "stol (int_to_string i) = (if - (2 ^ 63) \<le> i \<and> i < 2 ^ 63 then Inr (word_of_int i, length (int_to_string i)) else Inl ''stol'')"
  by (auto simp: stol_def integer_prefix_int Let_def)

lemma stoul_int:
  "stoul (int_to_string i) = (if - (2 ^ 64) < i \<and> i < 2 ^ 64 then Inr (word_of_int i, length (int_to_string i)) else Inl ''stoul'')"
proof -
  have "(if i < 0 then - word_of_nat (nat \<bar>i\<bar>) else word_of_nat (nat \<bar>i\<bar>)) = (word_of_int i :: 64 word)"
    by (simp add: of_nat_nat)
  moreover have "2 ^ 64 \<le> nat \<bar>i\<bar> \<longleftrightarrow> \<not> (- (2 ^ 64) < i \<and> i < 2 ^ 64)" by (auto simp: abs_if)
  ultimately show ?thesis by (simp add: stoul_def integer_prefix_int)
qed

lemma signed_literal:
  assumes "LENGTH('w::len) \<le> 64"
  shows "range_checked_signed origin (int_to_string i) = Inr (x :: 'w word) \<longleftrightarrow> sint x = i"
proof -
  have pow: "(2 :: int) ^ (LENGTH('w) - 1) \<le> 2 ^ 63" using assms by (intro power_increasing) auto
  have bounds: "- (2 ^ (LENGTH('w) - 1)) \<le> sint x" "sint x < 2 ^ (LENGTH('w) - 1)"
    using sint_ge [of x] sint_lt [of x] by simp_all
  show ?thesis
  proof (cases "- (2 ^ (LENGTH('w) - 1)) \<le> i \<and> i < 2 ^ (LENGTH('w) - 1)")
    case True
    then have long: "- (2 ^ 63) \<le> i" "i < 2 ^ 63" using pow by linarith+
    have v: "sint (word_of_int i :: 64 word) = i" using long by (simp add: signed_of_int signed_take_bit_int_eq_self)
    then have "range_checked_signed origin (int_to_string i) = Inr (scast (word_of_int i :: 64 word) :: 'w word)"
      using True long by (simp add: range_checked_signed_def stol_int Let_def)
    moreover have "scast (word_of_int i :: 64 word) = (word_of_int i :: 'w word)" using v by (simp add: scast_eq)
    moreover have "sint (word_of_int i :: 'w word) = i" using True by (simp add: signed_of_int signed_take_bit_int_eq_self)
    ultimately show ?thesis by (metis sum.inject(2) signed_word_eqI)
  next
    case False
    then have "sint x \<noteq> i" using bounds by auto
    moreover have "\<exists>e. range_checked_signed origin (int_to_string i) = (Inl e :: 'w word result)"
    proof (cases "- (2 ^ 63) \<le> i \<and> i < 2 ^ 63")
      case True
      then have "sint (word_of_int i :: 64 word) = i" by (simp add: signed_of_int signed_take_bit_int_eq_self)
      then show ?thesis using True False by (auto simp: range_checked_signed_def stol_int Let_def)
    next
      case False
      then have "stol (int_to_string i) = Inl ''stol''" unfolding stol_int by simp
      then show ?thesis by (simp add: range_checked_signed_def)
    qed
    ultimately show ?thesis by auto
  qed
qed

lemma unsigned_literal:
  assumes "LENGTH('w::len) \<le> 64"
  shows "range_checked_unsigned origin (int_to_string i) = Inr (x :: 'w word) \<longleftrightarrow>
    uint x = i \<or> i < 0 \<and> - (2 ^ 64) < i \<and> uint x = i + 2 ^ 64"
proof (cases "- (2 ^ 64) < i \<and> i < 2 ^ 64")
  case True
  define v :: "64 word" where "v = word_of_int i"
  have u: "uint v = (if 0 \<le> i then i else i + 2 ^ 64)"
  proof (cases "0 \<le> i")
    case False
    then have "(i + 2 ^ 64) mod 2 ^ 64 = i + 2 ^ 64" using True by (intro mod_pos_pos_trivial) auto
    then have "i mod 2 ^ 64 = i + 2 ^ 64" by (simp only: mod_add_self2)
    then show ?thesis using False by (simp add: v_def uint_word_of_int)
  qed (use True in \<open>simp add: v_def uint_word_of_int\<close>)
  have "range_checked_unsigned origin (int_to_string i) = Inr x \<longleftrightarrow> uint v \<le> 2 ^ LENGTH('w) - 1 \<and> ucast v = x"
    using True by (auto simp: range_checked_unsigned_def stoul_int Let_def v_def)
  also have "\<dots> \<longleftrightarrow> uint x = uint v"
  proof -
    have "uint (ucast v :: 'w word) = uint v" if "uint v \<le> 2 ^ LENGTH('w) - 1"
      using that by (simp add: unsigned_ucast_eq take_bit_int_eq_self)
    moreover have "uint x \<le> 2 ^ LENGTH('w) - 1" using uint_bounded [of x] by simp
    ultimately show ?thesis by (metis unsigned_word_eqI)
  qed
  also have "\<dots> \<longleftrightarrow> uint x = i \<or> i < 0 \<and> - (2 ^ 64) < i \<and> uint x = i + 2 ^ 64"
    using True u uint_nonnegative [of x] by auto
  finally show ?thesis .
next
  case False
  have "(2 :: int) ^ LENGTH('w) \<le> 2 ^ 64" using assms by (intro power_increasing) auto
  then have "uint x < 2 ^ 64" using uint_bounded [of x] by linarith
  then have "uint x \<noteq> i" using False uint_nonnegative [of x] by linarith
  moreover have "stoul (int_to_string i) = Inl ''stoul''" using False unfolding stoul_int by simp
  then have "range_checked_unsigned origin (int_to_string i) \<noteq> Inr x" by (simp add: range_checked_unsigned_def)
  ultimately show ?thesis using False by auto
qed



section \<open>Free variables beside calculated ones\<close>

text \<open>Instantiating a free variable, refused or not, keeps the graph of the calculated variables well-formed.\<close>

definition plain :: "nat \<Rightarrow> 'v calculation \<Rightarrow> bool" where
  "plain v s \<longleftrightarrow> calc_ok s \<and> v < ca_numVariables s \<and> formula_of s v = None"

lemma plain_ok: "plain v s \<Longrightarrow> calc_ok s"
  by (simp add: plain_def)

lemma plain_same: "same_graph t s \<Longrightarrow> plain v s \<Longrightarrow> plain v t"
  using same_graph_ok [of t s] by (simp add: plain_def same_graph_def)

lemma new_plain:
  assumes "calc_ok s" and "new_variable nodeId dv None s = (t, v)"
  shows "plain v t"
proof -
  have "calc_ok t \<and> v = ca_numVariables s \<and> ca_numVariables t = Suc v \<and> formula_of t v = None
      \<and> nv_changeListeners (ca_variables t v) = [] \<and> (\<forall>p < ca_numPvs t. variable_of t p < v)"
    by (rule new_variable_ok [OF assms]) simp_all
  then have "calc_ok t" "ca_numVariables t = Suc v" "formula_of t v = None" by blast+
  then show ?thesis by (simp add: plain_def)
qed

lemma register_plain:
  assumes "plain v s" and "registerVariableForCalculatedVariables idText v s = Some (t, r)"
  shows "plain v t"
proof -
  have s: "calc_ok s" "v < ca_numVariables s" "formula_of s v = None" using assms(1) by (simp_all add: plain_def)
  have "formula_of t v = formula_of s v" "ca_numVariables t = ca_numVariables s" using register_ok [OF s(1,2) assms(2)] by blast+
  then show ?thesis using register_plain_ok [OF s assms(2)] s by (simp add: plain_def)
qed

lemma register_free_runs: "runs_to (plain v) (register_free ops type v) (\<lambda>_. plain v) calc_ok"
proof (rule runs_toI)
  fix s t :: "'a calculation" and r :: "unit result"
  assume s: "plain v s" "register_free ops type v s = Some (t, r)"
  have "plain v t"
  proof (cases "feeds_formulas type")
    case True
    then obtain q where "registerVariableForCalculatedVariables (no_idText ops) v s = Some (t, q)"
      using s(2) by (auto simp: register_free_def mo_bind_def mo_action_def split: option.splits sum.splits)
    then show ?thesis by (rule register_plain [OF s(1)])
  next
    case False
    then show ?thesis using s by (simp add: register_free_def mo_action_def)
  qed
  then show "case r of Inl e \<Rightarrow> calc_ok t | Inr x \<Rightarrow> plain v t" by (simp add: plain_def split: sum.split)
qed

lemma add_free_node_plain:
  assumes "plain v s" and "add_free_node ops parent nodeId name s = (t, r)"
  shows "plain v t"
proof -
  have "same_graph t s" using assms(2) by (auto simp: add_free_node_def Let_def same_graph_def split: option.splits)
  then show ?thesis using assms(1) by (rule plain_same)
qed

lemma free_variable_runs:
  "runs_to calc_ok (instantiateFreeVariable sdk fr mu accepts_all ops parent config) (\<lambda>_. calc_ok) calc_ok"
  unfolding instantiateFreeVariable_def
proof (rule runs_to_bind [OF runs_to_value], assumption, rule runs_to_bind [where Q = plain], goal_cases)
  case (1 nodeId)
  show ?case
  proof (rule runs_toI)
    fix s t :: "'a calculation" and r :: "nat result"
    assume s: "calc_ok s" and "mo_action (\<lambda>s. case new_variable nodeId \<lparr>dv_value = Some (ua_empty_variant sdk), dv_statusCode = OpcUa_Good\<rparr> None s
      of (s', v) \<Rightarrow> (s', Inr v)) s = Some (t, r)"
    then obtain v where "new_variable nodeId \<lparr>dv_value = Some (ua_empty_variant sdk), dv_statusCode = OpcUa_Good\<rparr> None s = (t, v)" "r = Inr v"
      by (auto simp: mo_action_def split: prod.splits)
    then show "case r of Inl e \<Rightarrow> calc_ok t | Inr x \<Rightarrow> plain x t" using new_plain [OF s] by simp
  qed
next
  case (2 nodeId v)
  show ?case
  proof (rule runs_to_bind [OF runs_to_value runs_to_bind [OF runs_to_value runs_to_bind [OF register_free_runs]]], goal_cases)
    case (3 dataType initialValue u)
    show ?case
    proof (rule runs_to_bind [where Q = "\<lambda>_. plain v"], goal_cases)
      case 1
      show ?case
      proof (rule runs_to_state)
        fix s t assume s: "plain v s"
          and t: "setValue sdk mu accepts_all v \<lparr>dv_value = Some initialValue, dv_statusCode = OpcUa_Good\<rparr> s = Some t"
        have "same_graph t s" by (rule write_same_graph [OF TrueI _ _ t]) (use s in \<open>simp_all add: plain_def\<close>)
        then show "plain v t" using s by (rule plain_same)
      qed
    next
      case (2 w)
      show ?case
        by (rule runs_to_bind [OF runs_to_keeps [OF add_free_node_plain plain_ok]])
          (assumption | rule runs_to_return | erule plain_ok)+
    qed
  qed (erule plain_ok)+
qed

end
