(* ===== verification/SourceVariables.thy ===== *)
theory SourceVariables
  imports QuasarThreadPool FreeVariables
begin

text \<open>
  Source variables, AddressSpace/include/ASSourceVariable.h: variables that device logic reads and
  writes, at once or by a job of the thread pool, under a mutex or without one. A request carries a
  handle that is completed with the reply. The handles are numbered by the requests, and a job's
  function object has the number of its handle. Also here: the variables with a delegated write
  (ASDelegatingVariable.h, ASDelegatingMethod.h), the manager that starts the jobs on the other
  backend (ASSourceVariableIoManager), and the start of the pool (Meta/src/DSourceVariableThreadPool.cpp).
\<close>

definition OpcUa_BadInternalError :: "32 word" where "OpcUa_BadInternalError = 0x80020000"
definition OpcUa_BadOutOfService :: "32 word" where "OpcUa_BadOutOfService = 0x808D0000"
definition OpcUa_BadNotImplemented :: "32 word" where "OpcUa_BadNotImplemented = 0x80400000"
definition OpcUa_BadUserAccessDenied :: "32 word" where "OpcUa_BadUserAccessDenied = 0x801F0000"

definition status_good :: "32 word \<Rightarrow> bool" where
  "status_good status \<longleftrightarrow> status AND 0xC0000000 = 0"

section \<open>The variable\<close>

text \<open>
  Values of the toolkit and times are type parameters; the time at which the server answers is not
  modelled. A delegate of the device logic changes the world \<open>'w\<close> and gives a status, or throws
  (\<open>None\<close>); a read delegate has filled in the value and the time in both cases. A delegate for the
  mutex gives a mutex or a null pointer.
\<close>

record ('v, 't) reading =
  rd_variant :: 'v
  rd_status :: "32 word"
  rd_sourceTime :: 't

record ('w, 'v, 't) source_variable =
  sv_nodeText :: string
  sv_readFn :: "('w \<Rightarrow> 'w \<times> 'v \<times> 't \<times> 32 word option) option"
  sv_writeFn :: "('v \<Rightarrow> 'w \<Rightarrow> 'w \<times> 32 word option) option"
  sv_readMutexFn :: "nat option option"
  sv_writeMutexFn :: "nat option option"
  sv_readAsynchronous :: bool
  sv_writeAsynchronous :: bool
  sv_baseValue :: "'w \<Rightarrow> ('v, 't) reading"
  sv_baseSetValue :: "('v, 't) reading \<Rightarrow> bool \<Rightarrow> 'w \<Rightarrow> 'w \<times> 32 word"

text \<open>The synchronous access of the toolkit, in which an exception of a delegate is not caught.\<close>

definition value_source :: "('v \<Rightarrow> bool) \<Rightarrow> ('w, 'v, 't) source_variable \<Rightarrow> 'w \<Rightarrow> 'w \<times> ('v, 't) reading option" where
  "value_source is_empty sv w = (case sv_readFn sv of
       None \<Rightarrow> (w, Some (sv_baseValue sv w))
     | Some readFn \<Rightarrow> (case readFn w of
           (w, variant, sourceTime, None) \<Rightarrow> (w, None)
         | (w, variant, sourceTime, Some status) \<Rightarrow>
             if \<not> status_good status \<or> is_empty variant then (w, Some (sv_baseValue sv w))
             else (w, Some \<lparr>rd_variant = variant, rd_status = status, rd_sourceTime = sourceTime\<rparr>)))"

definition setValue_source :: "('w, 'v, 't) source_variable \<Rightarrow> ('v, 't) reading \<Rightarrow> bool \<Rightarrow> 'w \<Rightarrow> 'w \<times> 32 word option" where
  "setValue_source sv dataValue checkAccessLevel w = (case sv_writeFn sv of
       Some writeFn \<Rightarrow> writeFn (rd_variant dataValue) w
     | None \<Rightarrow> (case sv_baseSetValue sv dataValue checkAccessLevel w of (w, status) \<Rightarrow> (w, Some status)))"

section \<open>Requests\<close>

datatype ('v, 't) reply = ReadReply "('v, 't) reading" | WriteReply "32 word"

definition read_work :: "('w \<Rightarrow> 'w \<times> 'v \<times> 't \<times> 32 word option) \<Rightarrow> 'w \<Rightarrow> 'w \<times> ('v, 't) reply" where
  "read_work readFn w = (case readFn w of (w, variant, sourceTime, status) \<Rightarrow>
     (w, ReadReply \<lparr>rd_variant = variant, rd_status = (case status of Some status \<Rightarrow> status | None \<Rightarrow> OpcUa_BadInternalError),
       rd_sourceTime = sourceTime\<rparr>))"

definition write_work :: "('v \<Rightarrow> 'w \<Rightarrow> 'w \<times> 32 word option) \<Rightarrow> 'v \<Rightarrow> 'w \<Rightarrow> 'w \<times> ('v, 't) reply" where
  "write_work writeFn variant w = (case writeFn variant w of (w, status) \<Rightarrow>
     (w, WriteReply (case status of Some status \<Rightarrow> status | None \<Rightarrow> OpcUa_BadInternalError)))"

text \<open>
  The state: the pool, which holds the mutexes and exists or not, the world, the function objects,
  the calls of a synchronous request that wait for a mutex or hold one, and the completed handles.
\<close>

record sync_call =
  sy_handle :: nat
  sy_thread :: nat
  sy_mutex :: nat
  sy_locked :: bool

record ('w, 'v, 't) io =
  io_pool :: thread_pool
  io_poolExists :: bool
  io_world :: 'w
  io_works :: "nat \<Rightarrow> 'w \<Rightarrow> 'w \<times> ('v, 't) reply"
  io_calls :: "sync_call list"
  io_completed :: "(nat \<times> ('v, 't) reply) list"

definition complete_handle :: "nat \<Rightarrow> ('v, 't) reply \<Rightarrow> ('w, 'v, 't) io \<Rightarrow> ('w, 'v, 't) io" where
  "complete_handle handle reply s = s\<lparr>io_completed := io_completed s @ [(handle, reply)]\<rparr>"

definition complete_work :: "nat \<Rightarrow> ('w \<Rightarrow> 'w \<times> ('v, 't) reply) \<Rightarrow> ('w, 'v, 't) io \<Rightarrow> ('w, 'v, 't) io" where
  "complete_work handle work s = (case work (io_world s) of (w, reply) \<Rightarrow> complete_handle handle reply (s\<lparr>io_world := w\<rparr>))"

text \<open>The second half of both requests, which differ in the text of the job and the reply to a refused one.\<close>

definition start_work :: "string \<Rightarrow> (32 word \<Rightarrow> ('v, 't) reply) \<Rightarrow> bool \<Rightarrow> nat option \<Rightarrow> ('w \<Rightarrow> 'w \<times> ('v, 't) reply)
    \<Rightarrow> nat \<Rightarrow> nat \<Rightarrow> ('w, 'v, 't) io \<Rightarrow> ('w, 'v, 't) io" where
  "start_work description refusal asynchronous mutex work thread handle s =
     (if asynchronous
      then case (if io_poolExists s then addJob_functor handle description mutex (io_pool s) else (io_pool s, OpcUa_BadOutOfService)) of
          (pool, dispatchStatus) \<Rightarrow>
            let s = s\<lparr>io_pool := pool, io_works := (io_works s)(handle := work)\<rparr> in
            if \<not> status_good dispatchStatus then complete_handle handle (refusal dispatchStatus) s else s
      else case mutex of
          Some m \<Rightarrow> s\<lparr>io_works := (io_works s)(handle := work),
              io_calls := io_calls s @ [\<lparr>sy_handle = handle, sy_thread = thread, sy_mutex = m, sy_locked = False\<rparr>]\<rparr>
        | None \<Rightarrow> complete_work handle work s)"

definition badDataValue :: "'v \<Rightarrow> 't \<Rightarrow> 32 word \<Rightarrow> ('v, 't) reply" where
  "badDataValue nothing now status = ReadReply \<lparr>rd_variant = nothing, rd_status = status, rd_sourceTime = now\<rparr>"

definition beginRead :: "'v \<Rightarrow> 't \<Rightarrow> ('w, 'v, 't) source_variable \<Rightarrow> nat \<Rightarrow> nat \<Rightarrow> ('w, 'v, 't) io \<Rightarrow> ('w, 'v, 't) io" where
  "beginRead nothing now sv thread handle s = (case sv_readFn sv of
       None \<Rightarrow> complete_handle handle (ReadReply (sv_baseValue sv (io_world s))) s
     | Some readFn \<Rightarrow>
         if sv_readMutexFn sv = Some None then complete_handle handle (badDataValue nothing now OpcUa_BadInternalError) s
         else start_work (''read sourcevariable of node '' @ sv_nodeText sv) (badDataValue nothing now) (sv_readAsynchronous sv)
           (Option.bind (sv_readMutexFn sv) id) (read_work readFn) thread handle s)"

definition beginWrite :: "('w, 'v, 't) source_variable \<Rightarrow> ('v, 't) reading \<Rightarrow> nat \<Rightarrow> nat \<Rightarrow> ('w, 'v, 't) io \<Rightarrow> ('w, 'v, 't) io" where
  "beginWrite sv dataValue thread handle s = (case sv_writeFn sv of
       None \<Rightarrow> (case sv_baseSetValue sv dataValue True (io_world s) of
           (w, status) \<Rightarrow> complete_handle handle (WriteReply status) (s\<lparr>io_world := w\<rparr>))
     | Some writeFn \<Rightarrow>
         if sv_writeMutexFn sv = Some None then complete_handle handle (WriteReply OpcUa_BadInternalError) s
         else start_work (''write sourcevariable of node '' @ sv_nodeText sv) WriteReply (sv_writeAsynchronous sv)
           (Option.bind (sv_writeMutexFn sv) id) (write_work writeFn (rd_variant dataValue)) thread handle s)"

section \<open>Steps\<close>

text \<open>
  A call that waits takes its mutex when it is free; holding it, it runs the delegate, completes the
  handle and gives the mutex back. When a worker executes a job, its function object runs; otherwise
  the pool steps as it does, except that only requests add jobs to it.
\<close>

definition lock_call :: "nat \<Rightarrow> ('w, 'v, 't) io \<Rightarrow> ('w, 'v, 't) io" where
  "lock_call i s = (let call = io_calls s ! i in
     s\<lparr>io_calls := (io_calls s)[i := call\<lparr>sy_locked := True\<rparr>],
       io_pool := (io_pool s)\<lparr>tp_mutexes := (tp_mutexes (io_pool s))(sy_mutex call \<mapsto> OtherThread (sy_thread call))\<rparr>\<rparr>)"

definition finish_call :: "nat \<Rightarrow> ('w, 'v, 't) io \<Rightarrow> ('w, 'v, 't) io" where
  "finish_call i s = (let call = io_calls s ! i;
       s = complete_work (sy_handle call) (io_works s (sy_handle call)) (s\<lparr>io_calls := take i (io_calls s) @ drop (Suc i) (io_calls s)\<rparr>) in
     s\<lparr>io_pool := unlock (OtherThread (sy_thread call)) (sy_mutex call) (io_pool s)\<rparr>)"

definition run_job :: "pool_event \<Rightarrow> thread_pool \<Rightarrow> ('w, 'v, 't) io \<Rightarrow> ('w, 'v, 't) io" where
  "run_job e pool s = (let s = s\<lparr>io_pool := pool\<rparr> in case e of
       JobDone i job \<Rightarrow> complete_work (jb_work job) (io_works s (jb_work job)) s
     | _ \<Rightarrow> s)"

datatype ('w, 'v, 't) io_event =
    ReadBegun "('w, 'v, 't) source_variable" nat nat | WriteBegun "('w, 'v, 't) source_variable" "('v, 't) reading" nat nat
  | CallLocked nat | CallFinished nat | PoolStepped pool_event

inductive io_step :: "'v \<Rightarrow> 't \<Rightarrow> ('w, 'v, 't) io \<Rightarrow> ('w, 'v, 't) io_event \<Rightarrow> ('w, 'v, 't) io \<Rightarrow> bool" for nothing now where
  read_begun: "io_step nothing now s (ReadBegun sv thread handle) (beginRead nothing now sv thread handle s)"
| write_begun: "io_step nothing now s (WriteBegun sv dataValue thread handle) (beginWrite sv dataValue thread handle s)"
| call_locked: "i < length (io_calls s) \<Longrightarrow> \<not> sy_locked (io_calls s ! i) \<Longrightarrow> tp_mutexes (io_pool s) (sy_mutex (io_calls s ! i)) = None
    \<Longrightarrow> io_step nothing now s (CallLocked i) (lock_call i s)"
| call_finished: "i < length (io_calls s) \<Longrightarrow> sy_locked (io_calls s ! i) \<Longrightarrow> io_step nothing now s (CallFinished i) (finish_call i s)"
| pool_stepped: "pool_step (io_pool s) e pool \<Longrightarrow> accepted_of e = {#} \<Longrightarrow> io_poolExists s
    \<Longrightarrow> io_step nothing now s (PoolStepped e) (run_job e pool s)"

section \<open>Every handle once\<close>

text \<open>The handles of a state, each where it is: completed, with a waiting call, or with a job of the pool.\<close>

definition handles_of :: "('w, 'v, 't) io \<Rightarrow> nat multiset" where
  "handles_of s = mset (map fst (io_completed s)) + mset (map sy_handle (io_calls s)) + image_mset jb_work (held_jobs (io_pool s))"

definition begun_of :: "('w, 'v, 't) io_event \<Rightarrow> nat multiset" where
  "begun_of e = (case e of ReadBegun sv thread handle \<Rightarrow> {# handle #} | WriteBegun sv v thread handle \<Rightarrow> {# handle #} | _ \<Rightarrow> {#})"

lemma complete_handles: "handles_of (complete_handle handle reply s) = add_mset handle (handles_of s)"
  by (simp add: handles_of_def complete_handle_def)

lemma complete_work_handles: "handles_of (complete_work handle work s) = add_mset handle (handles_of s)"
  by (simp add: complete_work_def handles_of_def complete_handle_def split: prod.split)

lemma addJob_handles:
  assumes "addJob_functor handle description mutex pool = (pool', status)"
  shows "held_jobs pool' = held_jobs pool + (if status = 0 then {# \<lparr>jb_description = description, jb_mutex = mutex, jb_work = handle\<rparr> #} else {#})"
    and "status_good status \<longleftrightarrow> status = 0"
  using assms by (auto simp: addJob_functor_def addJob_def held_jobs_def status_good_def OpcUa_BadResourceUnavailable_def split: if_splits)

lemma start_work_handles: "handles_of (start_work description refusal asynchronous mutex work thread handle s) = add_mset handle (handles_of s)"
proof (cases asynchronous)
  case True
  show ?thesis
  proof (cases "io_poolExists s")
    case exists: True
    obtain pool status where add: "addJob_functor handle description mutex (io_pool s) = (pool, status)" by fastforce
    show ?thesis using addJob_handles [OF add] by (simp add: start_work_def True exists add complete_handle_def handles_of_def Let_def)
  next
    case False
    then show ?thesis by (simp add: start_work_def True complete_handle_def handles_of_def Let_def status_good_def OpcUa_BadOutOfService_def)
  qed
next
  case False
  then show ?thesis by (cases mutex) (simp_all add: start_work_def complete_work_handles, simp add: handles_of_def)
qed

lemma begin_handles:
  "handles_of (beginRead nothing now sv thread handle s) = add_mset handle (handles_of s)"
  "handles_of (beginWrite sv dataValue thread handle s) = add_mset handle (handles_of s)"
proof -
  show "handles_of (beginRead nothing now sv thread handle s) = add_mset handle (handles_of s)"
    by (cases "sv_readFn sv") (simp_all add: beginRead_def complete_handles start_work_handles)
  show "handles_of (beginWrite sv dataValue thread handle s) = add_mset handle (handles_of s)"
  proof (cases "sv_writeFn sv")
    case None
    then show ?thesis by (simp add: beginWrite_def complete_handle_def handles_of_def split: prod.split)
  qed (simp add: beginWrite_def complete_handles start_work_handles)
qed

lemma remove_nth_mset: "i < length xs \<Longrightarrow> add_mset (xs ! i) (mset (take i xs @ drop (Suc i) xs)) = mset xs"
  by (metis append_take_drop_id Cons_nth_drop_Suc mset_append mset.simps(2) union_mset_add_mset_right)

lemma call_handles:
  assumes "i < length (io_calls s)"
  shows "handles_of (lock_call i s) = handles_of s" and "handles_of (finish_call i s) = handles_of s"
proof -
  have "map sy_handle ((io_calls s)[i := (io_calls s ! i)\<lparr>sy_locked := True\<rparr>]) = map sy_handle (io_calls s)"
    by (simp add: map_update list_update_same_conv assms)
  then show "handles_of (lock_call i s) = handles_of s" by (simp add: lock_call_def handles_of_def held_jobs_def Let_def)
  let ?calls = "take i (io_calls s) @ drop (Suc i) (io_calls s)"
  have "add_mset (sy_handle (io_calls s ! i)) (mset (map sy_handle ?calls)) = mset (map sy_handle (io_calls s))"
    using arg_cong [OF remove_nth_mset [OF assms], of "image_mset sy_handle"] by simp
  then show "handles_of (finish_call i s) = handles_of s"
    by (auto simp: finish_call_def handles_of_def complete_work_def complete_handle_def held_jobs_def unlock_def Let_def split: prod.split)
qed

lemma run_job_handles:
  assumes "pool_step (io_pool s) e pool" and "accepted_of e = {#}"
  shows "handles_of (run_job e pool s) = handles_of s"
proof -
  have "held_jobs (io_pool s) = held_jobs pool + executed_of e" using pool_step_conserves [OF assms(1)] assms(2) by simp
  then show ?thesis
    by (cases e) (simp_all add: run_job_def complete_work_def complete_handle_def handles_of_def executed_of_def Let_def split: prod.split)
qed

lemma io_step_handles: "io_step nothing now s e t \<Longrightarrow> handles_of t = handles_of s + begun_of e"
  by (induction rule: io_step.induct) (simp_all add: begin_handles call_handles run_job_handles begun_of_def)

lemma io_run_handles: "run (io_step nothing now) s es t \<Longrightarrow> handles_of t = handles_of s + \<Sum>\<^sub># (mset (map begun_of es))"
proof (induction rule: run.induct)
  case (run_Cons s e t es u)
  then show ?case using io_step_handles [OF run_Cons.hyps(1)] by (simp add: add.assoc)
qed simp

definition new_io :: "thread_pool \<Rightarrow> bool \<Rightarrow> 'w \<Rightarrow> (nat \<Rightarrow> 'w \<Rightarrow> 'w \<times> ('v, 't) reply) \<Rightarrow> ('w, 'v, 't) io" where
  "new_io pool exists w works = \<lparr>io_pool = pool, io_poolExists = exists, io_world = w, io_works = works, io_calls = [], io_completed = []\<rparr>"

text \<open>
  C39: If every request has a handle of its own, then at any time each handle is in exactly one
  place: completed, with a call that waits for its mutex or holds it, or with a job that is pending,
  executed or removed by the destructor of the pool. So no handle is completed twice, none is lost
  while the pool works, and one whose job the destructor removed is not completed.
\<close>

theorem requests_answered_once:
  assumes "new_pool ready maxThreads maxJobs = Inr pool" and "run (io_step nothing now) (new_io pool exists w works) es t"
    and "\<And>h. count (\<Sum>\<^sub># (mset (map begun_of es))) h \<le> 1"
  shows "mset (map fst (io_completed t)) + mset (map sy_handle (io_calls t)) + image_mset jb_work (held_jobs (io_pool t))
      = \<Sum>\<^sub># (mset (map begun_of es))
    \<and> distinct (map fst (io_completed t))
    \<and> (\<forall>job \<in> set (tp_unfinished (io_pool t)). jb_work job \<notin> set (map fst (io_completed t)))"
proof -
  have "handles_of (new_io pool exists w works) = {#}"
    using jobs_conserved_start [OF assms(1)] by (simp add: handles_of_def new_io_def)
  then have all: "handles_of t = \<Sum>\<^sub># (mset (map begun_of es))" using io_run_handles [OF assms(2)] by simp
  have once: "count (handles_of t) h \<le> 1" for h using assms(3) unfolding all .
  have "count (mset (map fst (io_completed t))) h \<le> 1" for h using once [of h] by (simp add: handles_of_def)
  then have "count (mset (map fst (io_completed t))) h = (if h \<in> set (map fst (io_completed t)) then 1 else 0)" for h
    using count_mset_0_iff [of "map fst (io_completed t)" h] by (metis le_neq_implies_less less_one)
  then have "distinct (map fst (io_completed t))" unfolding distinct_count_atmost_1 by blast
  moreover have "jb_work job \<notin> set (map fst (io_completed t))" if "job \<in> set (tp_unfinished (io_pool t))" for job
  proof
    assume "jb_work job \<in> set (map fst (io_completed t))"
    then have "0 < count (mset (map fst (io_completed t))) (jb_work job)" by (simp only: count_greater_zero_iff set_mset_mset)
    moreover have "jb_work job \<in># image_mset jb_work (held_jobs (io_pool t))" using that by (auto simp: held_jobs_def)
    then have "0 < count (image_mset jb_work (held_jobs (io_pool t))) (jb_work job)" by (simp only: count_greater_zero_iff)
    ultimately show False using once [of "jb_work job"] unfolding handles_of_def count_union by linarith
  qed
  ultimately show ?thesis using all by (simp add: handles_of_def)
qed

text \<open>A read that a worker of the sample pool executes.\<close>

definition sample_source :: "(nat, nat, nat) source_variable" where
  "sample_source = \<lparr>sv_nodeText = ''ns=2;s=a.b'', sv_readFn = Some (\<lambda>w. (Suc w, w, 0, Some 0)), sv_writeFn = None,
     sv_readMutexFn = None, sv_writeMutexFn = None, sv_readAsynchronous = True, sv_writeAsynchronous = False,
     sv_baseValue = \<lambda>w. \<lparr>rd_variant = 0, rd_status = 0, rd_sourceTime = 0\<rparr>, sv_baseSetValue = \<lambda>v b w. (w, 0)\<rparr>"

definition sample_io :: "(nat, nat, nat) io" where
  "sample_io = new_io sample_pool True 41 (\<lambda>h. read_work (\<lambda>w. (w, 0, 0, None)))"

definition sample_io_job :: pool_job where
  "sample_io_job = \<lparr>jb_description = ''read sourcevariable of node ns=2;s=a.b'', jb_mutex = None, jb_work = 5\<rparr>"

definition sample_io_events :: "(nat, nat, nat) io_event list" where
  "sample_io_events = [ReadBegun sample_source 0 5, PoolStepped (WorkerLooked 0), PoolStepped (JobDone 0 sample_io_job)]"

lemma sample_io_run: "\<exists>t. run (io_step 0 0) sample_io sample_io_events t
   \<and> io_completed t = [(5, ReadReply \<lparr>rd_variant = 41, rd_status = 0, rd_sourceTime = 0\<rparr>)]"
proof -
  let ?duty = "\<lparr>du_job = sample_io_job, du_lock = None\<rparr>"
  define s1 where "s1 = beginRead 0 0 sample_source 0 5 sample_io"
  have s1: "io_pool s1 = sample_pool\<lparr>tp_pending := [sample_io_job], tp_counting := 1\<rparr>" "io_poolExists s1" "io_completed s1 = []"
      "io_works s1 5 = read_work (\<lambda>w. (Suc w, w, 0, Some 0))" "io_world s1 = 41"
    by (simp_all add: s1_def beginRead_def sample_source_def start_work_def sample_io_def new_io_def addJob_functor_def addJob_def
      sample_pool_def sample_io_job_def status_good_def)
  define s2 where "s2 = run_job (WorkerLooked 0) (work_take 0 (io_pool s1)) s1"
  have s2: "tp_workers (io_pool s2) = [Executing ?duty, Idle]" "io_poolExists s2" "io_completed s2 = []"
      "io_works s2 5 = read_work (\<lambda>w. (Suc w, w, 0, Some 0))" "io_world s2 = 41"
    using s1 by (simp_all add: s2_def run_job_def work_take_def sample_pool_def sample_io_job_def)
  define s3 where "s3 = run_job (JobDone 0 sample_io_job) (work_release 0 ?duty (io_pool s2)) s2"
  have s3: "io_completed s3 = [(5, ReadReply \<lparr>rd_variant = 41, rd_status = 0, rd_sourceTime = 0\<rparr>)]"
    using s2 by (simp add: s3_def run_job_def complete_work_def complete_handle_def read_work_def sample_io_job_def)
  have "io_step 0 0 sample_io (ReadBegun sample_source 0 5) s1" unfolding s1_def by (rule io_step.read_begun)
  moreover have "io_step 0 0 s1 (PoolStepped (WorkerLooked 0)) s2" unfolding s2_def
    using s1 by (intro io_step.pool_stepped pool_step.looked) (simp_all add: sample_pool_def accepted_of_def)
  moreover have "io_step 0 0 s2 (PoolStepped (JobDone 0 sample_io_job)) s3" unfolding s3_def
    using s2 pool_step.executed [of 0 "io_pool s2" ?duty] by (intro io_step.pool_stepped) (simp_all add: accepted_of_def)
  ultimately have "run (io_step 0 0) sample_io sample_io_events s3"
    unfolding sample_io_events_def by (blast intro: run_Cons run_Nil)
  with s3 show ?thesis by blast
qed

theorem requests_answered_once_witness:
  "\<exists>t. run (io_step 0 0) sample_io sample_io_events t
     \<and> io_completed t = [(5, ReadReply \<lparr>rd_variant = 41, rd_status = 0, rd_sourceTime = 0\<rparr>)] \<and> held_jobs (io_pool t) = {#}"
proof -
  obtain t where t: "run (io_step 0 0) sample_io sample_io_events t"
      "io_completed t = [(5, ReadReply \<lparr>rd_variant = 41, rd_status = 0, rd_sourceTime = 0\<rparr>)]" using sample_io_run by blast
  have "\<Sum>\<^sub># (mset (map begun_of sample_io_events)) = {# 5 #}" by (simp add: sample_io_events_def begun_of_def)
  then show ?thesis
    using requests_answered_once [OF sample_pool t(1) [unfolded sample_io_def]] t by (auto simp: sample_io_def)
qed

section \<open>Delegated writes and methods\<close>

text \<open>
  A write by a client goes to the delegate first, and is stored by \<open>ChangeNotifyingVariable\<close> only
  when that accepts it. A write by the server itself (no session) is stored directly. The parameter
  gives the status with which the toolkit stores a value.
\<close>

definition store_notifying :: "('v, 's, 'b) ua_sdk \<Rightarrow> mu_ops \<Rightarrow> (nat \<Rightarrow> 'v data_value \<Rightarrow> 32 word) \<Rightarrow> nat \<Rightarrow> 'v data_value
    \<Rightarrow> 'v calculation \<Rightarrow> ('v calculation \<times> 32 word) option" where
  "store_notifying sdk mu status v dataValue s =
     map_option (\<lambda>s. (s, status v dataValue)) (setValue sdk mu (\<lambda>v d. status_good (status v d)) v dataValue s)"

definition setValue_delegating :: "('v, 's, 'b) ua_sdk \<Rightarrow> mu_ops \<Rightarrow> (nat \<Rightarrow> 'v data_value \<Rightarrow> 32 word)
    \<Rightarrow> ('v data_value \<Rightarrow> 'v calculation \<Rightarrow> 'v calculation \<times> 32 word) option \<Rightarrow> bool \<Rightarrow> nat \<Rightarrow> 'v data_value
    \<Rightarrow> 'v calculation \<Rightarrow> ('v calculation \<times> 32 word) option" where
  "setValue_delegating sdk mu status delegate session v dataValue s = (case delegate of
       Some delegate_write \<Rightarrow>
         if session then (case delegate_write dataValue s of (s, st) \<Rightarrow>
           if status_good st then map_option (\<lambda>(s, _). (s, st)) (store_notifying sdk mu status v dataValue s) else Some (s, st))
         else store_notifying sdk mu status v dataValue s
     | None \<Rightarrow> store_notifying sdk mu status v dataValue s)"

definition call_method :: "('a \<Rightarrow> 'w \<Rightarrow> 'w \<times> 32 word) option \<Rightarrow> 'a \<Rightarrow> 'w \<Rightarrow> 'w \<times> 32 word" where
  "call_method handler inputArguments w = (case handler of
       Some method \<Rightarrow> method inputArguments w
     | None \<Rightarrow> (w, OpcUa_BadNotImplemented))"

section \<open>The manager of the other backend\<close>

text \<open>A job identifier is \<open>None\<close> for \<open>ASSOURCEVARIABLE_NOTHING\<close>; the jobs are generated code.\<close>

record ('j, 'p, 'c) io_manager =
  im_readOperationJobId :: "'j option"
  im_writeOperationJobId :: "'j option"
  im_variableParentNode :: 'p
  im_callback :: "'c option"
  im_transaction :: "32 word"
  im_callbackHandle :: "32 word"

definition new_io_manager :: "'j option \<Rightarrow> 'j option \<Rightarrow> 'p \<Rightarrow> ('j, 'p, 'c) io_manager" where
  "new_io_manager readOp writeOp variableParentNode = \<lparr>im_readOperationJobId = readOp, im_writeOperationJobId = writeOp,
     im_variableParentNode = variableParentNode, im_callback = None, im_transaction = 0, im_callbackHandle = 0\<rparr>"

definition beginTransaction :: "'c \<Rightarrow> 32 word \<Rightarrow> ('j, 'p, 'c) io_manager \<Rightarrow> ('j, 'p, 'c) io_manager \<times> 32 word" where
  "beginTransaction pCallback hTransaction m = (m\<lparr>im_callback := Some pCallback, im_transaction := hTransaction\<rparr>, 0)"

definition beginRead_manager :: "('j \<Rightarrow> 'c option \<Rightarrow> 32 word \<Rightarrow> 32 word \<Rightarrow> 'p \<Rightarrow> 'w \<Rightarrow> 'w \<times> 32 word) \<Rightarrow> 32 word
    \<Rightarrow> ('j, 'p, 'c) io_manager \<times> 'w \<Rightarrow> (('j, 'p, 'c) io_manager \<times> 'w) \<times> 32 word" where
  "beginRead_manager spawnIoJobRead callbackHandle = (\<lambda>(m, w).
     let m = m\<lparr>im_callbackHandle := callbackHandle\<rparr> in
     case im_readOperationJobId m of
       None \<Rightarrow> ((m, w), OpcUa_BadUserAccessDenied)
     | Some job \<Rightarrow> (case spawnIoJobRead job (im_callback m) (im_transaction m) (im_callbackHandle m) (im_variableParentNode m) w of
           (w, status) \<Rightarrow> ((m, w), status)))"

definition beginWrite_manager :: "('j \<Rightarrow> 'c option \<Rightarrow> 32 word \<Rightarrow> 32 word \<Rightarrow> 'p \<Rightarrow> 'v \<Rightarrow> 'w \<Rightarrow> 'w \<times> 32 word) \<Rightarrow> 32 word \<Rightarrow> 'v
    \<Rightarrow> ('j, 'p, 'c) io_manager \<times> 'w \<Rightarrow> (('j, 'p, 'c) io_manager \<times> 'w) \<times> 32 word" where
  "beginWrite_manager spawnIoJobWrite callbackHandle pWriteValue = (\<lambda>(m, w).
     let m = m\<lparr>im_callbackHandle := callbackHandle\<rparr> in
     case im_writeOperationJobId m of
       None \<Rightarrow> ((m, w), OpcUa_BadUserAccessDenied)
     | Some job \<Rightarrow> (case spawnIoJobWrite job (im_callback m) (im_transaction m) (im_callbackHandle m) (im_variableParentNode m) pWriteValue w of
           (w, status) \<Rightarrow> ((m, w), status)))"

section \<open>The start of the pool\<close>

text \<open>\<open>std::stoi\<close>: as \<open>std::stol\<close>, but in the range of \<open>int\<close>.\<close>

definition stoi :: "string \<Rightarrow> 32 word result" where
  "stoi str = (case integer_prefix str of
       None \<Rightarrow> Inl ''stoi''
     | Some (negative, n, pos) \<Rightarrow>
         let v = (if negative then - int n else int n) in
         if v < - (2 ^ 31) \<or> 2 ^ 31 \<le> v then Inl ''stoi'' else Inr (word_of_int v))"

text \<open>
  The constructor of the device. The initialization is generated code, with the numbers of threads
  as parameters; whatever fails, the handler throws a copy of the base class of the exception, and
  the message of it is lost.
\<close>

definition new_DSourceVariableThreadPool :: "(32 word \<Rightarrow> 32 word \<Rightarrow> 'w \<Rightarrow> 'w \<times> unit result) \<Rightarrow> string \<Rightarrow> string \<Rightarrow> 'w \<Rightarrow> 'w \<times> unit result" where
  "new_DSourceVariableThreadPool initPool minThreads maxThreads w =
     (case res_bind (stoi minThreads) (\<lambda>lo. res_bind (stoi maxThreads) (\<lambda>hi. Inr (lo, hi))) of
        Inl e \<Rightarrow> (w, Inl ''std::exception'')
      | Inr (lo, hi) \<Rightarrow> (case initPool lo hi w of
            (w, Inl e) \<Rightarrow> (w, Inl ''std::exception'')
          | (w, Inr _) \<Rightarrow> (w, Inr ())))"

lemma negative_pool_size: "stoi ''-1'' = Inr 0xFFFFFFFF"
  by (simp add: stoi_def integer_prefix_def is_space_def decimal_value_def is_digit_def digit_value_def Let_def)
end
