(* ===== verification/MetaConfiguration.thy ===== *)
theory MetaConfiguration
  imports Effects "HOL-Library.Multiset"
begin

text \<open>
  The standard metadata of a configuration: Meta/src/meta.cpp with its helpers for old
  configurations (Meta/src/metaBackwardsCompatibilityUtils.cpp), the decoration of the configuration
  tree (Configuration/include/ConfigurationDecorationUtils.h) and the check of its content order
  (Configuration/Configurator.h). The tree is read by generated code: an element is a record of its
  children, and of the content order that says in which order the children are configured. The
  logging library LogIt is the parameter \<open>logit_ops\<close>.
\<close>

section \<open>Content order\<close>

datatype child_type =
    StandardMetaData_id | Log_id | SourceVariableThreadPool_id | LogLevel_id | ComponentLogLevels_id
  | GeneralLogLevel_id | ComponentLogLevel_id | Other_id nat

type_synonym content_order = "(child_type \<times> nat) list"

definition push_back :: "child_type \<Rightarrow> 'a \<Rightarrow> 'a list \<times> content_order \<Rightarrow> 'a list \<times> content_order" where
  "push_back childTypeId child = (\<lambda>(children, order).
     (children @ [child], order @ [(childTypeId, length (children @ [child]) - 1)]))"

definition clear_children :: "child_type \<Rightarrow> 'a list \<times> content_order \<Rightarrow> 'a list \<times> content_order" where
  "clear_children childTypeId = (\<lambda>(children, order). ([], filter (\<lambda>(i, k). i \<noteq> childTypeId) order))"

text \<open>The generated schema gives every child type a number, which the messages show.\<close>

definition validateContentOrder_optional :: "(child_type \<Rightarrow> nat) \<Rightarrow> content_order \<Rightarrow> 'a option \<Rightarrow> child_type \<Rightarrow> unit result" where
  "validateContentOrder_optional number order child childTypeId =
     (if child = None then Inr ()
      else require (list_ex (\<lambda>(i, k). i = childTypeId) order)
        (''validateContentOrderImpl ERROR optional child type id ['' @ nat_to_string (number childTypeId)
         @ ''] not registered in parent content order''))"

text \<open>The loop over the content order takes the indices it meets out of the valid ones.\<close>

fun check_indices :: "(child_type \<Rightarrow> nat) \<Rightarrow> nat \<Rightarrow> child_type \<Rightarrow> content_order \<Rightarrow> nat list \<Rightarrow> nat list result" where
  "check_indices number n childTypeId [] valid = Inr valid"
| "check_indices number n childTypeId ((i, xmlIndex) # order) valid =
     (if i \<noteq> childTypeId then check_indices number n childTypeId order valid
      else if xmlIndex \<notin> set valid
      then Inl (''validateContentOrderImpl ERROR content child type id ['' @ nat_to_string (number childTypeId)
        @ ''] order index ['' @ nat_to_string xmlIndex @ ''] invalid. Valid={0..'' @ nat_to_string n @ ''}'')
      else check_indices number n childTypeId order (remove1 xmlIndex valid))"

definition validateContentOrder :: "(child_type \<Rightarrow> nat) \<Rightarrow> content_order \<Rightarrow> 'a list \<Rightarrow> child_type \<Rightarrow> unit result" where
  "validateContentOrder number order children childTypeId =
     res_bind (check_indices number (length children) childTypeId order [0..<length children]) (\<lambda>valid.
       require (valid = [])
         (''validateContentOrderImpl ERROR parent has ['' @ nat_to_string (length valid)
          @ ''] child objects unregistered in content order''))"

section \<open>The metadata tree\<close>

record log_level =
  ll_name :: string
  ll_logLevel :: string

record component_log_level =
  cl_componentName :: string
  cl_logLevel :: string

record component_log_levels =
  cs_name :: string
  cs_LogLevel :: "log_level list"
  cs_ComponentLogLevel :: "component_log_level list"
  cs_order :: content_order

record log_element =
  lg_name :: string
  lg_LogLevel :: "log_level list"
  lg_GeneralLogLevel :: "string list"
  lg_ComponentLogLevels :: "component_log_levels list"
  lg_order :: content_order

record thread_pool_element =
  tpe_name :: string
  tpe_maxThreads :: string
  tpe_minThreads :: string

record meta_data =
  md_name :: string
  md_Log :: "log_element list"
  md_SourceVariableThreadPool :: "thread_pool_element list"
  md_order :: content_order

record configuration =
  cf_StandardMetaData :: "meta_data option"
  cf_order :: content_order

text \<open>
  LogIt: its levels with their names, the threshold of the log without component, and the
  registered components, each with a handle, a name and a threshold.
\<close>

record ('l, 'v) logit_ops =
  lo_INF :: 'v
  lo_logLevelToString :: "'v \<Rightarrow> string"
  lo_logLevelFromString :: "string \<Rightarrow> 'v option"
  lo_getNonComponentLogLevel :: "'l \<Rightarrow> 'v"
  lo_setNonComponentLogLevel :: "'v \<Rightarrow> 'l \<Rightarrow> 'l"
  lo_getComponentLogsList :: "'l \<Rightarrow> nat list"
  lo_getComponentName :: "'l \<Rightarrow> nat \<Rightarrow> string"
  lo_getComponentHandle :: "'l \<Rightarrow> string \<Rightarrow> nat option"
  lo_getComponentLogLevel :: "'l \<Rightarrow> nat \<Rightarrow> 'v option"
  lo_setComponentLogLevel :: "nat \<Rightarrow> 'v \<Rightarrow> 'l \<Rightarrow> 'l \<times> bool"

section \<open>Getting an element, or adding it\<close>

definition getStandardMetaData :: "configuration \<Rightarrow> configuration" where
  "getStandardMetaData parent =
     (if cf_StandardMetaData parent \<noteq> None then parent
      else parent\<lparr>cf_StandardMetaData := Some \<lparr>md_name = ''StandardMetaData'', md_Log = [],
          md_SourceVariableThreadPool = [], md_order = []\<rparr>,
        cf_order := cf_order parent @ [(StandardMetaData_id, 0)]\<rparr>)"

definition getLog :: "meta_data \<Rightarrow> meta_data" where
  "getLog parent =
     (if md_Log parent \<noteq> [] then parent
      else case push_back Log_id \<lparr>lg_name = ''Log'', lg_LogLevel = [], lg_GeneralLogLevel = [],
            lg_ComponentLogLevels = [], lg_order = []\<rparr> (md_Log parent, md_order parent) of
          (logs, order) \<Rightarrow> parent\<lparr>md_Log := logs, md_order := order\<rparr>)"

definition getSourceVariableThreadPool :: "meta_data \<Rightarrow> meta_data" where
  "getSourceVariableThreadPool parent =
     (if md_SourceVariableThreadPool parent \<noteq> [] then parent
      else case push_back SourceVariableThreadPool_id
            \<lparr>tpe_name = ''SourceVariableThreadPool'', tpe_maxThreads = ''10'', tpe_minThreads = ''1''\<rparr>
            (md_SourceVariableThreadPool parent, md_order parent) of
          (pools, order) \<Rightarrow> parent\<lparr>md_SourceVariableThreadPool := pools, md_order := order\<rparr>)"

definition push_log_level :: "log_level \<Rightarrow> log_element \<Rightarrow> log_element" where
  "push_log_level level parent = (case push_back LogLevel_id level (lg_LogLevel parent, lg_order parent) of
       (levels, order) \<Rightarrow> parent\<lparr>lg_LogLevel := levels, lg_order := order\<rparr>)"

definition getGeneralLogLevel :: "('l, 'v) logit_ops \<Rightarrow> 'l \<Rightarrow> log_element \<Rightarrow> log_element" where
  "getGeneralLogLevel ops l parent =
     (if lg_LogLevel parent \<noteq> [] then parent
      else push_log_level \<lparr>ll_name = ''GeneralLogLevel'',
        ll_logLevel = lo_logLevelToString ops (lo_getNonComponentLogLevel ops l)\<rparr> parent)"

definition getComponentLogLevels :: "log_element \<Rightarrow> log_element" where
  "getComponentLogLevels parent =
     (if lg_ComponentLogLevels parent \<noteq> [] then parent
      else case push_back ComponentLogLevels_id \<lparr>cs_name = ''ComponentLogLevels'', cs_LogLevel = [],
            cs_ComponentLogLevel = [], cs_order = []\<rparr> (lg_ComponentLogLevels parent, lg_order parent) of
          (levels, order) \<Rightarrow> parent\<lparr>lg_ComponentLogLevels := levels, lg_order := order\<rparr>)"

definition push_component_level :: "log_level \<Rightarrow> component_log_levels \<Rightarrow> component_log_levels" where
  "push_component_level level parent = (case push_back LogLevel_id level (cs_LogLevel parent, cs_order parent) of
       (levels, order) \<Rightarrow> parent\<lparr>cs_LogLevel := levels, cs_order := order\<rparr>)"

text \<open>
  The element of a component, by its name; one with the threshold of the component is added when
  there is none. The function returns a reference to the element, here the element itself, as its
  caller only reads it.
\<close>

definition find_level :: "string \<Rightarrow> component_log_levels \<Rightarrow> log_level option" where
  "find_level name parent = find (\<lambda>level. name = ll_name level) (cs_LogLevel parent)"

definition getComponentLogLevel :: "('l, 'v) logit_ops \<Rightarrow> 'l \<Rightarrow> string \<Rightarrow> nat
    \<Rightarrow> (component_log_levels, log_level) action" where
  "getComponentLogLevel ops l name handle = act_bind act_get (\<lambda>parent.
     case find_level name parent of
       Some level \<Rightarrow> act_return level
     | None \<Rightarrow>
         let level = (case lo_getComponentLogLevel ops l handle of None \<Rightarrow> lo_INF ops | Some level \<Rightarrow> level) in
         act_bind (act_modify (push_component_level \<lparr>ll_name = name, ll_logLevel = lo_logLevelToString ops level\<rparr>)) (\<lambda>_.
         act_bind act_get (\<lambda>parent.
         case find_level name parent of
           Some level \<Rightarrow> act_return level
         | None \<Rightarrow> act_throw (''getComponentLogLevel programming error - failed to find LogLevel with name ['' @ name
             @ ''] in ComponentLogLevels''))))"

fun check_names :: "string list \<Rightarrow> log_level list \<Rightarrow> unit result" where
  "check_names checked [] = Inr ()"
| "check_names checked (level # levels) =
     (if ll_name level \<in> set checked
      then Inl (''validateComponentLogLevels Configuration contains ComponentLogLevel name ['' @ ll_name level
        @ ''] more than once: mis-configuration.'')
      else check_names (checked @ [ll_name level]) levels)"

definition validateComponentLogLevels :: "component_log_levels \<Rightarrow> unit result" where
  "validateComponentLogLevels componentLogLevels = check_names [] (cs_LogLevel componentLogLevels)"

section \<open>Old configurations\<close>

text \<open>
  The general log level of an old configuration becomes a log level of the new form, unless there
  is one of the new form; then the loop over the old ones, cleared before, does nothing.
\<close>

definition clear_general :: "log_element \<Rightarrow> log_element" where
  "clear_general parent = (case clear_children GeneralLogLevel_id (lg_GeneralLogLevel parent, lg_order parent) of
       (old, order) \<Rightarrow> parent\<lparr>lg_GeneralLogLevel := old, lg_order := order\<rparr>)"

definition convertOldGeneralLogLevel :: "log_element \<Rightarrow> log_element" where
  "convertOldGeneralLogLevel parent =
     (if lg_GeneralLogLevel parent = [] then parent
      else let parent = (if list_ex (\<lambda>level. ''GeneralLogLevel'' = ll_name level) (lg_LogLevel parent)
          then clear_general parent else parent);
        parent = fold (\<lambda>old. push_log_level \<lparr>ll_name = ''GeneralLogLevel'', ll_logLevel = old\<rparr>) (lg_GeneralLogLevel parent) parent
      in clear_general parent)"

text \<open>
  \<open>std::remove_if\<close> moves the elements that stay to the front and returns where they end; the code
  erases the one element there. With no element to remove that is the end of the sequence, where
  nothing may be erased: the behaviour is undefined, here \<open>None\<close>. With several the others stay,
  with values that the library leaves unspecified, the parameter \<open>remains\<close>.
\<close>

definition erase_removed :: "(component_log_level list \<Rightarrow> nat \<Rightarrow> component_log_level) \<Rightarrow> string
    \<Rightarrow> component_log_level list \<Rightarrow> component_log_level list option" where
  "erase_removed remains componentName old =
     (let kept = filter (\<lambda>x. cl_componentName x \<noteq> componentName) old in
      if length kept = length old then None
      else Some (kept @ map (remains old) [Suc (length kept)..<length old]))"

fun erase_known :: "(component_log_level list \<Rightarrow> nat \<Rightarrow> component_log_level) \<Rightarrow> log_level list
    \<Rightarrow> component_log_level list \<Rightarrow> component_log_level list option" where
  "erase_known remains [] old = Some old"
| "erase_known remains (level # levels) old =
     Option.bind (erase_removed remains (ll_name level) old) (erase_known remains levels)"

definition clear_component :: "component_log_levels \<Rightarrow> component_log_levels" where
  "clear_component parent = (case clear_children ComponentLogLevel_id (cs_ComponentLogLevel parent, cs_order parent) of
       (old, order) \<Rightarrow> parent\<lparr>cs_ComponentLogLevel := old, cs_order := order\<rparr>)"

definition convertOldComponentLogLevel :: "(component_log_level list \<Rightarrow> nat \<Rightarrow> component_log_level)
    \<Rightarrow> component_log_levels \<Rightarrow> component_log_levels option" where
  "convertOldComponentLogLevel remains parent =
     (if cs_ComponentLogLevel parent = [] then Some parent
      else Option.bind (erase_known remains (cs_LogLevel parent) (cs_ComponentLogLevel parent)) (\<lambda>old.
        Some (clear_component (fold (\<lambda>x. push_component_level \<lparr>ll_name = cl_componentName x, ll_logLevel = cl_logLevel x\<rparr>)
          old (parent\<lparr>cs_ComponentLogLevel := old\<rparr>)))))"

section \<open>Configuring\<close>

definition configureComponentLogLevel :: "('l, 'v) logit_ops \<Rightarrow> nat \<Rightarrow> string \<Rightarrow> ('l \<times> component_log_levels, unit) action" where
  "configureComponentLogLevel ops componentHandle componentName = (\<lambda>(l, parent).
     case getComponentLogLevel ops l componentName componentHandle parent of
       (parent, Inl e) \<Rightarrow> ((l, parent), Inl e)
     | (parent, Inr level) \<Rightarrow> (case lo_logLevelFromString ops (ll_logLevel level) of
           None \<Rightarrow> ((l, parent), Inr ())
         | Some level \<Rightarrow> ((fst (lo_setComponentLogLevel ops componentHandle level l), parent), Inr ())))"

text \<open>The list of the registered components is read before the loop, their names in it.\<close>

definition configure_components :: "('l, 'v) logit_ops \<Rightarrow> nat list \<Rightarrow> ('l \<times> component_log_levels, unit) action" where
  "configure_components ops = act_for (\<lambda>handle. act_bind act_get (\<lambda>(l, parent).
     configureComponentLogLevel ops handle (lo_getComponentName ops l handle)))"

definition configureComponentLogLevels :: "('l, 'v) logit_ops \<Rightarrow> (component_log_level list \<Rightarrow> nat \<Rightarrow> component_log_level)
    \<Rightarrow> 'l \<times> log_element \<Rightarrow> (('l \<times> log_element) \<times> unit result) option" where
  "configureComponentLogLevels ops remains = (\<lambda>(l, parent).
     let parent = getComponentLogLevels parent in
     Option.bind (convertOldComponentLogLevel remains (hd (lg_ComponentLogLevels parent))) (\<lambda>levels.
       let put = (\<lambda>levels. parent\<lparr>lg_ComponentLogLevels := levels # tl (lg_ComponentLogLevels parent)\<rparr>) in
       Some (case validateComponentLogLevels levels of
         Inl e \<Rightarrow> ((l, put levels), Inl e)
       | Inr _ \<Rightarrow> (case configure_components ops (lo_getComponentLogsList ops l) (l, levels) of
             ((l, levels), r) \<Rightarrow> ((l, put levels), r)))))"

definition configureGeneralLogLevel :: "('l, 'v) logit_ops \<Rightarrow> 'l \<times> log_element \<Rightarrow> 'l \<times> log_element" where
  "configureGeneralLogLevel ops = (\<lambda>(l, parent).
     let parent = getGeneralLogLevel ops l (convertOldGeneralLogLevel parent) in
     case lo_logLevelFromString ops (ll_logLevel (hd (lg_LogLevel parent))) of
       Some level \<Rightarrow> (lo_setNonComponentLogLevel ops level l, parent)
     | None \<Rightarrow> (l, parent))"

definition configureLog :: "('l, 'v) logit_ops \<Rightarrow> (component_log_level list \<Rightarrow> nat \<Rightarrow> component_log_level)
    \<Rightarrow> 'l \<times> meta_data \<Rightarrow> (('l \<times> meta_data) \<times> unit result) option" where
  "configureLog ops remains = (\<lambda>(l, parent).
     let parent = getLog parent in
     map_option (\<lambda>((l, log), r). ((l, parent\<lparr>md_Log := log # tl (md_Log parent)\<rparr>), r))
       (configureComponentLogLevels ops remains (configureGeneralLogLevel ops (l, hd (md_Log parent)))))"

definition configureSourceVariableThreadPool :: "meta_data \<Rightarrow> meta_data" where
  "configureSourceVariableThreadPool = getSourceVariableThreadPool"

definition configureStandardMetaData :: "('l, 'v) logit_ops \<Rightarrow> (component_log_level list \<Rightarrow> nat \<Rightarrow> component_log_level)
    \<Rightarrow> 'l \<times> configuration \<Rightarrow> (('l \<times> configuration) \<times> unit result) option" where
  "configureStandardMetaData ops remains = (\<lambda>(l, parent).
     let parent = getStandardMetaData parent in
     map_option (\<lambda>((l, md), r). case r of
         Inl e \<Rightarrow> ((l, parent\<lparr>cf_StandardMetaData := Some md\<rparr>), Inl e)
       | Inr _ \<Rightarrow> ((l, parent\<lparr>cf_StandardMetaData := Some (configureSourceVariableThreadPool md)\<rparr>), Inr ()))
       (configureLog ops remains (l, the (cf_StandardMetaData parent))))"

definition configureMeta :: "('l, 'v) logit_ops \<Rightarrow> (component_log_level list \<Rightarrow> nat \<Rightarrow> component_log_level)
    \<Rightarrow> 'l \<times> configuration \<Rightarrow> (('l \<times> configuration) \<times> unit result) option" where
  "configureMeta = configureStandardMetaData"

section \<open>What the check of the content order accepts\<close>

definition indices :: "child_type \<Rightarrow> content_order \<Rightarrow> nat list" where
  "indices childTypeId order = map snd (filter (\<lambda>e. fst e = childTypeId) order)"

lemma indices_simps [simp]:
  "indices i [] = []" "indices i (e # order) = (if fst e = i then snd e # indices i order else indices i order)"
  "indices i (order @ order') = indices i order @ indices i order'"
  by (simp_all add: indices_def)

definition ordered :: "child_type \<Rightarrow> content_order \<Rightarrow> 'a list \<Rightarrow> bool" where
  "ordered childTypeId order children \<longleftrightarrow> mset (indices childTypeId order) = mset [0..<length children]"

lemma check_indices_iff:
  "check_indices number n i order valid = Inr rest \<Longrightarrow>
     mset (indices i order) \<subseteq># mset valid \<and> mset rest = mset valid - mset (indices i order)"
  "mset (indices i order) \<subseteq># mset valid \<Longrightarrow> \<exists>rest. check_indices number n i order valid = Inr rest"
  by (induction number n i order valid rule: check_indices.induct)
    (auto simp: insert_subset_eq_iff split: if_splits)

lemma validateContentOrder_iff: "validateContentOrder number order children i = Inr () \<longleftrightarrow> ordered i order children"
proof
  assume "validateContentOrder number order children i = Inr ()"
  then have "check_indices number (length children) i order [0..<length children] = Inr []"
    by (auto simp: validateContentOrder_def res_bind_Inr_iff)
  from check_indices_iff(1) [OF this] show "ordered i order children"
    by (auto simp: ordered_def subset_mset.le_iff_add)
next
  assume "ordered i order children"
  then have eq: "mset (indices i order) = mset [0..<length children]" by (simp add: ordered_def)
  then obtain rest where rest: "check_indices number (length children) i order [0..<length children] = Inr rest"
    using check_indices_iff(2) [of i order "[0..<length children]"] by auto
  with check_indices_iff(1) [OF rest] eq show "validateContentOrder number order children i = Inr ()"
    by (simp add: validateContentOrder_def)
qed

lemma push_back_order:
  assumes "push_back i child (children, order) = (children', order')"
  shows "children' = children @ [child]" and "ordered i order children \<Longrightarrow> ordered i order' children'"
    and "j \<noteq> i \<Longrightarrow> indices j order' = indices j order"
  using assms by (auto simp: push_back_def ordered_def simp del: mset_upt)

lemma clear_children_order:
  assumes "clear_children i (children, order) = (children', order')"
  shows "children' = []" and "indices i order' = []" and "j \<noteq> i \<Longrightarrow> indices j order' = indices j order"
proof -
  have "order' = filter (\<lambda>(k, _). k \<noteq> i) order" and "children' = []" using assms by (auto simp: clear_children_def)
  moreover have "indices i (filter (\<lambda>(k, _). k \<noteq> i) order) = []" by (induction order) auto
  moreover have "indices j (filter (\<lambda>(k, _). k \<noteq> i) order) = indices j order" if "j \<noteq> i" using that by (induction order) auto
  ultimately show "children' = []" "indices i order' = []" "j \<noteq> i \<Longrightarrow> indices j order' = indices j order" by simp_all
qed

text \<open>The trees of which every content order passes the check.\<close>

definition levels_ok :: "component_log_levels \<Rightarrow> bool" where
  "levels_ok cs \<longleftrightarrow> ordered LogLevel_id (cs_order cs) (cs_LogLevel cs)
     \<and> ordered ComponentLogLevel_id (cs_order cs) (cs_ComponentLogLevel cs)"

definition log_ok :: "log_element \<Rightarrow> bool" where
  "log_ok lg \<longleftrightarrow> ordered LogLevel_id (lg_order lg) (lg_LogLevel lg)
     \<and> ordered GeneralLogLevel_id (lg_order lg) (lg_GeneralLogLevel lg)
     \<and> ordered ComponentLogLevels_id (lg_order lg) (lg_ComponentLogLevels lg)
     \<and> list_all levels_ok (lg_ComponentLogLevels lg)"

definition meta_ok :: "meta_data \<Rightarrow> bool" where
  "meta_ok md \<longleftrightarrow> ordered Log_id (md_order md) (md_Log md)
     \<and> ordered SourceVariableThreadPool_id (md_order md) (md_SourceVariableThreadPool md)
     \<and> list_all log_ok (md_Log md)"

definition configuration_ok :: "configuration \<Rightarrow> bool" where
  "configuration_ok c \<longleftrightarrow> (cf_StandardMetaData c \<noteq> None \<longrightarrow> list_ex (\<lambda>(i, k). i = StandardMetaData_id) (cf_order c))
     \<and> (\<forall>md. cf_StandardMetaData c = Some md \<longrightarrow> meta_ok md)"

lemma configuration_order: "configuration_ok c \<Longrightarrow>
  validateContentOrder_optional number (cf_order c) (cf_StandardMetaData c) StandardMetaData_id = Inr ()"
  by (cases "cf_StandardMetaData c") (auto simp: configuration_ok_def validateContentOrder_optional_def)

section \<open>Every operation keeps the content order\<close>

lemma push_component_level:
  "cs_LogLevel (push_component_level level cs) = cs_LogLevel cs @ [level]"
  "cs_ComponentLogLevel (push_component_level level cs) = cs_ComponentLogLevel cs"
  "ordered LogLevel_id (cs_order cs) (cs_LogLevel cs) \<Longrightarrow>
     ordered LogLevel_id (cs_order (push_component_level level cs)) (cs_LogLevel (push_component_level level cs))"
  "ordered ComponentLogLevel_id (cs_order (push_component_level level cs)) xs \<longleftrightarrow> ordered ComponentLogLevel_id (cs_order cs) xs"
  by (simp_all add: push_component_level_def push_back_def ordered_def del: mset_upt)

lemma push_component_ok: "levels_ok cs \<Longrightarrow> levels_ok (push_component_level level cs)"
  by (simp add: levels_ok_def push_component_level(2,4)) (simp add: push_component_level(3))

lemma push_log_level:
  "lg_LogLevel (push_log_level level lg) = lg_LogLevel lg @ [level]"
  "lg_GeneralLogLevel (push_log_level level lg) = lg_GeneralLogLevel lg"
  "lg_ComponentLogLevels (push_log_level level lg) = lg_ComponentLogLevels lg"
  "log_ok lg \<Longrightarrow> log_ok (push_log_level level lg)"
  by (simp_all add: push_log_level_def push_back_def log_ok_def ordered_def del: mset_upt)

lemma clear_general:
  "lg_LogLevel (clear_general lg) = lg_LogLevel lg" "lg_GeneralLogLevel (clear_general lg) = []"
  "lg_ComponentLogLevels (clear_general lg) = lg_ComponentLogLevels lg" "log_ok lg \<Longrightarrow> log_ok (clear_general lg)"
proof -
  obtain old order where c: "clear_children GeneralLogLevel_id (lg_GeneralLogLevel lg, lg_order lg) = (old, order)" by fastforce
  then have "clear_general lg = lg\<lparr>lg_GeneralLogLevel := [], lg_order := order\<rparr>"
    using clear_children_order(1) [OF c] by (simp add: clear_general_def)
  moreover note clear_children_order(2,3) [OF c]
  ultimately show "lg_LogLevel (clear_general lg) = lg_LogLevel lg" "lg_GeneralLogLevel (clear_general lg) = []"
    "lg_ComponentLogLevels (clear_general lg) = lg_ComponentLogLevels lg" "log_ok lg \<Longrightarrow> log_ok (clear_general lg)"
    by (simp_all add: log_ok_def ordered_def)
qed

lemma clear_component:
  "cs_LogLevel (clear_component cs) = cs_LogLevel cs" "cs_ComponentLogLevel (clear_component cs) = []"
  "ordered LogLevel_id (cs_order cs) (cs_LogLevel cs) \<Longrightarrow> levels_ok (clear_component cs)"
proof -
  obtain old order where c: "clear_children ComponentLogLevel_id (cs_ComponentLogLevel cs, cs_order cs) = (old, order)" by fastforce
  then have "clear_component cs = cs\<lparr>cs_ComponentLogLevel := [], cs_order := order\<rparr>"
    using clear_children_order(1) [OF c] by (simp add: clear_component_def)
  moreover note clear_children_order(2,3) [OF c]
  ultimately show "cs_LogLevel (clear_component cs) = cs_LogLevel cs" "cs_ComponentLogLevel (clear_component cs) = []"
    "ordered LogLevel_id (cs_order cs) (cs_LogLevel cs) \<Longrightarrow> levels_ok (clear_component cs)"
    by (simp_all add: levels_ok_def ordered_def)
qed
lemma fold_push_component:
  "cs_LogLevel (fold (\<lambda>x. push_component_level (f x)) xs cs) = cs_LogLevel cs @ map f xs
   \<and> (ordered LogLevel_id (cs_order cs) (cs_LogLevel cs) \<longrightarrow>
     ordered LogLevel_id (cs_order (fold (\<lambda>x. push_component_level (f x)) xs cs)) (cs_LogLevel cs @ map f xs))"
proof (induction xs arbitrary: cs)
  case (Cons x xs)
  show ?case using Cons.IH [of "push_component_level (f x) cs"] push_component_level(3) [of cs "f x"] by (simp add: push_component_level(1))
qed simp

lemma fold_push_log:
  "lg_LogLevel (fold (\<lambda>x. push_log_level (f x)) xs lg) = lg_LogLevel lg @ map f xs"
  "lg_ComponentLogLevels (fold (\<lambda>x. push_log_level (f x)) xs lg) = lg_ComponentLogLevels lg"
  "log_ok lg \<Longrightarrow> log_ok (fold (\<lambda>x. push_log_level (f x)) xs lg)"
  by (induction xs arbitrary: lg) (simp_all add: push_log_level)

text \<open>What becomes of the old elements: the general level first, then those of the components.\<close>

lemma convertOldGeneralLogLevel_eq:
  "lg_GeneralLogLevel (convertOldGeneralLogLevel lg) = []"
  "lg_ComponentLogLevels (convertOldGeneralLogLevel lg) = lg_ComponentLogLevels lg"
  "log_ok lg \<Longrightarrow> log_ok (convertOldGeneralLogLevel lg)"
  "lg_LogLevel (convertOldGeneralLogLevel lg) = lg_LogLevel lg
     @ (if list_ex (\<lambda>level. ll_name level = ''GeneralLogLevel'') (lg_LogLevel lg) then []
        else map (\<lambda>old. \<lparr>ll_name = ''GeneralLogLevel'', ll_logLevel = old\<rparr>) (lg_GeneralLogLevel lg))"
  by (auto simp: convertOldGeneralLogLevel_def Let_def clear_general fold_push_log list_ex_iff)

lemma getGeneralLogLevel_eq:
  "lg_LogLevel (getGeneralLogLevel ops l lg) \<noteq> []" "log_ok lg \<Longrightarrow> log_ok (getGeneralLogLevel ops l lg)"
  "lg_GeneralLogLevel (getGeneralLogLevel ops l lg) = lg_GeneralLogLevel lg"
  "lg_ComponentLogLevels (getGeneralLogLevel ops l lg) = lg_ComponentLogLevels lg"
  "lg_LogLevel lg \<noteq> [] \<Longrightarrow> getGeneralLogLevel ops l lg = lg"
  by (simp_all add: getGeneralLogLevel_def push_log_level)

lemma convertOldComponentLogLevel_eq:
  assumes "convertOldComponentLogLevel remains cs = Some cs'"
  shows "cs_ComponentLogLevel cs' = []" and "levels_ok cs \<Longrightarrow> levels_ok cs'"
    and "\<exists>new. cs_LogLevel cs' = cs_LogLevel cs @ new"
    and "cs_LogLevel cs = [] \<Longrightarrow> cs_LogLevel cs' = map (\<lambda>x. \<lparr>ll_name = cl_componentName x, ll_logLevel = cl_logLevel x\<rparr>) (cs_ComponentLogLevel cs)"
proof -
  have "(cs_ComponentLogLevel cs' = [] \<and> (levels_ok cs \<longrightarrow> levels_ok cs')) \<and> (\<exists>new. cs_LogLevel cs' = cs_LogLevel cs @ new)
    \<and> (cs_LogLevel cs = [] \<longrightarrow> cs_LogLevel cs' = map (\<lambda>x. \<lparr>ll_name = cl_componentName x, ll_logLevel = cl_logLevel x\<rparr>) (cs_ComponentLogLevel cs))"
  proof (cases "cs_ComponentLogLevel cs = []")
    case True
    then show ?thesis using assms by (simp add: convertOldComponentLogLevel_def)
  next
    case False
    let ?f = "\<lambda>x. \<lparr>ll_name = cl_componentName x, ll_logLevel = cl_logLevel x\<rparr>"
    from False obtain old where old: "erase_known remains (cs_LogLevel cs) (cs_ComponentLogLevel cs) = Some old"
      and cs': "cs' = clear_component (fold (\<lambda>x. push_component_level (?f x)) old (cs\<lparr>cs_ComponentLogLevel := old\<rparr>))"
      using assms by (auto simp: convertOldComponentLogLevel_def bind_eq_Some_conv)
    have "levels_ok cs'" if "levels_ok cs"
      unfolding cs' using that fold_push_component [of ?f old "cs\<lparr>cs_ComponentLogLevel := old\<rparr>"]
      by (intro clear_component(3)) (simp add: levels_ok_def)
    moreover have "cs_LogLevel cs = [] \<Longrightarrow> old = cs_ComponentLogLevel cs" using old by simp
    ultimately show ?thesis
      using fold_push_component [of ?f old "cs\<lparr>cs_ComponentLogLevel := old\<rparr>"] by (auto simp: cs' clear_component)
  qed
  then show "cs_ComponentLogLevel cs' = []" "levels_ok cs \<Longrightarrow> levels_ok cs'" "\<exists>new. cs_LogLevel cs' = cs_LogLevel cs @ new"
    "cs_LogLevel cs = [] \<Longrightarrow> cs_LogLevel cs' = map (\<lambda>x. \<lparr>ll_name = cl_componentName x, ll_logLevel = cl_logLevel x\<rparr>) (cs_ComponentLogLevel cs)"
    by blast+
qed

text \<open>
  The conversion is defined only where each level of the new form names an old element; a
  configuration that has both forms and a component in one of them only is not.
\<close>

lemma mixed_levels_undefined:
  assumes "convertOldComponentLogLevel remains cs = Some cs'" and "cs_ComponentLogLevel cs \<noteq> []"
    and "cs_LogLevel cs = level # levels"
  shows "ll_name level \<in> set (map cl_componentName (cs_ComponentLogLevel cs))"
proof (rule ccontr)
  assume "\<not> ?thesis"
  then have "filter (\<lambda>x. cl_componentName x \<noteq> ll_name level) (cs_ComponentLogLevel cs) = cs_ComponentLogLevel cs"
    by (force simp: filter_id_conv)
  then show False using assms by (simp add: convertOldComponentLogLevel_def erase_removed_def)
qed

lemma check_names_iff: "check_names checked levels = Inr () \<longleftrightarrow>
  distinct (map ll_name levels) \<and> set (map ll_name levels) \<inter> set checked = {}"
  by (induction checked levels rule: check_names.induct) auto

lemma validateComponentLogLevels_iff: "validateComponentLogLevels cs = Inr () \<longleftrightarrow> distinct (map ll_name (cs_LogLevel cs))"
  by (simp add: validateComponentLogLevels_def check_names_iff)

section \<open>The thresholds\<close>

text \<open>What the code relies on of LogIt: a level is read back from its text, and setting a threshold sets that one.\<close>

definition logit_ok :: "('l, 'v) logit_ops \<Rightarrow> bool" where
  "logit_ok ops \<longleftrightarrow> (\<forall>v. lo_logLevelFromString ops (lo_logLevelToString ops v) = Some v)
     \<and> (\<forall>l h. h \<in> set (lo_getComponentLogsList ops l) \<longrightarrow> lo_getComponentLogLevel ops l h \<noteq> None)
     \<and> (\<forall>l v. let l' = lo_setNonComponentLogLevel ops v l in
          lo_getComponentLogsList ops l' = lo_getComponentLogsList ops l \<and> lo_getComponentName ops l' = lo_getComponentName ops l
          \<and> lo_getNonComponentLogLevel ops l' = v \<and> lo_getComponentLogLevel ops l' = lo_getComponentLogLevel ops l)
     \<and> (\<forall>l h v. h \<in> set (lo_getComponentLogsList ops l) \<longrightarrow> (let l' = fst (lo_setComponentLogLevel ops h v l) in
          lo_getComponentLogsList ops l' = lo_getComponentLogsList ops l \<and> lo_getComponentName ops l' = lo_getComponentName ops l
          \<and> lo_getNonComponentLogLevel ops l' = lo_getNonComponentLogLevel ops l
          \<and> lo_getComponentLogLevel ops l' = (lo_getComponentLogLevel ops l)(h \<mapsto> v)))"

lemma logit_set:
  assumes "logit_ok ops" and "h \<in> set (lo_getComponentLogsList ops l)" and "l' = fst (lo_setComponentLogLevel ops h v l)"
  shows "lo_getComponentLogsList ops l' = lo_getComponentLogsList ops l" and "lo_getComponentName ops l' = lo_getComponentName ops l"
    and "lo_getNonComponentLogLevel ops l' = lo_getNonComponentLogLevel ops l"
    and "lo_getComponentLogLevel ops l' = (lo_getComponentLogLevel ops l)(h \<mapsto> v)"
  using assms by (simp_all add: logit_ok_def Let_def)

lemma logit_set_general:
  assumes "logit_ok ops" and "l' = lo_setNonComponentLogLevel ops v l"
  shows "lo_getComponentLogsList ops l' = lo_getComponentLogsList ops l" and "lo_getComponentName ops l' = lo_getComponentName ops l"
    and "lo_getNonComponentLogLevel ops l' = v" and "lo_getComponentLogLevel ops l' = lo_getComponentLogLevel ops l"
  using assms by (simp_all add: logit_ok_def Let_def)

text \<open>The threshold that a level of the configuration gives, over the one before.\<close>

definition threshold :: "('l, 'v) logit_ops \<Rightarrow> log_level \<Rightarrow> 'v option \<Rightarrow> 'v option" where
  "threshold ops level before = (case lo_logLevelFromString ops (ll_logLevel level) of None \<Rightarrow> before | Some v \<Rightarrow> Some v)"

lemma threshold_idem [simp]: "threshold ops level (threshold ops level before) = threshold ops level before"
  by (simp add: threshold_def split: option.split)

text \<open>Levels are only added, with new names; those that are there stay.\<close>

definition extends_levels :: "component_log_levels \<Rightarrow> component_log_levels \<Rightarrow> bool" where
  "extends_levels cs cs' \<longleftrightarrow> (levels_ok cs \<longrightarrow> levels_ok cs') \<and> cs_ComponentLogLevel cs' = cs_ComponentLogLevel cs
     \<and> (distinct (map ll_name (cs_LogLevel cs)) \<longrightarrow> distinct (map ll_name (cs_LogLevel cs')))
     \<and> (\<forall>name level. find_level name cs = Some level \<longrightarrow> find_level name cs' = Some level)"

lemma extends_refl: "extends_levels cs cs"
  by (simp add: extends_levels_def)

lemma extends_trans: "extends_levels cs cs' \<Longrightarrow> extends_levels cs' cs'' \<Longrightarrow> extends_levels cs cs''"
  by (simp add: extends_levels_def)

lemma find_append: "find P (xs @ ys) = (case find P xs of None \<Rightarrow> find P ys | Some x \<Rightarrow> Some x)"
  by (induction xs) auto

lemma push_extends:
  assumes "find_level (ll_name level) cs = None"
  shows "extends_levels cs (push_component_level level cs)" and "find_level (ll_name level) (push_component_level level cs) = Some level"
proof -
  have "ll_name level \<notin> set (map ll_name (cs_LogLevel cs))" using assms by (auto simp: find_level_def find_None_iff)
  then show "extends_levels cs (push_component_level level cs)"
    by (auto simp: extends_levels_def push_component_ok push_component_level(1,2) find_level_def find_append)
  show "find_level (ll_name level) (push_component_level level cs) = Some level"
    using assms by (simp add: find_level_def push_component_level(1) find_append)
qed

lemma getComponentLogLevel_eq:
  "\<exists>cs' level. getComponentLogLevel ops l name h cs = (cs', Inr level) \<and> find_level name cs' = Some level \<and> extends_levels cs cs'
     \<and> (find_level name cs \<noteq> None \<longrightarrow> cs' = cs)"
proof (cases "find_level name cs")
  case None
  let ?level = "\<lparr>ll_name = name, ll_logLevel = lo_logLevelToString ops (case lo_getComponentLogLevel ops l h of None \<Rightarrow> lo_INF ops | Some level \<Rightarrow> level)\<rparr>"
  have "find_level name (push_component_level ?level cs) = Some ?level" "extends_levels cs (push_component_level ?level cs)"
    using push_extends [of ?level cs] None by simp_all
  then show ?thesis using None by (simp add: getComponentLogLevel_def Let_def)
next
  case (Some level)
  then show ?thesis by (simp add: getComponentLogLevel_def extends_refl)
qed

definition same_components :: "('l, 'v) logit_ops \<Rightarrow> 'l \<Rightarrow> 'l \<Rightarrow> bool" where
  "same_components ops l l' \<longleftrightarrow> lo_getComponentLogsList ops l' = lo_getComponentLogsList ops l
     \<and> lo_getComponentName ops l' = lo_getComponentName ops l"

lemma configureComponentLogLevel_eq:
  assumes "logit_ok ops" and "h \<in> set (lo_getComponentLogsList ops l)"
  shows "\<exists>l' cs' level. configureComponentLogLevel ops h name (l, cs) = ((l', cs'), Inr ()) \<and> find_level name cs' = Some level
     \<and> extends_levels cs cs' \<and> (find_level name cs \<noteq> None \<longrightarrow> cs' = cs) \<and> same_components ops l l'
     \<and> lo_getNonComponentLogLevel ops l' = lo_getNonComponentLogLevel ops l
     \<and> lo_getComponentLogLevel ops l' = (lo_getComponentLogLevel ops l)(h := threshold ops level (lo_getComponentLogLevel ops l h))"
proof -
  obtain cs' level where level: "getComponentLogLevel ops l name h cs = (cs', Inr level)" "find_level name cs' = Some level"
    "extends_levels cs cs'" "find_level name cs \<noteq> None \<longrightarrow> cs' = cs"
    using getComponentLogLevel_eq [of ops l name h cs] by (elim exE conjE)
  show ?thesis
  proof (cases "lo_logLevelFromString ops (ll_logLevel level)")
    case None
    then have "configureComponentLogLevel ops h name (l, cs) = ((l, cs'), Inr ())" using level(1) by (simp add: configureComponentLogLevel_def)
    then show ?thesis using level(2-4) None by (auto simp: same_components_def threshold_def)
  next
    case (Some v)
    define l' where l': "l' = fst (lo_setComponentLogLevel ops h v l)"
    have "configureComponentLogLevel ops h name (l, cs) = ((l', cs'), Inr ())"
      using level(1) Some by (simp add: configureComponentLogLevel_def l')
    then show ?thesis using level(2-4) Some logit_set [OF assms l'] by (auto simp: same_components_def threshold_def)
  qed
qed

lemma configure_components_eq:
  assumes "logit_ok ops" and "set hs \<subseteq> set (lo_getComponentLogsList ops l)"
  shows "\<exists>l' cs'. configure_components ops hs (l, cs) = ((l', cs'), Inr ()) \<and> extends_levels cs cs' \<and> same_components ops l l'
     \<and> ((\<forall>h \<in> set hs. find_level (lo_getComponentName ops l h) cs \<noteq> None) \<longrightarrow> cs' = cs)
     \<and> lo_getNonComponentLogLevel ops l' = lo_getNonComponentLogLevel ops l
     \<and> (\<forall>h. h \<notin> set hs \<longrightarrow> lo_getComponentLogLevel ops l' h = lo_getComponentLogLevel ops l h)
     \<and> (\<forall>h \<in> set hs. \<exists>level. find_level (lo_getComponentName ops l h) cs' = Some level
          \<and> lo_getComponentLogLevel ops l' h = threshold ops level (lo_getComponentLogLevel ops l h))"
  using assms(2)
proof (induction hs arbitrary: l cs)
  case Nil
  then show ?case by (simp add: configure_components_def extends_refl same_components_def)
next
  case (Cons h hs)
  let ?name = "lo_getComponentName ops l"
  let ?get = "lo_getComponentLogLevel ops"
  obtain l1 cs1 level where one: "configureComponentLogLevel ops h (?name h) (l, cs) = ((l1, cs1), Inr ())"
      and level: "find_level (?name h) cs1 = Some level" "extends_levels cs cs1" "find_level (?name h) cs \<noteq> None \<longrightarrow> cs1 = cs"
      and l1: "same_components ops l l1" "lo_getNonComponentLogLevel ops l1 = lo_getNonComponentLogLevel ops l"
        "?get l1 = (?get l)(h := threshold ops level (?get l h))"
    using configureComponentLogLevel_eq [OF assms(1), of h l "?name h" cs] Cons.prems by auto
  have name1: "lo_getComponentName ops l1 = ?name" using l1(1) by (simp add: same_components_def)
  have "set hs \<subseteq> set (lo_getComponentLogsList ops l1)" using Cons.prems l1(1) by (simp add: same_components_def)
  from Cons.IH [OF this, of cs1] obtain l' cs' where rest: "configure_components ops hs (l1, cs1) = ((l', cs'), Inr ())"
      and cs': "extends_levels cs1 cs'" "(\<forall>h \<in> set hs. find_level (?name h) cs1 \<noteq> None) \<longrightarrow> cs' = cs1"
      and l': "same_components ops l1 l'" "lo_getNonComponentLogLevel ops l' = lo_getNonComponentLogLevel ops l1"
        "\<forall>k. k \<notin> set hs \<longrightarrow> ?get l' k = ?get l1 k"
        "\<forall>k \<in> set hs. \<exists>level. find_level (?name k) cs' = Some level \<and> ?get l' k = threshold ops level (?get l1 k)"
    unfolding name1 by blast
  have run: "configure_components ops (h # hs) (l, cs) = ((l', cs'), Inr ())"
    using one rest by (simp add: configure_components_def act_bind_def)
  have head: "find_level (?name h) cs' = Some level" using level(1) cs'(1) by (simp add: extends_levels_def)
  have "?get l' h = threshold ops level (?get l h)"
  proof (cases "h \<in> set hs")
    case True
    then show ?thesis using l'(4) head l1(3) by force
  next
    case False
    then show ?thesis using l'(3) l1(3) by simp
  qed
  moreover have "\<exists>level. find_level (?name k) cs' = Some level \<and> ?get l' k = threshold ops level (?get l k)" if "k \<in> set hs" "k \<noteq> h" for k
    using bspec [OF l'(4) that(1)] that(2) l1(3) by simp
  ultimately have "\<forall>k \<in> set (h # hs). \<exists>level. find_level (?name k) cs' = Some level \<and> ?get l' k = threshold ops level (?get l k)"
    using head by (metis set_ConsD)
  moreover have "\<forall>k. k \<notin> set (h # hs) \<longrightarrow> ?get l' k = ?get l k" using l'(3) l1(3) by simp
  moreover have "(\<forall>k \<in> set (h # hs). find_level (?name k) cs \<noteq> None) \<longrightarrow> cs' = cs"
    using level(3) cs'(2) by auto
  moreover have "extends_levels cs cs'" using level(2) cs'(1) by (rule extends_trans)
  moreover have "same_components ops l l'" using l1(1) l'(1) by (simp add: same_components_def)
  moreover have "lo_getNonComponentLogLevel ops l' = lo_getNonComponentLogLevel ops l" using l'(2) l1(2) by simp
  ultimately show ?case using run by - (rule exI [of _ l'], rule exI [of _ cs'], intro conjI, assumption+)
qed

section \<open>The whole configuration\<close>

lemma getLog_eq:
  "md_Log (getLog md) \<noteq> []" "meta_ok md \<Longrightarrow> meta_ok (getLog md)" "md_Log md \<noteq> [] \<Longrightarrow> getLog md = md"
  "md_SourceVariableThreadPool (getLog md) = md_SourceVariableThreadPool md"
  by (simp_all add: getLog_def push_back_def meta_ok_def log_ok_def ordered_def)

lemma getSourceVariableThreadPool_eq:
  "md_SourceVariableThreadPool (getSourceVariableThreadPool md) \<noteq> []"
  "meta_ok md \<Longrightarrow> meta_ok (getSourceVariableThreadPool md)" "md_Log (getSourceVariableThreadPool md) = md_Log md"
  "md_SourceVariableThreadPool md \<noteq> [] \<Longrightarrow> getSourceVariableThreadPool md = md"
  by (simp_all add: getSourceVariableThreadPool_def push_back_def meta_ok_def ordered_def)

lemma getComponentLogLevels_eq:
  "lg_ComponentLogLevels (getComponentLogLevels lg) \<noteq> []" "log_ok lg \<Longrightarrow> log_ok (getComponentLogLevels lg)"
  "lg_ComponentLogLevels lg \<noteq> [] \<Longrightarrow> getComponentLogLevels lg = lg"
  "lg_LogLevel (getComponentLogLevels lg) = lg_LogLevel lg" "lg_GeneralLogLevel (getComponentLogLevels lg) = lg_GeneralLogLevel lg"
  by (simp_all add: getComponentLogLevels_def push_back_def log_ok_def levels_ok_def ordered_def)

text \<open>
  A log that is complete: it has a general level, no element of the old form, and a level of its
  own for every registered component, once.
\<close>

definition log_complete :: "('l, 'v) logit_ops \<Rightarrow> 'l \<Rightarrow> log_element \<Rightarrow> bool" where
  "log_complete ops l lg \<longleftrightarrow> lg_LogLevel lg \<noteq> [] \<and> lg_GeneralLogLevel lg = [] \<and> lg_ComponentLogLevels lg \<noteq> []
     \<and> cs_ComponentLogLevel (hd (lg_ComponentLogLevels lg)) = []
     \<and> distinct (map ll_name (cs_LogLevel (hd (lg_ComponentLogLevels lg))))
     \<and> (\<forall>h \<in> set (lo_getComponentLogsList ops l). find_level (lo_getComponentName ops l h) (hd (lg_ComponentLogLevels lg)) \<noteq> None)"

text \<open>The thresholds of LogIt that a complete log gives, over those before.\<close>

definition thresholds_set :: "('l, 'v) logit_ops \<Rightarrow> log_element \<Rightarrow> 'l \<Rightarrow> 'l \<Rightarrow> bool" where
  "thresholds_set ops lg l l' \<longleftrightarrow>
     Some (lo_getNonComponentLogLevel ops l') = threshold ops (hd (lg_LogLevel lg)) (Some (lo_getNonComponentLogLevel ops l))
     \<and> (\<forall>h. h \<notin> set (lo_getComponentLogsList ops l) \<longrightarrow> lo_getComponentLogLevel ops l' h = lo_getComponentLogLevel ops l h)
     \<and> (\<forall>h \<in> set (lo_getComponentLogsList ops l). \<exists>level.
          find_level (lo_getComponentName ops l h) (hd (lg_ComponentLogLevels lg)) = Some level
          \<and> lo_getComponentLogLevel ops l' h = threshold ops level (lo_getComponentLogLevel ops l h))"

lemma configureComponentLogLevels_ok:
  assumes "logit_ok ops" and "configureComponentLogLevels ops remains (l, lg) = Some ((l', lg'), Inr ())"
    and "lg_LogLevel lg \<noteq> []" and "lg_GeneralLogLevel lg = []"
  shows "(log_ok lg \<longrightarrow> log_ok lg') \<and> log_complete ops l lg' \<and> lg_LogLevel lg' = lg_LogLevel lg \<and> same_components ops l l'
    \<and> lo_getNonComponentLogLevel ops l' = lo_getNonComponentLogLevel ops l
    \<and> (\<forall>h. h \<notin> set (lo_getComponentLogsList ops l) \<longrightarrow> lo_getComponentLogLevel ops l' h = lo_getComponentLogLevel ops l h)
    \<and> (\<forall>h \<in> set (lo_getComponentLogsList ops l). \<exists>level.
          find_level (lo_getComponentName ops l h) (hd (lg_ComponentLogLevels lg')) = Some level
          \<and> lo_getComponentLogLevel ops l' h = threshold ops level (lo_getComponentLogLevel ops l h))"
proof -
  let ?lg = "getComponentLogLevels lg"
  obtain cs css where css: "lg_ComponentLogLevels ?lg = cs # css" using getComponentLogLevels_eq(1) by (metis neq_Nil_conv)
  obtain cs1 where cs1: "convertOldComponentLogLevel remains cs = Some cs1"
    using assms(2) by (cases "convertOldComponentLogLevel remains cs") (simp_all add: configureComponentLogLevels_def css)
  have valid: "validateComponentLogLevels cs1 = Inr ()"
    using assms(2) by (cases "validateComponentLogLevels cs1") (simp_all add: configureComponentLogLevels_def css cs1)
  obtain l2 cs' where run: "configure_components ops (lo_getComponentLogsList ops l) (l, cs1) = ((l2, cs'), Inr ())"
      and cs': "extends_levels cs1 cs'" and l2: "same_components ops l l2"
        "lo_getNonComponentLogLevel ops l2 = lo_getNonComponentLogLevel ops l"
        "\<forall>h. h \<notin> set (lo_getComponentLogsList ops l) \<longrightarrow> lo_getComponentLogLevel ops l2 h = lo_getComponentLogLevel ops l h"
      and set: "\<forall>h \<in> set (lo_getComponentLogsList ops l). \<exists>level. find_level (lo_getComponentName ops l h) cs' = Some level
          \<and> lo_getComponentLogLevel ops l2 h = threshold ops level (lo_getComponentLogLevel ops l h)"
    using configure_components_eq [OF assms(1) order.refl, of l cs1] by (elim exE conjE)
  have lg': "lg' = ?lg\<lparr>lg_ComponentLogLevels := cs' # css\<rparr>" and l': "l' = l2"
    using assms(2) by (simp_all add: configureComponentLogLevels_def css cs1 valid run)
  have old: "cs_ComponentLogLevel cs' = []" using convertOldComponentLogLevel_eq(1) [OF cs1] cs' by (simp add: extends_levels_def)
  have "distinct (map ll_name (cs_LogLevel cs'))" using valid cs' by (simp add: validateComponentLogLevels_iff extends_levels_def)
  then have "log_complete ops l lg'"
    using assms(3,4) old set by (auto simp: log_complete_def lg' getComponentLogLevels_eq)
  moreover have "log_ok lg'" if "log_ok lg"
  proof -
    from that have "log_ok ?lg" by (rule getComponentLogLevels_eq(2))
    moreover from this have "levels_ok cs" by (simp add: log_ok_def css)
    then have "levels_ok cs'" using convertOldComponentLogLevel_eq(2) [OF cs1] cs' by (simp add: extends_levels_def)
    ultimately show ?thesis by (simp add: log_ok_def lg' css ordered_def)
  qed
  ultimately show ?thesis using l2 set by (simp add: lg' l' getComponentLogLevels_eq)
qed

text \<open>Configuring a complete log again leaves it as it is.\<close>

lemma configureComponentLogLevels_again:
  assumes "logit_ok ops" and "log_complete ops l lg"
  shows "\<exists>l'. configureComponentLogLevels ops remains (l, lg) = Some ((l', lg), Inr ())"
proof -
  obtain cs css where css: "lg_ComponentLogLevels lg = cs # css" using assms(2) by (auto simp: log_complete_def neq_Nil_conv)
  with assms(2) have cs: "convertOldComponentLogLevel remains cs = Some cs" "validateComponentLogLevels cs = Inr ()"
    by (simp_all add: log_complete_def convertOldComponentLogLevel_def validateComponentLogLevels_iff)
  have "\<forall>h \<in> set (lo_getComponentLogsList ops l). find_level (lo_getComponentName ops l h) cs \<noteq> None"
    using assms(2) css by (simp add: log_complete_def)
  then obtain l' where "configure_components ops (lo_getComponentLogsList ops l) (l, cs) = ((l', cs), Inr ())"
    using configure_components_eq [OF assms(1) order.refl, of l cs] by (elim exE conjE) simp
  moreover have "lg\<lparr>lg_ComponentLogLevels := cs # css\<rparr> = lg" using css by simp
  ultimately show ?thesis using cs css by (simp add: configureComponentLogLevels_def getComponentLogLevels_eq(3))
qed

lemma configureGeneralLogLevel_ok:
  assumes "logit_ok ops" and "configureGeneralLogLevel ops (l, lg) = (l', lg')"
  shows "lg_LogLevel lg' \<noteq> []" and "lg_GeneralLogLevel lg' = []" and "log_ok lg \<Longrightarrow> log_ok lg'" and "same_components ops l l'"
    and "lo_getComponentLogLevel ops l' = lo_getComponentLogLevel ops l"
    and "Some (lo_getNonComponentLogLevel ops l') = threshold ops (hd (lg_LogLevel lg')) (Some (lo_getNonComponentLogLevel ops l))"
    and "lg_LogLevel lg \<noteq> [] \<Longrightarrow> lg_GeneralLogLevel lg = [] \<Longrightarrow> lg' = lg"
proof -
  have lg': "lg' = getGeneralLogLevel ops l (convertOldGeneralLogLevel lg)"
    and l': "l' = (case lo_logLevelFromString ops (ll_logLevel (hd (lg_LogLevel lg'))) of
         Some level \<Rightarrow> lo_setNonComponentLogLevel ops level l | None \<Rightarrow> l)"
    using assms(2) by (auto simp: configureGeneralLogLevel_def Let_def split: option.splits)
  show "lg_LogLevel lg' \<noteq> []" "lg_GeneralLogLevel lg' = []" "log_ok lg \<Longrightarrow> log_ok lg'"
    unfolding lg' by (simp_all add: getGeneralLogLevel_eq convertOldGeneralLogLevel_eq)
  show "same_components ops l l'" "lo_getComponentLogLevel ops l' = lo_getComponentLogLevel ops l"
    "Some (lo_getNonComponentLogLevel ops l') = threshold ops (hd (lg_LogLevel lg')) (Some (lo_getNonComponentLogLevel ops l))"
    using logit_set_general [OF assms(1)] l' by (auto simp: same_components_def threshold_def split: option.splits)
  show "lg_LogLevel lg \<noteq> [] \<Longrightarrow> lg_GeneralLogLevel lg = [] \<Longrightarrow> lg' = lg"
    unfolding lg' by (simp add: getGeneralLogLevel_eq convertOldGeneralLogLevel_def)
qed

lemma configureLog_ok:
  assumes "logit_ok ops" and "configureLog ops remains (l, md) = Some ((l', md'), Inr ())"
  shows "(meta_ok md \<longrightarrow> meta_ok md') \<and> md_Log md' \<noteq> [] \<and> log_complete ops l (hd (md_Log md'))
     \<and> thresholds_set ops (hd (md_Log md')) l l' \<and> same_components ops l l'
     \<and> md_SourceVariableThreadPool md' = md_SourceVariableThreadPool md"
proof -
  obtain lg lgs where lg: "md_Log (getLog md) = lg # lgs" using getLog_eq(1) by (metis neq_Nil_conv)
  obtain l1 lg1 where general: "configureGeneralLogLevel ops (l, lg) = (l1, lg1)" by fastforce
  obtain lg' where comps: "configureComponentLogLevels ops remains (l1, lg1) = Some ((l', lg'), Inr ())"
      and md': "md' = (getLog md)\<lparr>md_Log := lg' # lgs\<rparr>"
    using assms(2) by (auto simp: configureLog_def Let_def lg general)
  note general = configureGeneralLogLevel_ok [OF assms(1) general]
  note comps = configureComponentLogLevels_ok [OF assms(1) comps general(1,2)]
  have "meta_ok md'" if "meta_ok md"
    using getLog_eq(2) [OF that] comps general(3) by (simp add: meta_ok_def md' lg ordered_def)
  moreover have "log_complete ops l lg'" using comps general(1,4) by (simp add: log_complete_def same_components_def)
  moreover have "thresholds_set ops lg' l l'"
    using comps general(4-6) by (simp add: thresholds_set_def same_components_def)
  moreover have "same_components ops l l'" using comps general(4) by (simp add: same_components_def)
  ultimately show ?thesis by (simp add: md' getLog_eq(4))
qed

lemma configureLog_again:
  assumes "logit_ok ops" and "md_Log md = lg # lgs" and "log_complete ops l lg"
  shows "\<exists>l'. configureLog ops remains (l, md) = Some ((l', md), Inr ())"
proof -
  obtain l1 lg1 where general: "configureGeneralLogLevel ops (l, lg) = (l1, lg1)" by fastforce
  note ok = configureGeneralLogLevel_ok [OF assms(1) general]
  have "lg1 = lg" using ok(7) assms(3) by (simp add: log_complete_def)
  moreover have "log_complete ops l1 lg" using assms(3) ok(4) by (simp add: log_complete_def same_components_def)
  ultimately obtain l' where "configureComponentLogLevels ops remains (l1, lg1) = Some ((l', lg), Inr ())"
    using configureComponentLogLevels_again [OF assms(1)] by blast
  moreover have "md\<lparr>md_Log := lg # lgs\<rparr> = md" using assms(2) by simp
  ultimately show ?thesis using general assms(2) by (simp add: configureLog_def getLog_eq(3))
qed

lemma configureMeta_again:
  assumes "logit_ok ops" and "cf_StandardMetaData c = Some md" and "md_SourceVariableThreadPool md \<noteq> []"
    and "md_Log md = lg # lgs" and "log_complete ops l lg"
  shows "\<exists>l'. configureMeta ops remains (l, c) = Some ((l', c), Inr ()) \<and> thresholds_set ops lg l l'"
proof -
  obtain l' where l': "configureLog ops remains (l, md) = Some ((l', md), Inr ())"
    using configureLog_again [OF assms(1,4,5)] by blast
  moreover have "thresholds_set ops lg l l'" using configureLog_ok [OF assms(1) l'] assms(4) by simp
  moreover have "c\<lparr>cf_StandardMetaData := Some md\<rparr> = c" using assms(2) by simp
  ultimately show ?thesis
    using assms(2,3) by (simp add: configureMeta_def configureStandardMetaData_def getStandardMetaData_def
      configureSourceVariableThreadPool_def getSourceVariableThreadPool_eq(4))
qed

lemma configureMeta_ok:
  assumes "logit_ok ops" and "configureMeta ops remains (l, c) = Some ((l', c'), Inr ())"
  shows "\<exists>md. cf_StandardMetaData c' = Some md \<and> md_SourceVariableThreadPool md \<noteq> [] \<and> md_Log md \<noteq> []
     \<and> log_complete ops l (hd (md_Log md)) \<and> thresholds_set ops (hd (md_Log md)) l l' \<and> same_components ops l l'"
    and "configuration_ok c \<Longrightarrow> configuration_ok c'"
proof -
  let ?c = "getStandardMetaData c"
  have present: "cf_StandardMetaData ?c \<noteq> None" by (simp add: getStandardMetaData_def)
  then obtain md where md: "cf_StandardMetaData ?c = Some md" by blast
  obtain l1 md1 r where step: "configureLog ops remains (l, md) = Some ((l1, md1), r)"
    using assms(2) by (cases "configureLog ops remains (l, md)")
      (simp_all add: configureMeta_def configureStandardMetaData_def Let_def md, fastforce)
  then have log: "configureLog ops remains (l, md) = Some ((l', md1), Inr ())"
      and c': "c' = ?c\<lparr>cf_StandardMetaData := Some (getSourceVariableThreadPool md1)\<rparr>"
    using assms(2) by (cases r; simp add: configureMeta_def configureStandardMetaData_def configureSourceVariableThreadPool_def Let_def md)+
  note ok = configureLog_ok [OF assms(1) log]
  show "\<exists>md. cf_StandardMetaData c' = Some md \<and> md_SourceVariableThreadPool md \<noteq> [] \<and> md_Log md \<noteq> []
     \<and> log_complete ops l (hd (md_Log md)) \<and> thresholds_set ops (hd (md_Log md)) l l' \<and> same_components ops l l'"
    using ok by (simp add: c' getSourceVariableThreadPool_eq)
  show "configuration_ok c'" if "configuration_ok c"
  proof -
    have "configuration_ok ?c"
      using that by (simp add: configuration_ok_def getStandardMetaData_def meta_ok_def ordered_def)
    then have "list_ex (\<lambda>(i, k). i = StandardMetaData_id) (cf_order ?c)" "meta_ok md" using md by (simp_all add: configuration_ok_def)
    with ok show ?thesis by (simp add: c' configuration_ok_def getSourceVariableThreadPool_eq(2))
  qed
qed

lemma thresholds_again:
  assumes "thresholds_set ops lg l l'" and "thresholds_set ops lg l' l''" and "same_components ops l l'"
  shows "lo_getNonComponentLogLevel ops l'' = lo_getNonComponentLogLevel ops l'"
    and "lo_getComponentLogLevel ops l'' = lo_getComponentLogLevel ops l'"
proof -
  have "Some (lo_getNonComponentLogLevel ops l'') = Some (lo_getNonComponentLogLevel ops l')"
    using assms(1,2) threshold_idem unfolding thresholds_set_def by metis
  then show "lo_getNonComponentLogLevel ops l'' = lo_getNonComponentLogLevel ops l'" by simp
  show "lo_getComponentLogLevel ops l'' = lo_getComponentLogLevel ops l'"
  proof
    fix h
    show "lo_getComponentLogLevel ops l'' h = lo_getComponentLogLevel ops l' h"
    proof (cases "h \<in> set (lo_getComponentLogsList ops l)")
      case True
      obtain level where "find_level (lo_getComponentName ops l h) (hd (lg_ComponentLogLevels lg)) = Some level"
        "lo_getComponentLogLevel ops l' h = threshold ops level (lo_getComponentLogLevel ops l h)"
        using assms(1) True unfolding thresholds_set_def by blast
      moreover obtain level' where "find_level (lo_getComponentName ops l h) (hd (lg_ComponentLogLevels lg)) = Some level'"
        "lo_getComponentLogLevel ops l'' h = threshold ops level' (lo_getComponentLogLevel ops l' h)"
        using assms(2,3) True unfolding thresholds_set_def same_components_def by metis
      ultimately show ?thesis by simp
    next
      case False
      then show ?thesis using assms(2,3) by (simp add: thresholds_set_def same_components_def)
    qed
  qed
qed

section \<open>Properties\<close>


text \<open>One component, whose threshold and the general one are texts; a configuration of the old form.\<close>

definition sample_logit :: "(string \<times> string, string) logit_ops" where
  "sample_logit = \<lparr>lo_INF = ''INF'', lo_logLevelToString = \<lambda>v. v, lo_logLevelFromString = Some,
     lo_getNonComponentLogLevel = fst, lo_setNonComponentLogLevel = \<lambda>v l. (v, snd l), lo_getComponentLogsList = \<lambda>l. [0],
     lo_getComponentName = \<lambda>l h. ''CalcVars'', lo_getComponentHandle = \<lambda>l name. if name = ''CalcVars'' then Some 0 else None,
     lo_getComponentLogLevel = \<lambda>l. [0 \<mapsto> snd l], lo_setComponentLogLevel = \<lambda>h v l. ((fst l, v), True)\<rparr>"

lemma sample_logit_ok: "logit_ok sample_logit"
  by (simp add: logit_ok_def sample_logit_def)

definition old_configuration :: configuration where
  "old_configuration = \<lparr>cf_StandardMetaData = Some \<lparr>md_name = ''StandardMetaData'',
     md_Log = [\<lparr>lg_name = ''Log'', lg_LogLevel = [], lg_GeneralLogLevel = [''WRN''],
       lg_ComponentLogLevels = [\<lparr>cs_name = ''ComponentLogLevels'', cs_LogLevel = [],
         cs_ComponentLogLevel = [\<lparr>cl_componentName = ''CalcVars'', cl_logLevel = ''DBG''\<rparr>], cs_order = [(ComponentLogLevel_id, 0)]\<rparr>],
       lg_order = [(GeneralLogLevel_id, 0), (ComponentLogLevels_id, 0)]\<rparr>],
     md_SourceVariableThreadPool = [], md_order = [(Log_id, 0)]\<rparr>, cf_order = [(StandardMetaData_id, 0)]\<rparr>"

definition left_behind :: "component_log_level list \<Rightarrow> nat \<Rightarrow> component_log_level" where
  "left_behind old i = old ! i"

lemma old_configured: "\<exists>c'. configureMeta sample_logit left_behind ((''INF'', ''INF''), old_configuration) = Some (((''WRN'', ''DBG''), c'), Inr ())"
  by (simp add: configureMeta_def configureStandardMetaData_def getStandardMetaData_def configureLog_def getLog_def
    configureGeneralLogLevel_def convertOldGeneralLogLevel_def getGeneralLogLevel_def push_log_level_def push_back_def clear_general_def
    clear_children_def configureComponentLogLevels_def getComponentLogLevels_def convertOldComponentLogLevel_def
    clear_component_def push_component_level_def validateComponentLogLevels_def configure_components_def configureComponentLogLevel_def
    getComponentLogLevel_def find_level_def old_configuration_def sample_logit_def act_bind_def Let_def)


section \<open>Setting a level and the size of the thread pool at run time\<close>

definition OpcUa_BadInvalidArgument :: "32 word" where "OpcUa_BadInvalidArgument = 0x80AB0000"
definition OpcUa_BadUnexpectedError :: "32 word" where "OpcUa_BadUnexpectedError = 0x80010000"

text \<open>The write of a log level by a client; a level that is not taken changes nothing that LogIt shows.\<close>

definition writeLogLevel :: "('l, 'v) logit_ops \<Rightarrow> string \<Rightarrow> string \<Rightarrow> 'l \<Rightarrow> 'l \<times> 32 word" where
  "writeLogLevel ops componentName level l = (case lo_logLevelFromString ops level of
       None \<Rightarrow> (l, OpcUa_BadInvalidArgument)
     | Some logLevel \<Rightarrow>
         if componentName = ''GeneralLogLevel'' then (lo_setNonComponentLogLevel ops logLevel l, 0)
         else case lo_getComponentHandle ops l componentName of
             None \<Rightarrow> (l, OpcUa_BadInvalidArgument)
           | Some handle \<Rightarrow> (case lo_setComponentLogLevel ops handle logLevel l of
                 (l, taken) \<Rightarrow> if \<not> taken then (l, OpcUa_BadUnexpectedError) else (l, 0)))"

lemma writeLogLevel_good:
  assumes "logit_ok ops" and "writeLogLevel ops name level l = (l', 0)"
  shows "(\<exists>v. lo_logLevelFromString ops level = Some v
    \<and> (if name = ''GeneralLogLevel'' then lo_getNonComponentLogLevel ops l' = v
       else \<exists>h. lo_getComponentHandle ops l name = Some h
         \<and> (h \<in> set (lo_getComponentLogsList ops l) \<longrightarrow> lo_getComponentLogLevel ops l' h = Some v)))"
proof -
  obtain v where v: "lo_logLevelFromString ops level = Some v"
    using assms(2) by (cases "lo_logLevelFromString ops level") (simp_all add: writeLogLevel_def OpcUa_BadInvalidArgument_def)
  show ?thesis
  proof (cases "name = ''GeneralLogLevel''")
    case True
    then show ?thesis using assms(2) v logit_set_general(3) [OF assms(1) refl] by (auto simp: writeLogLevel_def)
  next
    case False
    then obtain h where h: "lo_getComponentHandle ops l name = Some h" "l' = fst (lo_setComponentLogLevel ops h v l)"
      using assms(2) v by (auto simp: writeLogLevel_def OpcUa_BadInvalidArgument_def OpcUa_BadUnexpectedError_def split: option.splits prod.splits if_splits)
    then show ?thesis using False v logit_set(4) [OF assms(1) _ h(2)] by simp
  qed
qed
end
