(* ===== verification/NodeQueries.thy ===== *)
theory NodeQueries
  imports NodeManager
begin

text \<open>
  Searching the address space, AddressSpace/include/ASNodeQueries.h, and what the metadata code does
  with it (Meta/include/meta.h, \<open>initializeMeta\<close> of Meta/src/meta.cpp). The nodes and their
  references are the toolkit's, here a record; a regular expression is its set of words, and the
  parameter \<open>compile\<close> of the pattern searches gives it or the text of the error. A template
  instance for a class \<open>T\<close> takes the parameter \<open>isT\<close>: the cast of the node to \<open>T\<close> gives
  the node again. A search follows the references of objects and need not end: then it is \<open>None\<close>.
\<close>

section \<open>The address space\<close>

datatype node_class = ObjectClass | VariableClass | MethodClass | OtherClass nat

record 'p address_space =
  as_namespace :: "16 word"
  as_getNode :: "node_id \<Rightarrow> 'p option"
  as_nodeId :: "'p \<Rightarrow> node_id"
  as_nodeClass :: "'p \<Rightarrow> node_class"
  as_targets :: "'p \<Rightarrow> 'p option list"
  as_objectsFolder :: "'p option"
  as_unreferenced :: "'p list"

definition findByStringId :: "'p address_space \<Rightarrow> ('p \<Rightarrow> bool) \<Rightarrow> string \<Rightarrow> 'p option" where
  "findByStringId nm isT stringId = (case as_getNode nm (StringId (as_namespace nm) stringId) of
       None \<Rightarrow> None
     | Some node \<Rightarrow> if isT node then Some node else None)"

text \<open>The test that all searches make of a node, its class apart.\<close>

definition name_and_type :: "'p address_space \<Rightarrow> ('p \<Rightarrow> bool) \<Rightarrow> (string \<Rightarrow> bool) \<Rightarrow> 'p \<Rightarrow> bool" where
  "name_and_type nm isT expression node = (case as_nodeId nm node of
       StringId ns sId \<Rightarrow> expression sId \<and> isT node
     | _ \<Rightarrow> False)"

text \<open>One turn of a loop that sums the matches below the targets of an object.\<close>

definition add_matches :: "('p list \<Rightarrow> ('p list \<times> 32 word) option) \<Rightarrow> 'p list \<times> 32 word \<Rightarrow> ('p list \<times> 32 word) option" where
  "add_matches search = (\<lambda>(storage, nMatched). Option.bind (search storage) (\<lambda>(storage, k). Some (storage, nMatched + k)))"

lemma add_matches_mono [partial_function_mono]:
  assumes "\<And>storage. mono_option (\<lambda>f. search f storage)"
  shows "mono_option (\<lambda>f. add_matches (search f) s)"
  unfolding add_matches_def case_prod_unfold by (rule bind_mono [OF assms]) (rule option.const_mono)

partial_function (option) findVariablesByRegex :: "'p address_space \<Rightarrow> ('p \<Rightarrow> bool) \<Rightarrow> (string \<Rightarrow> bool) \<Rightarrow> 'p option \<Rightarrow> 'p list
    \<Rightarrow> ('p list \<times> 32 word) option" where
  "findVariablesByRegex nm isT expression startNode storage = (case startNode of
       None \<Rightarrow> Some (storage, 0)
     | Some node \<Rightarrow>
         if as_nodeClass nm node = VariableClass
         then (if name_and_type nm isT expression node then Some (storage @ [node], 1) else Some (storage, 0))
         else if as_nodeClass nm node = ObjectClass
         then fold_opt (\<lambda>target. add_matches (findVariablesByRegex nm isT expression target)) (as_targets nm node) (storage, 0)
         else Some (storage, 0))"

partial_function (option) findAllByRegex :: "'p address_space \<Rightarrow> ('p \<Rightarrow> bool) \<Rightarrow> node_class \<Rightarrow> (string \<Rightarrow> bool) \<Rightarrow> 'p option
    \<Rightarrow> 'p list \<Rightarrow> ('p list \<times> 32 word) option" where
  "findAllByRegex nm isT nodeClass expression startNode storage = (case startNode of
       None \<Rightarrow> Some (storage, 0)
     | Some node \<Rightarrow>
         let (storage, numAdded) = (if as_nodeClass nm node = nodeClass \<and> name_and_type nm isT expression node
             then (storage @ [node], 1) else (storage, 0)) in
         if as_nodeClass nm node = ObjectClass
         then fold_opt (\<lambda>target. add_matches (findAllByRegex nm isT nodeClass expression target)) (as_targets nm node) (storage, 0)
         else Some (storage, numAdded))"

text \<open>
  The searches by pattern abort the process with a message when the pattern is not a regular
  expression; without a start node the pattern is not looked at.
\<close>

definition wrong_pattern :: "string \<Rightarrow> string \<Rightarrow> string" where
  "wrong_pattern pattern what = '' '' @ '' REGEX Expression is wrong:'' @ '' '' @ ('' '' @ pattern @ '' '' @ what @ '' '') @ '' ''"

definition findVariablesByPattern :: "(string \<Rightarrow> (string \<Rightarrow> bool) result) \<Rightarrow> 'p address_space \<Rightarrow> ('p \<Rightarrow> bool) \<Rightarrow> 'p option
    \<Rightarrow> string \<Rightarrow> 'p list \<Rightarrow> ('p list \<times> 32 word) option result" where
  "findVariablesByPattern compile nm isT startNode pattern storage =
     (if startNode = None then Inr (Some (storage, 0))
      else case compile pattern of
          Inl what \<Rightarrow> Inl (wrong_pattern pattern what)
        | Inr expression \<Rightarrow> Inr (findVariablesByRegex nm isT expression startNode storage))"

definition findAllByPattern :: "(string \<Rightarrow> (string \<Rightarrow> bool) result) \<Rightarrow> 'p address_space \<Rightarrow> ('p \<Rightarrow> bool) \<Rightarrow> 'p option
    \<Rightarrow> node_class \<Rightarrow> string \<Rightarrow> 'p list \<Rightarrow> ('p list \<times> 32 word) option result" where
  "findAllByPattern compile nm isT startNode nodeClass pattern storage =
     (if startNode = None then Inr (Some (storage, 0))
      else case compile pattern of
          Inl what \<Rightarrow> Inl (wrong_pattern pattern what)
        | Inr expression \<Rightarrow> Inr (findAllByRegex nm isT nodeClass expression startNode storage))"

text \<open>The loop over the nodes without a parent.\<close>

fun find_unreferenced :: "'p address_space \<Rightarrow> ('p \<Rightarrow> bool) \<Rightarrow> (string \<Rightarrow> bool) \<Rightarrow> 'p list \<Rightarrow> 'p list \<times> 32 word \<Rightarrow> 'p list \<times> 32 word" where
  "find_unreferenced nm isT expression [] (storage, numUnreferenced) = (storage, numUnreferenced)"
| "find_unreferenced nm isT expression (node # nodes) (storage, numUnreferenced) =
     find_unreferenced nm isT expression nodes
       (if as_nodeClass nm node = ObjectClass \<and> name_and_type nm isT expression node
        then (storage @ [node], numUnreferenced + 1) else (storage, numUnreferenced))"

definition findAllObjectsByPatternInNodeManager :: "(string \<Rightarrow> (string \<Rightarrow> bool) result) \<Rightarrow> 'p address_space \<Rightarrow> ('p \<Rightarrow> bool)
    \<Rightarrow> string \<Rightarrow> 'p list \<Rightarrow> ('p list \<times> 32 word) option result" where
  "findAllObjectsByPatternInNodeManager compile nm isT pattern storage = (case compile pattern of
       Inl what \<Rightarrow> Inl (wrong_pattern pattern what)
     | Inr expression \<Rightarrow> Inr (Option.bind (findAllByRegex nm isT ObjectClass expression (as_objectsFolder nm) storage)
         (\<lambda>(storage, numReferenced). Some (case find_unreferenced nm isT expression (as_unreferenced nm) (storage, 0) of
            (storage, numUnreferenced) \<Rightarrow> (storage, numReferenced + numUnreferenced)))))"

section \<open>The metadata objects\<close>

text \<open>
  The outcome of the functions that look for a metadata object: they go on, end the process with
  an exit code, or abort it with a message; \<open>None\<close> is a search that does not end.
\<close>

datatype 'a ended = Continues 'a | Exits int | Aborts string

definition findStandardMetaDataChildObject :: "(string \<Rightarrow> (string \<Rightarrow> bool) result) \<Rightarrow> 'p address_space \<Rightarrow> ('p \<Rightarrow> bool)
    \<Rightarrow> string \<Rightarrow> 'p ended option" where
  "findStandardMetaDataChildObject compile nm isT childName =
     (case findAllObjectsByPatternInNodeManager compile nm isT (''StandardMetaData.'' @ childName) [] of
        Inl message \<Rightarrow> Some (Aborts message)
      | Inr found \<Rightarrow> Option.bind found (\<lambda>(children, k).
          Some (if length children \<noteq> 1 then Exits 1 else Continues (children ! 0))))"

text \<open>The texts that the build generates, and the setters of the generated classes.\<close>

record ('p, 'w) meta_ops =
  mo_isBuildInformation :: "'p \<Rightarrow> bool"
  mo_isQuasar :: "'p \<Rightarrow> bool"
  mo_isServer :: "'p \<Rightarrow> bool"
  mo_buildHost :: string
  mo_buildTime :: string
  mo_commitID :: string
  mo_toolkitLibs :: string
  mo_version :: string
  mo_set :: "'p \<Rightarrow> string \<Rightarrow> string \<Rightarrow> 'w \<Rightarrow> 'w"

definition and_then :: "'a ended option \<Rightarrow> ('a \<Rightarrow> 'b ended option) \<Rightarrow> 'b ended option" where
  "and_then m f = (case m of None \<Rightarrow> None | Some (Continues x) \<Rightarrow> f x | Some (Exits k) \<Rightarrow> Some (Exits k)
     | Some (Aborts message) \<Rightarrow> Some (Aborts message))"

definition initializeBuildInformation :: "(string \<Rightarrow> (string \<Rightarrow> bool) result) \<Rightarrow> ('p, 'w) meta_ops \<Rightarrow> 'p address_space
    \<Rightarrow> 'w \<Rightarrow> 'w ended option" where
  "initializeBuildInformation compile mo nm w =
     and_then (findStandardMetaDataChildObject compile nm (mo_isBuildInformation mo) ''BuildInformation'') (\<lambda>node.
       Some (Continues (mo_set mo node ''ToolkitLibs'' (mo_toolkitLibs mo) (mo_set mo node ''CommitID'' (mo_commitID mo)
         (mo_set mo node ''BuildTimestamp'' (mo_buildTime mo) (mo_set mo node ''BuildHost'' (mo_buildHost mo) w))))))"

definition intializeQuasar :: "(string \<Rightarrow> (string \<Rightarrow> bool) result) \<Rightarrow> ('p, 'w) meta_ops \<Rightarrow> 'p address_space \<Rightarrow> 'w \<Rightarrow> 'w ended option" where
  "intializeQuasar compile mo nm w =
     and_then (findStandardMetaDataChildObject compile nm (mo_isQuasar mo) ''Quasar'') (\<lambda>node.
       Some (Continues (mo_set mo node ''Version'' (mo_version mo) w)))"

definition initializeServer :: "(string \<Rightarrow> (string \<Rightarrow> bool) result) \<Rightarrow> ('p, 'w) meta_ops \<Rightarrow> 'p address_space \<Rightarrow> 'w \<Rightarrow> 'w ended option" where
  "initializeServer compile mo nm w =
     and_then (findStandardMetaDataChildObject compile nm (mo_isServer mo) ''Server'') (\<lambda>node.
       Some (Continues (mo_set mo node ''RemainingCertificateValidity'' ''uninitialized'' w)))"

definition initializeMeta :: "(string \<Rightarrow> (string \<Rightarrow> bool) result) \<Rightarrow> ('p, 'w) meta_ops \<Rightarrow> 'p address_space \<Rightarrow> 'w \<Rightarrow> 'w ended option" where
  "initializeMeta compile mo nm w =
     and_then (initializeBuildInformation compile mo nm w) (\<lambda>w.
     and_then (intializeQuasar compile mo nm w) (initializeServer compile mo nm))"

section \<open>The nodes that a search meets\<close>

text \<open>
  The nodes that hang under a node along the references of objects, in the order of the references,
  one entry for each path. There is such a list only when no path is infinite.
\<close>

inductive meets :: "'p address_space \<Rightarrow> 'p option \<Rightarrow> 'p list \<Rightarrow> bool"
  and meets_all :: "'p address_space \<Rightarrow> 'p option list \<Rightarrow> 'p list \<Rightarrow> bool" for nm where
  meets_none: "meets nm None []"
| meets_leaf: "as_nodeClass nm node \<noteq> ObjectClass \<Longrightarrow> meets nm (Some node) [node]"
| meets_object: "as_nodeClass nm node = ObjectClass \<Longrightarrow> meets_all nm (as_targets nm node) below \<Longrightarrow> meets nm (Some node) (node # below)"
| meets_Nil: "meets_all nm [] []"
| meets_Cons: "meets nm target below \<Longrightarrow> meets_all nm targets others \<Longrightarrow> meets_all nm (target # targets) (below @ others)"

definition is_hit :: "'p address_space \<Rightarrow> ('p \<Rightarrow> bool) \<Rightarrow> node_class \<Rightarrow> (string \<Rightarrow> bool) \<Rightarrow> 'p \<Rightarrow> bool" where
  "is_hit nm isT nodeClass expression node \<longleftrightarrow> as_nodeClass nm node = nodeClass \<and> name_and_type nm isT expression node"

text \<open>What a search returns: the hits, but their number only when it is not objects that it looks for.\<close>

definition reported :: "node_class \<Rightarrow> 'p list \<Rightarrow> 32 word" where
  "reported nodeClass hits = (if nodeClass = ObjectClass then 0 else of_nat (length hits))"

lemma reported_append: "reported nodeClass (xs @ ys) = reported nodeClass xs + reported nodeClass ys"
  by (simp add: reported_def)

lemma meets_findAllByRegex:
  "meets nm start nodes \<Longrightarrow> findAllByRegex nm isT nodeClass expression start storage
     = Some (storage @ filter (is_hit nm isT nodeClass expression) nodes,
         reported nodeClass (filter (is_hit nm isT nodeClass expression) nodes))"
  "meets_all nm targets nodes \<Longrightarrow> fold_opt (\<lambda>target. add_matches (findAllByRegex nm isT nodeClass expression target)) targets (storage, k)
     = Some (storage @ filter (is_hit nm isT nodeClass expression) nodes,
         k + reported nodeClass (filter (is_hit nm isT nodeClass expression) nodes))"
proof (induction arbitrary: storage and storage k rule: meets_meets_all.inducts)
  case meets_none
  show ?case by (simp add: findAllByRegex.simps reported_def)
next
  case (meets_leaf node)
  then show ?case by (simp add: findAllByRegex.simps is_hit_def reported_def)
next
  case (meets_object node below)
  then show ?case by (auto simp: findAllByRegex.simps [of nm isT nodeClass expression "Some node"] is_hit_def reported_def)
next
  case meets_Nil
  show ?case by (simp add: reported_def)
next
  case (meets_Cons target below targets others)
  then show ?case by (simp add: add_matches_def reported_append add.assoc)
qed

lemma findAllByRegex_meets:
  assumes "findAllByRegex nm isT nodeClass expression start storage = Some r"
  shows "\<exists>nodes. meets nm start nodes"
proof (rule findAllByRegex.raw_induct [OF _ assms, where P = "\<lambda>nm isT nodeClass expression start storage r. \<exists>nodes. meets nm start nodes"], goal_cases)
  case (1 search nm isT nodeClass expression start storage r)
  have all: "\<exists>nodes. meets_all nm targets nodes"
    if "fold_opt (\<lambda>target. add_matches (search nm isT nodeClass expression target)) targets s = Some r" for targets s
    using that
  proof (induction targets arbitrary: s)
    case Nil
    show ?case by (rule exI [of _ "[]"]) (rule meets_Nil)
  next
    case (Cons target targets)
    then obtain s' where one: "add_matches (search nm isT nodeClass expression target) s = Some s'"
        and rest: "fold_opt (\<lambda>target. add_matches (search nm isT nodeClass expression target)) targets s' = Some r"
      by (auto simp: bind_eq_Some_conv)
    from one obtain storage r' where "search nm isT nodeClass expression target storage = Some r'"
      by (auto simp: add_matches_def bind_eq_Some_conv split: prod.splits)
    then obtain below where "meets nm target below" using 1(1) by blast
    moreover obtain others where "meets_all nm targets others" using Cons.IH [OF rest] by blast
    ultimately show ?case by (blast intro: meets_Cons)
  qed
  show ?case
  proof (cases start)
    case None
    then show ?thesis by (blast intro: meets_none)
  next
    case (Some node)
    show ?thesis
    proof (cases "as_nodeClass nm node = ObjectClass")
      case True
      then obtain s where "fold_opt (\<lambda>target. add_matches (search nm isT nodeClass expression target)) (as_targets nm node) s = Some r"
        using 1(2) Some by (auto split: if_splits)
      with all True Some show ?thesis by (blast intro: meets_object)
    next
      case False
      with Some show ?thesis by (blast intro: meets_leaf)
    qed
  qed
qed

lemma meets_findVariablesByRegex:
  "meets nm start nodes \<Longrightarrow> findVariablesByRegex nm isT expression start storage
     = Some (storage @ filter (is_hit nm isT VariableClass expression) nodes,
         of_nat (length (filter (is_hit nm isT VariableClass expression) nodes)))"
  "meets_all nm targets nodes \<Longrightarrow> fold_opt (\<lambda>target. add_matches (findVariablesByRegex nm isT expression target)) targets (storage, k)
     = Some (storage @ filter (is_hit nm isT VariableClass expression) nodes,
         k + of_nat (length (filter (is_hit nm isT VariableClass expression) nodes)))"
proof (induction arbitrary: storage and storage k rule: meets_meets_all.inducts)
  case meets_none
  show ?case by (simp add: findVariablesByRegex.simps)
next
  case (meets_leaf node)
  then show ?case by (simp add: findVariablesByRegex.simps is_hit_def)
next
  case (meets_object node below)
  then show ?case by (simp add: findVariablesByRegex.simps [of nm isT expression "Some node"] is_hit_def)
next
  case (meets_Cons target below targets others)
  then show ?case by (simp add: add_matches_def add.assoc)
qed simp

text \<open>A search ends where every path does, and only there.\<close>

lemma ranked_meets:
  assumes "\<And>node target. as_nodeClass nm node = ObjectClass \<Longrightarrow> Some target \<in> set (as_targets nm node) \<Longrightarrow> rank target < (rank node :: nat)"
  shows "\<exists>nodes. meets nm start nodes"
proof -
  have "\<exists>nodes. meets nm (Some node) nodes" if "rank node < k" for k node
    using that
  proof (induction k arbitrary: node)
    case (Suc k)
    have all: "\<exists>below. meets_all nm targets below" if "set targets \<subseteq> set (as_targets nm node)" "as_nodeClass nm node = ObjectClass" for targets
      using that(1)
    proof (induction targets)
      case (Cons target targets)
      then obtain others where others: "meets_all nm targets others" by auto
      have "\<exists>below. meets nm target below"
      proof (cases target)
        case (Some m)
        then have "rank m < k" using assms [OF that(2), of m] Cons.prems Suc.prems by simp
        then show ?thesis using Suc.IH Some by simp
      qed (auto intro: meets_none)
      with others show ?case by (blast intro: meets_Cons)
    qed (auto intro: meets_Nil)
    show ?case
    proof (cases "as_nodeClass nm node = ObjectClass")
      case True
      with all [OF order.refl] show ?thesis by (blast intro: meets_object)
    qed (auto intro: meets_leaf)
  qed simp
  then show ?thesis by (cases start) (auto intro: meets_none)
qed

inductive_cases meets_SomeE: "meets nm (Some node) nodes"
inductive_cases meets_NoneE: "meets nm None nodes"
inductive_cases meets_all_NilE: "meets_all nm [] nodes"
inductive_cases meets_all_ConsE: "meets_all nm (target # targets) nodes"

lemma meets_unique:
  "meets nm start nodes \<Longrightarrow> meets nm start nodes' \<Longrightarrow> nodes' = nodes"
  "meets_all nm targets nodes \<Longrightarrow> meets_all nm targets nodes' \<Longrightarrow> nodes' = nodes"
  by (induction arbitrary: nodes' and nodes' rule: meets_meets_all.inducts)
    (blast elim: meets_NoneE meets_SomeE meets_all_NilE meets_all_ConsE)+

definition child :: "'p address_space \<Rightarrow> 'p rel" where
  "child nm = {(node, target). as_nodeClass nm node = ObjectClass \<and> Some target \<in> set (as_targets nm node)}"

lemma meets_all_target:
  "meets_all nm targets nodes \<Longrightarrow> target \<in> set targets \<Longrightarrow> \<exists>below. meets nm target below \<and> length below \<le> length nodes"
proof (induction targets arbitrary: nodes)
  case (Cons t targets)
  from Cons.prems(1) obtain b o' where split: "nodes = b @ o'" "meets nm t b" "meets_all nm targets o'" by (rule meets_all_ConsE) 
  show ?case
  proof (cases "target = t")
    case True
    then show ?thesis using split(1,2) by (intro exI [of _ b]) simp
  next
    case False
    then obtain below where "meets nm target below" "length below \<le> length o'" using Cons.IH [OF split(3)] Cons.prems(2) by auto
    then show ?thesis using split(1) by (intro exI [of _ below]) simp
  qed
qed simp

lemma meets_child:
  assumes "meets nm (Some node) nodes" and "(node, target) \<in> child nm"
  shows "\<exists>below. meets nm (Some target) below \<and> length below < length nodes"
proof -
  from assms(2) have node: "as_nodeClass nm node = ObjectClass" "Some target \<in> set (as_targets nm node)" by (auto simp: child_def)
  with assms(1) obtain below where "nodes = node # below" "meets_all nm (as_targets nm node) below" by (auto elim: meets_SomeE)
  with meets_all_target [OF _ node(2)] show ?thesis by fastforce
qed

lemma meets_descendant:
  "(node, target) \<in> (child nm)\<^sup>+ \<Longrightarrow> meets nm (Some node) nodes \<Longrightarrow> \<exists>below. meets nm (Some target) below \<and> length below < length nodes"
proof (induction arbitrary: nodes rule: trancl_induct)
  case (base target)
  show ?case by (rule meets_child [OF base.prems base.hyps])
next
  case (step m target)
  from step.IH [OF step.prems] obtain below where below: "meets nm (Some m) below" "length below < length nodes" by (elim exE conjE)
  from meets_child [OF below(1) step.hyps(2)] obtain last where "meets nm (Some target) last" "length last < length below" by (elim exE conjE)
  with below(2) show ?case by (intro exI [of _ last]) simp
qed

lemma cycle_never_ends:
  assumes "(node, node) \<in> (child nm)\<^sup>+"
  shows "findAllByRegex nm isT nodeClass expression (Some node) storage = None"
proof (rule ccontr)
  assume "\<not> ?thesis"
  then obtain nodes where nodes: "meets nm (Some node) nodes" using findAllByRegex_meets by blast
  from meets_descendant [OF assms nodes] obtain below where "meets nm (Some node) below" "length below < length nodes" by (elim exE conjE)
  with meets_unique(1) [OF nodes, of below] show False by simp
qed

lemma find_unreferenced_eq: "find_unreferenced nm isT expression nodes (storage, k)
   = (storage @ filter (is_hit nm isT ObjectClass expression) nodes, k + of_nat (length (filter (is_hit nm isT ObjectClass expression) nodes)))"
  by (induction nodes arbitrary: storage k) (auto simp: is_hit_def add.assoc)

section \<open>Properties\<close>

text \<open>
  C38: The search for nodes of a class ends exactly when no path of references below its start is
  infinite. It appends to the storage exactly the nodes it meets that are of the class and the type
  and whose identifier matches, in the order of the references, and it returns their number; but in
  a search for objects it returns 0, however many it appends.
\<close>

theorem node_search:
  "findAllByRegex nm isT nodeClass expression start storage = Some (storage', k) \<longleftrightarrow>
     (\<exists>nodes. meets nm start nodes
       \<and> storage' = storage @ filter (is_hit nm isT nodeClass expression) nodes
       \<and> k = (if nodeClass = ObjectClass then 0 else of_nat (length (filter (is_hit nm isT nodeClass expression) nodes))))"
proof
  assume found: "findAllByRegex nm isT nodeClass expression start storage = Some (storage', k)"
  then obtain nodes where "meets nm start nodes" using findAllByRegex_meets by blast
  with found meets_findAllByRegex(1) [OF this, of isT nodeClass expression storage]
  show "\<exists>nodes. meets nm start nodes \<and> storage' = storage @ filter (is_hit nm isT nodeClass expression) nodes
       \<and> k = (if nodeClass = ObjectClass then 0 else of_nat (length (filter (is_hit nm isT nodeClass expression) nodes)))"
    by (intro exI [of _ nodes]) (simp add: reported_def)
next
  assume "\<exists>nodes. meets nm start nodes \<and> storage' = storage @ filter (is_hit nm isT nodeClass expression) nodes
       \<and> k = (if nodeClass = ObjectClass then 0 else of_nat (length (filter (is_hit nm isT nodeClass expression) nodes)))"
  then show "findAllByRegex nm isT nodeClass expression start storage = Some (storage', k)"
    by (elim exE conjE) (simp only: meets_findAllByRegex(1) reported_def)
qed

text \<open>
  The metadata code goes on with an object exactly when it is the only object, below the objects
  folder or without a parent, of the type and with an identifier that matches the pattern.
\<close>

lemma metadata_object:
  "findStandardMetaDataChildObject compile nm isT childName = Some (Continues node) \<longleftrightarrow>
     (\<exists>expression nodes. compile (''StandardMetaData.'' @ childName) = Inr expression
       \<and> meets nm (as_objectsFolder nm) nodes
       \<and> filter (is_hit nm isT ObjectClass expression) (nodes @ as_unreferenced nm) = [node])"
proof (cases "compile (''StandardMetaData.'' @ childName)")
  case (Inl what)
  then show ?thesis
    by (simp add: findStandardMetaDataChildObject_def findAllObjectsByPatternInNodeManager_def)
next
  case (Inr expression)
  show ?thesis
  proof (cases "\<exists>nodes. meets nm (as_objectsFolder nm) nodes")
    case True
    then obtain nodes where nodes: "meets nm (as_objectsFolder nm) nodes" by blast
    let ?hits = "filter (is_hit nm isT ObjectClass expression) (nodes @ as_unreferenced nm)"
    have "findStandardMetaDataChildObject compile nm isT childName
        = Some (if length ?hits \<noteq> 1 then Exits 1 else Continues (?hits ! 0))"
      using Inr meets_findAllByRegex(1) [OF nodes, of isT ObjectClass expression "[]"]
      by (simp add: findStandardMetaDataChildObject_def findAllObjectsByPatternInNodeManager_def find_unreferenced_eq)
    moreover have "(if length hits \<noteq> 1 then Exits 1 else Continues (hits ! 0)) = Continues node \<longleftrightarrow> hits = [node]" for hits
      by (cases hits) auto
    moreover have "(\<exists>expr ns. compile (''StandardMetaData.'' @ childName) = Inr expr \<and> meets nm (as_objectsFolder nm) ns
        \<and> filter (is_hit nm isT ObjectClass expr) (ns @ as_unreferenced nm) = [node]) \<longleftrightarrow> ?hits = [node]"
      (is "?ex \<longleftrightarrow> _")
    proof
      assume ?ex
      then obtain expr ns where "compile (''StandardMetaData.'' @ childName) = Inr expr" "meets nm (as_objectsFolder nm) ns"
        "filter (is_hit nm isT ObjectClass expr) (ns @ as_unreferenced nm) = [node]" by (elim exE conjE)
      with Inr meets_unique(1) [OF nodes, of ns] show "?hits = [node]" by simp
    next
      assume "?hits = [node]"
      with Inr nodes show ?ex by (intro exI [of _ expression] exI [of _ nodes]) simp
    qed
    ultimately show ?thesis by (simp only: option.inject)
  next
    case False
    then have "findAllByRegex nm isT ObjectClass expression (as_objectsFolder nm) [] = None"
      using findAllByRegex_meets [of nm isT ObjectClass expression "as_objectsFolder nm" "[]"]
      by (cases "findAllByRegex nm isT ObjectClass expression (as_objectsFolder nm) []") auto
    with Inr False show ?thesis
      by (simp add: findStandardMetaDataChildObject_def findAllObjectsByPatternInNodeManager_def)
  qed
qed
end
