(* ===== verification/ServerRun.thy ===== *)
theory ServerRun
  imports FxSteps NodeQueries CalcOperations
begin

text \<open>
  The life of the server process: the start-up handler, the run and the shutdown of
  Server/src/BaseQuasarServer.cpp, the start of the two backends (Server/src/opcserver_open62541.cpp,
  Server/src/opcserver.cpp) and the running flag (Server/src/shutdown.cpp). The engines are those of
  the other theories; generated code, code of the server developer and the toolkit are parameters.
\<close>

section \<open>The server\<close>

record ('p, 'v, 'w) server =
  se_fx :: "'p fx_system"
  se_calculation :: "'v calculation"
  se_world :: 'w
  se_failed :: bool
  se_running :: bool

type_synonym ('s, 'r) fallible = "'s \<Rightarrow> 's \<times> 'r result"

record ('p, 'v, 'w, 'q) server_ops =
  so_configure :: "(('p, 'v, 'w) server, bool) fallible"
  so_validateDeviceTree :: "(('p, 'v, 'w) server, unit) fallible"
  so_initialize :: "(('p, 'v, 'w) server, unit) fallible"
  so_shutdown :: "('w, unit) fallible"
  so_mainLoop :: "('p, 'v, 'w) server \<Rightarrow> (('p, 'v, 'w) server \<times> unit result) option"
  so_udp :: udp_ops
  so_nodeOps :: node_ops
  so_nodes :: "('p, 'v, 'w) server \<Rightarrow> string \<Rightarrow> 'p node option"
  so_compile :: "string \<Rightarrow> (string \<Rightarrow> bool) result"
  so_meta :: "('q, 'w) meta_ops"
  so_space :: "('p, 'v, 'w) server \<Rightarrow> 'q address_space"
  so_initializeEnvironment :: int
  so_setServerConfig :: int
  so_createCertificate :: "(('p, 'v, 'w) server, int) fallible"
  so_destroyThreadPool :: "'w \<Rightarrow> 'w"
  so_unlinkDevices :: "'w \<Rightarrow> 'w"
  so_stop :: "'w \<Rightarrow> 'w"

section \<open>The running flag\<close>

definition ShutDownFlag :: "('p, 'v, 'w) server \<Rightarrow> bool" where
  "ShutDownFlag s \<longleftrightarrow> \<not> se_running s"

definition ShutDown :: "('p, 'v, 'w) server \<Rightarrow> ('p, 'v, 'w) server" where
  "ShutDown s = s\<lparr>se_running := False\<rparr>"

text \<open>The main loop of the base class sleeps until the flag is set; \<open>during k\<close> is what happens in its k-th sleep.\<close>

partial_function (option) mainLoop :: "(nat \<Rightarrow> ('p, 'v, 'w) server \<Rightarrow> ('p, 'v, 'w) server) \<Rightarrow> nat \<Rightarrow> ('p, 'v, 'w) server
    \<Rightarrow> ('p, 'v, 'w) server option" where
  "mainLoop during k s = (if ShutDownFlag s then Some s else mainLoop during (Suc k) (during k s))"

section \<open>The start-up handler\<close>

definition fail_handler :: "('p, 'v, 'w) server \<Rightarrow> (('p, 'v, 'w) server \<times> bool) ended option" where
  "fail_handler s = Some (Continues (s\<lparr>se_failed := True\<rparr>, False))"

text \<open>The engines: the Pub/Sub engine first; when the FX engine fails to start, both are shut down.\<close>

definition start_engines :: "('p, 'v, 'w, 'q) server_ops \<Rightarrow> ('p, 'v, 'w) server \<Rightarrow> (('p, 'v, 'w) server \<times> bool) ended option" where
  "start_engines ops s = (case startIfStaged (so_udp ops) (so_nodes ops s) (snd (se_fx s)) of
       (e, Inl _) \<Rightarrow> fail_handler (s\<lparr>se_fx := (fst (se_fx s), e)\<rparr>)
     | (e, Inr _) \<Rightarrow>
         let s = s\<lparr>se_fx := (fst (se_fx s), e)\<rparr> in
         case startIfStaged_fx (so_nodeOps ops) (so_nodes ops s) (se_fx s) of
           (fe, Inl _) \<Rightarrow> (case shutdown_fx fe of (f, e) \<Rightarrow> fail_handler (s\<lparr>se_fx := (f, shutdown e)\<rparr>))
         | (fe, Inr _) \<Rightarrow> Some (Continues (s\<lparr>se_fx := fe\<rparr>, True)))"

text \<open>The result of the device tree check is not looked at; an exception of it is.\<close>

definition configurationInitializerHandler :: "('p, 'v, 'w, 'q) server_ops \<Rightarrow> ('p, 'v, 'w) server
    \<Rightarrow> (('p, 'v, 'w) server \<times> bool) ended option" where
  "configurationInitializerHandler ops s = (case so_configure ops s of
       (s, Inl _) \<Rightarrow> fail_handler s
     | (s, Inr configured) \<Rightarrow>
         if \<not> configured then fail_handler s
         else case so_validateDeviceTree ops s of
           (s, Inl _) \<Rightarrow> fail_handler s
         | (s, Inr _) \<Rightarrow>
             and_then (initializeMeta (so_compile ops) (so_meta ops) (so_space ops s) (se_world s)) (\<lambda>w.
             Option.bind (setupSynchronization (optimize (se_calculation s))) (\<lambda>calculation.
             case so_initialize ops (s\<lparr>se_world := w, se_calculation := calculation\<rparr>) of
               (s, Inl _) \<Rightarrow> fail_handler s
             | (s, Inr _) \<Rightarrow> start_engines ops s)))"

section \<open>The backends\<close>

text \<open>
  The start of a backend before and after it calls the handler, from the toolkit: \<open>before\<close> may throw,
  \<open>after\<close> tells from the status of the handler whether the start of the toolkit succeeded.
\<close>

record ('p, 'v, 'w) toolkit_start =
  ts_before :: "('p, 'v, 'w) server \<Rightarrow> unit result"
  ts_after :: "bool \<Rightarrow> ('p, 'v, 'w) server \<Rightarrow> int result"

definition call_handler :: "('p, 'v, 'w, 'q) server_ops \<Rightarrow> ('p, 'v, 'w) toolkit_start \<Rightarrow> ('p, 'v, 'w) server
    \<Rightarrow> (('p, 'v, 'w) server \<times> int result) ended option" where
  "call_handler ops ts s = (case ts_before ts s of
       Inl e \<Rightarrow> Some (Continues (s, Inl e))
     | Inr _ \<Rightarrow> and_then (configurationInitializerHandler ops s) (\<lambda>(s, good). Some (Continues (s, ts_after ts good s))))"

text \<open>open62541: whatever the start of its server returned, the start returns 0.\<close>

definition start_open62541 :: "('p, 'v, 'w, 'q) server_ops \<Rightarrow> ('p, 'v, 'w) toolkit_start \<Rightarrow> ('p, 'v, 'w) server
    \<Rightarrow> (('p, 'v, 'w) server \<times> int result) ended option" where
  "start_open62541 ops ts s = and_then (call_handler ops ts s) (\<lambda>(s, r).
     Some (Continues (s, case r of Inl e \<Rightarrow> Inl e | Inr _ \<Rightarrow> Inr 0)))"

text \<open>The other toolkit: a start that failed throws. \<open>origin\<close> is the place in the source that the message names.\<close>

definition start_uasdk :: "string \<Rightarrow> ('p, 'v, 'w, 'q) server_ops \<Rightarrow> ('p, 'v, 'w) toolkit_start \<Rightarrow> ('p, 'v, 'w) server
    \<Rightarrow> (('p, 'v, 'w) server \<times> int result) ended option" where
  "start_uasdk origin ops ts s = and_then (call_handler ops ts s) (\<lambda>(s, r).
     Some (Continues (s, case r of Inl e \<Rightarrow> Inl e
       | Inr k \<Rightarrow> if k \<noteq> 0 then Inl (''At '' @ origin @ '' Failed to start-up the server.'') else Inr 0)))"

section \<open>The run\<close>

text \<open>The shutdown: the FX engine first, as its teardown needs the io thread of the Pub/Sub engine.\<close>

definition shut_engines :: "('p, 'v, 'w) server \<Rightarrow> ('p, 'v, 'w) server" where
  "shut_engines s = (case shutdown_fx (se_fx s) of (f, e) \<Rightarrow> s\<lparr>se_fx := (f, shutdown e)\<rparr>)"

definition finish_run :: "('p, 'v, 'w, 'q) server_ops \<Rightarrow> int \<Rightarrow> ('p, 'v, 'w) server \<Rightarrow> ('p, 'v, 'w) server \<times> int result" where
  "finish_run ops serverReturnCode s =
     (let s = shut_engines s in
      case so_shutdown ops (so_destroyThreadPool ops (se_world s)) of
        (w, Inl e) \<Rightarrow> (s\<lparr>se_world := w\<rparr>, Inl e)
      | (w, Inr _) \<Rightarrow> (s\<lparr>se_world := so_stop ops (so_unlinkDevices ops w)\<rparr>, Inr serverReturnCode))"

definition serverRun :: "('p, 'v, 'w, 'q) server_ops
    \<Rightarrow> (('p, 'v, 'w) server \<Rightarrow> (('p, 'v, 'w) server \<times> int result) ended option) \<Rightarrow> bool \<Rightarrow> ('p, 'v, 'w) server
    \<Rightarrow> (('p, 'v, 'w) server \<times> int result) ended option" where
  "serverRun ops start onlyCreateCertificate s =
     (if so_initializeEnvironment ops \<noteq> 0 then Some (Continues (s, Inr (so_initializeEnvironment ops)))
      else if so_setServerConfig ops \<noteq> 0 then Some (Continues (s, Inr (- 1)))
      else if onlyCreateCertificate then Some (Continues (so_createCertificate ops s))
      else and_then (start s) (\<lambda>(s, r). case r of
          Inl e \<Rightarrow> Some (Continues (finish_run ops 1 s))
        | Inr startServerReturn \<Rightarrow>
            if startServerReturn \<noteq> 0 then Some (Continues (s, Inr startServerReturn))
            else if se_failed s then Some (Continues (finish_run ops 1 (ShutDown s)))
            else map_option (\<lambda>(s, r). Continues (finish_run ops (case r of Inl _ \<Rightarrow> 1 | Inr _ \<Rightarrow> 0) s)) (so_mainLoop ops s)))"

text \<open>The command line: what boost made of it, or \<open>None\<close> when it could not.\<close>

record parsed_options =
  po_help :: bool
  po_printVersion :: bool
  po_printVersionExtraInfo :: bool
  po_createCertificateOnly :: bool
  po_config_file :: "string option"

definition run_options :: "parsed_options \<Rightarrow> int \<times> bool \<times> bool \<times> string" where
  "run_options vm = (0, False, po_createCertificateOnly vm,
     case po_config_file vm of None \<Rightarrow> ''config.xml'' | Some file \<Rightarrow> file)"

definition parseCommandLine :: "parsed_options option \<Rightarrow> int \<times> bool \<times> bool \<times> string" where
  "parseCommandLine vm = (case vm of
       None \<Rightarrow> (1, False, False, ''config.xml'')
     | Some vm \<Rightarrow>
         if po_help vm \<or> po_printVersion vm \<or> po_printVersionExtraInfo vm then (0, True, False, ''config.xml'')
         else run_options vm)"

definition startApplication :: "(string \<Rightarrow> ('p, 'v, 'w, 'q) server_ops)
    \<Rightarrow> (('p, 'v, 'w, 'q) server_ops \<Rightarrow> ('p, 'v, 'w) server \<Rightarrow> (('p, 'v, 'w) server \<times> int result) ended option)
    \<Rightarrow> parsed_options option \<Rightarrow> ('p, 'v, 'w) server \<Rightarrow> (('p, 'v, 'w) server \<times> int) ended option" where
  "startApplication ops start vm s = (case parseCommandLine vm of (ret, isHelpOrVersionOrExtra, isCreateCertificateOnly, configurationFileName) \<Rightarrow>
     if ret \<noteq> 0 \<or> isHelpOrVersionOrExtra then Some (Continues (s, ret))
     else and_then (serverRun (ops configurationFileName) (start (ops configurationFileName)) isCreateCertificateOnly s)
       (\<lambda>(s, r). Some (Continues (s, case r of Inl e \<Rightarrow> 1 | Inr ret \<Rightarrow> ret))))"

section \<open>Starting the Pub/Sub engine\<close>

definition same_control :: "('p, 'c) engine \<Rightarrow> ('p, 'c) engine \<Rightarrow> bool" where
  "same_control e e' \<longleftrightarrow> en_running e' = en_running e \<and> en_staged e' = en_staged e"

lemma same_control_preorder: "reflp same_control" "transp same_control"
  by (auto simp: same_control_def reflp_def transp_def)

lemma acquireReceiver_control: "act_moves same_control (acquireReceiver udp host port b)"
  by (auto simp: act_moves_def acquireReceiver_def same_control_def split: option.splits)

lemma build_reader_control: "act_moves same_control (build_reader udp nodes connection config :: (('p, 'c) engine, unit) action)"
  unfolding act_moves_def
proof
  fix s :: "('p, 'c) engine"
  have acq: "same_control t (fst (acquireReceiver udp host port b t))" for host port b and t :: "('p, 'c) engine"
    by (rule act_movesD [OF acquireReceiver_control surjective_pairing])
  have "same_control s (fst (acquireReceiver udp host port b (s\<lparr>en_readers := rs\<rparr>)))" for host port b rs
    using acq [of "s\<lparr>en_readers := rs\<rparr>" host port b] by (simp add: same_control_def)
  then show "same_control s (fst (build_reader udp nodes connection config s))"
    by (cases "res_map (\<lambda>f. resolveVariable nodes (fc_address f)) (drc_targets config)")
      (simp_all add: build_reader_def act_bind_def same_control_def)
qed

lemma build_group_control: "act_moves same_control (build_group udp nodes configuration connection config)"
proof (cases "udp_transmitter_error udp (cc_host connection) (cc_port connection) (cc_ttl connection) (cc_loopback connection)")
  case None
  show ?thesis unfolding build_group_def None option.case
    by (intro act_moves_bind act_moves_simple act_moves_modify same_control_preorder) (simp add: same_control_def commit_group_def)
next
  case (Some e)
  show ?thesis unfolding build_group_def Some option.case by (rule act_moves_simple(2) [OF same_control_preorder(1)])
qed

lemma buildRuntimes_control: "act_moves same_control (buildRuntimes udp nodes configuration)"
  unfolding buildRuntimes_def build_connection_def
  by (intro act_moves_for act_moves_bind build_group_control build_reader_control same_control_preorder)

lemma startIfStaged_cases:
  assumes "startIfStaged udp nodes e = (e', r)" and "\<not> en_running e"
  obtains (unstaged) "en_staged e = None" and "e' = e" and "r = Inr ()"
    | (failed) message where "en_staged e \<noteq> None" and "r = Inl message" and "\<not> en_running e'"
    | (started) configuration t where "en_staged e = Some configuration"
      and "buildRuntimes udp nodes configuration (e\<lparr>en_staged := None\<rparr>) = (t, Inr ())"
      and "e' = (start_all t)\<lparr>en_running := True\<rparr>" and "r = Inr ()"
proof (cases "en_staged e")
  case None
  then have "e' = e" "r = Inr ()" using assms(1) by (simp_all add: startIfStaged_def)
  with None show ?thesis by (intro unstaged)
next
  case (Some configuration)
  obtain t q where t: "buildRuntimes udp nodes configuration (e\<lparr>en_staged := None\<rparr>) = (t, q)" by fastforce
  have "\<not> en_running t" using act_movesD [OF buildRuntimes_control t] assms(2) by (simp add: same_control_def)
  show ?thesis
  proof (cases q)
    case (Inl message)
    then have "e' = t" "r = Inl message" using assms Some t by (simp_all add: startIfStaged_def act_bind_def)
    with Some \<open>\<not> en_running t\<close> show ?thesis by (intro failed) simp_all
  next
    case (Inr u)
    then have "e' = (start_all t)\<lparr>en_running := True\<rparr>" "r = Inr ()"
      using assms Some t by (simp_all add: startIfStaged_def startIoThread_def act_bind_def)
    with Some t Inr show ?thesis by (intro started) simp_all
  qed
qed

text \<open>What the configuration file declares has no owner.\<close>

definition unowned :: "('p, 'c) engine \<Rightarrow> bool" where
  "unowned e \<longleftrightarrow> (\<forall>g \<in> set (en_writerGroups e). g < en_next e \<and> gr_ownerTag (group_at e g) = [])
     \<and> (\<forall>kr \<in> set (en_readers e). rr_ownerTag (snd kr) = [])"

lemma unowned_control:
  "en_writerGroups e' = en_writerGroups e \<Longrightarrow> en_next e' = en_next e \<Longrightarrow> en_heap e' = en_heap e \<Longrightarrow> en_readers e' = en_readers e
    \<Longrightarrow> unowned e' = unowned e"
  by (simp add: unowned_def)

lemma acquireReceiver_unowned: "acquireReceiver udp host port b e = (e', r) \<Longrightarrow> unowned e' = unowned e"
  by (auto simp: acquireReceiver_def unowned_def split: option.splits)

lemma commit_unowned: "unowned e \<Longrightarrow> gr_ownerTag grp = [] \<Longrightarrow> unowned (commit_group grp e)"
  by (auto simp: unowned_def commit_group_def)

lemma build_group_unowned: "act_delivers unowned (build_group udp nodes configuration connection config)"
  by (auto simp: act_delivers_def build_group_def act_bind_Inr_iff commit_unowned split: option.splits)

lemma build_reader_unowned: "act_delivers unowned (build_reader udp nodes connection config)"
  unfolding act_delivers_def
proof (intro allI impI)
  fix e e' u assume e: "unowned e" and run: "build_reader udp nodes connection config e = (e', Inr u)"
  then obtain reader where new: "config_reader_key config \<notin> set (keys (en_readers e))" and tag: "rr_ownerTag reader = []"
    and acq: "acquireReceiver udp (cc_host connection) (cc_port connection) False
      (e\<lparr>en_readers := AList.update (config_reader_key config) reader (en_readers e)\<rparr>) = (e', Inr u)"
    by (auto simp: build_reader_def act_bind_Inr_iff split: if_splits) fastforce
  have "unowned (e\<lparr>en_readers := AList.update (config_reader_key config) reader (en_readers e)\<rparr>)"
    using e tag by (auto simp: unowned_def alist_update_new [OF new])
  then show "unowned e'" using acquireReceiver_unowned [OF acq] by simp
qed

lemma buildRuntimes_unowned: "act_delivers unowned (buildRuntimes udp nodes configuration)"
  unfolding buildRuntimes_def build_connection_def
  by (intro act_delivers_for act_delivers_bind build_group_unowned build_reader_unowned)

lemma started_unowned:
  assumes "engine_inv e" and "\<not> en_running e" and "startIfStaged udp nodes e = (e', Inr ())"
  shows "unowned e'"
  using assms(3,2)
proof (cases rule: startIfStaged_cases)
  case unstaged
  then show ?thesis using assms(1,2) by (simp add: engine_inv_def idle_def unowned_def)
next
  case (started configuration t)
  have "unowned (e\<lparr>en_staged := None\<rparr>)" using assms(1,2) by (simp add: engine_inv_def idle_def unowned_def)
  with act_deliversD [OF buildRuntimes_unowned this started(2)] started(3)
  show ?thesis by (simp add: start_all_def fold_schedule unowned_def)
qed simp

lemma unowned_owners:
  "unowned e \<Longrightarrow> filter_mset (\<lambda>t. t \<noteq> []) (group_owners e) = {#} \<and> filter_mset (\<lambda>tc. fst tc \<noteq> []) (reader_owners e) = {#}"
  by (auto simp: unowned_def group_owners_def reader_owners_def filter_mset_eq_conv)

lemma started_keeps_fx:
  assumes "fx_inv (f, e)" and "\<not> en_running e" and "startIfStaged udp nodes e = (e', Inr ())"
  shows "fx_inv (f, e')"
proof -
  have e: "engine_inv e" "registry_ok f" "\<not> fs_started f" using assms(1,2) by (auto simp: fx_inv_def)
  then have "\<not> ep_active (snd nep)" if "nep \<in> set (fs_endpoints f)" for nep
    using that by (auto simp: registry_ok_def endpoint_ok_def)
  then have "connected role f = []" for role by (auto simp: connected_def filter_empty_conv)
  then have "plane_ok (f, e')" using unowned_owners [OF started_unowned [OF e(1) assms(2,3)]] by (simp add: plane_ok_def)
  then show ?thesis using startIfStaged_inv [OF e(1) assms(3)] e by (simp add: fx_inv_def)
qed

section \<open>Every end of the run\<close>

lemma and_then_iff: "and_then m f = Some (Continues y) \<longleftrightarrow> (\<exists>x. m = Some (Continues x) \<and> f x = Some (Continues y))"
  by (auto simp: and_then_def split: option.splits ended.splits)

definition engines_idle :: "('p, 'v, 'w) server \<Rightarrow> bool" where
  "engines_idle s \<longleftrightarrow> fx_inv (se_fx s) \<and> \<not> fs_started (fst (se_fx s)) \<and> \<not> en_running (snd (se_fx s))"

text \<open>As \<open>engines_idle\<close>, but a Pub/Sub engine that failed to start may hold what it had built.\<close>

definition engines_halted :: "('p, 'v, 'w) server \<Rightarrow> bool" where
  "engines_halted s \<longleftrightarrow> registry_ok (fst (se_fx s)) \<and> \<not> fs_started (fst (se_fx s)) \<and> \<not> en_running (snd (se_fx s))"

definition engines_stopped :: "('p, 'v, 'w) server \<Rightarrow> bool" where
  "engines_stopped s \<longleftrightarrow> \<not> fs_started (fst (se_fx s)) \<and> \<not> en_running (snd (se_fx s))
     \<and> list_all (\<lambda>nep. \<not> ep_active (snd nep)) (fs_endpoints (fst (se_fx s)))"

lemma idle_halted: "engines_idle s \<Longrightarrow> engines_halted s"
  by (simp add: engines_idle_def engines_halted_def fx_inv_def)

lemma engines_cong: "se_fx s' = se_fx s \<Longrightarrow> engines_halted s' = engines_halted s \<and> engines_idle s' = engines_idle s"
  by (simp add: engines_halted_def engines_idle_def)

text \<open>
  What the code of the developer and the generated code must do: configuring stages sections and
  starts no engine, and the main loop is a run of the engines.
\<close>

definition developer_ok :: "('p, 'v, 'w, 'q) server_ops \<Rightarrow> bool" where
  "developer_ok ops \<longleftrightarrow>
     (\<forall>s. engines_idle s \<longrightarrow> engines_idle (fst (so_configure ops s)) \<and> engines_idle (fst (so_validateDeviceTree ops s))
        \<and> engines_idle (fst (so_initialize ops s)))
     \<and> (\<forall>s s' r. so_mainLoop ops s = Some (s', r) \<longrightarrow> fx_inv (se_fx s) \<longrightarrow> fx_inv (se_fx s'))"

lemma developerD:
  assumes "developer_ok ops" and "engines_idle s"
  shows "so_configure ops s = (s1, q1) \<Longrightarrow> engines_idle s1" and "so_validateDeviceTree ops s = (s2, q2) \<Longrightarrow> engines_idle s2"
    and "so_initialize ops s = (s3, q3) \<Longrightarrow> engines_idle s3"
  using assms by (auto simp: developer_ok_def split: prod.splits dest!: spec [of _ s])

lemma shut_engines_fx: "fx_inv (se_fx s) \<Longrightarrow> engines_stopped (shut_engines s) \<and> engines_idle (shut_engines s)"
proof -
  assume inv: "fx_inv (se_fx s)"
  obtain f e where fe: "shutdown_fx (se_fx s) = (f, e)" by fastforce
  have k: "fx_inv (f, e)" "\<not> fs_started f" "\<forall>(n, ep) \<in> set (fs_endpoints f). \<not> ep_active ep"
    using shutdown_keeps [OF inv] fe by simp_all
  have e: "engine_inv e" using k(1) by (simp add: fx_inv_def)
  then have "connected role f = []" for role using k(3) by (auto simp: connected_def filter_empty_conv)
  then have "fx_inv (f, shutdown e)"
    using k(1,2) shutdown_inv(1) [OF e] shutdown_owners [OF e] by (simp add: fx_inv_def plane_ok_def)
  then show "engines_stopped (shut_engines s) \<and> engines_idle (shut_engines s)"
    using k(2,3) shutdown_inv(2) [OF e] by (auto simp: engines_stopped_def engines_idle_def shut_engines_def fe list_all_iff)
qed

lemma shut_engines_halted: "engines_halted s \<Longrightarrow> engines_stopped (shut_engines s)"
  by (cases "se_fx s") (auto simp: engines_halted_def engines_stopped_def shut_engines_def shutdown_fx_def PubSubEngine.shutdown_def
      registry_ok_def endpoint_ok_def list_all_iff)

lemma finish_run_stops:
  assumes "engines_halted s \<or> fx_inv (se_fx s)"
  shows "engines_stopped (fst (finish_run ops code s))" and "snd (finish_run ops code s) = Inr k \<Longrightarrow> k = code"
proof -
  have "engines_stopped (shut_engines s)" using assms shut_engines_fx shut_engines_halted by blast
  then show "engines_stopped (fst (finish_run ops code s))"
    by (simp add: finish_run_def Let_def engines_stopped_def split: prod.split sum.split)
  show "snd (finish_run ops code s) = Inr k \<Longrightarrow> k = code"
    by (auto simp: finish_run_def Let_def split: prod.splits sum.splits)
qed

text \<open>The engines after the handler: ready to run, or halted and the failure recorded.\<close>

definition handler_post :: "('p, 'v, 'w) server \<Rightarrow> bool \<Rightarrow> bool" where
  "handler_post s good \<longleftrightarrow> (if good then fx_inv (se_fx s) else se_failed s \<and> engines_halted s)"

lemma fail_handler_post: "engines_halted s \<Longrightarrow> fail_handler s = Some (Continues (s', good)) \<Longrightarrow> handler_post s' good"
  using engines_cong [of "s\<lparr>se_failed := True\<rparr>" s] by (auto simp: fail_handler_def handler_post_def)

lemma start_engines_post:
  assumes "engines_idle s" and "start_engines ops s = Some (Continues (s', good))"
  shows "handler_post s' good"
proof -
  obtain f e where fe: "se_fx s = (f, e)" by fastforce
  have idle: "fx_inv (f, e)" "\<not> fs_started f" "\<not> en_running e" using assms(1) by (simp_all add: engines_idle_def fe)
  obtain e1 r1 where pubsub: "startIfStaged (so_udp ops) (so_nodes ops s) e = (e1, r1)" by fastforce
  show ?thesis
  proof (cases r1)
    case (Inl message)
    have "\<not> en_running e1" using pubsub idle(3) by (rule startIfStaged_cases) (simp_all add: Inl)
    then have "engines_halted (s\<lparr>se_fx := (f, e1)\<rparr>)" using idle by (simp add: engines_halted_def fx_inv_def)
    then show ?thesis by (rule fail_handler_post) (use assms(2) in \<open>simp add: start_engines_def fe pubsub Inl\<close>)
  next
    case (Inr u)
    let ?s1 = "s\<lparr>se_fx := (f, e1)\<rparr>"
    have inv1: "fx_inv (f, e1)" by (rule started_keeps_fx [OF idle(1,3)]) (use pubsub Inr in simp)
    obtain fe2 r2 where fx: "startIfStaged_fx (so_nodeOps ops) (so_nodes ops ?s1) (f, e1) = (fe2, r2)" by fastforce
    have inv2: "fx_inv fe2" by (rule start_keeps [OF inv1 fx])
    show ?thesis
    proof (cases r2)
      case (Inl message)
      have "engines_halted (shut_engines (s\<lparr>se_fx := fe2\<rparr>))"
        using shut_engines_fx [of "s\<lparr>se_fx := fe2\<rparr>"] inv2 by (simp add: idle_halted)
      then show ?thesis
        by (rule fail_handler_post) (use assms(2) in \<open>simp add: start_engines_def fe pubsub Inr fx Inl shut_engines_def split: prod.splits\<close>)
    next
      case (Inr v)
      then show ?thesis using assms(2) inv2 \<open>r1 = Inr u\<close> by (auto simp: start_engines_def fe pubsub fx handler_post_def)
    qed
  qed
qed

lemma handler_result:
  assumes "developer_ok ops" and "engines_idle s" and "configurationInitializerHandler ops s = Some (Continues (s', good))"
  shows "handler_post s' good"
proof -
  obtain s1 r1 where configured: "so_configure ops s = (s1, r1)" by fastforce
  have idle1: "engines_idle s1" by (rule developerD(1) [OF assms(1,2) configured])
  obtain s2 r2 where valid: "so_validateDeviceTree ops s1 = (s2, r2)" by fastforce
  have idle2: "engines_idle s2" by (rule developerD(2) [OF assms(1) idle1 valid])
  consider (configure_failed) "fail_handler s1 = Some (Continues (s', good))"
    | (invalid) "fail_handler s2 = Some (Continues (s', good))"
    | (go) w calculation where "(case so_initialize ops (s2\<lparr>se_world := w, se_calculation := calculation\<rparr>) of
               (s, Inl _) \<Rightarrow> fail_handler s | (s, Inr _) \<Rightarrow> start_engines ops s) = Some (Continues (s', good))"
    using assms(3) by (auto simp: configurationInitializerHandler_def configured valid and_then_iff bind_eq_Some_conv split: sum.splits if_splits)
  then show ?thesis
  proof cases
    case configure_failed
    then show ?thesis using fail_handler_post idle_halted idle1 by blast
  next
    case invalid
    then show ?thesis using fail_handler_post idle_halted idle2 by blast
  next
    case (go w calculation)
    let ?s = "s2\<lparr>se_world := w, se_calculation := calculation\<rparr>"
    obtain s3 r3 where init: "so_initialize ops ?s = (s3, r3)" by fastforce
    have "engines_idle ?s" using idle2 engines_cong [of ?s s2] by simp
    from developerD(3) [OF assms(1) this init] have idle3: "engines_idle s3" .
    show ?thesis
    proof (cases r3)
      case (Inl e)
      show ?thesis by (rule fail_handler_post [OF idle_halted [OF idle3]]) (use go init Inl in simp)
    next
      case (Inr u)
      show ?thesis by (rule start_engines_post [OF idle3]) (use go init Inr in simp)
    qed
  qed
qed

text \<open>Both backends: the start either returns 0 or throws.\<close>

definition backend_start :: "('p, 'v, 'w, 'q) server_ops
    \<Rightarrow> (('p, 'v, 'w) server \<Rightarrow> (('p, 'v, 'w) server \<times> int result) ended option) \<Rightarrow> bool" where
  "backend_start ops start \<longleftrightarrow> (\<exists>ts. start = start_open62541 ops ts) \<or> (\<exists>origin ts. start = start_uasdk origin ops ts)"

lemma backend_start_result:
  assumes "developer_ok ops" and "engines_idle s" and "backend_start ops start" and "start s = Some (Continues (s', r))"
  shows "(r = Inr 0 \<or> (\<exists>e. r = Inl e)) \<and> (engines_halted s' \<or> fx_inv (se_fx s'))
    \<and> (\<not> se_failed s' \<longrightarrow> r = Inr 0 \<longrightarrow> fx_inv (se_fx s'))"
proof -
  have "\<exists>ts q. call_handler ops ts s = Some (Continues (s', q)) \<and> (r = Inr 0 \<and> (\<exists>k. q = Inr k) \<or> (\<exists>e. r = Inl e))"
  proof (cases "\<exists>ts. start = start_open62541 ops ts")
    case True
    then obtain ts q where "call_handler ops ts s = Some (Continues (s', q))" "r = (case q of Inl e \<Rightarrow> Inl e | Inr _ \<Rightarrow> Inr 0)"
      using assms(4) by (auto simp: start_open62541_def and_then_iff)
    then show ?thesis by (cases q) auto
  next
    case False
    then obtain origin ts q where "call_handler ops ts s = Some (Continues (s', q))"
      "r = (case q of Inl e \<Rightarrow> Inl e | Inr k \<Rightarrow> if k \<noteq> 0 then Inl (''At '' @ origin @ '' Failed to start-up the server.'') else Inr 0)"
      using assms(3,4) unfolding backend_start_def by (auto simp: start_uasdk_def and_then_iff)
    then show ?thesis by (cases q) auto
  qed
  then obtain ts q where call: "call_handler ops ts s = Some (Continues (s', q))" and r: "r = Inr 0 \<and> (\<exists>k. q = Inr k) \<or> (\<exists>e. r = Inl e)" by blast
  show ?thesis
  proof (cases "ts_before ts s")
    case (Inl e)
    then show ?thesis using call r idle_halted [OF assms(2)] by (auto simp: call_handler_def)
  next
    case (Inr u)
    then obtain good where "configurationInitializerHandler ops s = Some (Continues (s', good))"
      using call by (auto simp: call_handler_def and_then_iff)
    from handler_result [OF assms(1,2) this] r show ?thesis by (auto simp: handler_post_def split: if_splits)
  qed
qed

section \<open>Properties\<close>


text \<open>A server without sections for the engines, whose address space has the three metadata objects.\<close>

definition sample_space :: "nat address_space" where
  "sample_space = \<lparr>as_namespace = 2, as_getNode = \<lambda>_. None,
     as_nodeId = \<lambda>n. StringId 2 (''StandardMetaData.'' @ (if n = 0 then ''BuildInformation'' else if n = 1 then ''Quasar'' else ''Server'')),
     as_nodeClass = \<lambda>_. ObjectClass, as_targets = \<lambda>_. [], as_objectsFolder = None, as_unreferenced = [0, 1, 2]\<rparr>"

definition sample_meta :: "(nat, string list) meta_ops" where
  "sample_meta = \<lparr>mo_isBuildInformation = \<lambda>n. n = 0, mo_isQuasar = \<lambda>n. n = 1, mo_isServer = \<lambda>n. n = 2, mo_buildHost = ''host'',
     mo_buildTime = ''time'', mo_commitID = ''id'', mo_toolkitLibs = ''libs'', mo_version = ''1.0'',
     mo_set = \<lambda>n name v w. w @ [name @ ''='' @ v]\<rparr>"

lemma sample_meta_run: "initializeMeta (\<lambda>pattern. Inr (\<lambda>t. t = pattern)) sample_meta sample_space [] =
  Some (Continues [''BuildHost=host'', ''BuildTimestamp=time'', ''CommitID=id'', ''ToolkitLibs=libs'', ''Version=1.0'',
    ''RemainingCertificateValidity=uninitialized''])"
proof -
  have "findStandardMetaDataChildObject (\<lambda>pattern. Inr (\<lambda>t. t = pattern)) sample_space (mo_isBuildInformation sample_meta) ''BuildInformation'' = Some (Continues 0)"
    "findStandardMetaDataChildObject (\<lambda>pattern. Inr (\<lambda>t. t = pattern)) sample_space (mo_isQuasar sample_meta) ''Quasar'' = Some (Continues 1)"
    "findStandardMetaDataChildObject (\<lambda>pattern. Inr (\<lambda>t. t = pattern)) sample_space (mo_isServer sample_meta) ''Server'' = Some (Continues 2)"
    unfolding metadata_object
    by (rule exI, rule exI [of _ "[]"], intro conjI, rule refl, simp add: sample_space_def meets_none,
      simp add: sample_space_def sample_meta_def is_hit_def name_and_type_def)+
  then show ?thesis
    by (simp add: initializeMeta_def initializeBuildInformation_def intializeQuasar_def initializeServer_def and_then_def sample_meta_def)
qed

definition sample_calculation :: "nat calculation" where
  "sample_calculation = new_calculation \<lparr>nv_nodeId = OpaqueId 0, nv_value = \<lparr>dv_value = None, dv_statusCode = 0\<rparr>, nv_changeListeners = [], nv_calculated = None\<rparr>"

definition sample_server :: "(nat, nat, string list) server" where
  "sample_server = \<lparr>se_fx = (new_fx, new_engine), se_calculation = sample_calculation, se_world = [], se_failed = False, se_running = True\<rparr>"

definition sample_server_ops :: "(nat, nat, string list, nat) server_ops" where
  "sample_server_ops = \<lparr>so_configure = \<lambda>s. (s, Inr True), so_validateDeviceTree = \<lambda>s. (s, Inr ()), so_initialize = \<lambda>s. (s, Inr ()),
     so_shutdown = \<lambda>w. (w @ [''shutdown''], Inr ()), so_mainLoop = \<lambda>s. Some (s, Inr ()),
     so_udp = \<lparr>udp_transmitter_error = \<lambda>_ _ _ _. None, udp_receiver_error = \<lambda>_ _. None\<rparr>,
     so_nodeOps = \<lparr>no_namespace = 2, no_badStatus = \<lambda>_ _. None, no_idText = \<lambda>_. [], no_origin = \<lambda>_. []\<rparr>,
     so_nodes = \<lambda>_ _. None, so_compile = \<lambda>pattern. Inr (\<lambda>t. t = pattern), so_meta = sample_meta, so_space = \<lambda>_. sample_space,
     so_initializeEnvironment = 0, so_setServerConfig = 0, so_createCertificate = \<lambda>s. (s, Inr 0),
     so_destroyThreadPool = \<lambda>w. w, so_unlinkDevices = \<lambda>w. w, so_stop = \<lambda>w. w @ [''stopped'']\<rparr>"

definition sample_toolkit :: "(nat, nat, string list) toolkit_start" where
  "sample_toolkit = \<lparr>ts_before = \<lambda>_. Inr (), ts_after = \<lambda>good s. Inr (if good then 0 else 1)\<rparr>"


text \<open>The main loop of the base class ends exactly when the flag is set after some of its sleeps.\<close>

primrec after_sleeps :: "(nat \<Rightarrow> ('p, 'v, 'w) server \<Rightarrow> ('p, 'v, 'w) server) \<Rightarrow> nat \<Rightarrow> nat \<Rightarrow> ('p, 'v, 'w) server \<Rightarrow> ('p, 'v, 'w) server" where
  "after_sleeps during k 0 s = s"
| "after_sleeps during k (Suc n) s = after_sleeps during (Suc k) n (during k s)"

lemma mainLoop_ends:
  "ShutDownFlag (after_sleeps during k n s) \<Longrightarrow> \<exists>m \<le> n. mainLoop during k s = Some (after_sleeps during k m s)"
proof (induction n arbitrary: k s)
  case 0
  then show ?case by (simp add: mainLoop.simps)
next
  case (Suc n)
  show ?case
  proof (cases "ShutDownFlag s")
    case True
    then show ?thesis by (intro exI [of _ 0]) (simp add: mainLoop.simps)
  next
    case False
    from Suc.prems have "ShutDownFlag (after_sleeps during (Suc k) n (during k s))" by simp
    from Suc.IH [OF this] obtain m where "m \<le> n" "mainLoop during (Suc k) (during k s) = Some (after_sleeps during (Suc k) m (during k s))" by blast
    then show ?thesis using False by (intro exI [of _ "Suc m"]) (simp add: mainLoop.simps [of during k s])
  qed
qed

end
