(* ===== verification/Spec2Isabelle.thy ===== *)
theory Spec2Isabelle
  imports WireBounds FxJsonLimits XsdBindings FxProperties PubSubUdp FormulaNames CalcProperties SourceVariables
    MetaConfiguration ServerRun
begin

text \<open>
  A model of supernova, the C++ framework for OPC UA servers, and the theorems about it. A server
  consists of an address space of variables (directories AddressSpace, Common), calculated
  variables whose values follow a formula over other variables (CalculatedVariables), an engine that
  publishes and receives variables over UDP in the UADP encoding (PubSub), an engine that connects
  functional entities of automation components by two methods on request (Fx), the metadata of the
  configuration (Meta, Configuration) and the process that starts and stops all of them (Server).

  \<^bold>\<open>Conventions\<close>

  A function of the source is a definition of its name; an overload or a method whose name another
  component uses has a suffix. A class is a record, its fields with a prefix of two letters. An
  operation that throws has a result \<open>string + 'a\<close>, \<open>Inl\<close> with the text of the exception; one that
  also changes state is an action (Effects), whose state after a throw is the one reached. A
  \<open>std::map\<close> is an association list with distinct keys. Integers are words of their width,
  \<open>size_t\<close> has 64 bits, and so has \<open>long\<close>. Bytes of a buffer are a list, a string is a list of
  characters that are bytes; doubles and floats are words with their IEEE 754 meaning (Ieee754,
  Decimal). A loop that may not end is a \<open>partial_function (option)\<close>, with \<open>None\<close> when it does not.
  What runs concurrently is a step relation whose steps are the sections under one lock
  (Reachability has runs and the locale of inductive invariants).

  \<^bold>\<open>Theories\<close>

  \<^item> Prelude, Effects, Reachability: results, characters, loops, actions, runs.
  \<^item> WireTypes, WireBytes, WireCodec, WireEncode, WireDecode, WireDecoded, WireRoundtrip, WireBounds:
    PubSub/src/PubSubWire.cpp. Buffers, the reader and its guards, the decoder with its memory safety,
    the encoder and what it refuses, the round trip in both directions, the size of what is decoded.
    The locales \<open>wire_reader\<close> and \<open>wire_codec\<close> state what every reader and every pair of a writer and a
    reader promises; each type of the format interprets them.
  \<^item> PubSubConfiguration, FxConfiguration, XsdBindings: the configurations of the two engines, their
    checks and how they are read from the XML tree (PubSubConfiguration.cpp, FxConfiguration.cpp, the
    two XsdBinding.cpp). FxConfiguration states validity as one predicate and proves the checks exact.
  \<^item> UaVariants, ArrayTools: AddressSpace/src/ArrayTools.cpp and the conversions between wire values and
    variants of PubSubEngine.cpp, with the round trip.
  \<^item> PubSubEngine, PubSubRegistry, PubSubInvariant, PubSubSteps, PubSubDelivery: PubSub/src/PubSubEngine.cpp.
    The operations; the receivers as a registry that counts the users of every address (a locale);
    the invariant; the step relation with removal and silence of removed groups; delivery from writer
    to reader.
  \<^item> PubSubUdp: PubSub/src/PubSubUdp.cpp. The constructors of the sockets, and the chain of receives as
    a step relation in which arrivals, completion handlers and stops interleave: what reaches the engine,
    in which order, and that nothing does after a stop.
  \<^item> Ieee754, Decimal, FxJson, FxJsonParser, FxJsonRoundtrip, FxJsonLimits: Fx/src/FxJson.cpp with the
    text of numbers, the termination of the parser and the round trip.
  \<^item> FxModel, FxNames, FxCoordinates, FxRequests, FxReplies, FxEngine, FxServices, FxPlane, FxInvariant,
    FxSteps, FxProperties: Fx/src/FxEngine.cpp with both services over the Pub/Sub engine, the invariant
    that ties endpoints to the data plane, and refusal, undoing, shutdown and first data.
  \<^item> NodeManager, NodeQueries: AddressSpace/src/ASNodeManager.cpp, AddressSpace/include/ASNodeQueries.h.
  \<^item> FormulaText, FormulaNames, CalcVariables, CalcUpdates, CalcSync, CalcInvariant, CalcOperations,
    CalcProperties: the directory CalculatedVariables and ChangeNotifyingVariable.cpp. The text of
    formulas and the names in them; the graph of variables; what a write recalculates; the search for
    synchronization domains against the connected components; the invariant of the graph.
  \<^item> FreeVariables: AddressSpace/src/FreeVariablesEngine.cpp.
  \<^item> QuasarThreadPool, SourceVariables: Common/src/QuasarThreadPool.cpp and ASSourceVariable.h. Jobs,
    workers and mutexes as interleaved steps, and the requests that the pool's jobs answer.
  \<^item> MetaConfiguration: Meta/src/meta.cpp, the conversion of old configurations, the decoration of the
    tree and the check of its content order.
  \<^item> ServerRun: Server/src/BaseQuasarServer.cpp, over all engines.

  \<^bold>\<open>Parameters\<close>

  Code that is not in the repository is a parameter, with named hypotheses where a theorem relies on
  it: the toolkit and its variants (\<open>ua_sdk\<close>, \<open>ua_laws\<close>), the sockets of boost.asio (\<open>asio_ops\<close>; the
  engine sees of them what \<open>asio_udp\<close> gives, as \<open>udp_ops\<close>),
  the node table (\<open>node_ops\<close>, \<open>address_space\<close>), LogIt (\<open>logit_ops\<close>, \<open>logit_ok\<close>), regular expressions,
  what the XML tools and the templates of the framework generate, and the code of the developer of a
  server (\<open>server_ops\<close>, \<open>developer_ok\<close>). The expression library is vendored in the repository; it is a
  parameter too (\<open>mu_ops\<close>: the variables of a formula and its value).

  \<^bold>\<open>Choices and bounds\<close>

  The theorems on calculated variables take a toolkit that accepts every value written. A constructor
  that throws leaves the variable it had added in the model. \<open>try_lock\<close> does not fail spuriously, and
  to unlock a mutex that a thread does not hold, which is undefined, is recorded and frees it. The
  wire decoder needs a datagram at least 8 bytes below the limit of \<open>size_t\<close>. The fuel of the JSON
  parser is three times the length of the text and three, and C10 shows that it always suffices. Undefined behaviour of the
  metadata conversion is \<open>None\<close>. The io thread of the Pub/Sub engine is its timer and datagram
  steps; a service of the FX engine that waits for it takes the engine's moves as a parameter.

  \<^bold>\<open>Not modelled\<close>

  Signals, the texts about the process and the build, the trace hook and the terminal
  output; the vendor's XML configuration reader (serverconfigxml.cpp) and the expression library
  (muParser), which are third-party code; the templates and Python tools, which generate code;
  tests and the demo. Times of the server and of values are left out where no decision depends on
  them.
\<close>

end
